(* ===== verification/FF_Prelude.thy ===== *)
theory FF_Prelude
  imports "HOL-Library.Word"
begin

text \<open>
  Prelude of the FireFly development: the scalar types the model uses for the Go
  scalars, errors as values, the state-and-error monad every effectful operation of
  the node is written in (the state is kept when an error is returned, as in Go,
  where an error does not undo what was done before it), a small calculus of triples
  for that monad, and the generic list lemmas the components share.
\<close>

section \<open>Scalars\<close>

type_synonym byte = "8 word"
type_synonym bytes32 = "byte list"
type_synonym uuid = nat
type_synonym fftime = int

text \<open>The bytes of a Go string.\<close>

definition bytes_of :: "string \<Rightarrow> byte list" where
  "bytes_of s = map (\<lambda>c. of_nat (of_char c)) s"

text \<open>\<open>binary.BigEndian.PutUint64(b, uint64(n))\<close> for a signed 64-bit \<open>n\<close>.\<close>

definition be64 :: "int \<Rightarrow> byte list" where
  "be64 n = (let v = (word_of_int n :: 64 word) in
     map (\<lambda>k. ucast (drop_bit (8 * k) v)) [7, 6, 5, 4, 3, 2, 1, 0])"

section \<open>Errors as values\<close>

text \<open>
  \<open>I18n m\<close> is an error built from the message constant \<open>m\<close> of coremsgs or i18n,
  \<open>DBErr n\<close> is the failure of the database call number \<open>n\<close>, \<open>ExtErr s\<close> is an error
  returned by a collaborator that is a parameter of the model, \<open>GoPanic s\<close> a panic (it unwinds like an
  error, and rolls back the open group), \<open>IdempotencyErr i\<close> the refusal of an idempotency key that
  transaction \<open>i\<close> already has.
\<close>

datatype fferr = I18n string | DBErr nat | ExtErr string | GoPanic string | IdempotencyErr uuid

section \<open>The state and error monad\<close>

type_synonym ('s, 'a) act = "'s \<Rightarrow> (fferr + 'a) \<times> 's"

definition retM :: "'a \<Rightarrow> ('s, 'a) act" where
  "retM x = (\<lambda>s. (Inr x, s))"

definition throwM :: "fferr \<Rightarrow> ('s, 'a) act" where
  "throwM e = (\<lambda>s. (Inl e, s))"

definition bindM :: "('s, 'a) act \<Rightarrow> ('a \<Rightarrow> ('s, 'b) act) \<Rightarrow> ('s, 'b) act" where
  "bindM m f = (\<lambda>s. case m s of (Inl e, s') \<Rightarrow> (Inl e, s') | (Inr x, s') \<Rightarrow> f x s')"

definition getsM :: "('s \<Rightarrow> 'a) \<Rightarrow> ('s, 'a) act" where
  "getsM f = (\<lambda>s. (Inr (f s), s))"

definition modifyM :: "('s \<Rightarrow> 's) \<Rightarrow> ('s, unit) act" where
  "modifyM f = (\<lambda>s. (Inr (), f s))"

definition liftE :: "fferr + 'a \<Rightarrow> ('s, 'a) act" where
  "liftE r = (\<lambda>s. (r, s))"

text \<open>Runs \<open>m\<close> and hands its result, error or value, to the caller.\<close>

definition attemptM :: "('s, 'a) act \<Rightarrow> ('s, fferr + 'a) act" where
  "attemptM m = (\<lambda>s. case m s of (r, s') \<Rightarrow> (Inr r, s'))"

fun forM :: "'b list \<Rightarrow> ('b \<Rightarrow> ('s, unit) act) \<Rightarrow> ('s, unit) act" where
  "forM [] f = retM ()"
| "forM (x # xs) f = bindM (f x) (\<lambda>_. forM xs f)"

fun mapM :: "('b \<Rightarrow> ('s, 'a) act) \<Rightarrow> 'b list \<Rightarrow> ('s, 'a list) act" where
  "mapM f [] = retM []"
| "mapM f (x # xs) = bindM (f x) (\<lambda>y. bindM (mapM f xs) (\<lambda>ys. retM (y # ys)))"

lemmas monad_defs = retM_def throwM_def bindM_def getsM_def modifyM_def liftE_def attemptM_def

lemma bindM_retM [simp]: "bindM (retM x) f = f x"
  by (simp add: monad_defs)

lemma bindM_throwM [simp]: "bindM (throwM e) f = throwM e"
  by (simp add: monad_defs)

lemma bindM_assoc: "bindM (bindM m f) g = bindM m (\<lambda>x. bindM (f x) g)"
  by (rule ext) (auto simp: monad_defs split: sum.splits prod.splits)

section \<open>Triples\<close>

text \<open>
  \<open>valid P m Q R\<close>: from a state with \<open>P\<close>, a value \<open>x\<close> leaves \<open>Q x\<close> and an error
  leaves \<open>R\<close>.
\<close>

definition valid :: "('s \<Rightarrow> bool) \<Rightarrow> ('s, 'a) act \<Rightarrow> ('a \<Rightarrow> 's \<Rightarrow> bool) \<Rightarrow> ('s \<Rightarrow> bool) \<Rightarrow> bool" where
  "valid P m Q R \<longleftrightarrow> (\<forall>s. P s \<longrightarrow> (case m s of (Inr x, s') \<Rightarrow> Q x s' | (Inl e, s') \<Rightarrow> R s'))"

named_theorems wp "triples of the operations"

lemma validI:
  assumes "\<And>s x s'. P s \<Longrightarrow> m s = (Inr x, s') \<Longrightarrow> Q x s'"
    and "\<And>s e s'. P s \<Longrightarrow> m s = (Inl e, s') \<Longrightarrow> R s'"
  shows "valid P m Q R"
  using assms by (fastforce simp: valid_def split: prod.splits sum.splits)

lemma validD: "valid P m Q R \<Longrightarrow> P s \<Longrightarrow> m s = (Inr x, s') \<Longrightarrow> Q x s'"
  by (fastforce simp: valid_def)

lemma validE: "valid P m Q R \<Longrightarrow> P s \<Longrightarrow> m s = (Inl e, s') \<Longrightarrow> R s'"
  by (fastforce simp: valid_def)

lemma valid_weaken:
  assumes "valid P' m Q' R'" "\<And>s. P s \<Longrightarrow> P' s"
    and "\<And>x s. Q' x s \<Longrightarrow> Q x s" "\<And>s. R' s \<Longrightarrow> R s"
  shows "valid P m Q R"
  using assms by (fastforce simp: valid_def split: prod.splits sum.splits)

lemma valid_True: "valid P m Q R \<Longrightarrow> valid P m Q (\<lambda>_. True)"
  by (erule valid_weaken) simp_all

lemma valid_pre: "valid P' m Q R \<Longrightarrow> (\<And>s. P s \<Longrightarrow> P' s) \<Longrightarrow> valid P m Q R"
  by (rule valid_weaken)

lemma valid_bind:
  assumes "valid P m Q' R" "\<And>x. valid (Q' x) (f x) Q R"
  shows "valid P (bindM m f) Q R"
  using assms by (fastforce simp: valid_def bindM_def split: prod.splits sum.splits)

lemma valid_ret [wp]: "valid (Q x) (retM x) Q R"
  by (simp add: valid_def monad_defs)

lemma valid_throw [wp]: "valid R (throwM e) Q R"
  by (simp add: valid_def monad_defs)

lemma valid_gets [wp]: "valid (\<lambda>s. Q (f s) s) (getsM f) Q R"
  by (simp add: valid_def monad_defs)

lemma valid_modify [wp]: "valid (\<lambda>s. Q () (f s)) (modifyM f) Q R"
  by (simp add: valid_def monad_defs)

lemma valid_forM:
  assumes "\<And>x. x \<in> set xs \<Longrightarrow> valid I (f x) (\<lambda>_. I) R"
  shows "valid I (forM xs f) (\<lambda>_. I) R"
  using assms
proof (induction xs)
  case Nil
  show ?case by (simp add: valid_def monad_defs)
next
  case (Cons x xs)
  show ?case
    by simp (rule valid_bind [where Q' = "\<lambda>_. I"]; use Cons in simp)
qed

text \<open>Loops whose invariant follows the elements already treated.\<close>

lemma valid_forM_prefix:
  assumes "\<And>ys x zs. xs = ys @ x # zs \<Longrightarrow> valid (I ys) (f x) (\<lambda>_. I (ys @ [x])) R"
  shows "valid (I []) (forM xs f) (\<lambda>_. I xs) R"
proof -
  have "valid (I ys) (forM zs f) (\<lambda>_. I (ys @ zs)) R" if "xs = ys @ zs" for ys zs
    using that
  proof (induction zs arbitrary: ys)
    case Nil
    show ?case by (simp add: valid_def monad_defs)
  next
    case (Cons z zs)
    have "valid (I ys) (f z) (\<lambda>_. I (ys @ [z])) R"
      using assms Cons.prems by blast
    moreover have "valid (I (ys @ [z])) (forM zs f) (\<lambda>_. I (ys @ z # zs)) R"
      using Cons.IH [of "ys @ [z]"] Cons.prems by simp
    ultimately show ?case
      by (simp add: valid_bind)
  qed
  from this [of "[]" xs] show ?thesis by simp
qed

section \<open>Observations an operation keeps\<close>

text \<open>\<open>keeps f m\<close>: whether it returns a value or an error, \<open>m\<close> does not change what \<open>f\<close> reads.\<close>

definition keeps :: "('s \<Rightarrow> 'b) \<Rightarrow> ('s, 'a) act \<Rightarrow> bool" where
  "keeps f m \<longleftrightarrow> (\<forall>s. f (snd (m s)) = f s)"

named_theorems keeps_intros "operations that keep an observation"

lemma keepsI: "(\<And>s. f (snd (m s)) = f s) \<Longrightarrow> keeps f m"
  by (simp add: keeps_def)

lemma keepsD: "keeps f m \<Longrightarrow> m s = (r, s') \<Longrightarrow> f s' = f s"
  by (metis keeps_def snd_conv)

lemma keeps_ret [keeps_intros]: "keeps f (retM x)"
  by (simp add: keeps_def monad_defs)

lemma keeps_throw [keeps_intros]: "keeps f (throwM e)"
  by (simp add: keeps_def monad_defs)

lemma keeps_gets [keeps_intros]: "keeps f (getsM g)"
  by (simp add: keeps_def monad_defs)

lemma keeps_liftE [keeps_intros]: "keeps f (liftE r)"
  by (simp add: keeps_def monad_defs)

lemma keeps_bind [keeps_intros]:
  assumes "keeps f m" "\<And>x. keeps f (g x)"
  shows "keeps f (bindM m g)"
  using assms by (auto simp: keeps_def bindM_def split: prod.splits sum.splits) (metis snd_conv)+

lemma keeps_attempt [keeps_intros]: "keeps f m \<Longrightarrow> keeps f (attemptM m)"
  by (auto simp: keeps_def attemptM_def split: prod.splits) (metis snd_conv)

lemma valid_keeps:
  assumes "keeps f m" "\<And>s. R s"
  shows "valid (\<lambda>s. P (f s)) m (\<lambda>_ s. P (f s)) R"
  using assms by (intro validI) (auto dest: keepsD)

lemma keeps_modify: "(\<And>s. f (g s) = f s) \<Longrightarrow> keeps f (modifyM g)"
  by (simp add: keeps_def monad_defs)

lemma keeps_if [keeps_intros]: "(b \<Longrightarrow> keeps f m) \<Longrightarrow> (\<not> b \<Longrightarrow> keeps f m') \<Longrightarrow> keeps f (if b then m else m')"
  by simp

lemma keeps_option [keeps_intros]:
  "(x = None \<Longrightarrow> keeps f m) \<Longrightarrow> (\<And>y. x = Some y \<Longrightarrow> keeps f (g y)) \<Longrightarrow>
     keeps f (case x of None \<Rightarrow> m | Some y \<Rightarrow> g y)"
  by (simp split: option.splits)

lemma keeps_bool [keeps_intros]:
  "(x \<Longrightarrow> keeps f m) \<Longrightarrow> (\<not> x \<Longrightarrow> keeps f m') \<Longrightarrow> keeps f (case x of True \<Rightarrow> m | False \<Rightarrow> m')"
  by (cases x) auto

lemma keeps_sum [keeps_intros]:
  "(\<And>y. x = Inl y \<Longrightarrow> keeps f (m y)) \<Longrightarrow> (\<And>y. x = Inr y \<Longrightarrow> keeps f (g y)) \<Longrightarrow>
     keeps f (case x of Inl y \<Rightarrow> m y | Inr y \<Rightarrow> g y)"
  by (simp split: sum.splits)

lemma keeps_list [keeps_intros]:
  "(x = [] \<Longrightarrow> keeps f m) \<Longrightarrow> (\<And>y ys. x = y # ys \<Longrightarrow> keeps f (g y ys)) \<Longrightarrow>
     keeps f (case x of [] \<Rightarrow> m | y # ys \<Rightarrow> g y ys)"
  by (simp split: list.splits)

lemma keeps_prod [keeps_intros]:
  "(\<And>y z. x = (y, z) \<Longrightarrow> keeps f (g y z)) \<Longrightarrow> keeps f (case x of (y, z) \<Rightarrow> g y z)"
  by (simp split: prod.splits)

lemma keeps_Let [keeps_intros]: "keeps f (g x) \<Longrightarrow> keeps f (let y = x in g y)"
  by simp

lemma keeps_forM [keeps_intros]: "(\<And>x. x \<in> set xs \<Longrightarrow> keeps f (g x)) \<Longrightarrow> keeps f (forM xs g)"
  by (induction xs) (auto intro!: keeps_ret keeps_bind)

lemma bindM_eq_Inr:
  "bindM m g s = (Inr y, s'') \<longleftrightarrow> (\<exists>x s'. m s = (Inr x, s') \<and> g x s' = (Inr y, s''))"
  by (auto simp: bindM_def split: prod.splits sum.splits)

lemma bindM_eq_Inl:
  "bindM m g s = (Inl e, s'') \<longleftrightarrow>
     m s = (Inl e, s'') \<or> (\<exists>x s'. m s = (Inr x, s') \<and> g x s' = (Inl e, s''))"
  by (auto simp: bindM_def split: prod.splits sum.splits)

lemma retM_eq [simp]: "retM x s = (r, s') \<longleftrightarrow> r = Inr x \<and> s' = s"
  by (auto simp: retM_def)

lemma throwM_eq [simp]: "throwM e s = (r, s') \<longleftrightarrow> r = Inl e \<and> s' = s"
  by (auto simp: throwM_def)

lemma getsM_eq [simp]: "getsM f s = (r, s') \<longleftrightarrow> r = Inr (f s) \<and> s' = s"
  by (auto simp: getsM_def)

lemma modifyM_eq [simp]: "modifyM f s = (r, s') \<longleftrightarrow> r = Inr () \<and> s' = f s"
  by (auto simp: modifyM_def)

lemma attemptM_eq: "attemptM m s = (r, s') \<longleftrightarrow> (\<exists>q. r = Inr q \<and> m s = (q, s'))"
  by (auto simp: attemptM_def split: prod.splits)

lemma forM_append: "forM (xs @ ys) f = bindM (forM xs f) (\<lambda>_. forM ys f)"
  by (induction xs) (simp_all add: bindM_assoc)

text \<open>
  \<open>retry.Do\<close> with a function that always asks for another attempt on an error: at most
  \<open>n\<close> attempts happen before the context is cancelled. A panic is not retried.
\<close>

fun retryM :: "nat \<Rightarrow> ('s, 'a) act \<Rightarrow> ('s, 'a) act" where
  "retryM 0 m = throwM (I18n ''context cancelled'')"
| "retryM (Suc n) m = (\<lambda>s. case m s of
     (Inr x, s') \<Rightarrow> (Inr x, s')
   | (Inl (GoPanic p), s') \<Rightarrow> (Inl (GoPanic p), s')
   | (Inl _, s') \<Rightarrow> retryM n m s')"

lemma keeps_retryM [keeps_intros]: "keeps f m \<Longrightarrow> keeps f (retryM n m)"
proof (induction n)
  case (Suc n)
  show ?case
  proof (rule keepsI)
    fix s
    obtain r s1 where m: "m s = (r, s1)" by (cases "m s")
    have 1: "f s1 = f s" by (rule keepsD [OF Suc.prems m])
    have 2: "f (snd (retryM n m s1)) = f s1" using Suc by (simp add: keeps_def)
    show "f (snd (retryM (Suc n) m s)) = f s"
      using 1 2 by (auto simp: m split: sum.splits fferr.splits)
  qed
qed (simp add: keeps_throw)

lemma retryM_ok: "m s = (Inr x, s') \<Longrightarrow> retryM (Suc n) m s = (Inr x, s')"
  by simp

text \<open>\<open>preserves I m\<close>: if \<open>m\<close> returns a value, it leaves \<open>I\<close> true.\<close>

definition preserves :: "('s \<Rightarrow> bool) \<Rightarrow> ('s, 'a) act \<Rightarrow> bool" where
  "preserves I m \<longleftrightarrow> valid I m (\<lambda>_. I) (\<lambda>_. True)"

named_theorems preserves_intros "operations that preserve an invariant"

lemma preservesI: "(\<And>s x s'. I s \<Longrightarrow> m s = (Inr x, s') \<Longrightarrow> I s') \<Longrightarrow> preserves I m"
  unfolding preserves_def by (rule validI) auto

lemma preservesD: "preserves I m \<Longrightarrow> m s = (Inr x, s') \<Longrightarrow> I s \<Longrightarrow> I s'"
  unfolding preserves_def by (rule validD)

lemma preserves_keeps: "keeps f m \<Longrightarrow> preserves (\<lambda>s. J (f s)) m"
  by (rule preservesI) (auto dest: keepsD)

lemma preserves_ret [preserves_intros]: "preserves I (retM x)"
  by (rule preservesI) simp

lemma preserves_throw [preserves_intros]: "preserves I (throwM e)"
  by (rule preservesI) simp

lemma preserves_gets [preserves_intros]: "preserves I (getsM g)"
  by (rule preservesI) simp

lemma preserves_bind [preserves_intros]:
  "preserves I m \<Longrightarrow> (\<And>x. preserves I (g x)) \<Longrightarrow> preserves I (bindM m g)"
  unfolding preserves_def by (rule valid_bind)

lemma preserves_if [preserves_intros]:
  "(b \<Longrightarrow> preserves I m) \<Longrightarrow> (\<not> b \<Longrightarrow> preserves I m') \<Longrightarrow> preserves I (if b then m else m')"
  by simp

lemma preserves_option [preserves_intros]:
  "(x = None \<Longrightarrow> preserves I m) \<Longrightarrow> (\<And>y. x = Some y \<Longrightarrow> preserves I (g y)) \<Longrightarrow>
     preserves I (case x of None \<Rightarrow> m | Some y \<Rightarrow> g y)"
  by (simp split: option.splits)

lemma preserves_sum [preserves_intros]:
  "(\<And>y. x = Inl y \<Longrightarrow> preserves I (m y)) \<Longrightarrow> (\<And>y. x = Inr y \<Longrightarrow> preserves I (g y)) \<Longrightarrow>
     preserves I (case x of Inl y \<Rightarrow> m y | Inr y \<Rightarrow> g y)"
  by (simp split: sum.splits)

lemma preserves_bool [preserves_intros]:
  "(x \<Longrightarrow> preserves I m) \<Longrightarrow> (\<not> x \<Longrightarrow> preserves I m') \<Longrightarrow> preserves I (case x of True \<Rightarrow> m | False \<Rightarrow> m')"
  by (cases x) auto

lemma preserves_list [preserves_intros]:
  "(x = [] \<Longrightarrow> preserves I m) \<Longrightarrow> (\<And>y ys. x = y # ys \<Longrightarrow> preserves I (g y ys)) \<Longrightarrow>
     preserves I (case x of [] \<Rightarrow> m | y # ys \<Rightarrow> g y ys)"
  by (simp split: list.splits)

lemma preserves_prod [preserves_intros]:
  "(\<And>y z. x = (y, z) \<Longrightarrow> preserves I (g y z)) \<Longrightarrow> preserves I (case x of (y, z) \<Rightarrow> g y z)"
  by (simp split: prod.splits)

lemma preserves_Let [preserves_intros]: "preserves I (g x) \<Longrightarrow> preserves I (let y = x in g y)"
  by simp

lemma preserves_forM [preserves_intros]:
  "(\<And>x. x \<in> set xs \<Longrightarrow> preserves I (g x)) \<Longrightarrow> preserves I (forM xs g)"
  by (induction xs) (auto intro!: preserves_ret preserves_bind)

text \<open>\<open>stable I m\<close>: \<open>m\<close> leaves \<open>I\<close> true whether it returns a value or an error.\<close>

definition stable :: "('s \<Rightarrow> bool) \<Rightarrow> ('s, 'a) act \<Rightarrow> bool" where
  "stable I m \<longleftrightarrow> (\<forall>s. I s \<longrightarrow> I (snd (m s)))"

named_theorems stable_intros "operations that leave an invariant true"

lemma stableI: "(\<And>s. I s \<Longrightarrow> I (snd (m s))) \<Longrightarrow> stable I m"
  by (simp add: stable_def)

lemma stableD: "stable I m \<Longrightarrow> m s = (r, s') \<Longrightarrow> I s \<Longrightarrow> I s'"
  by (metis stable_def snd_conv)

lemma stable_keeps: "keeps f m \<Longrightarrow> stable (\<lambda>s. J (f s)) m"
  by (simp add: stable_def keeps_def)

lemma stable_ret [stable_intros]: "stable I (retM x)"
  by (simp add: stable_def monad_defs)

lemma stable_throw [stable_intros]: "stable I (throwM e)"
  by (simp add: stable_def monad_defs)

lemma stable_gets [stable_intros]: "stable I (getsM g)"
  by (simp add: stable_def monad_defs)

lemma stable_modify: "(\<And>s. I s \<Longrightarrow> I (g s)) \<Longrightarrow> stable I (modifyM g)"
  by (simp add: stable_def monad_defs)

lemma stable_bind [stable_intros]:
  assumes "stable I m" "\<And>x. stable I (g x)"
  shows "stable I (bindM m g)"
proof (rule stableI)
  fix s assume "I s"
  then show "I (snd (bindM m g s))"
    using assms by (cases "m s"; cases "fst (m s)") (auto simp: stable_def bindM_def dest: spec [of _ s])
qed

lemma stable_attempt [stable_intros]: "stable I m \<Longrightarrow> stable I (attemptM m)"
  by (simp add: stable_def attemptM_def case_prod_unfold)

lemma stable_if [stable_intros]: "(b \<Longrightarrow> stable I m) \<Longrightarrow> (\<not> b \<Longrightarrow> stable I m') \<Longrightarrow> stable I (if b then m else m')"
  by simp

lemma stable_option [stable_intros]:
  "(x = None \<Longrightarrow> stable I m) \<Longrightarrow> (\<And>y. x = Some y \<Longrightarrow> stable I (g y)) \<Longrightarrow>
     stable I (case x of None \<Rightarrow> m | Some y \<Rightarrow> g y)"
  by (simp split: option.splits)

lemma stable_sum [stable_intros]:
  "(\<And>y. x = Inl y \<Longrightarrow> stable I (m y)) \<Longrightarrow> (\<And>y. x = Inr y \<Longrightarrow> stable I (g y)) \<Longrightarrow>
     stable I (case x of Inl y \<Rightarrow> m y | Inr y \<Rightarrow> g y)"
  by (simp split: sum.splits)

lemma stable_bool [stable_intros]:
  "(x \<Longrightarrow> stable I m) \<Longrightarrow> (\<not> x \<Longrightarrow> stable I m') \<Longrightarrow> stable I (case x of True \<Rightarrow> m | False \<Rightarrow> m')"
  by (cases x) auto

lemma stable_list [stable_intros]:
  "(x = [] \<Longrightarrow> stable I m) \<Longrightarrow> (\<And>y ys. x = y # ys \<Longrightarrow> stable I (g y ys)) \<Longrightarrow>
     stable I (case x of [] \<Rightarrow> m | y # ys \<Rightarrow> g y ys)"
  by (simp split: list.splits)

lemma stable_prod [stable_intros]:
  "(\<And>y z. x = (y, z) \<Longrightarrow> stable I (g y z)) \<Longrightarrow> stable I (case x of (y, z) \<Rightarrow> g y z)"
  by (simp split: prod.splits)

lemma stable_Let [stable_intros]: "stable I (g x) \<Longrightarrow> stable I (let y = x in g y)"
  by simp

lemma stable_forM [stable_intros]: "(\<And>x. x \<in> set xs \<Longrightarrow> stable I (g x)) \<Longrightarrow> stable I (forM xs g)"
  by (induction xs) (auto intro!: stable_ret stable_bind)

lemma stable_mapM [stable_intros]: "(\<And>x. x \<in> set xs \<Longrightarrow> stable I (g x)) \<Longrightarrow> stable I (mapM g xs)"
  by (induction xs) (auto intro!: stable_ret stable_bind)

lemma stable_retryM [stable_intros]: "stable I m \<Longrightarrow> stable I (retryM n m)"
proof (induction n)
  case (Suc n)
  show ?case
  proof (rule stableI)
    fix s assume s: "I s"
    obtain r s1 where m: "m s = (r, s1)" by (cases "m s")
    have "I s1" by (rule stableD [OF Suc.prems m s])
    then show "I (snd (retryM (Suc n) m s))"
      using Suc.IH [OF Suc.prems] by (auto simp: m stable_def split: sum.splits fferr.splits)
  qed
qed (simp add: stable_throw)

lemma keeps_mapM [keeps_intros]: "(\<And>x. x \<in> set xs \<Longrightarrow> keeps f (g x)) \<Longrightarrow> keeps f (mapM g xs)"
  by (induction xs) (auto intro!: keeps_ret keeps_bind)

section \<open>Lists\<close>

text \<open>Association lists stand for the Go maps whose iteration the code depends on.\<close>

fun assoc_put :: "'k \<Rightarrow> 'v \<Rightarrow> ('k \<times> 'v) list \<Rightarrow> ('k \<times> 'v) list" where
  "assoc_put k v [] = [(k, v)]"
| "assoc_put k v ((k', v') # kvs) = (if k = k' then (k, v) # kvs else (k', v') # assoc_put k v kvs)"

lemma map_of_assoc_put [simp]: "map_of (assoc_put k v kvs) = (map_of kvs)(k \<mapsto> v)"
  by (induction kvs) auto

lemma fst_set_assoc_put [simp]: "fst ` set (assoc_put k v kvs) = insert k (fst ` set kvs)"
proof (induction kvs)
  case (Cons a kvs)
  then show ?case by (cases a) (auto simp del: split_paired_Ex)
qed simp

lemma distinct_assoc_put:
  "distinct (map fst kvs) \<Longrightarrow> distinct (map fst (assoc_put k v kvs))"
proof (induction kvs)
  case (Cons a kvs)
  then show ?case
    by (cases a) simp
qed simp

lemma fst_pairI: "fst p = a \<Longrightarrow> p = (a, snd p)"
  by (cases p) simp

lemma unit_result: "\<not> isl (fst r) \<Longrightarrow> r = (Inr (), snd r)"
  by (cases r; cases "fst r") auto

lemma sort_key_eq_Nil [simp]: "sort_key f xs = [] \<longleftrightarrow> xs = []"
  by (metis length_0_conv length_sort)

lemma find_Some_in: "find P xs = Some x \<Longrightarrow> x \<in> set xs \<and> P x"
  by (metis find_Some_iff nth_mem)

lemma find_None_notin: "find P xs = None \<Longrightarrow> x \<in> set xs \<Longrightarrow> \<not> P x"
  by (simp add: find_None_iff)

end
