(* ===== verification/Core_Types.thy ===== *)
theory Core_Types
  imports FF_Prelude
begin

text \<open>
  The structures of pkg/core: one record per Go struct (fields in the order and with
  the names of the source, prefixed), one datatype per FFEnum with a last constructor
  for a value outside the enumeration. A pointer is an option; FFEnum strings are
  normalised by the (third-party) fftypes package, so a constructor stands for a value.
  The environment record holds what the code takes from outside src: hashing, JSON
  serialisation, validation of names, clocks, identifiers, and the faults of the
  database.
\<close>

section \<open>Enumerations\<close>

datatype message_type = MT_Definition | MT_Broadcast | MT_Private | MT_GroupInit
  | MT_TransferBroadcast | MT_TransferPrivate | MT_ApprovalBroadcast | MT_ApprovalPrivate
  | MT_Other string

datatype message_state = MS_Unset | MS_Staged | MS_Ready | MS_Sent | MS_Pending | MS_Confirmed
  | MS_Rejected

datatype tx_type = TT_Unset | TT_None | TT_Unpinned | TT_BatchPin | TT_NetworkAction | TT_TokenPool
  | TT_TokenTransfer | TT_ContractDeploy | TT_ContractInvoke | TT_ContractInvokePin
  | TT_TokenApproval | TT_DataPublish | TT_Other string

datatype batch_type = BT_Broadcast | BT_Private | BT_Other string

datatype validator_type = VT_Unset | VT_JSON | VT_None | VT_SystemDefinition | VT_Other string

datatype event_type = ET_TransactionSubmitted | ET_MessageConfirmed | ET_MessageRejected
  | ET_DatatypeConfirmed | ET_IdentityConfirmed | ET_IdentityUpdated | ET_PoolConfirmed
  | ET_PoolOpFailed | ET_TransferConfirmed | ET_TransferOpFailed | ET_ApprovalConfirmed
  | ET_ApprovalOpFailed | ET_ContractInterfaceConfirmed | ET_ContractAPIConfirmed
  | ET_BlockchainEventReceived | ET_InvokeOpSucceeded | ET_InvokeOpFailed
  | ET_DeployOpSucceeded | ET_DeployOpFailed

datatype message_action = ActionReject | ActionConfirm | ActionRetry | ActionWait

datatype identity_type = IT_Org | IT_Node | IT_Custom | IT_Other string

datatype verifier_type = VR_EthAddress | VR_TezosAddress | VR_MSPIdentity | VR_FFDXPeerID

datatype op_status = OS_Initialized | OS_Pending | OS_Succeeded | OS_Failed

datatype op_type = OT_PinBatch | OT_NetworkAction | OT_ContractDeploy | OT_Invoke
  | OT_UploadBatch | OT_UploadBlob | OT_UploadValue | OT_DownloadBatch | OT_DownloadBlob
  | OT_SendBatch | OT_SendBlob | OT_CreatePool | OT_ActivatePool | OT_TokenTransfer
  | OT_TokenApproval

datatype op_phase = OpPhaseComplete | OpPhasePending | OpPhaseInitializing

section \<open>Structures\<close>

record signer_ref =
  sr_Author :: string
  sr_Key :: string

record tx_ref =
  tr_Type :: tx_type
  tr_ID :: "uuid option"

record data_ref =
  dr_ID :: "uuid option"
  dr_Hash :: "bytes32 option"
  dr_ValueSize :: int

record message_header =
  mh_ID :: "uuid option"
  mh_CID :: "uuid option"
  mh_Type :: message_type
  mh_TxType :: tx_type
  mh_Signer :: signer_ref
  mh_Created :: "fftime option"
  mh_Namespace :: string
  mh_Group :: "bytes32 option"
  mh_Topics :: "string list"
  mh_Tag :: string
  mh_DataHash :: "bytes32 option"
  mh_TxParent :: "tx_ref option"

record message =
  m_Header :: message_header
  m_LocalNamespace :: string
  m_Hash :: "bytes32 option"
  m_BatchID :: "uuid option"
  m_TransactionID :: "uuid option"
  m_State :: message_state
  m_Confirmed :: "fftime option"
  m_RejectReason :: string
  m_Data :: "data_ref list option"
  m_Pins :: "string list"
  m_IdempotencyKey :: string
  m_Sequence :: int

record blob_ref =
  br_Hash :: "bytes32 option"
  br_Size :: int
  br_Name :: string
  br_Path :: string
  br_Public :: string

record datatype_ref =
  dt_Name :: string
  dt_Version :: string

record ffdata =
  d_ID :: "uuid option"
  d_Validator :: validator_type
  d_Namespace :: string
  d_Hash :: "bytes32 option"
  d_Created :: "fftime option"
  d_Datatype :: "datatype_ref option"
  d_Value :: "string option"
  d_Public :: string
  d_Blob :: "blob_ref option"
  d_ValueSize :: int

record datatype_def =
  dty_ID :: "uuid option"
  dty_Message :: "uuid option"
  dty_Validator :: validator_type
  dty_Namespace :: string
  dty_Name :: string
  dty_Version :: string
  dty_Hash :: "bytes32 option"
  dty_Created :: "fftime option"
  dty_Value :: "string option"

text \<open>A compiled JSON schema is kept as the text it was compiled from.\<close>

record json_validator =
  jv_id :: "uuid option"
  jv_size :: int
  jv_ns :: string
  jv_datatype :: datatype_ref
  jv_schema :: string

record blob =
  bl_Sequence :: int
  bl_Namespace :: string
  bl_Hash :: "bytes32 option"
  bl_PayloadRef :: string
  bl_Created :: "fftime option"
  bl_Peer :: string
  bl_Size :: int
  bl_DataID :: "uuid option"

record batch_header =
  bh_ID :: "uuid option"
  bh_Type :: batch_type
  bh_Namespace :: string
  bh_Node :: "uuid option"
  bh_Group :: "bytes32 option"
  bh_Created :: "fftime option"
  bh_Signer :: signer_ref

record manifest_entry =
  me_ID :: "uuid option"
  me_Hash :: "bytes32 option"
  me_Topics :: int

record batch_manifest =
  bm_Version :: nat
  bm_ID :: "uuid option"
  bm_TX :: tx_ref
  bm_Signer :: signer_ref
  bm_Messages :: "manifest_entry list"
  bm_Data :: "data_ref list"

record batch_payload =
  bp_TX :: tx_ref
  bp_Messages :: "message option list"
  bp_Data :: "ffdata option list"

record batch =
  b_Header :: batch_header
  b_Hash :: "bytes32 option"
  b_Payload :: batch_payload

record batch_persisted =
  bpd_Header :: batch_header
  bpd_Hash :: "bytes32 option"
  bpd_Manifest :: string
  bpd_TX :: tx_ref
  bpd_Confirmed :: "fftime option"

record member =
  mb_Identity :: string
  mb_Node :: "uuid option"

record group_identity =
  gi_Namespace :: string
  gi_Name :: string
  gi_Members :: "member list"

record group =
  g_Identity :: group_identity
  g_LocalNamespace :: string
  g_Message :: "uuid option"
  g_Hash :: "bytes32 option"
  g_Created :: "fftime option"

record pin =
  p_Sequence :: int
  p_Namespace :: string
  p_Masked :: bool
  p_Hash :: bytes32
  p_Batch :: uuid
  p_BatchHash :: "bytes32 option"
  p_Index :: int
  p_Dispatched :: bool
  p_Signer :: string
  p_Created :: "fftime option"

record next_pin =
  np_Namespace :: string
  np_Context :: bytes32
  np_Identity :: string
  np_Hash :: bytes32
  np_Nonce :: int
  np_Sequence :: int

record nonce =
  no_Hash :: bytes32
  no_Nonce :: int

record event =
  ev_ID :: uuid
  ev_Sequence :: int
  ev_Type :: event_type
  ev_Namespace :: string
  ev_Reference :: "uuid option"
  ev_Correlator :: "uuid option"
  ev_Transaction :: "uuid option"
  ev_Topic :: string
  ev_Created :: fftime

record transaction =
  t_ID :: uuid
  t_Namespace :: string
  t_Type :: tx_type
  t_Created :: fftime
  t_IdempotencyKey :: string
  t_BlockchainIDs :: "string list"

text \<open>A JSON object (input and output of an operation) is kept as its text.\<close>

record operation =
  op_ID :: uuid
  op_Namespace :: string
  op_Transaction :: "uuid option"
  op_Type :: op_type
  op_Status :: op_status
  op_Plugin :: string
  op_Input :: string
  op_Output :: "string option"
  op_Error :: string
  op_Created :: "fftime option"
  op_Updated :: "fftime option"
  op_Retry :: "uuid option"

record identity_base =
  ib_ID :: "uuid option"
  ib_DID :: string
  ib_Type :: identity_type
  ib_Parent :: "uuid option"
  ib_Namespace :: string
  ib_Name :: string

record identity =
  id_Base :: identity_base
  id_Description :: string
  id_Profile :: string
  id_Claim :: "uuid option"
  id_Verification :: "uuid option"
  id_Update :: "uuid option"
  id_Created :: "fftime option"
  id_Updated :: "fftime option"

record verifier_ref =
  vr_Type :: verifier_type
  vr_Value :: string

record verifier =
  v_Hash :: "bytes32 option"
  v_Identity :: "uuid option"
  v_Namespace :: string
  v_Ref :: verifier_ref
  v_Created :: "fftime option"

text \<open>The message a token transfer or approval is attached to, with the hash the chain recorded.\<close>

record token_evidence =
  te_LocalID :: "uuid option"
  te_Namespace :: string
  te_Message :: "uuid option"
  te_MessageHash :: "bytes32 option"

record blockchain_tx_ref =
  btr_Type :: tx_type
  btr_ID :: "uuid option"
  btr_BlockchainID :: string

record blockchain_event =
  be_ID :: uuid
  be_Source :: string
  be_Namespace :: string
  be_Name :: string
  be_Listener :: "uuid option"
  be_ProtocolID :: string
  be_Output :: string
  be_Info :: string
  be_Timestamp :: "fftime option"
  be_TX :: blockchain_tx_ref

text \<open>A contract API, a contract interface or a token pool: the columns it is looked up by.\<close>

record resource =
  rs_ID :: "uuid option"
  rs_Namespace :: string
  rs_Name :: string

section \<open>The environment\<close>

record env =
  e_flt :: "nat \<Rightarrow> bool"
  e_atomic :: bool
  e_newid :: "nat \<Rightarrow> uuid"
  e_now :: "nat \<Rightarrow> fftime"
  e_sha256 :: "byte list \<Rightarrow> bytes32"
  e_hex :: "bytes32 \<Rightarrow> string"
  e_unhex :: "string \<Rightarrow> bytes32 option"
  e_uuid_str :: "uuid \<Rightarrow> string"
  e_parse_uuid :: "string \<Rightarrow> uuid option"
  e_errtext :: "fferr \<Rightarrow> string"
  e_json_header :: "message_header \<Rightarrow> byte list"
  e_json_refs :: "(uuid option \<times> bytes32 option) list option \<Rightarrow> byte list"
  e_json_manifest :: "batch_manifest \<Rightarrow> string"
  e_unjson_manifest :: "string \<Rightarrow> batch_manifest option"
  e_unjson_payload :: "string \<Rightarrow> batch_payload option"
  e_json_payload :: "batch_payload \<Rightarrow> byte list"
  e_json_group :: "group_identity \<Rightarrow> byte list"
  e_unjson_group :: "string \<Rightarrow> group option"
  e_value_hash :: "string \<Rightarrow> bytes32"
  e_schema_compiles :: "string \<Rightarrow> string \<Rightarrow> bool"
  e_json_decodes :: "string \<Rightarrow> bool"
  e_schema_valid :: "string \<Rightarrow> string \<Rightarrow> bool"
  e_json_getstr :: "string \<Rightarrow> string \<Rightarrow> string"
  e_validate_topics :: "string list \<Rightarrow> fferr option"
  e_validate_name :: "string \<Rightarrow> string \<Rightarrow> fferr option"
  e_validate_name_nouuid :: "string \<Rightarrow> string \<Rightarrow> fferr option"
  e_validate_length :: "string \<Rightarrow> string \<Rightarrow> nat \<Rightarrow> fferr option"
  e_sorted_add :: "string list \<Rightarrow> string \<Rightarrow> string list \<times> bool"
  e_string_array :: "string \<Rightarrow> string list"
  e_json_op :: "operation \<Rightarrow> string"
  e_regex :: "string \<Rightarrow> (string \<Rightarrow> bool) option"
  e_duration :: "string \<Rightarrow> int"

section \<open>Constructors and small methods\<close>

text \<open>\<open>NewEvent\<close>: the identifier and the time are drawn by the caller.\<close>

definition NewEvent :: "uuid \<Rightarrow> fftime \<Rightarrow> event_type \<Rightarrow> string \<Rightarrow> uuid option \<Rightarrow> uuid option
    \<Rightarrow> string \<Rightarrow> event" where
  "NewEvent newid now t ns ref tx topic =
     \<lparr> ev_ID = newid, ev_Sequence = 0, ev_Type = t, ev_Namespace = ns, ev_Reference = ref,
       ev_Correlator = None, ev_Transaction = tx, ev_Topic = topic, ev_Created = now \<rparr>"

definition IsPinned :: "tx_type \<Rightarrow> bool" where
  "IsPinned t \<longleftrightarrow> t = TT_BatchPin \<or> t = TT_ContractInvokePin"

definition transactionBaseSizeEstimate :: int where
  "transactionBaseSizeEstimate = 256"

definition Transaction_Size :: "transaction \<Rightarrow> int" where
  "Transaction_Size tx = transactionBaseSizeEstimate"

definition Verifier_Seal :: "env \<Rightarrow> (verifier_type \<Rightarrow> string) \<Rightarrow> verifier \<Rightarrow> verifier" where
  "Verifier_Seal E vtype v =
     v \<lparr> v_Hash := Some (e_sha256 E (bytes_of (v_Namespace v) @ bytes_of (vtype (vr_Type (v_Ref v)))
                                      @ bytes_of (vr_Value (v_Ref v)))) \<rparr>"

text \<open>The strings of the transaction types, and \<open>strings.ToLower\<close> on the letters of ASCII.\<close>

definition txtype_str :: "tx_type \<Rightarrow> string" where
  "txtype_str t = (case t of
     TT_Unset \<Rightarrow> '''' | TT_None \<Rightarrow> ''none'' | TT_Unpinned \<Rightarrow> ''unpinned'' | TT_BatchPin \<Rightarrow> ''batch_pin''
   | TT_NetworkAction \<Rightarrow> ''network_action'' | TT_TokenPool \<Rightarrow> ''token_pool'' | TT_TokenTransfer \<Rightarrow> ''token_transfer''
   | TT_ContractDeploy \<Rightarrow> ''contract_deploy'' | TT_ContractInvoke \<Rightarrow> ''contract_invoke''
   | TT_ContractInvokePin \<Rightarrow> ''contract_invoke_pin'' | TT_TokenApproval \<Rightarrow> ''token_approval''
   | TT_DataPublish \<Rightarrow> ''data_publish'' | TT_Other s \<Rightarrow> s)"

definition msgtype_str :: "message_type \<Rightarrow> string" where
  "msgtype_str t = (case t of
     MT_Definition \<Rightarrow> ''definition'' | MT_Broadcast \<Rightarrow> ''broadcast'' | MT_Private \<Rightarrow> ''private''
   | MT_GroupInit \<Rightarrow> ''groupinit'' | MT_TransferBroadcast \<Rightarrow> ''transfer_broadcast''
   | MT_TransferPrivate \<Rightarrow> ''transfer_private'' | MT_ApprovalBroadcast \<Rightarrow> ''approval_broadcast''
   | MT_ApprovalPrivate \<Rightarrow> ''approval_private'' | MT_Other s \<Rightarrow> s)"

definition eventtype_str :: "event_type \<Rightarrow> string" where
  "eventtype_str t = (case t of
     ET_TransactionSubmitted \<Rightarrow> ''transaction_submitted'' | ET_MessageConfirmed \<Rightarrow> ''message_confirmed''
   | ET_MessageRejected \<Rightarrow> ''message_rejected'' | ET_DatatypeConfirmed \<Rightarrow> ''datatype_confirmed''
   | ET_IdentityConfirmed \<Rightarrow> ''identity_confirmed'' | ET_IdentityUpdated \<Rightarrow> ''identity_updated''
   | ET_PoolConfirmed \<Rightarrow> ''token_pool_confirmed'' | ET_PoolOpFailed \<Rightarrow> ''token_pool_op_failed''
   | ET_TransferConfirmed \<Rightarrow> ''token_transfer_confirmed'' | ET_TransferOpFailed \<Rightarrow> ''token_transfer_op_failed''
   | ET_ApprovalConfirmed \<Rightarrow> ''token_approval_confirmed'' | ET_ApprovalOpFailed \<Rightarrow> ''token_approval_op_failed''
   | ET_ContractInterfaceConfirmed \<Rightarrow> ''contract_interface_confirmed'' | ET_ContractAPIConfirmed \<Rightarrow> ''contract_api_confirmed''
   | ET_BlockchainEventReceived \<Rightarrow> ''blockchain_event_received''
   | ET_InvokeOpSucceeded \<Rightarrow> ''blockchain_invoke_op_succeeded'' | ET_InvokeOpFailed \<Rightarrow> ''blockchain_invoke_op_failed''
   | ET_DeployOpSucceeded \<Rightarrow> ''blockchain_contract_deploy_op_succeeded'' | ET_DeployOpFailed \<Rightarrow> ''blockchain_contract_deploy_op_failed'')"

definition lower_char :: "char \<Rightarrow> char" where
  "lower_char c = (let n = of_char c :: nat in if 65 \<le> n \<and> n \<le> 90 then char_of (n + 32) else c)"

definition to_lower :: "string \<Rightarrow> string" where
  "to_lower s = map lower_char s"

section \<open>A concrete environment\<close>

text \<open>
  The environment the witnesses evaluate in: the hash is the identity, the JSON of a
  header is its tag, strings of identifiers are unary numbers, nothing is refused by
  the validators and no database call fails.
\<close>

fun str_le :: "string \<Rightarrow> string \<Rightarrow> bool" where
  "str_le [] t = True"
| "str_le (c # cs) [] = False"
| "str_le (c # cs) (d # ds) = ((of_char c :: nat) < of_char d \<or> c = d \<and> str_le cs ds)"

fun insert_str :: "string \<Rightarrow> string list \<Rightarrow> string list" where
  "insert_str s [] = [s]"
| "insert_str s (x # xs) = (if str_le s x then s # x # xs else x # insert_str s xs)"

definition env0 :: env where
  "env0 = \<lparr> e_flt = (\<lambda>_. False), e_atomic = True, e_newid = (\<lambda>n. 1000 + n), e_now = int,
     e_sha256 = (\<lambda>b. b), e_hex = (\<lambda>h. CHR ''#'' # map (\<lambda>b. char_of (unat b)) h),
     e_unhex = (\<lambda>s. case s of [] \<Rightarrow> None | c # cs \<Rightarrow>
        if c = CHR ''#'' then Some (bytes_of cs) else None),
     e_uuid_str = (\<lambda>n. replicate n (CHR ''u'')), e_parse_uuid = (\<lambda>s. None),
     e_errtext = (\<lambda>e. ''error''),
     e_json_header = (\<lambda>h. bytes_of (mh_Tag h)),
     e_json_refs = (\<lambda>r. case r of None \<Rightarrow> [] | Some rs \<Rightarrow>
        concat (map (\<lambda>d. case snd d of None \<Rightarrow> [] | Some h \<Rightarrow> h) rs)),
     e_json_manifest = (\<lambda>_. ''{}''), e_unjson_manifest = (\<lambda>_. None),
     e_unjson_payload = (\<lambda>_. None), e_json_payload = (\<lambda>_. []),
     e_json_group = (\<lambda>g. concat (map (\<lambda>m. bytes_of (mb_Identity m)) (gi_Members g))),
     e_unjson_group = (\<lambda>_. None), e_value_hash = bytes_of,
     e_schema_compiles = (\<lambda>_ _. True), e_json_decodes = (\<lambda>_. True),
     e_schema_valid = (\<lambda>_ _. True), e_json_getstr = (\<lambda>_ _. []),
     e_validate_topics = (\<lambda>ts. None), e_validate_name = (\<lambda>_ _. None),
     e_validate_name_nouuid = (\<lambda>_ _. None), e_validate_length = (\<lambda>_ _ _. None),
     e_sorted_add = (\<lambda>xs s. let t = to_lower s in if t \<in> set xs then (xs, False) else (insert_str t xs, True)),
     e_string_array = (\<lambda>s. [s]), e_json_op = (\<lambda>op. op_Plugin op @ op_Input op),
     e_regex = (\<lambda>p. Some (\<lambda>s. s = p)), e_duration = (\<lambda>s. int (length s)) \<rparr>"

lemma env0_simps [simp]:
  "e_flt env0 = (\<lambda>_. False)" "e_atomic env0 = True" "e_newid env0 n = 1000 + n"
  "e_now env0 n = int n" "e_sha256 env0 b = b"
  "e_hex env0 h = CHR ''#'' # map (\<lambda>b. char_of (unat b)) h"
  "e_uuid_str env0 n = replicate n (CHR ''u'')" "e_errtext env0 e = ''error''"
  "e_json_header env0 mh = bytes_of (mh_Tag mh)"
  "e_validate_topics env0 ts = None" "e_validate_name env0 s t = None"
  "e_validate_name_nouuid env0 s t = None" "e_validate_length env0 s t k = None"
  "e_value_hash env0 s = bytes_of s" "e_schema_compiles env0 s t = True"
  "e_json_decodes env0 s = True" "e_schema_valid env0 s t = True"
  "e_string_array env0 s = [s]" "e_json_op env0 op = op_Plugin op @ op_Input op"
  by (simp_all add: env0_def)

definition header0 :: message_header where
  "header0 = \<lparr> mh_ID = None, mh_CID = None, mh_Type = MT_Broadcast, mh_TxType = TT_BatchPin,
     mh_Signer = \<lparr> sr_Author = ''did:firefly:org/a'', sr_Key = ''0xa'' \<rparr>, mh_Created = None,
     mh_Namespace = ''ns1'', mh_Group = None, mh_Topics = [''t''], mh_Tag = '''',
     mh_DataHash = None, mh_TxParent = None \<rparr>"

definition message0 :: message where
  "message0 = \<lparr> m_Header = header0, m_LocalNamespace = ''ns1'', m_Hash = None, m_BatchID = None,
     m_TransactionID = None, m_State = MS_Unset, m_Confirmed = None, m_RejectReason = '''',
     m_Data = None, m_Pins = [], m_IdempotencyKey = '''', m_Sequence = 0 \<rparr>"

definition data0 :: ffdata where
  "data0 = \<lparr> d_ID = None, d_Validator = VT_Unset, d_Namespace = ''ns1'', d_Hash = None,
     d_Created = None, d_Datatype = None, d_Value = Some ''v'', d_Public = '''', d_Blob = None,
     d_ValueSize = 0 \<rparr>"

end
