(* ===== verification/Messages.thy ===== *)
theory Messages
  imports Core_Types "HOL-Library.List_Lexorder" "HOL-Library.Char_ord" "HOL-Library.Multiset"
begin

text \<open>
  The methods of pkg/core/message.go, data.go, batch.go and group.go: the chain of
  hashes that protects a message (data hash, header hash), a data item, a batch
  manifest and a group, with sealing, verification and size estimates. A method that
  mutates its receiver returns it; identifiers and times drawn by the method are
  arguments.
\<close>

section \<open>Zero values\<close>

definition no_signer :: signer_ref where
  "no_signer = \<lparr> sr_Author = '''', sr_Key = '''' \<rparr>"

section \<open>Data references\<close>

definition refs_json_view :: "data_ref list option \<Rightarrow> (uuid option \<times> bytes32 option) list option" where
  "refs_json_view = map_option (map (\<lambda>d. (dr_ID d, dr_Hash d)))"

definition DataRefs_Hash :: "env \<Rightarrow> data_ref list option \<Rightarrow> bytes32" where
  "DataRefs_Hash E d = e_sha256 E (e_json_refs E (refs_json_view d))"

definition DataArray_Refs :: "ffdata list \<Rightarrow> data_ref list" where
  "DataArray_Refs da =
     map (\<lambda>d. \<lparr> dr_ID = d_ID d, dr_Hash = d_Hash d, dr_ValueSize = d_ValueSize d \<rparr>) da"

section \<open>Messages\<close>

definition BatchMessage :: "message \<Rightarrow> message" where
  "BatchMessage m = \<lparr> m_Header = m_Header m, m_LocalNamespace = '''', m_Hash = m_Hash m,
     m_BatchID = None, m_TransactionID = m_TransactionID m, m_State = MS_Unset,
     m_Confirmed = None, m_RejectReason = '''', m_Data = m_Data m, m_Pins = m_Pins m,
     m_IdempotencyKey = '''', m_Sequence = 0 \<rparr>"

definition MessageHeader_Hash :: "env \<Rightarrow> message_header \<Rightarrow> bytes32" where
  "MessageHeader_Hash E h = e_sha256 E (e_json_header E h)"

definition messageSizeEstimateBase :: int where
  "messageSizeEstimateBase = 1024"

definition msg_refs :: "message \<Rightarrow> data_ref list" where
  "msg_refs m = (case m_Data m of None \<Rightarrow> [] | Some rs \<Rightarrow> rs)"

definition Message_EstimateSize :: "bool \<Rightarrow> message \<Rightarrow> int" where
  "Message_EstimateSize includeDataRefs m =
     (if includeDataRefs
      then fold (\<lambda>dr size. size + dr_ValueSize dr) (msg_refs m) messageSizeEstimateBase
      else messageSizeEstimateBase)"

text \<open>The keys of the map \<open>dupCheck\<close> are the strings of both identifiers and hashes.\<close>

fun DupDataCheck_loop :: "env \<Rightarrow> string list \<Rightarrow> data_ref list \<Rightarrow> fferr option" where
  "DupDataCheck_loop E dup [] = None"
| "DupDataCheck_loop E dup (d # ds) =
     (case (dr_ID d, dr_Hash d) of
        (Some i, Some h) \<Rightarrow>
          if e_uuid_str E i \<in> set dup then Some (I18n ''MsgDupDataReferenceSealFail'')
          else DupDataCheck_loop E (e_hex E h # e_uuid_str E i # dup) ds
      | _ \<Rightarrow> Some (I18n ''MsgNilDataReferenceSealFail''))"

definition DupDataCheck :: "env \<Rightarrow> message \<Rightarrow> fferr option" where
  "DupDataCheck E m = DupDataCheck_loop E [] (msg_refs m)"

definition VerifyFields :: "env \<Rightarrow> message \<Rightarrow> fferr option" where
  "VerifyFields E m =
     (if mh_TxType (m_Header m) \<notin> {TT_BatchPin, TT_Unpinned, TT_ContractInvokePin}
      then Some (I18n ''MsgInvalidTXTypeForMessage'')
      else case e_validate_topics E (mh_Topics (m_Header m)) of
        Some err \<Rightarrow> Some err
      | None \<Rightarrow>
          (case (if mh_Tag (m_Header m) \<noteq> ''''
                 then e_validate_name E (mh_Tag (m_Header m)) ''header.tag'' else None) of
             Some err \<Rightarrow> Some err
           | None \<Rightarrow> DupDataCheck E m))"

definition DefaultTopic :: string where
  "DefaultTopic = ''default''"

text \<open>The fields \<open>Seal\<close> fills in before it verifies the message.\<close>

definition Seal_prepare :: "uuid \<Rightarrow> fftime \<Rightarrow> message \<Rightarrow> message" where
  "Seal_prepare newid now m =
     (let h = m_Header m;
          h = (if mh_Topics h = [] then h \<lparr> mh_Topics := [DefaultTopic] \<rparr> else h);
          h = (if mh_ID h = None then h \<lparr> mh_ID := Some newid \<rparr> else h);
          h = (if mh_Created h = None then h \<lparr> mh_Created := Some now \<rparr> else h);
          h = (if mh_TxType h = TT_Unset then h \<lparr> mh_TxType := TT_BatchPin \<rparr> else h)
      in m \<lparr> m_Header := h, m_Confirmed := None,
             m_Data := (case m_Data m of None \<Rightarrow> Some [] | Some rs \<Rightarrow> Some rs) \<rparr>)"

definition Message_Seal :: "env \<Rightarrow> uuid \<Rightarrow> fftime \<Rightarrow> message \<Rightarrow> fferr option \<times> message" where
  "Message_Seal E newid now m =
     (let m = Seal_prepare newid now m in
      case VerifyFields E m of
        Some err \<Rightarrow> (Some err, m)
      | None \<Rightarrow>
          (let h = (m_Header m) \<lparr> mh_DataHash := Some (DataRefs_Hash E (m_Data m)) \<rparr>
           in (None, m \<lparr> m_Header := h, m_Hash := Some (MessageHeader_Hash E h) \<rparr>)))"

definition Message_Verify :: "env \<Rightarrow> message \<Rightarrow> fferr option" where
  "Message_Verify E m =
     (case VerifyFields E m of
        Some err \<Rightarrow> Some err
      | None \<Rightarrow>
          (case (m_Hash m, mh_DataHash (m_Header m)) of
             (Some hash, Some dhash) \<Rightarrow>
               if hash \<noteq> MessageHeader_Hash E (m_Header m) \<or> dhash \<noteq> DataRefs_Hash E (m_Data m)
               then Some (I18n ''MsgVerifyFailedInvalidHashes'') else None
           | _ \<Rightarrow> Some (I18n ''MsgVerifyFailedNilHashes'')))"

section \<open>Data\<close>

definition NullString :: string where
  "NullString = ''null''"

definition BatchBlobRef :: "batch_type \<Rightarrow> blob_ref option \<Rightarrow> blob_ref option" where
  "BatchBlobRef bt br =
     (case br of
        None \<Rightarrow> None
      | Some r \<Rightarrow>
          (case bt of
             BT_Private \<Rightarrow> Some \<lparr> br_Hash = br_Hash r, br_Size = br_Size r, br_Name = br_Name r,
                                   br_Path = '''', br_Public = '''' \<rparr>
           | _ \<Rightarrow> Some r))"

definition BatchData :: "batch_type \<Rightarrow> ffdata \<Rightarrow> ffdata" where
  "BatchData bt d = \<lparr> d_ID = d_ID d, d_Validator = d_Validator d, d_Namespace = '''',
     d_Hash = d_Hash d, d_Created = d_Created d, d_Datatype = d_Datatype d,
     d_Value = d_Value d, d_Public = '''', d_Blob = BatchBlobRef bt (d_Blob d),
     d_ValueSize = d_ValueSize d \<rparr>"

definition DatatypeRef_String :: "datatype_ref option \<Rightarrow> string" where
  "DatatypeRef_String dr =
     (case dr of None \<Rightarrow> NullString | Some d \<Rightarrow> dt_Name d @ ''/'' @ dt_Version d)"

definition CheckValidatorType :: "validator_type \<Rightarrow> fferr option" where
  "CheckValidatorType v =
     (case v of
        VT_JSON \<Rightarrow> None | VT_None \<Rightarrow> None | VT_SystemDefinition \<Rightarrow> None
      | _ \<Rightarrow> Some (I18n ''MsgUnknownValidatorType''))"

definition value_length :: "string option \<Rightarrow> int" where
  "value_length v = (case v of None \<Rightarrow> 0 | Some s \<Rightarrow> int (length s))"

definition dataSizeEstimateBase :: int where
  "dataSizeEstimateBase = 256"

definition Data_EstimateSize :: "ffdata \<Rightarrow> int \<times> ffdata" where
  "Data_EstimateSize d =
     (let d = (if d_ValueSize d \<le> 0 then d \<lparr> d_ValueSize := value_length (d_Value d) \<rparr> else d)
      in (dataSizeEstimateBase + d_ValueSize d, d))"

definition blob_hash :: "ffdata \<Rightarrow> bytes32 option" where
  "blob_hash d = (case d_Blob d of None \<Rightarrow> None | Some b \<Rightarrow> br_Hash b)"

definition CalcHash :: "env \<Rightarrow> ffdata \<Rightarrow> (fferr + bytes32) \<times> ffdata" where
  "CalcHash E d =
     (let v = (case d_Value d of None \<Rightarrow> NullString | Some v \<Rightarrow> v);
          d = d \<lparr> d_Value := Some v \<rparr>;
          valueIsNull = (v = NullString)
      in (case blob_hash d of
            None \<Rightarrow> if valueIsNull then Inl (I18n ''MsgDataValueIsNull'') else Inr (e_value_hash E v)
          | Some bh \<Rightarrow>
              if valueIsNull then Inr bh
              else Inr (e_sha256 E (bytes_of (e_hex E (e_value_hash E v)) @ bytes_of (e_hex E bh))),
          d))"

text \<open>The blob name \<open>Seal\<close> takes from the metadata in the value.\<close>

definition Seal_blob_name :: "env \<Rightarrow> string \<Rightarrow> blob_ref \<Rightarrow> blob_ref" where
  "Seal_blob_name E v b =
     (let jName = e_json_getstr E v ''name'' in
      if jName \<noteq> '''' then b \<lparr> br_Name := jName \<rparr>
      else let jPath = e_json_getstr E v ''path''; jFilename = e_json_getstr E v ''filename'' in
        if jPath \<noteq> '''' \<and> jFilename \<noteq> '''' then b \<lparr> br_Name := jPath @ ''/'' @ jFilename \<rparr>
        else if jFilename \<noteq> '''' then b \<lparr> br_Name := jFilename \<rparr> else b)"

definition Seal_blob :: "env \<Rightarrow> blob option \<Rightarrow> ffdata \<Rightarrow> fferr + ffdata" where
  "Seal_blob E blb d =
     (case blb of
        Some bl \<Rightarrow>
          (case d_Blob d of
             None \<Rightarrow> Inl (I18n ''MsgBlobMismatchSealingData'')
           | Some b \<Rightarrow>
               if br_Hash b \<noteq> bl_Hash bl then Inl (I18n ''MsgBlobMismatchSealingData'')
               else let b = b \<lparr> br_Size := bl_Size bl \<rparr>;
                        b = (case d_Value d of None \<Rightarrow> b | Some v \<Rightarrow> Seal_blob_name E v b)
                    in Inr (d \<lparr> d_Blob := Some b \<rparr>))
      | None \<Rightarrow>
          if blob_hash d \<noteq> None then Inl (I18n ''MsgBlobMismatchSealingData'') else Inr d)"

definition Data_Seal :: "env \<Rightarrow> uuid \<Rightarrow> fftime \<Rightarrow> blob option \<Rightarrow> ffdata \<Rightarrow> fferr option \<times> ffdata" where
  "Data_Seal E newid now blb d =
     (let d = (if d_Validator d = VT_Unset then d \<lparr> d_Validator := VT_JSON \<rparr> else d);
          d = (if d_ID d = None then d \<lparr> d_ID := Some newid \<rparr> else d);
          d = (if d_Created d = None then d \<lparr> d_Created := Some now \<rparr> else d)
      in case Seal_blob E blb d of
           Inl err \<Rightarrow> (Some err, d)
         | Inr d \<Rightarrow>
             (let d = (if d_ValueSize d \<le> 0 then d \<lparr> d_ValueSize := value_length (d_Value d) \<rparr> else d)
              in case CalcHash E d of
                   (Inl err, d) \<Rightarrow> (Some err, d \<lparr> d_Hash := None \<rparr>)
                 | (Inr h, d) \<Rightarrow> (CheckValidatorType (d_Validator d), d \<lparr> d_Hash := Some h \<rparr>)))"

fun split_on :: "char \<Rightarrow> string \<Rightarrow> string list" where
  "split_on c [] = [[]]"
| "split_on c (x # xs) =
     (if x = c then [] # split_on c xs
      else case split_on c xs of [] \<Rightarrow> [[x]] | seg # segs \<Rightarrow> (x # seg) # segs)"

fun join_with :: "char \<Rightarrow> string list \<Rightarrow> string" where
  "join_with c [] = []"
| "join_with c [s] = s"
| "join_with c (s # ss) = s @ c # join_with c ss"

definition trim_slash :: "string \<Rightarrow> string" where
  "trim_slash s = (case s of [] \<Rightarrow> [] | c # cs \<Rightarrow> if c = CHR ''/'' then cs else s)"

text \<open>All the segments but the last, after a slash and separated by slashes.\<close>

definition CalcPath :: "ffdata option \<Rightarrow> ffdata option" where
  "CalcPath d =
     (case d of
        None \<Rightarrow> None
      | Some d \<Rightarrow>
          (case d_Blob d of
             None \<Rightarrow> Some d
           | Some b \<Rightarrow>
               if br_Name b = '''' then Some d
               else let segments = split_on (CHR ''/'') (trim_slash (br_Name b))
                    in Some (d \<lparr> d_Blob := Some (b \<lparr> br_Path :=
                         CHR ''/'' # join_with (CHR ''/'') (butlast segments) \<rparr>) \<rparr>)))"

section \<open>Datatypes\<close>

definition Datatype_Validate :: "env \<Rightarrow> bool \<Rightarrow> datatype_def \<Rightarrow> fferr option" where
  "Datatype_Validate E existing dt =
     (if dty_Validator dt \<noteq> VT_JSON then Some (I18n ''MsgUnknownFieldValue'')
      else case e_validate_name_nouuid E (dty_Name dt) ''name'' of
        Some err \<Rightarrow> Some err
      | None \<Rightarrow>
     (case e_validate_name E (dty_Version dt) ''version'' of
        Some err \<Rightarrow> Some err
      | None \<Rightarrow>
     (case dty_Value dt of
        None \<Rightarrow> Some (I18n ''MsgMissingRequiredField'')
      | Some v \<Rightarrow>
          if v = '''' then Some (I18n ''MsgMissingRequiredField'')
          else if existing \<and> dty_ID dt = None then Some (I18n ''MsgNilID'')
          else if existing \<and> dty_Hash dt \<noteq> Some (e_value_hash E v)
          then Some (I18n ''MsgDataInvalidHash'') else None)))"

section \<open>Batches\<close>

definition ManifestVersionUnset :: nat where
  "ManifestVersionUnset = 0"

definition ManifestVersion1 :: nat where
  "ManifestVersion1 = 1"

definition manifest_entries :: "message option list \<Rightarrow> manifest_entry list" where
  "manifest_entries ms = concat (map (\<lambda>mo. case mo of
       Some m \<Rightarrow> if mh_ID (m_Header m) \<noteq> None
                 then [\<lparr> me_ID = mh_ID (m_Header m), me_Hash = m_Hash m,
                         me_Topics = int (length (mh_Topics (m_Header m))) \<rparr>] else []
     | None \<Rightarrow> []) ms)"

definition manifest_data :: "ffdata option list \<Rightarrow> data_ref list" where
  "manifest_data ds = concat (map (\<lambda>d_o. case d_o of
       Some d \<Rightarrow> if d_ID d \<noteq> None
                 then [\<lparr> dr_ID = d_ID d, dr_Hash = d_Hash d, dr_ValueSize = 0 \<rparr>] else []
     | None \<Rightarrow> []) ds)"

definition Manifest :: "uuid option \<Rightarrow> batch_payload \<Rightarrow> batch_manifest" where
  "Manifest bid ma = \<lparr> bm_Version = ManifestVersion1, bm_ID = bid, bm_TX = bp_TX ma,
     bm_Signer = no_signer, bm_Messages = manifest_entries (bp_Messages ma),
     bm_Data = manifest_data (bp_Data ma) \<rparr>"

definition BatchManifest_String :: "env \<Rightarrow> batch_manifest \<Rightarrow> string" where
  "BatchManifest_String E bm = e_json_manifest E bm"

definition BatchPayload_Hash :: "env \<Rightarrow> batch_payload \<Rightarrow> bytes32" where
  "BatchPayload_Hash E ma = e_sha256 E (e_json_payload E ma)"

definition GenManifest :: "batch_persisted \<Rightarrow> message option list \<Rightarrow> ffdata option list
    \<Rightarrow> batch_manifest" where
  "GenManifest b messages data =
     Manifest (bh_ID (bpd_Header b))
       \<lparr> bp_TX = bpd_TX b, bp_Messages = messages, bp_Data = data \<rparr>"

definition GenInflight :: "batch_persisted \<Rightarrow> message option list \<Rightarrow> ffdata option list \<Rightarrow> batch" where
  "GenInflight b messages data =
     \<lparr> b_Header = bpd_Header b, b_Hash = bpd_Hash b,
       b_Payload = \<lparr> bp_TX = bpd_TX b, bp_Messages = messages, bp_Data = data \<rparr> \<rparr>"

definition Batch_Confirmed :: "env \<Rightarrow> fftime \<Rightarrow> batch \<Rightarrow> batch_persisted \<times> batch_manifest" where
  "Batch_Confirmed E now b =
     (let manifest = Manifest (bh_ID (b_Header b)) (b_Payload b);
          manifestString = BatchManifest_String E manifest
      in (\<lparr> bpd_Header = b_Header b, bpd_Hash = b_Hash b, bpd_Manifest = manifestString,
            bpd_TX = bp_TX (b_Payload b), bpd_Confirmed = Some now \<rparr>, manifest))"

section \<open>Groups\<close>

definition Member_Equals :: "member option \<Rightarrow> member option \<Rightarrow> bool" where
  "Member_Equals m m2 =
     (case (m, m2) of
        (None, None) \<Rightarrow> True
      | (Some a, Some b) \<Rightarrow> mb_Identity a = mb_Identity b \<and> mb_Node a = mb_Node b
      | _ \<Rightarrow> False)"

definition GroupIdentity_Hash :: "env \<Rightarrow> group_identity \<Rightarrow> bytes32" where
  "GroupIdentity_Hash E gi = e_sha256 E (e_json_group E gi)"

fun Group_members_check :: "env \<Rightarrow> string list \<Rightarrow> member list \<Rightarrow> fferr option" where
  "Group_members_check E dup [] = None"
| "Group_members_check E dup (r # rs) =
     (if mb_Identity r = '''' then Some (I18n ''MsgEmptyMemberIdentity'')
      else case e_validate_length E (mb_Identity r) ''identity'' 1024 of
        Some err \<Rightarrow> Some err
      | None \<Rightarrow>
          (case mb_Node r of
             None \<Rightarrow> Some (I18n ''MsgEmptyMemberNode'')
           | Some n \<Rightarrow>
               (let key = e_uuid_str E n @ '':'' @ mb_Identity r in
                if key \<in> set dup then Some (I18n ''MsgDuplicateMember'')
                else Group_members_check E (key # dup) rs)))"

definition Group_Validate :: "env \<Rightarrow> bool \<Rightarrow> group \<Rightarrow> fferr option" where
  "Group_Validate E existing g =
     (case e_validate_name E (gi_Namespace (g_Identity g)) ''namespace'' of
        Some err \<Rightarrow> Some err
      | None \<Rightarrow>
     (case (if gi_Name (g_Identity g) \<noteq> ''''
            then e_validate_name_nouuid E (gi_Name (g_Identity g)) ''name'' else None) of
        Some err \<Rightarrow> Some err
      | None \<Rightarrow>
     (if gi_Members (g_Identity g) = [] then Some (I18n ''MsgGroupMustHaveMembers'')
      else case Group_members_check E [] (gi_Members (g_Identity g)) of
        Some err \<Rightarrow> Some err
      | None \<Rightarrow>
          if existing \<and> g_Hash g \<noteq> Some (GroupIdentity_Hash E (g_Identity g))
          then Some (I18n ''MsgGroupInvalidHash'') else None)))"

text \<open>\<open>sort.Sort\<close> with \<open>Less\<close> on the identity.\<close>

definition Group_Seal :: "env \<Rightarrow> group \<Rightarrow> group" where
  "Group_Seal E g =
     (let gi = (g_Identity g) \<lparr> gi_Members := sort_key mb_Identity (gi_Members (g_Identity g)) \<rparr>
      in g \<lparr> g_Identity := gi, g_Hash := Some (GroupIdentity_Hash E gi) \<rparr>)"

definition Group_Topic :: "env \<Rightarrow> group \<Rightarrow> string" where
  "Group_Topic E g = (case g_Hash g of None \<Rightarrow> '''' | Some h \<Rightarrow> e_hex E h)"

section \<open>Sealing and verifying a message\<close>

lemma VerifyFields_cong:
  assumes "mh_TxType (m_Header m) = mh_TxType (m_Header m')"
    "mh_Topics (m_Header m) = mh_Topics (m_Header m')"
    "mh_Tag (m_Header m) = mh_Tag (m_Header m')" "m_Data m = m_Data m'"
  shows "VerifyFields E m = VerifyFields E m'"
  unfolding VerifyFields_def DupDataCheck_def msg_refs_def assms by (rule refl)

lemma BatchMessage_simps [simp]:
  "m_Header (BatchMessage m) = m_Header m" "m_Hash (BatchMessage m) = m_Hash m"
  "m_Data (BatchMessage m) = m_Data m" "m_Pins (BatchMessage m) = m_Pins m"
  "m_TransactionID (BatchMessage m) = m_TransactionID m"
  by (simp_all add: BatchMessage_def)

lemma Message_Verify_BatchMessage [simp]: "Message_Verify E (BatchMessage m) = Message_Verify E m"
proof -
  have "VerifyFields E (BatchMessage m) = VerifyFields E m"
    by (rule VerifyFields_cong) simp_all
  then show ?thesis unfolding Message_Verify_def BatchMessage_simps by simp
qed

lemma Seal_prepare_fields:
  "mh_ID (m_Header (Seal_prepare i t m)) \<noteq> None" "mh_Created (m_Header (Seal_prepare i t m)) \<noteq> None"
  "mh_Topics (m_Header (Seal_prepare i t m)) \<noteq> []"
  by (simp_all add: Seal_prepare_def Let_def)

lemma Message_Seal_NoneD:
  assumes "Message_Seal E i t m = (None, m')"
  shows "Message_Verify E m' = None"
proof -
  let ?p = "Seal_prepare i t m"
  let ?h = "(m_Header ?p) \<lparr> mh_DataHash := Some (DataRefs_Hash E (m_Data ?p)) \<rparr>"
  from assms have f: "VerifyFields E ?p = None"
    and m': "m' = ?p \<lparr> m_Header := ?h, m_Hash := Some (MessageHeader_Hash E ?h) \<rparr>"
    by (auto simp: Message_Seal_def Let_def split: option.splits)
  have "VerifyFields E m' = VerifyFields E ?p"
    by (rule VerifyFields_cong) (simp_all add: m')
  with f show ?thesis by (simp add: Message_Verify_def m')
qed

lemma Message_VerifyD:
  assumes "Message_Verify E m = None"
  shows "m_Hash m = Some (MessageHeader_Hash E (m_Header m))"
    "mh_DataHash (m_Header m) = Some (DataRefs_Hash E (m_Data m))" "VerifyFields E m = None"
  using assms by (auto simp: Message_Verify_def split: option.splits if_splits)

section \<open>The duplicate check\<close>

lemma DupDataCheck_loop_iff:
  assumes "inj (e_uuid_str E)" "\<And>u h. e_uuid_str E u \<noteq> e_hex E h"
  shows "DupDataCheck_loop E dup ds = None \<longleftrightarrow>
    (\<forall>d \<in> set ds. dr_ID d \<noteq> None \<and> dr_Hash d \<noteq> None) \<and> distinct (map dr_ID ds) \<and>
    (\<forall>d \<in> set ds. \<forall>i. dr_ID d = Some i \<longrightarrow> e_uuid_str E i \<notin> set dup)"
proof (induction ds arbitrary: dup)
  case (Cons d ds)
  show ?case
  proof (cases "dr_ID d = None \<or> dr_Hash d = None")
    case True
    then show ?thesis by (auto split: option.splits)
  next
    case False
    then obtain i h where ih: "dr_ID d = Some i" "dr_Hash d = Some h" by auto
    have "Some i \<notin> dr_ID ` set ds \<longleftrightarrow> (\<forall>d \<in> set ds. \<forall>j. dr_ID d = Some j \<longrightarrow> j \<noteq> i)"
      by force
    then show ?thesis
      using assms(2) by (auto simp: ih Cons.IH inj_eq [OF assms(1)])
  qed
qed simp

section \<open>Hashes of data\<close>

lemma CalcHash_BatchData: "fst (CalcHash E (BatchData bt d)) = fst (CalcHash E d)"
proof -
  have "blob_hash (BatchData bt d) = blob_hash d"
    by (auto simp: blob_hash_def BatchData_def BatchBlobRef_def split: option.splits batch_type.splits)
  moreover have "d_Value (BatchData bt d) = d_Value d"
    by (simp add: BatchData_def)
  ultimately show ?thesis
    by (simp add: CalcHash_def Let_def blob_hash_def)
qed

lemma CalcHash_cong:
  assumes "d_Value d = d_Value d'" "d_Blob d = d_Blob d'"
  shows "fst (CalcHash E d) = fst (CalcHash E d')"
  using assms by (simp add: CalcHash_def Let_def blob_hash_def)

lemma CalcHash_snd: "d_Blob (snd (CalcHash E d)) = d_Blob d"
  "d_Value (snd (CalcHash E d)) = Some (case d_Value d of None \<Rightarrow> NullString | Some v \<Rightarrow> v)"
  "d_Validator (snd (CalcHash E d)) = d_Validator d" "d_ID (snd (CalcHash E d)) = d_ID d"
  by (simp_all add: CalcHash_def Let_def)

lemma CalcHash_idem: "fst (CalcHash E (snd (CalcHash E d))) = fst (CalcHash E d)"
  by (simp add: CalcHash_def Let_def blob_hash_def)

definition Seal_fill :: "uuid \<Rightarrow> fftime \<Rightarrow> ffdata \<Rightarrow> ffdata" where
  "Seal_fill i t d =
     (let d = (if d_Validator d = VT_Unset then d \<lparr> d_Validator := VT_JSON \<rparr> else d);
          d = (if d_ID d = None then d \<lparr> d_ID := Some i \<rparr> else d)
      in (if d_Created d = None then d \<lparr> d_Created := Some t \<rparr> else d))"

lemma Data_Seal_hash:
  assumes "Data_Seal E i t b d = (None, d')"
  shows "\<exists>h. d_Hash d' = Some h \<and> fst (CalcHash E d') = Inr h \<and> CheckValidatorType (d_Validator d') = None
    \<and> d_ID d' \<noteq> None"
proof -
  have i0: "d_ID (Seal_fill i t d) \<noteq> None"
    by (simp add: Seal_fill_def Let_def)
  obtain d1 where d1: "Seal_blob E b (Seal_fill i t d) = Inr d1"
    using assms by (cases "Seal_blob E b (Seal_fill i t d)") (auto simp: Data_Seal_def Seal_fill_def Let_def)
  have id1: "d_ID d1 = d_ID (Seal_fill i t d)"
    using d1 by (auto simp: Seal_blob_def Let_def split: option.splits if_splits)
  define d2 where "d2 = (if d_ValueSize d1 \<le> 0
    then d1 \<lparr> d_ValueSize := value_length (d_Value d1) \<rparr> else d1)"
  have "(case CalcHash E d2 of
           (Inl err, d) \<Rightarrow> (Some err, d \<lparr> d_Hash := None \<rparr>)
         | (Inr h, d) \<Rightarrow> (CheckValidatorType (d_Validator d), d \<lparr> d_Hash := Some h \<rparr>)) = (None, d')"
    using assms d1 unfolding Data_Seal_def Seal_fill_def Let_def d2_def by simp
  then obtain h d3 where c: "CalcHash E d2 = (Inr h, d3)" and d': "d' = d3 \<lparr> d_Hash := Some h \<rparr>"
    and v: "CheckValidatorType (d_Validator d3) = None"
    by (auto split: prod.splits sum.splits)
  have "fst (CalcHash E d') = fst (CalcHash E d3)"
    by (rule CalcHash_cong) (simp_all add: d')
  moreover have "fst (CalcHash E d3) = Inr h"
    using CalcHash_idem [of E d2] c by simp
  moreover have "d_ID d3 = d_ID d2"
    using CalcHash_snd(4) [of E d2] c by simp
  ultimately show ?thesis using i0 id1 v d' by (simp add: d2_def)
qed

section \<open>Paths\<close>

lemma split_on_nonempty [simp]: "split_on c s \<noteq> []"
  by (induction s) (auto split: list.splits)

lemma join_with_split_on: "join_with c (split_on c s) = s"
proof (induction s)
  case (Cons x xs)
  then show ?case
    by (cases "split_on c xs") (auto split: list.splits; cases "tl (split_on c xs)"; auto)+
qed simp

lemma split_on_no_sep: "c \<notin> set s \<Longrightarrow> split_on c s = [s]"
  by (induction s) (auto split: list.splits)

lemma split_on_append: "split_on c (s @ c # t) = split_on c s @ split_on c t"
  by (induction s) (auto split: list.splits)

section \<open>Groups\<close>

lemma distinct_set_singleton:
  assumes "set l = {k}" "distinct l"
  shows "l = [k]"
proof -
  have "length l = 1" using distinct_card [OF assms(2)] assms(1) by simp
  then show ?thesis using assms(1) by (cases l) auto
qed

lemma sort_key_perm_eq:
  assumes "mset xs = mset ys" "distinct (map f xs)"
  shows "sort_key f xs = sort_key f ys"
proof (rule properties_for_sort_key)
  show "mset (sort_key f ys) = mset xs" by (simp add: assms(1))
  show "sorted (map f (sort_key f ys))" by simp
  have inj: "inj_on f (set xs)" and d: "distinct xs"
    using assms(2) by (auto simp: distinct_map)
  have d': "distinct ys"
    using assms(1) d by (metis mset_eq_imp_distinct_iff)
  have s: "set ys = set xs" using assms(1) by (metis set_mset_mset)
  fix k
  assume "k \<in> set (sort_key f ys)"
  then have k: "k \<in> set xs" using s by simp
  have one: "filter (\<lambda>x. f k = f x) zs = [k]" if "distinct zs" "set zs = set xs" for zs
  proof -
    have "set (filter (\<lambda>x. f k = f x) zs) = {k}"
      using that k inj by (auto simp: inj_on_def)
    moreover have "distinct (filter (\<lambda>x. f k = f x) zs)" using that by simp
    ultimately show ?thesis by (rule distinct_set_singleton)
  qed
  show "filter (\<lambda>x. f k = f x) (sort_key f ys) = filter (\<lambda>x. f k = f x) xs"
    using one [of "sort_key f ys"] one [of xs] d d' s by simp
qed

lemma Group_members_check_distinct:
  "Group_members_check E dup rs = None \<Longrightarrow>
     distinct (map (\<lambda>r. (mb_Node r, mb_Identity r)) rs) \<and>
     (\<forall>r \<in> set rs. mb_Identity r \<noteq> '''' \<and>
        (\<exists>n. mb_Node r = Some n \<and> e_uuid_str E n @ '':'' @ mb_Identity r \<notin> set dup))"
proof (induction rs arbitrary: dup)
  case (Cons r rs)
  then obtain n where n: "mb_Node r = Some n" "mb_Identity r \<noteq> ''''"
    "e_uuid_str E n @ '':'' @ mb_Identity r \<notin> set dup"
    and rest: "Group_members_check E ((e_uuid_str E n @ '':'' @ mb_Identity r) # dup) rs = None"
    by (auto simp: Let_def split: option.splits if_splits)
  from Cons.IH [OF rest] n show ?case by force
qed simp

section \<open>Properties\<close>

text \<open>C10: A message that \<open>Seal\<close> accepts is accepted by \<open>Verify\<close>, both on the sealed
  message itself and on the part of it that travels in a batch (\<open>BatchMessage\<close>); sealing
  gives it an identifier, a creation time, at least one topic and both hashes.\<close>

theorem sealed_message_verifies:
  assumes "Message_Seal E newid now m = (None, m')"
  shows "Message_Verify E m' = None \<and> Message_Verify E (BatchMessage m') = None \<and>
    mh_ID (m_Header m') \<noteq> None \<and> mh_Created (m_Header m') \<noteq> None \<and> mh_Topics (m_Header m') \<noteq> [] \<and>
    m_Hash m' \<noteq> None \<and> mh_DataHash (m_Header m') \<noteq> None"
proof -
  have v: "Message_Verify E m' = None" by (rule Message_Seal_NoneD [OF assms])
  moreover have "mh_ID (m_Header m') \<noteq> None \<and> mh_Created (m_Header m') \<noteq> None \<and>
      mh_Topics (m_Header m') \<noteq> []"
    using assms Seal_prepare_fields [of newid now m]
    by (auto simp: Message_Seal_def Let_def split: option.splits)
  ultimately show ?thesis using Message_VerifyD [OF v] by simp
qed

lemma sealed_message_verifies_witness:
  "Message_Verify env0 (snd (Message_Seal env0 7 1 message0)) = None"
proof -
  have "Message_Seal env0 7 1 message0 = (None, snd (Message_Seal env0 7 1 message0))"
    by (rule fst_pairI) code_simp
  from sealed_message_verifies [OF this] show ?thesis by blast
qed

text \<open>C11: Tamper evidence: two messages that both pass \<open>Verify\<close> and differ in the header
  or in the identifiers and hashes of their data references carry different hashes, as long as the
  hash has no collision on the four byte strings concerned and serialisation separates the two
  headers and the two reference lists.\<close>

theorem verified_hash_binds_content:
  assumes "Message_Verify E m1 = None" "Message_Verify E m2 = None"
    and "inj_on (e_sha256 E) {e_json_header E (m_Header m1), e_json_header E (m_Header m2),
           e_json_refs E (refs_json_view (m_Data m1)), e_json_refs E (refs_json_view (m_Data m2))}"
    and "inj_on (e_json_header E) {m_Header m1, m_Header m2}"
    and "inj_on (e_json_refs E) {refs_json_view (m_Data m1), refs_json_view (m_Data m2)}"
    and "m_Header m1 \<noteq> m_Header m2 \<or> refs_json_view (m_Data m1) \<noteq> refs_json_view (m_Data m2)"
  shows "m_Hash m1 \<noteq> m_Hash m2"
proof
  assume eq: "m_Hash m1 = m_Hash m2"
  have "e_sha256 E (e_json_header E (m_Header m1)) = e_sha256 E (e_json_header E (m_Header m2))"
    using eq Message_VerifyD(1) [OF assms(1)] Message_VerifyD(1) [OF assms(2)]
    by (simp add: MessageHeader_Hash_def)
  then have "e_json_header E (m_Header m1) = e_json_header E (m_Header m2)"
    by (rule inj_onD [OF assms(3)]) simp_all
  then have h: "m_Header m1 = m_Header m2"
    by (rule inj_onD [OF assms(4)]) simp_all
  then have "DataRefs_Hash E (m_Data m1) = DataRefs_Hash E (m_Data m2)"
    using Message_VerifyD(2) [OF assms(1)] Message_VerifyD(2) [OF assms(2)] by simp
  then have "e_json_refs E (refs_json_view (m_Data m1)) = e_json_refs E (refs_json_view (m_Data m2))"
    unfolding DataRefs_Hash_def by (rule inj_onD [OF assms(3)]) simp_all
  then have "refs_json_view (m_Data m1) = refs_json_view (m_Data m2)"
    by (rule inj_onD [OF assms(5)]) simp_all
  with h assms(6) show False by simp
qed

lemma verified_hash_binds_content_witness:
  "m_Hash (snd (Message_Seal env0 7 1 (message0 \<lparr> m_Header := header0 \<lparr> mh_Tag := ''a'' \<rparr> \<rparr>))) \<noteq>
   m_Hash (snd (Message_Seal env0 7 1 (message0 \<lparr> m_Header := header0 \<lparr> mh_Tag := ''b'' \<rparr> \<rparr>)))"
  by (rule verified_hash_binds_content [where E = env0])
    (code_simp, code_simp, simp add: inj_on_def, code_simp, code_simp, code_simp)

text \<open>The duplicate check of the data references, over the strings of identifiers and hashes,
  accepts a message exactly when every reference has an identifier and a hash and the identifiers
  are distinct (two references with the same hash are accepted, although the code records the
  hashes too).\<close>

theorem DupDataCheck_spec:
  assumes "inj (e_uuid_str E)" "\<And>u h. e_uuid_str E u \<noteq> e_hex E h"
  shows "DupDataCheck E m = None \<longleftrightarrow>
    list_all (\<lambda>d. dr_ID d \<noteq> None \<and> dr_Hash d \<noteq> None) (msg_refs m) \<and>
    distinct (map dr_ID (msg_refs m))"
  using DupDataCheck_loop_iff [OF assms, of "[]"]
  by (simp add: DupDataCheck_def list_all_iff)

lemma DupDataCheck_spec_witness:
  "DupDataCheck env0 (message0 \<lparr> m_Data := Some
     [\<lparr> dr_ID = Some 1, dr_Hash = Some [9], dr_ValueSize = 0 \<rparr>,
      \<lparr> dr_ID = Some 2, dr_Hash = Some [9], dr_ValueSize = 0 \<rparr>] \<rparr>) = None"
proof -
  have 1: "inj (e_uuid_str env0)"
    by (simp add: env0_def inj_def)
  have 2: "e_uuid_str env0 u \<noteq> e_hex env0 h" for u h
    by (cases u) (auto simp: env0_def)
  show ?thesis
    by (subst DupDataCheck_spec [OF 1 2]) (simp add: msg_refs_def)
qed

text \<open>Data sealed by the sender carries the hash the receiver recomputes from the data item in
  the batch (\<open>BatchData\<close>), for broadcast and private batches alike, and its validator is one
  of the known ones.\<close>

theorem sealed_data_hash_recomputed:
  assumes "Data_Seal E newid now blb d = (None, d')"
  shows "\<exists>h. d_Hash (BatchData bt d') = Some h \<and> fst (CalcHash E (BatchData bt d')) = Inr h \<and>
    CheckValidatorType (d_Validator (BatchData bt d')) = None \<and> d_ID (BatchData bt d') \<noteq> None"
  using Data_Seal_hash [OF assms] CalcHash_BatchData [of E bt d'] by (auto simp: BatchData_def)

lemma sealed_data_hash_recomputed_witness:
  "\<exists>h. d_Hash (BatchData BT_Private (snd (Data_Seal env0 7 1 None data0))) = Some h"
proof -
  have "Data_Seal env0 7 1 None data0 = (None, snd (Data_Seal env0 7 1 None data0))"
    by (rule fst_pairI) code_simp
  from sealed_data_hash_recomputed [OF this] show ?thesis by blast
qed

lemma Group_members_check_perm:
  "Group_members_check E dup rs = None \<longleftrightarrow>
     list_all (\<lambda>r. mb_Identity r \<noteq> '''' \<and> e_validate_length E (mb_Identity r) ''identity'' 1024 = None
        \<and> mb_Node r \<noteq> None \<and> e_uuid_str E (the (mb_Node r)) @ '':'' @ mb_Identity r \<notin> set dup) rs \<and>
     distinct (map (\<lambda>r. e_uuid_str E (the (mb_Node r)) @ '':'' @ mb_Identity r) rs)"
proof (induction rs arbitrary: dup)
  case (Cons r rs)
  show ?case
    by (auto simp: Let_def Cons.IH list_all_iff image_iff split: option.splits if_splits)
qed simp

lemma Group_members_check_mset:
  assumes "mset rs = mset rs'"
  shows "Group_members_check E dup rs = None \<longleftrightarrow> Group_members_check E dup rs' = None"
proof -
  have "set rs = set rs'" using assms by (metis set_mset_mset)
  moreover have "distinct (map f rs) = distinct (map f rs')" for f :: "member \<Rightarrow> string"
    using assms by (metis mset_map mset_eq_imp_distinct_iff)
  ultimately show ?thesis
    unfolding Group_members_check_perm list_all_iff by simp
qed



text \<open>The path derived from a blob name is the directory part of the name: for a name
  \<open>dir/file\<close> (an optional leading slash dropped, no slash in \<open>file\<close>) it is \<open>/dir\<close>, for a name
  without directory it is \<open>/\<close>.\<close>

theorem CalcPath_dirname:
  assumes "d_Blob d = Some b" "br_Name b \<noteq> ''''" "CHR ''/'' \<notin> set file"
    and "trim_slash (br_Name b) = (case dir of None \<Rightarrow> file | Some p \<Rightarrow> p @ ''/'' @ file)"
  shows "CalcPath (Some d) =
    Some (d \<lparr> d_Blob := Some (b \<lparr> br_Path := ''/'' @ (case dir of None \<Rightarrow> '''' | Some p \<Rightarrow> p) \<rparr>) \<rparr>)"
proof (cases dir)
  case None
  then show ?thesis
    using assms split_on_no_sep [OF assms(3)] by (simp add: CalcPath_def Let_def)
next
  case (Some p)
  have "butlast (split_on (CHR ''/'') (p @ CHR ''/'' # file)) = split_on (CHR ''/'') p"
    by (simp add: split_on_append split_on_no_sep [OF assms(3)])
  then show ?thesis
    using assms Some by (simp add: CalcPath_def Let_def join_with_split_on)
qed

lemma CalcPath_dirname_witness:
  "CalcPath (Some (data0 \<lparr> d_Blob := Some \<lparr> br_Hash = None, br_Size = 0, br_Name = ''/path/to/file.name'',
       br_Path = '''', br_Public = '''' \<rparr> \<rparr>)) =
   Some (data0 \<lparr> d_Blob := Some \<lparr> br_Hash = None, br_Size = 0, br_Name = ''/path/to/file.name'',
       br_Path = ''/path/to'', br_Public = '''' \<rparr> \<rparr>)"
proof -
  let ?b = "\<lparr> br_Hash = None, br_Size = 0, br_Name = ''/path/to/file.name'',
       br_Path = '''', br_Public = '''' \<rparr>"
  show ?thesis
    using CalcPath_dirname [of "data0 \<lparr> d_Blob := Some ?b \<rparr>" ?b "''file.name''" "Some ''path/to''"]
    by (simp add: trim_slash_def)
qed

end
