(* ===== verification/FF_Database.thy ===== *)
theory FF_Database
  imports Messages
begin

text \<open>
  The node: the tables of the database plugin (internal/database/sqlcommon), the caches
  and the counters. A database operation is one numbered call; the environment decides
  which calls fail, a failing call changes nothing. Rows are kept in insertion order,
  sequences are taken from a counter per table. \<open>run_as_group\<close> is the group of the
  plugin interface: when the plugin has transactions (\<open>e_atomic\<close>) an error restores
  the tables, otherwise it does not; caches are never restored.
\<close>

section \<open>State\<close>

record ffdb =
  db_pins :: "pin list"
  db_pinseq :: int
  db_nextpins :: "next_pin list"
  db_npseq :: int
  db_nonces :: "nonce list"
  db_events :: "event list"
  db_evseq :: int
  db_messages :: "message list"
  db_msgseq :: int
  db_batches :: "batch_persisted list"
  db_data :: "ffdata list"
  db_blobs :: "blob list"
  db_transfers :: "token_evidence list"
  db_approvals :: "token_evidence list"
  db_groups :: "group list"
  db_members :: "(bytes32 option \<times> member) list"
  db_identities :: "identity list"
  db_verifiers :: "verifier list"
  db_datatypes :: "datatype_def list"
  db_txs :: "transaction list"
  db_ops :: "operation list"
  db_bcevents :: "blockchain_event list"
  db_apis :: "resource list"
  db_ffis :: "resource list"
  db_pools :: "resource list"

text \<open>\<open>messageCacheEntry\<close> of the data manager and \<open>batchCacheEntry\<close> of the aggregator.\<close>

record msg_cache_entry =
  mce_msg :: message
  mce_data :: "ffdata list"
  mce_size :: int

record batch_cache_entry =
  bce_batch :: batch_persisted
  bce_manifest :: batch_manifest

text \<open>
  The caches of transactions and operations hold pointers: the objects are in a heap
  (position in the list), because the code changes them through the cache.
\<close>

record node =
  nd_db :: ffdb
  nd_calls :: nat
  nd_draws :: nat
  nd_msgcache :: "(string \<times> msg_cache_entry) list"
  nd_batchcache :: "(string \<times> batch_cache_entry) list"
  nd_valcache :: "(string \<times> json_validator) list"
  nd_idcache :: "(string \<times> identity) list"
  nd_offset :: int
  nd_offsetCommitted :: "int option"
  nd_didrewinds :: "string list"
  nd_txheap :: "transaction list"
  nd_txcache :: "(string \<times> nat) list"
  nd_opheap :: "operation list"
  nd_opcache :: "(string \<times> nat) list"
  nd_bccache :: "(string \<times> blockchain_event) list"

type_synonym 'a nact = "(node, 'a) act"

section \<open>Calls and groups\<close>

definition db_op :: "env \<Rightarrow> (ffdb \<Rightarrow> fferr + ('a \<times> ffdb)) \<Rightarrow> 'a nact" where
  "db_op E f = (\<lambda>nd.
     let n = nd_calls nd; nd' = nd \<lparr> nd_calls := Suc n \<rparr>
     in if e_flt E n then (Inl (DBErr n), nd')
        else case f (nd_db nd) of
          Inl err \<Rightarrow> (Inl err, nd')
        | Inr (x, db) \<Rightarrow> (Inr x, nd' \<lparr> nd_db := db \<rparr>))"

definition db_read :: "env \<Rightarrow> (ffdb \<Rightarrow> 'a) \<Rightarrow> 'a nact" where
  "db_read E f = db_op E (\<lambda>db. Inr (f db, db))"

definition db_write :: "env \<Rightarrow> (ffdb \<Rightarrow> ffdb) \<Rightarrow> unit nact" where
  "db_write E f = db_op E (\<lambda>db. Inr ((), f db))"

definition run_as_group :: "env \<Rightarrow> 'a nact \<Rightarrow> 'a nact" where
  "run_as_group E m = (\<lambda>nd.
     let rollback = (\<lambda>nd'. if e_atomic E then nd' \<lparr> nd_db := nd_db nd \<rparr> else nd')
     in case m nd of
          (Inl err, nd') \<Rightarrow> (Inl err, rollback nd')
        | (Inr x, nd') \<Rightarrow>
            let n = nd_calls nd'; nd'' = nd' \<lparr> nd_calls := Suc n \<rparr>
            in if e_flt E n then (Inl (DBErr n), rollback nd'') else (Inr x, nd''))"

definition newUUID :: "env \<Rightarrow> uuid nact" where
  "newUUID E = (\<lambda>nd. (Inr (e_newid E (nd_draws nd)), nd \<lparr> nd_draws := Suc (nd_draws nd) \<rparr>))"

definition nowM :: "env \<Rightarrow> fftime nact" where
  "nowM E = (\<lambda>nd. (Inr (e_now E (nd_draws nd)), nd \<lparr> nd_draws := Suc (nd_draws nd) \<rparr>))"

section \<open>Pins\<close>

definition pin_key :: "pin \<Rightarrow> string \<times> bytes32 \<times> uuid \<times> int" where
  "pin_key p = (p_Namespace p, p_Hash p, p_Batch p, p_Index p)"

definition insert_pin_row :: "pin \<Rightarrow> ffdb \<Rightarrow> ffdb" where
  "insert_pin_row p db = db \<lparr> db_pins := db_pins db @ [p \<lparr> p_Sequence := db_pinseq db \<rparr>],
     db_pinseq := db_pinseq db + 1 \<rparr>"

definition UpsertPin :: "env \<Rightarrow> pin \<Rightarrow> unit nact" where
  "UpsertPin E p = db_write E (\<lambda>db.
     if pin_key p \<in> set (map pin_key (db_pins db)) then db else insert_pin_row p db)"

definition InsertPins :: "env \<Rightarrow> pin list \<Rightarrow> unit nact" where
  "InsertPins E ps = db_op E (\<lambda>db.
     if distinct (map pin_key (db_pins db @ ps)) then Inr ((), fold insert_pin_row ps db)
     else Inl (I18n ''MsgDBInsertFailed''))"

text \<open>\<open>pin_query desc lim P\<close> is the filter with its sort direction on the sequence and its limit.\<close>

definition pin_rows :: "bool \<Rightarrow> nat option \<Rightarrow> string \<Rightarrow> (pin \<Rightarrow> bool) \<Rightarrow> ffdb \<Rightarrow> pin list" where
  "pin_rows desc lim ns P db =
     (let rows = sort_key p_Sequence (filter (\<lambda>p. p_Namespace p = ns \<and> P p) (db_pins db));
          rows = (if desc then rev rows else rows)
      in case lim of None \<Rightarrow> rows | Some n \<Rightarrow> take n rows)"

definition GetPins :: "env \<Rightarrow> bool \<Rightarrow> nat option \<Rightarrow> string \<Rightarrow> (pin \<Rightarrow> bool) \<Rightarrow> pin list nact" where
  "GetPins E desc lim ns P = db_read E (pin_rows desc lim ns P)"

definition update_pin_rows :: "string \<Rightarrow> (pin \<Rightarrow> bool) \<Rightarrow> (pin \<Rightarrow> pin) \<Rightarrow> ffdb \<Rightarrow> ffdb" where
  "update_pin_rows ns P u db =
     db \<lparr> db_pins := map (\<lambda>p. if p_Namespace p = ns \<and> P p then u p else p) (db_pins db) \<rparr>"

definition UpdatePins :: "env \<Rightarrow> string \<Rightarrow> (pin \<Rightarrow> bool) \<Rightarrow> (pin \<Rightarrow> pin) \<Rightarrow> unit nact" where
  "UpdatePins E ns P u = db_write E (update_pin_rows ns P u)"

section \<open>Next pins and nonces\<close>

definition insert_nextpin_row :: "next_pin \<Rightarrow> ffdb \<Rightarrow> ffdb" where
  "insert_nextpin_row np db = db \<lparr> db_nextpins := db_nextpins db @ [np \<lparr> np_Sequence := db_npseq db \<rparr>],
     db_npseq := db_npseq db + 1 \<rparr>"

definition InsertNextPin :: "env \<Rightarrow> next_pin \<Rightarrow> unit nact" where
  "InsertNextPin E np = db_write E (insert_nextpin_row np)"

definition nextpins_for :: "string \<Rightarrow> bytes32 \<Rightarrow> ffdb \<Rightarrow> next_pin list" where
  "nextpins_for ns ctx db = filter (\<lambda>np. np_Context np = ctx \<and> np_Namespace np = ns) (db_nextpins db)"

definition GetNextPinsForContext :: "env \<Rightarrow> string \<Rightarrow> bytes32 \<Rightarrow> next_pin list nact" where
  "GetNextPinsForContext E ns ctx = db_read E (nextpins_for ns ctx)"

definition UpdateNextPin :: "env \<Rightarrow> string \<Rightarrow> int \<Rightarrow> int \<Rightarrow> bytes32 \<Rightarrow> unit nact" where
  "UpdateNextPin E ns sq nonce hash = db_write E (\<lambda>db.
     db \<lparr> db_nextpins := map (\<lambda>np. if np_Sequence np = sq
       then np \<lparr> np_Nonce := nonce, np_Hash := hash, np_Namespace := ns \<rparr> else np) (db_nextpins db) \<rparr>)"

definition update_nonce_rows :: "nonce \<Rightarrow> ffdb \<Rightarrow> ffdb" where
  "update_nonce_rows n db = db \<lparr> db_nonces :=
     map (\<lambda>r. if no_Hash r = no_Hash n then r \<lparr> no_Nonce := no_Nonce n \<rparr> else r) (db_nonces db) \<rparr>"

definition UpdateNonce :: "env \<Rightarrow> nonce \<Rightarrow> unit nact" where
  "UpdateNonce E n = db_write E (update_nonce_rows n)"

definition insert_nonce_row :: "nonce \<Rightarrow> ffdb \<Rightarrow> ffdb" where
  "insert_nonce_row n db = db \<lparr> db_nonces := db_nonces db @ [n] \<rparr>"

definition InsertNonce :: "env \<Rightarrow> nonce \<Rightarrow> unit nact" where
  "InsertNonce E n = db_write E (insert_nonce_row n)"

definition nonce_row :: "bytes32 \<Rightarrow> ffdb \<Rightarrow> nonce option" where
  "nonce_row h db = find (\<lambda>n. no_Hash n = h) (db_nonces db)"

definition GetNonce :: "env \<Rightarrow> bytes32 \<Rightarrow> nonce option nact" where
  "GetNonce E h = db_read E (nonce_row h)"

section \<open>Events\<close>

definition insert_event_row :: "event \<Rightarrow> ffdb \<Rightarrow> ffdb" where
  "insert_event_row ev db = db \<lparr> db_events := db_events db @ [ev \<lparr> ev_Sequence := db_evseq db \<rparr>],
     db_evseq := db_evseq db + 1 \<rparr>"

definition InsertEvent :: "env \<Rightarrow> event \<Rightarrow> unit nact" where
  "InsertEvent E ev = db_write E (insert_event_row ev)"

section \<open>Batches\<close>

definition batch_row :: "string \<Rightarrow> uuid option \<Rightarrow> ffdb \<Rightarrow> batch_persisted option" where
  "batch_row ns i db =
     find (\<lambda>b. bh_ID (bpd_Header b) = i \<and> bh_Namespace (bpd_Header b) = ns) (db_batches db)"

definition GetBatchByID :: "env \<Rightarrow> string \<Rightarrow> uuid option \<Rightarrow> batch_persisted option nact" where
  "GetBatchByID E ns i = db_read E (batch_row ns i)"

definition InsertOrGetBatch :: "env \<Rightarrow> batch_persisted \<Rightarrow> batch_persisted option nact" where
  "InsertOrGetBatch E b = db_op E (\<lambda>db.
     case batch_row (bh_Namespace (bpd_Header b)) (bh_ID (bpd_Header b)) db of
       Some existing \<Rightarrow> Inr (Some existing, db)
     | None \<Rightarrow> Inr (None, db \<lparr> db_batches := db_batches db @ [b] \<rparr>))"

section \<open>Messages\<close>

datatype upsert_optimization = UpsertOptimizationSkip | UpsertOptimizationNew | UpsertOptimizationExisting

definition HashMismatch :: fferr where
  "HashMismatch = I18n ''MsgHashMismatch''"

text \<open>The data references are rows of a join table without the size of the value.\<close>

definition stored_refs :: "data_ref list option \<Rightarrow> data_ref list option" where
  "stored_refs r = Some (case r of None \<Rightarrow> [] | Some rs \<Rightarrow> map (\<lambda>d. d \<lparr> dr_ValueSize := 0 \<rparr>) rs)"

definition refs_check :: "message \<Rightarrow> fferr option" where
  "refs_check m =
     (case find (\<lambda>d. dr_ID d = None \<or> dr_Hash d = None) (msg_refs m) of
        None \<Rightarrow> None
      | Some d \<Rightarrow> Some (if dr_ID d = None then I18n ''MsgNullDataReferenceID''
                        else I18n ''MsgMissingDataHashIndex''))"

definition is_msg :: "string \<Rightarrow> uuid option \<Rightarrow> message \<Rightarrow> bool" where
  "is_msg ns i m \<longleftrightarrow> mh_ID (m_Header m) = i \<and> m_LocalNamespace m = ns"

definition message_row :: "string \<Rightarrow> uuid option \<Rightarrow> ffdb \<Rightarrow> message option" where
  "message_row ns i db = find (is_msg ns i) (db_messages db)"

definition insert_msg_row :: "message \<Rightarrow> ffdb \<Rightarrow> ffdb" where
  "insert_msg_row m db = db \<lparr> db_messages := db_messages db @
       [m \<lparr> m_Data := stored_refs (m_Data m), m_Sequence := db_msgseq db \<rparr>],
     db_msgseq := db_msgseq db + 1 \<rparr>"

definition update_msg_row :: "bool \<Rightarrow> message \<Rightarrow> ffdb \<Rightarrow> ffdb" where
  "update_msg_row recreate m db = db \<lparr> db_messages := map (\<lambda>r.
       if is_msg (m_LocalNamespace m) (mh_ID (m_Header m)) r \<and> m_Hash r = m_Hash m \<and>
          mh_Namespace (m_Header r) = mh_Namespace (m_Header m)
       then m \<lparr> m_Data := (if recreate then stored_refs (m_Data m) else m_Data r),
                m_Sequence := m_Sequence r \<rparr>
       else if recreate \<and> is_msg (m_LocalNamespace m) (mh_ID (m_Header m)) r
       then r \<lparr> m_Data := stored_refs (m_Data m) \<rparr>
       else r) (db_messages db) \<rparr>"

definition UpsertMessage :: "env \<Rightarrow> upsert_optimization \<Rightarrow> message \<Rightarrow> unit nact" where
  "UpsertMessage E opt m = db_op E (\<lambda>db.
     let old = message_row (m_LocalNamespace m) (mh_ID (m_Header m)) db;
         hit = (case old of None \<Rightarrow> False
                | Some r \<Rightarrow> m_Hash r = m_Hash m \<and> mh_Namespace (m_Header r) = mh_Namespace (m_Header m))
     in if opt = UpsertOptimizationExisting \<and> hit then Inr ((), update_msg_row False m db)
        else case old of
          Some r \<Rightarrow>
            if m_Hash r \<noteq> m_Hash m then Inl HashMismatch
            else (case refs_check m of
                    Some err \<Rightarrow> Inl err
                  | None \<Rightarrow> Inr ((), update_msg_row True m db))
        | None \<Rightarrow>
            (case refs_check m of
               Some err \<Rightarrow> Inl err
             | None \<Rightarrow> Inr ((), insert_msg_row m db)))"

definition InsertMessages :: "env \<Rightarrow> message list \<Rightarrow> unit nact" where
  "InsertMessages E ms = db_op E (\<lambda>db.
     if distinct (map (\<lambda>m. (m_LocalNamespace m, mh_ID (m_Header m))) (db_messages db @ ms))
     then Inr ((), fold insert_msg_row ms db) else Inl (I18n ''MsgDBInsertFailed''))"

definition GetMessageByID :: "env \<Rightarrow> string \<Rightarrow> uuid option \<Rightarrow> message option nact" where
  "GetMessageByID E ns i = db_read E (message_row ns i)"

definition UpdateMessages :: "env \<Rightarrow> string \<Rightarrow> (message \<Rightarrow> bool) \<Rightarrow> (message \<Rightarrow> message) \<Rightarrow> unit nact" where
  "UpdateMessages E ns P u = db_write E (\<lambda>db.
     db \<lparr> db_messages := map (\<lambda>m. if m_LocalNamespace m = ns \<and> P m then u m else m) (db_messages db) \<rparr>)"

section \<open>Data and blobs\<close>

definition data_row :: "string \<Rightarrow> uuid option \<Rightarrow> ffdb \<Rightarrow> ffdata option" where
  "data_row ns i db = find (\<lambda>d. d_ID d = i \<and> d_Namespace d = ns) (db_data db)"

text \<open>What a stored row reads back as (\<open>dataResult\<close>): an empty blob or datatype is dropped.\<close>

definition stored_data :: "ffdata \<Rightarrow> ffdata" where
  "stored_data d = (the (CalcPath (Some d))) \<lparr>
     d_Blob := (case d_Blob (the (CalcPath (Some d))) of None \<Rightarrow> None
       | Some b \<Rightarrow> if br_Hash b = None \<and> br_Public b = '''' then None else Some b),
     d_Datatype := (case d_Datatype d of None \<Rightarrow> None
       | Some t \<Rightarrow> if dt_Name t = '''' \<and> dt_Version t = '''' then None else Some t) \<rparr>"

definition UpsertData :: "env \<Rightarrow> upsert_optimization \<Rightarrow> ffdata \<Rightarrow> unit nact" where
  "UpsertData E opt d = db_op E (\<lambda>db.
     case data_row (d_Namespace d) (d_ID d) db of
       Some r \<Rightarrow>
         if d_Hash r \<noteq> d_Hash d then Inl HashMismatch
         else Inr ((), db \<lparr> db_data := map (\<lambda>r.
                if d_ID r = d_ID d \<and> d_Hash r = d_Hash d \<and> d_Namespace r = d_Namespace d
                then stored_data d else r) (db_data db) \<rparr>)
     | None \<Rightarrow> Inr ((), db \<lparr> db_data := db_data db @ [stored_data d] \<rparr>))"

definition InsertDataArray :: "env \<Rightarrow> ffdata list \<Rightarrow> unit nact" where
  "InsertDataArray E ds = db_op E (\<lambda>db.
     if distinct (map (\<lambda>d. (d_Namespace d, d_ID d)) (db_data db @ ds))
     then Inr ((), db \<lparr> db_data := db_data db @ map stored_data ds \<rparr>)
     else Inl (I18n ''MsgDBInsertFailed''))"

definition GetDataByID :: "env \<Rightarrow> string \<Rightarrow> uuid option \<Rightarrow> ffdata option nact" where
  "GetDataByID E ns i = db_read E (data_row ns i)"

definition GetBlobs :: "env \<Rightarrow> string \<Rightarrow> (blob \<Rightarrow> bool) \<Rightarrow> blob list nact" where
  "GetBlobs E ns P = db_read E (\<lambda>db. filter (\<lambda>b. bl_Namespace b = ns \<and> P b) (db_blobs db))"

definition GetDatatypeByName :: "env \<Rightarrow> string \<Rightarrow> string \<Rightarrow> string \<Rightarrow> datatype_def option nact" where
  "GetDatatypeByName E ns nm ver = db_read E (\<lambda>db.
     find (\<lambda>t. dty_Namespace t = ns \<and> dty_Name t = nm \<and> dty_Version t = ver) (db_datatypes db))"

section \<open>Token evidence\<close>

definition GetTokenTransfers :: "env \<Rightarrow> string \<Rightarrow> uuid option \<Rightarrow> token_evidence list nact" where
  "GetTokenTransfers E ns i = db_read E (\<lambda>db.
     filter (\<lambda>t. te_Namespace t = ns \<and> te_Message t = i) (db_transfers db))"

definition GetTokenApprovals :: "env \<Rightarrow> string \<Rightarrow> uuid option \<Rightarrow> token_evidence list nact" where
  "GetTokenApprovals E ns i = db_read E (\<lambda>db.
     filter (\<lambda>t. te_Namespace t = ns \<and> te_Message t = i) (db_approvals db))"

section \<open>Groups\<close>

definition members_of :: "bytes32 option \<Rightarrow> ffdb \<Rightarrow> member list" where
  "members_of h db = map snd (filter (\<lambda>r. fst r = h) (db_members db))"

definition is_group :: "string \<Rightarrow> bytes32 option \<Rightarrow> group \<Rightarrow> bool" where
  "is_group ns h g \<longleftrightarrow> g_Hash g = h \<and> g_LocalNamespace g = ns"

text \<open>The rows of the members table carry the hash of the group, not its local namespace.\<close>

definition group_row :: "string \<Rightarrow> bytes32 option \<Rightarrow> ffdb \<Rightarrow> group option" where
  "group_row ns h db = map_option
     (\<lambda>g. g \<lparr> g_Identity := (g_Identity g) \<lparr> gi_Members := members_of (g_Hash g) db \<rparr> \<rparr>)
     (find (is_group ns h) (db_groups db))"

definition GetGroupByHash :: "env \<Rightarrow> string \<Rightarrow> bytes32 option \<Rightarrow> group option nact" where
  "GetGroupByHash E ns h = db_read E (group_row ns h)"

definition insert_members :: "group \<Rightarrow> ffdb \<Rightarrow> ffdb" where
  "insert_members g db = db \<lparr> db_members :=
     db_members db @ map (Pair (g_Hash g)) (gi_Members (g_Identity g)) \<rparr>"

definition members_check :: "member list \<Rightarrow> fferr option" where
  "members_check ms =
     (case find (\<lambda>r. mb_Identity r = '''' \<or> mb_Node r = None) ms of
        None \<Rightarrow> None
      | Some r \<Rightarrow> Some (if mb_Identity r = '''' then I18n ''MsgEmptyMemberIdentity''
                        else I18n ''MsgEmptyMemberNode''))"

definition UpsertGroup :: "env \<Rightarrow> upsert_optimization \<Rightarrow> group \<Rightarrow> unit nact" where
  "UpsertGroup E opt g = db_op E (\<lambda>db.
     case find (is_group (g_LocalNamespace g) (g_Hash g)) (db_groups db) of
       Some _ \<Rightarrow>
         Inr ((), db \<lparr> db_groups := map (\<lambda>r.
           if is_group (g_LocalNamespace g) (g_Hash g) r
           then r \<lparr> g_Identity := (g_Identity r) \<lparr> gi_Name := gi_Name (g_Identity g) \<rparr>,
                    g_Message := g_Message g, g_Hash := g_Hash g, g_Created := g_Created g \<rparr>
           else r) (db_groups db) \<rparr>)
     | None \<Rightarrow>
         (case members_check (gi_Members (g_Identity g)) of
            Some err \<Rightarrow> Inl err
          | None \<Rightarrow> Inr ((), insert_members g (db \<lparr> db_groups := db_groups db @ [g] \<rparr>))))"

section \<open>Identities\<close>

definition GetIdentityByID :: "env \<Rightarrow> string \<Rightarrow> uuid option \<Rightarrow> identity option nact" where
  "GetIdentityByID E ns i = db_read E (\<lambda>db.
     find (\<lambda>r. ib_ID (id_Base r) = i \<and> ib_Namespace (id_Base r) = ns) (db_identities db))"

definition GetIdentityByDID :: "env \<Rightarrow> string \<Rightarrow> string \<Rightarrow> identity option nact" where
  "GetIdentityByDID E ns did = db_read E (\<lambda>db.
     find (\<lambda>r. ib_DID (id_Base r) = did \<and> ib_Namespace (id_Base r) = ns) (db_identities db))"

definition GetIdentityByName :: "env \<Rightarrow> identity_type \<Rightarrow> string \<Rightarrow> string \<Rightarrow> identity option nact" where
  "GetIdentityByName E it ns nm = db_read E (\<lambda>db.
     find (\<lambda>r. ib_Type (id_Base r) = it \<and> ib_Namespace (id_Base r) = ns \<and> ib_Name (id_Base r) = nm)
       (db_identities db))"

definition GetVerifierByValue :: "env \<Rightarrow> verifier_type \<Rightarrow> string \<Rightarrow> string \<Rightarrow> verifier option nact" where
  "GetVerifierByValue E vt ns val = db_read E (\<lambda>db.
     find (\<lambda>v. vr_Type (v_Ref v) = vt \<and> v_Namespace v = ns \<and> vr_Value (v_Ref v) = val)
       (db_verifiers db))"

definition GetVerifiersFor :: "env \<Rightarrow> string \<Rightarrow> verifier_type \<Rightarrow> uuid option \<Rightarrow> verifier list nact" where
  "GetVerifiersFor E ns vt i = db_read E (\<lambda>db.
     filter (\<lambda>v. v_Namespace v = ns \<and> vr_Type (v_Ref v) = vt \<and> v_Identity v = i) (db_verifiers db))"

section \<open>What the operations keep\<close>

lemma keeps_db_op:
  assumes "\<And>nd r db. f (nd \<lparr> nd_calls := r \<rparr>) = f nd"
    and "\<And>nd x db. g (nd_db nd) = Inr (x, db) \<Longrightarrow> f (nd \<lparr> nd_db := db \<rparr>) = f nd"
  shows "keeps f (db_op E g)"
proof (rule keepsI)
  fix nd
  show "f (snd (db_op E g nd)) = f nd"
    using assms(1) assms(2) [of "nd \<lparr> nd_calls := Suc (nd_calls nd) \<rparr>"]
    by (auto simp: db_op_def Let_def split: sum.splits)
qed

text \<open>An observation of the tables only.\<close>

lemma keeps_db_read [keeps_intros]: "keeps (\<lambda>nd. f (nd_db nd)) (db_read E g)"
  unfolding db_read_def by (rule keeps_db_op) auto

lemma keeps_db_write:
  "(\<And>db. f (g db) = f db) \<Longrightarrow> keeps (\<lambda>nd. f (nd_db nd)) (db_write E g)"
  unfolding db_write_def by (rule keeps_db_op) auto

lemma keeps_db_op_db:
  "(\<And>db x db'. g db = Inr (x, db') \<Longrightarrow> f db' = f db) \<Longrightarrow> keeps (\<lambda>nd. f (nd_db nd)) (db_op E g)"
  by (rule keeps_db_op) auto

lemma keeps_newUUID [keeps_intros]: "keeps (\<lambda>nd. f (nd_db nd)) (newUUID E)"
  by (simp add: newUUID_def keeps_def)

lemma keeps_nowM [keeps_intros]: "keeps (\<lambda>nd. f (nd_db nd)) (nowM E)"
  by (simp add: nowM_def keeps_def)

lemmas db_reads = GetPins_def GetNextPinsForContext_def GetNonce_def GetBatchByID_def
  GetMessageByID_def GetDataByID_def GetBlobs_def GetDatatypeByName_def GetTokenTransfers_def
  GetTokenApprovals_def GetGroupByHash_def GetIdentityByID_def GetIdentityByDID_def
  GetIdentityByName_def GetVerifierByValue_def GetVerifiersFor_def

lemma db_read_Inr:
  "db_read E g nd = (Inr x, nd') \<longleftrightarrow>
     \<not> e_flt E (nd_calls nd) \<and> x = g (nd_db nd) \<and> nd' = nd \<lparr> nd_calls := Suc (nd_calls nd) \<rparr>"
  by (auto simp: db_read_def db_op_def Let_def)

lemma db_write_Inr:
  "db_write E g nd = (Inr x, nd') \<longleftrightarrow>
     \<not> e_flt E (nd_calls nd) \<and>
     nd' = nd \<lparr> nd_calls := Suc (nd_calls nd), nd_db := g (nd_db nd) \<rparr>"
  by (auto simp: db_write_def db_op_def Let_def)

lemma db_op_Inr:
  "db_op E g nd = (Inr x, nd') \<longleftrightarrow> \<not> e_flt E (nd_calls nd) \<and>
     (\<exists>db. g (nd_db nd) = Inr (x, db) \<and> nd' = nd \<lparr> nd_calls := Suc (nd_calls nd), nd_db := db \<rparr>)"
  by (auto simp: db_op_def Let_def split: sum.splits)

text \<open>An error inside a group of an atomic database leaves the tables as they were.\<close>

lemma run_as_group_rollback:
  assumes "e_atomic E" "run_as_group E m nd = (Inl e, nd')"
  shows "nd_db nd' = nd_db nd"
  using assms by (auto simp: run_as_group_def Let_def split: prod.splits sum.splits if_splits)

lemma run_as_group_Inr:
  assumes "run_as_group E m nd = (Inr x, nd')"
  obtains nd1 where "m nd = (Inr x, nd1)" "nd' = nd1 \<lparr> nd_calls := Suc (nd_calls nd1) \<rparr>"
  using assms by (auto simp: run_as_group_def Let_def split: prod.splits sum.splits if_splits)

lemma keeps_run_as_group:
  assumes "keeps (\<lambda>nd. f (nd_db nd)) m"
  shows "keeps (\<lambda>nd. f (nd_db nd)) (run_as_group E m)"
proof (rule keepsI)
  fix nd
  show "f (nd_db (snd (run_as_group E m nd))) = f (nd_db nd)"
    using assms by (auto simp: keeps_def run_as_group_def Let_def split: prod.splits sum.splits) (metis snd_conv)+
qed

end
