(* ===== verification/Data_Manager.thy ===== *)
theory Data_Manager
  imports FF_Database
begin

text \<open>
  internal/data: the message cache and its read options, the lookup of the data of a
  message with the check of the recorded hashes, and the validation of data against
  the JSON schema of its datatype.
\<close>

section \<open>The message cache\<close>

datatype cache_read_option = CRORequirePublicBlobRefs | CRORequirePins | CRORequireBatchID

fun cro_ok :: "cache_read_option \<Rightarrow> msg_cache_entry \<Rightarrow> bool" where
  "cro_ok CRORequirePublicBlobRefs mce =
     list_all (\<lambda>d. case d_Blob d of None \<Rightarrow> True | Some b \<Rightarrow> br_Public b \<noteq> '''') (mce_data mce)"
| "cro_ok CRORequirePins mce =
     (length (mh_Topics (m_Header (mce_msg mce))) = length (m_Pins (mce_msg mce)))"
| "cro_ok CRORequireBatchID mce = (m_BatchID (mce_msg mce) \<noteq> None)"

definition msg_key :: "env \<Rightarrow> uuid option \<Rightarrow> string" where
  "msg_key E i = (case i of None \<Rightarrow> '''' | Some u \<Rightarrow> e_uuid_str E u)"

text \<open>
  The cached message is shared by pointer: the local namespace is written into the
  entry on the way out.
\<close>

definition queryMessageCache :: "env \<Rightarrow> string \<Rightarrow> uuid option \<Rightarrow> cache_read_option list
    \<Rightarrow> msg_cache_entry option nact" where
  "queryMessageCache E ns i opts = (\<lambda>nd.
     case map_of (nd_msgcache nd) (msg_key E i) of
       None \<Rightarrow> (Inr None, nd)
     | Some mce \<Rightarrow>
         if list_all (\<lambda>opt. cro_ok opt mce) opts
         then let mce = mce \<lparr> mce_msg := (mce_msg mce) \<lparr> m_LocalNamespace := ns \<rparr> \<rparr>
              in (Inr (Some mce), nd \<lparr> nd_msgcache := assoc_put (msg_key E i) mce (nd_msgcache nd) \<rparr>)
         else (Inr None, nd))"

definition UpdateMessageCache :: "env \<Rightarrow> message \<Rightarrow> ffdata list \<Rightarrow> unit nact" where
  "UpdateMessageCache E msg data = modifyM (\<lambda>nd.
     nd \<lparr> nd_msgcache := assoc_put (msg_key E (mh_ID (m_Header msg)))
       \<lparr> mce_msg = msg, mce_data = data, mce_size = Message_EstimateSize True msg \<rparr>
       (nd_msgcache nd) \<rparr>)"

definition PeekMessageCache :: "env \<Rightarrow> string \<Rightarrow> uuid option \<Rightarrow> cache_read_option list
    \<Rightarrow> (message \<times> ffdata list) option nact" where
  "PeekMessageCache E ns i opts = bindM (queryMessageCache E ns i opts) (\<lambda>mce.
     retM (map_option (\<lambda>e. (mce_msg e, mce_data e)) mce))"

definition UpdateMessageIfCached :: "env \<Rightarrow> string \<Rightarrow> message \<Rightarrow> unit nact" where
  "UpdateMessageIfCached E ns msg =
     bindM (queryMessageCache E ns (mh_ID (m_Header msg)) []) (\<lambda>mce.
       case mce of None \<Rightarrow> retM () | Some e \<Rightarrow> UpdateMessageCache E msg (mce_data e))"

definition UpdateMessageStateIfCached :: "env \<Rightarrow> string \<Rightarrow> uuid option \<Rightarrow> message_state
    \<Rightarrow> fftime option \<Rightarrow> string \<Rightarrow> unit nact" where
  "UpdateMessageStateIfCached E ns i st confirmed reason =
     bindM (queryMessageCache E ns i []) (\<lambda>mce.
       case mce of
         None \<Rightarrow> retM ()
       | Some e \<Rightarrow> modifyM (\<lambda>nd. nd \<lparr> nd_msgcache := assoc_put (msg_key E i)
           (e \<lparr> mce_msg := (mce_msg e) \<lparr> m_State := st, m_Confirmed := confirmed,
                                          m_RejectReason := reason \<rparr> \<rparr>) (nd_msgcache nd) \<rparr>))"

section \<open>Message data\<close>

definition resolveRef :: "env \<Rightarrow> string \<Rightarrow> data_ref \<Rightarrow> ffdata option nact" where
  "resolveRef E ns dataRef =
     (case dr_ID dataRef of
        None \<Rightarrow> retM None
      | Some i \<Rightarrow> bindM (GetDataByID E ns (Some i)) (\<lambda>d.
          case d of
            None \<Rightarrow> retM None
          | Some d \<Rightarrow>
              if d_Hash d = None \<or> (dr_Hash dataRef \<noteq> None \<and> d_Hash d \<noteq> dr_Hash dataRef)
              then retM None else retM (Some d)))"

fun getMessageData_loop :: "env \<Rightarrow> string \<Rightarrow> data_ref list \<Rightarrow> (ffdata list \<times> bool) nact" where
  "getMessageData_loop E ns [] = retM ([], True)"
| "getMessageData_loop E ns (r # rs) = bindM (resolveRef E ns r) (\<lambda>d.
     bindM (getMessageData_loop E ns rs) (\<lambda>(ds, foundAll).
       case d of None \<Rightarrow> retM (ds, False) | Some d \<Rightarrow> retM (d # ds, foundAll)))"

definition getMessageData :: "env \<Rightarrow> string \<Rightarrow> message \<Rightarrow> (ffdata list \<times> bool) nact" where
  "getMessageData E ns msg = getMessageData_loop E ns (msg_refs msg)"

definition dataLookupAndCache :: "env \<Rightarrow> string \<Rightarrow> message \<Rightarrow> (ffdata list \<times> bool) nact" where
  "dataLookupAndCache E ns msg = bindM (getMessageData E ns msg) (\<lambda>(data, foundAll).
     if \<not> foundAll then retM (data, False)
     else bindM (UpdateMessageCache E msg data) (\<lambda>_. retM (data, True)))"

definition GetMessageWithDataCached :: "env \<Rightarrow> string \<Rightarrow> uuid option \<Rightarrow> cache_read_option list
    \<Rightarrow> (message option \<times> ffdata list \<times> bool) nact" where
  "GetMessageWithDataCached E ns i opts = bindM (queryMessageCache E ns i opts) (\<lambda>mce.
     case mce of
       Some e \<Rightarrow> retM (Some (mce_msg e), mce_data e, True)
     | None \<Rightarrow> bindM (GetMessageByID E ns i) (\<lambda>mo.
         case mo of
           None \<Rightarrow> retM (None, [], False)
         | Some msg \<Rightarrow> bindM (dataLookupAndCache E ns msg) (\<lambda>(data, foundAll).
             retM (Some msg, data, foundAll))))"

definition GetMessageDataCached :: "env \<Rightarrow> string \<Rightarrow> message \<Rightarrow> cache_read_option list
    \<Rightarrow> (ffdata list \<times> bool) nact" where
  "GetMessageDataCached E ns msg opts =
     bindM (queryMessageCache E ns (mh_ID (m_Header msg)) opts) (\<lambda>mce.
       case mce of
         Some e \<Rightarrow> retM (mce_data e, True)
       | None \<Rightarrow> dataLookupAndCache E ns msg)"

section \<open>Validation against a datatype\<close>

definition newJSONValidator :: "env \<Rightarrow> string \<Rightarrow> datatype_def \<Rightarrow> fferr + json_validator" where
  "newJSONValidator E ns dt =
     (let text = (case dty_Value dt of None \<Rightarrow> NullString | Some v \<Rightarrow> v) in
      if \<not> e_schema_compiles E (dty_Name dt) text then Inl (I18n ''MsgSchemaLoadFailed'')
      else Inr \<lparr> jv_id = dty_ID dt, jv_size = value_length (dty_Value dt), jv_ns = ns,
                 jv_datatype = \<lparr> dt_Name = dty_Name dt, dt_Version = dty_Version dt \<rparr>,
                 jv_schema = text \<rparr>)"

definition CheckDatatype :: "env \<Rightarrow> string \<Rightarrow> datatype_def \<Rightarrow> fferr option" where
  "CheckDatatype E ns dt = (case newJSONValidator E ns dt of Inl err \<Rightarrow> Some err | Inr _ \<Rightarrow> None)"

definition validateJSONString :: "env \<Rightarrow> json_validator \<Rightarrow> string \<Rightarrow> fferr option" where
  "validateJSONString E jv input =
     (if \<not> e_json_decodes E input then Some (I18n ''MsgJSONObjectParseFailed'')
      else if \<not> e_schema_valid E (jv_schema jv) input then Some (I18n ''MsgJSONDataInvalidPerSchema'')
      else None)"

definition ValidateValue :: "env \<Rightarrow> json_validator \<Rightarrow> string option \<Rightarrow> bytes32 option \<Rightarrow> fferr option" where
  "ValidateValue E jv val expectedHash =
     (case val of
        None \<Rightarrow> Some (I18n ''MsgDataValueIsNull'')
      | Some v \<Rightarrow>
          if expectedHash \<noteq> None \<and> expectedHash \<noteq> Some (e_value_hash E v)
          then Some (I18n ''MsgDataInvalidHash'')
          else validateJSONString E jv v)"

fun validator_string :: "validator_type \<Rightarrow> string" where
  "validator_string VT_Unset = ''''"
| "validator_string VT_JSON = ''json''"
| "validator_string VT_None = ''none''"
| "validator_string VT_SystemDefinition = ''definition''"
| "validator_string (VT_Other s) = s"

definition validator_key :: "validator_type \<Rightarrow> string \<Rightarrow> datatype_ref \<Rightarrow> string" where
  "validator_key v ns r = validator_string v @ '':'' @ ns @ '':'' @ DatatypeRef_String (Some r)"

definition getValidatorForDatatype :: "env \<Rightarrow> string \<Rightarrow> validator_type \<Rightarrow> datatype_ref option
    \<Rightarrow> json_validator option nact" where
  "getValidatorForDatatype E ns validator dref =
     (let validator = (if validator = VT_Unset then VT_JSON else validator) in
      case dref of
        None \<Rightarrow> retM None
      | Some r \<Rightarrow>
          if dt_Name r = '''' \<or> dt_Version r = '''' then retM None
          else let key = validator_key validator ns r in
            bindM (getsM (\<lambda>nd. map_of (nd_valcache nd) key)) (\<lambda>cached.
              case cached of
                Some v \<Rightarrow> retM (Some v)
              | None \<Rightarrow> bindM (GetDatatypeByName E ns (dt_Name r) (dt_Version r)) (\<lambda>dt.
                  case dt of
                    None \<Rightarrow> retM None
                  | Some dt \<Rightarrow>
                      (case newJSONValidator E ns dt of
                         Inl err \<Rightarrow> retM None
                       | Inr v \<Rightarrow> bindM (modifyM (\<lambda>nd.
                           nd \<lparr> nd_valcache := assoc_put key v (nd_valcache nd) \<rparr>)) (\<lambda>_.
                           retM (Some v))))))"

fun ValidateAll :: "env \<Rightarrow> string \<Rightarrow> ffdata list \<Rightarrow> bool nact" where
  "ValidateAll E ns [] = retM True"
| "ValidateAll E ns (d # ds) =
     (if d_Datatype d \<noteq> None \<and> d_Validator d \<noteq> VT_None
      then bindM (getValidatorForDatatype E ns (d_Validator d) (d_Datatype d)) (\<lambda>v.
             case v of
               None \<Rightarrow> retM False
             | Some v \<Rightarrow>
                 (case ValidateValue E v (d_Value d) (d_Hash d) of
                    Some err \<Rightarrow> throwM err
                  | None \<Rightarrow> ValidateAll E ns ds))
      else ValidateAll E ns ds)"

definition checkValidation :: "env \<Rightarrow> string \<Rightarrow> validator_type \<Rightarrow> datatype_ref option
    \<Rightarrow> string option \<Rightarrow> unit nact" where
  "checkValidation E ns validator dref val =
     (let validator = (if validator = VT_Unset then VT_JSON else validator) in
      case CheckValidatorType validator of
        Some err \<Rightarrow> throwM err
      | None \<Rightarrow>
          (case dref of
             None \<Rightarrow> retM ()
           | Some r \<Rightarrow>
               if validator = VT_None then retM ()
               else if dt_Name r = '''' \<or> dt_Version r = '''' then throwM (I18n ''MsgDatatypeNotFound'')
               else bindM (getValidatorForDatatype E ns validator dref) (\<lambda>v.
                 case v of
                   None \<Rightarrow> throwM (I18n ''MsgDatatypeNotFound'')
                 | Some v \<Rightarrow>
                     (case ValidateValue E v val None of
                        Some err \<Rightarrow> throwM err
                      | None \<Rightarrow> retM ()))))"

definition resolveBlob :: "env \<Rightarrow> string \<Rightarrow> blob_ref option \<Rightarrow> uuid option \<Rightarrow> blob option nact" where
  "resolveBlob E ns bref dataID =
     (case bref of
        None \<Rightarrow> retM None
      | Some b \<Rightarrow>
          if br_Hash b = None then retM None
          else bindM (GetBlobs E ns (\<lambda>bl. bl_DataID bl = dataID \<and> bl_Hash bl = br_Hash b)) (\<lambda>blobs.
            case blobs of [] \<Rightarrow> throwM (I18n ''MsgBlobNotFound'') | bl # _ \<Rightarrow> retM (Some bl)))"

section \<open>Lookups leave the tables alone\<close>

lemma keeps_queryMessageCache [keeps_intros]:
  "keeps (\<lambda>nd. f (nd_db nd)) (queryMessageCache E ns i opts)"
  by (rule keepsI) (auto simp: queryMessageCache_def Let_def split: option.splits)

lemma keeps_UpdateMessageCache [keeps_intros]:
  "keeps (\<lambda>nd. f (nd_db nd)) (UpdateMessageCache E msg data)"
  unfolding UpdateMessageCache_def by (rule keeps_modify) simp

lemma keeps_UpdateMessageStateIfCached [keeps_intros]:
  "keeps (\<lambda>nd. f (nd_db nd)) (UpdateMessageStateIfCached E ns i st c r)"
  unfolding UpdateMessageStateIfCached_def by (intro keeps_intros keeps_modify) simp

lemma keeps_resolveRef [keeps_intros]: "keeps (\<lambda>nd. f (nd_db nd)) (resolveRef E ns r)"
  unfolding resolveRef_def db_reads by (intro keeps_intros)

lemma keeps_getMessageData_loop [keeps_intros]:
  "keeps (\<lambda>nd. f (nd_db nd)) (getMessageData_loop E ns rs)"
  by (induction rs) (simp_all, (intro keeps_intros | assumption)+)

lemma keeps_dataLookupAndCache [keeps_intros]:
  "keeps (\<lambda>nd. f (nd_db nd)) (dataLookupAndCache E ns msg)"
  unfolding dataLookupAndCache_def getMessageData_def by (intro keeps_intros)

lemma keeps_GetMessageWithDataCached [keeps_intros]:
  "keeps (\<lambda>nd. f (nd_db nd)) (GetMessageWithDataCached E ns i opts)"
  unfolding GetMessageWithDataCached_def db_reads by (intro keeps_intros)

lemma keeps_GetMessageDataCached [keeps_intros]:
  "keeps (\<lambda>nd. f (nd_db nd)) (GetMessageDataCached E ns msg opts)"
  unfolding GetMessageDataCached_def by (intro keeps_intros)

lemma keeps_getValidatorForDatatype [keeps_intros]:
  "keeps (\<lambda>nd. f (nd_db nd)) (getValidatorForDatatype E ns v r)"
  unfolding getValidatorForDatatype_def Let_def db_reads by (intro keeps_intros keeps_modify) simp

lemma keeps_ValidateAll [keeps_intros]: "keeps (\<lambda>nd. f (nd_db nd)) (ValidateAll E ns ds)"
proof (induction ds)
  case (Cons d ds)
  show ?case unfolding ValidateAll.simps by (intro keeps_intros Cons.IH)
qed (simp add: keeps_ret)

section \<open>The data returned is the data referred to\<close>

lemma resolveRef_Some:
  assumes "resolveRef E ns r nd = (Inr (Some d), nd')"
  shows "d_ID d = dr_ID r \<and> dr_ID r \<noteq> None \<and> d_Hash d \<noteq> None \<and> (dr_Hash r \<noteq> None \<longrightarrow> d_Hash d = dr_Hash r)"
proof -
  obtain i where i: "dr_ID r = Some i"
    using assms by (cases "dr_ID r") (auto simp: resolveRef_def)
  then have "data_row ns (Some i) (nd_db nd) = Some d" "d_Hash d \<noteq> None"
      "dr_Hash r \<noteq> None \<longrightarrow> d_Hash d = dr_Hash r"
    using assms by (auto simp: resolveRef_def bindM_eq_Inr GetDataByID_def db_read_Inr
        split: option.splits if_splits)
  then show ?thesis
    using i find_Some_in by (fastforce simp: data_row_def)
qed

lemma getMessageData_loop_all:
  "getMessageData_loop E ns rs nd = (Inr (ds, True), nd') \<Longrightarrow>
     list_all2 (\<lambda>r d. d_ID d = dr_ID r \<and> dr_ID r \<noteq> None \<and> d_Hash d \<noteq> None \<and>
       (dr_Hash r \<noteq> None \<longrightarrow> d_Hash d = dr_Hash r)) rs ds"
proof (induction rs arbitrary: ds nd)
  case (Cons r rs)
  then obtain d nd1 ds' where d: "resolveRef E ns r nd = (Inr (Some d), nd1)" "ds = d # ds'"
    and rest: "getMessageData_loop E ns rs nd1 = (Inr (ds', True), nd')"
    by (auto simp: bindM_eq_Inr split: option.splits)
  show ?case
    using resolveRef_Some [OF d(1)] Cons.IH [OF rest] d(2) by simp
qed simp

end
