(* ===== verification/Group_Manager.thy ===== *)
theory Group_Manager
  imports Data_Manager
begin

text \<open>
  internal/privatemessaging/groupmanager.go: the group of the first private message on
  a context is created from the data of a group-init message, or looked up and checked
  to contain the sender.
\<close>

definition SystemTagDefineGroup :: string where
  "SystemTagDefineGroup = ''ff_define_group''"

definition groupContains :: "group \<Rightarrow> member \<Rightarrow> bool" where
  "groupContains g mem \<longleftrightarrow>
     list_ex (\<lambda>m. mb_Identity m = mb_Identity mem \<and> mb_Node m = mb_Node mem) (gi_Members (g_Identity g))"

definition EnsureLocalGroup :: "env \<Rightarrow> string \<Rightarrow> group \<Rightarrow> member \<Rightarrow> bool nact" where
  "EnsureLocalGroup E ns g creator =
     bindM (GetGroupByHash E ns (g_Hash g)) (\<lambda>existing.
       case existing of
         Some _ \<Rightarrow> retM True
       | None \<Rightarrow>
           if Group_Validate E True g \<noteq> None then retM False
           else if \<not> groupContains g creator then retM False
           else bindM (UpsertGroup E UpsertOptimizationNew g) (\<lambda>_. retM True))"

definition ResolveInitGroup :: "env \<Rightarrow> string \<Rightarrow> message \<Rightarrow> member \<Rightarrow> group option nact" where
  "ResolveInitGroup E ns msg mem =
     (if mh_Tag (m_Header msg) = SystemTagDefineGroup
      then bindM (GetMessageDataCached E ns msg []) (\<lambda>(data, foundAll).
        if \<not> foundAll \<or> data = [] then retM None
        else case e_unjson_group E (case d_Value (hd data) of None \<Rightarrow> '''' | Some v \<Rightarrow> v) of
          None \<Rightarrow> retM None
        | Some newGroup \<Rightarrow>
            if Group_Validate E True newGroup \<noteq> None then retM None
            else if g_Hash newGroup \<noteq> mh_Group (m_Header msg) then retM None
            else let newGroup = newGroup \<lparr> g_Message := mh_ID (m_Header msg), g_LocalNamespace := ns \<rparr>
              in bindM (UpsertGroup E UpsertOptimizationNew newGroup) (\<lambda>_. retM (Some newGroup)))
      else bindM (GetGroupByHash E ns (mh_Group (m_Header msg))) (\<lambda>existing.
        case existing of
          None \<Rightarrow> retM None
        | Some g \<Rightarrow> if groupContains g mem then retM (Some g) else retM None))"

text \<open>Only the tables of groups and members can change.\<close>

definition seq_tables :: "ffdb \<Rightarrow> pin list \<times> next_pin list \<times> event list \<times> message list \<times> nonce list" where
  "seq_tables db = (db_pins db, db_nextpins db, db_events db, db_messages db, db_nonces db)"

lemma keeps_UpsertGroup: "keeps (\<lambda>nd. seq_tables (nd_db nd)) (UpsertGroup E opt g)"
  unfolding UpsertGroup_def
  by (rule keeps_db_op_db) (auto simp: seq_tables_def insert_members_def split: option.splits)

lemma keeps_ResolveInitGroup [keeps_intros]:
  "keeps (\<lambda>nd. seq_tables (nd_db nd)) (ResolveInitGroup E ns msg mem)"
  unfolding ResolveInitGroup_def db_reads Let_def by (intro keeps_intros keeps_UpsertGroup)

end
