(* ===== verification/Batch_State.thy ===== *)
theory Batch_State
  imports Group_Manager
begin

text \<open>
  internal/events/aggregator_batch_state.go and pkg/core/batch_state.go: the in-memory
  state of one run of the aggregator over a page of pins. It tracks which contexts are
  blocked, the next pin expected from every member on a masked context, and the
  messages dispatched, and it flushes all of this to the database at the end of the run.
\<close>

section \<open>State\<close>

record core_bs =
  cb_PreFinalize :: "unit nact list"
  cb_Finalize :: "unit nact list"
  cb_PendingConfirms :: "(uuid \<times> message) list"
  cb_ConfirmedDIDClaims :: "string list"

record npg_state =
  npg_groupID :: bytes32
  npg_topic :: string
  npg_nextPins :: "next_pin list"
  npg_new :: bool
  npg_identitiesChanged :: "string list"

text \<open>The pointer to the group of a next pin is the unmasked context the group is filed under.\<close>

record next_pin_state =
  nps_context :: bytes32
  nps_nextPin :: next_pin

record dispatched_message =
  dm_batchID :: "uuid option"
  dm_msgID :: "uuid option"
  dm_firstPinIndex :: int
  dm_topicCount :: nat
  dm_msgPins :: "string list"
  dm_newState :: message_state
  dm_rejectReason :: string

record batch_state =
  bst_core :: core_bs
  bst_masked :: "(bytes32 \<times> npg_state) list"
  bst_unmasked :: "bytes32 \<rightharpoonup> int"
  bst_dispatched :: "dispatched_message list"

type_synonym run = "node \<times> batch_state"
type_synonym 'a ract = "(run, 'a) act"

definition onNode :: "'a nact \<Rightarrow> 'a ract" where
  "onNode m = (\<lambda>(nd, bs). case m nd of (r, nd') \<Rightarrow> (r, (nd', bs)))"

definition modifyBS :: "(batch_state \<Rightarrow> batch_state) \<Rightarrow> unit ract" where
  "modifyBS f = modifyM (\<lambda>(nd, bs). (nd, f bs))"

definition getsBS :: "(batch_state \<Rightarrow> 'a) \<Rightarrow> 'a ract" where
  "getsBS f = getsM (\<lambda>(nd, bs). f bs)"

definition newBatchState :: batch_state where
  "newBatchState = \<lparr> bst_core = \<lparr> cb_PreFinalize = [], cb_Finalize = [], cb_PendingConfirms = [],
     cb_ConfirmedDIDClaims = [] \<rparr>, bst_masked = [], bst_unmasked = Map.empty, bst_dispatched = [] \<rparr>"

section \<open>The state shared with the definition handlers\<close>

definition AddPreFinalize :: "unit nact \<Rightarrow> core_bs \<Rightarrow> core_bs" where
  "AddPreFinalize a bs = bs \<lparr> cb_PreFinalize := cb_PreFinalize bs @ [a] \<rparr>"

definition AddFinalize :: "unit nact \<Rightarrow> core_bs \<Rightarrow> core_bs" where
  "AddFinalize a bs = bs \<lparr> cb_Finalize := cb_Finalize bs @ [a] \<rparr>"

definition AddPendingConfirm :: "uuid \<Rightarrow> message \<Rightarrow> core_bs \<Rightarrow> core_bs" where
  "AddPendingConfirm i m bs = bs \<lparr> cb_PendingConfirms := assoc_put i m (cb_PendingConfirms bs) \<rparr>"

definition AddConfirmedDIDClaim :: "string \<Rightarrow> core_bs \<Rightarrow> core_bs" where
  "AddConfirmedDIDClaim did bs = bs \<lparr> cb_ConfirmedDIDClaims := cb_ConfirmedDIDClaims bs @ [did] \<rparr>"

definition core_RunPreFinalize :: "core_bs \<Rightarrow> unit nact" where
  "core_RunPreFinalize bs = forM (cb_PreFinalize bs) (\<lambda>action. action)"

definition core_RunFinalize :: "core_bs \<Rightarrow> unit nact" where
  "core_RunFinalize bs = forM (cb_Finalize bs) (\<lambda>action. action)"

definition modifyCore :: "(core_bs \<Rightarrow> core_bs) \<Rightarrow> unit ract" where
  "modifyCore f = modifyBS (\<lambda>bs. bs \<lparr> bst_core := f (bst_core bs) \<rparr>)"

section \<open>Context and pin hashes\<close>

definition broadcastContext :: "env \<Rightarrow> string \<Rightarrow> bytes32" where
  "broadcastContext E topic = e_sha256 E (bytes_of topic)"

definition privateContext :: "env \<Rightarrow> string \<Rightarrow> bytes32 \<Rightarrow> bytes32" where
  "privateContext E topic grp = e_sha256 E (bytes_of topic @ grp)"

definition privatePinHash :: "env \<Rightarrow> string \<Rightarrow> bytes32 \<Rightarrow> string \<Rightarrow> int \<Rightarrow> bytes32" where
  "privatePinHash E topic grp ident nonce =
     e_sha256 E (bytes_of topic @ grp @ bytes_of ident @ be64 nonce)"

definition calcPinHash :: "env \<Rightarrow> npg_state \<Rightarrow> string \<Rightarrow> int \<Rightarrow> bytes32" where
  "calcPinHash E npg ident nonce = privatePinHash E (npg_topic npg) (npg_groupID npg) ident nonce"

section \<open>Unmasked contexts\<close>

definition checkUnmaskedContextReady :: "env \<Rightarrow> string \<Rightarrow> bytes32 \<Rightarrow> int \<Rightarrow> bool ract" where
  "checkUnmaskedContextReady E ns ctx firstMsgPinSequence =
     bindM (getsBS (\<lambda>bs. bst_unmasked bs ctx)) (\<lambda>found.
       case found of
         Some blockedBy \<Rightarrow> retM (\<not> blockedBy \<ge> 0)
       | None \<Rightarrow>
           bindM (modifyBS (\<lambda>bs. bs \<lparr> bst_unmasked := (bst_unmasked bs)(ctx \<mapsto> -1) \<rparr>)) (\<lambda>_.
           bindM (onNode (GetPins E True (Some 1) ns (\<lambda>p. p_Hash p = ctx \<and> \<not> p_Dispatched p \<and>
                                                          p_Sequence p < firstMsgPinSequence))) (\<lambda>earlier.
           case earlier of
             [] \<Rightarrow> retM True
           | p # _ \<Rightarrow>
               bindM (modifyBS (\<lambda>bs. bs \<lparr> bst_unmasked := (bst_unmasked bs)(ctx \<mapsto> p_Sequence p) \<rparr>)) (\<lambda>_.
               retM (\<not> p_Sequence p \<ge> 0)))))"

definition SetContextBlockedBy :: "bytes32 \<Rightarrow> int \<Rightarrow> unit ract" where
  "SetContextBlockedBy ctx blockedBy = modifyBS (\<lambda>bs.
     case bst_unmasked bs ctx of
       None \<Rightarrow> bs \<lparr> bst_unmasked := (bst_unmasked bs)(ctx \<mapsto> blockedBy) \<rparr>
     | Some b \<Rightarrow> if b < 0 then bs \<lparr> bst_unmasked := (bst_unmasked bs)(ctx \<mapsto> blockedBy) \<rparr> else bs)"

section \<open>Masked contexts\<close>

definition stateForMaskedContext :: "env \<Rightarrow> string \<Rightarrow> bytes32 \<Rightarrow> string \<Rightarrow> bytes32 \<Rightarrow> npg_state option ract" where
  "stateForMaskedContext E ns groupID topic contextUnmasked =
     bindM (getsBS (\<lambda>bs. map_of (bst_masked bs) contextUnmasked)) (\<lambda>existing.
       case existing of
         Some npg \<Rightarrow> retM (Some npg)
       | None \<Rightarrow> bindM (onNode (GetNextPinsForContext E ns contextUnmasked)) (\<lambda>nextPins.
           if nextPins = [] then retM None
           else let npg = \<lparr> npg_groupID = groupID, npg_topic = topic, npg_nextPins = nextPins,
                            npg_new = False, npg_identitiesChanged = [] \<rparr>
             in bindM (modifyBS (\<lambda>bs. bs \<lparr> bst_masked := assoc_put contextUnmasked npg (bst_masked bs) \<rparr>))
                  (\<lambda>_. retM (Some npg))))"

text \<open>
  The loop over the members of the group: the next pins at nonce 0, and the one whose
  hash is the pin. \<open>None\<close> is the early return on a pin that belongs to another author.
\<close>

fun zero_pins :: "env \<Rightarrow> string \<Rightarrow> npg_state \<Rightarrow> bytes32 \<Rightarrow> string \<Rightarrow> bytes32 \<Rightarrow> member list
    \<Rightarrow> (next_pin list \<times> next_pin option) option" where
  "zero_pins E ns npg ctx author pin [] = Some ([], None)"
| "zero_pins E ns npg ctx author pin (mem # ms) =
     (let zeroHash = calcPinHash E npg (mb_Identity mem) 0;
          np = \<lparr> np_Namespace = ns, np_Context = ctx, np_Identity = mb_Identity mem,
                 np_Hash = zeroHash, np_Nonce = 0, np_Sequence = 0 \<rparr>
      in if pin = zeroHash \<and> mb_Identity mem \<noteq> author then None
         else case zero_pins E ns npg ctx author pin ms of
           None \<Rightarrow> None
         | Some (nps, found) \<Rightarrow>
             Some (np # nps,
               (case found of Some f \<Rightarrow> Some f | None \<Rightarrow> if pin = zeroHash then Some np else None)))"

definition attemptContextInit :: "env \<Rightarrow> string \<Rightarrow> message \<Rightarrow> batch_persisted \<Rightarrow> bytes32 \<Rightarrow> string \<Rightarrow> int
    \<Rightarrow> bytes32 \<Rightarrow> bytes32 \<Rightarrow> next_pin_state option ract" where
  "attemptContextInit E ns msg batch groupID topic pinnedSequence contextUnmasked pin =
     bindM (onNode (ResolveInitGroup E ns msg
              \<lparr> mb_Identity = sr_Author (bh_Signer (bpd_Header batch)), mb_Node = bh_Node (bpd_Header batch) \<rparr>))
     (\<lambda>grp.
       case grp of
         None \<Rightarrow> retM None
       | Some g \<Rightarrow>
           let npg = \<lparr> npg_groupID = groupID, npg_topic = topic, npg_nextPins = [], npg_new = True,
                       npg_identitiesChanged = [] \<rparr>
           in case zero_pins E ns npg contextUnmasked (sr_Author (mh_Signer (m_Header msg))) pin
                     (gi_Members (g_Identity g)) of
                None \<Rightarrow> retM None
              | Some (nps, None) \<Rightarrow> retM None
              | Some (nps, Some nextPin) \<Rightarrow>
                  bindM (onNode (GetPins E True None ns (\<lambda>p. p_Hash p \<in> set (map np_Hash nps) \<and>
                           \<not> p_Dispatched p \<and> p_Sequence p < pinnedSequence))) (\<lambda>earlier.
                  if earlier \<noteq> [] then retM None
                  else bindM (modifyBS (\<lambda>bs. bs \<lparr> bst_masked :=
                           assoc_put contextUnmasked (npg \<lparr> npg_nextPins := nps \<rparr>) (bst_masked bs) \<rparr>)) (\<lambda>_.
                    retM (Some \<lparr> nps_context = contextUnmasked, nps_nextPin = nextPin \<rparr>))))"

definition checkMaskedContextReady :: "env \<Rightarrow> string \<Rightarrow> message \<Rightarrow> batch_persisted \<Rightarrow> bytes32 \<Rightarrow> string \<Rightarrow> int
    \<Rightarrow> bytes32 \<Rightarrow> next_pin_state option ract" where
  "checkMaskedContextReady E ns msg batch groupID topic firstMsgPinSequence pin =
     (let contextUnmasked = privateContext E topic groupID in
      bindM (stateForMaskedContext E ns groupID topic contextUnmasked) (\<lambda>npg.
        case npg of
          None \<Rightarrow> attemptContextInit E ns msg batch groupID topic firstMsgPinSequence contextUnmasked pin
        | Some npg \<Rightarrow>
            (case find (\<lambda>np. np_Hash np = pin) (npg_nextPins npg) of
               None \<Rightarrow> retM None
             | Some np \<Rightarrow>
                 if np_Identity np \<noteq> sr_Author (mh_Signer (m_Header msg)) then retM None
                 else retM (Some \<lparr> nps_context = contextUnmasked, nps_nextPin = np \<rparr>))))"

definition incrementNPG :: "env \<Rightarrow> string \<Rightarrow> next_pin \<Rightarrow> npg_state \<Rightarrow> npg_state" where
  "incrementNPG E ns np npg =
     (if \<exists>e \<in> set (npg_nextPins npg). np_Hash e = np_Hash np
      then npg \<lparr> npg_nextPins := map (\<lambda>existingPin.
               if np_Hash np = np_Hash existingPin
               then \<lparr> np_Namespace = ns, np_Context = np_Context np, np_Identity = np_Identity np,
                      np_Hash = calcPinHash E npg (np_Identity np) (np_Nonce np + 1),
                      np_Nonce = np_Nonce np + 1, np_Sequence = np_Sequence np \<rparr>
               else existingPin) (npg_nextPins npg),
             npg_identitiesChanged := np_Identity np # npg_identitiesChanged npg \<rparr>
      else npg)"

definition IncrementNextPin :: "env \<Rightarrow> string \<Rightarrow> next_pin_state \<Rightarrow> unit ract" where
  "IncrementNextPin E ns nps = modifyBS (\<lambda>bs.
     case map_of (bst_masked bs) (nps_context nps) of
       None \<Rightarrow> bs
     | Some npg \<Rightarrow> bs \<lparr> bst_masked := assoc_put (nps_context nps)
                          (incrementNPG E ns (nps_nextPin nps) npg) (bst_masked bs) \<rparr>)"

section \<open>Dispatched messages\<close>

definition markMessageDispatched :: "uuid option \<Rightarrow> message \<Rightarrow> int \<Rightarrow> message_state \<Rightarrow> unit ract" where
  "markMessageDispatched batchID msg msgBaseIndex newState = modifyBS (\<lambda>bs.
     bs \<lparr> bst_dispatched := bst_dispatched bs @
       [\<lparr> dm_batchID = batchID, dm_msgID = mh_ID (m_Header msg), dm_firstPinIndex = msgBaseIndex,
          dm_topicCount = length (mh_Topics (m_Header msg)), dm_msgPins = m_Pins msg,
          dm_newState = newState, dm_rejectReason = m_RejectReason msg \<rparr>] \<rparr>)"

definition confirmMessages :: "env \<Rightarrow> string \<Rightarrow> uuid option list \<Rightarrow> message_state \<Rightarrow> fftime \<Rightarrow> string \<Rightarrow> unit nact" where
  "confirmMessages E ns msgIDs msgState confirmTime rejectReason =
     bindM (forM msgIDs (\<lambda>i. UpdateMessageStateIfCached E ns i msgState (Some confirmTime) rejectReason)) (\<lambda>_.
     UpdateMessages E ns (\<lambda>m. mh_ID (m_Header m) \<in> set msgIDs)
       (\<lambda>m. m \<lparr> m_Confirmed := Some confirmTime, m_State := msgState, m_RejectReason := rejectReason \<rparr>))"

section \<open>The flush\<close>

definition flushNextPins :: "env \<Rightarrow> string \<Rightarrow> (bytes32 \<times> npg_state) list \<Rightarrow> unit nact" where
  "flushNextPins E ns masked = forM masked (\<lambda>(ctx, npg).
     forM (npg_nextPins npg) (\<lambda>np.
       if npg_new npg then InsertNextPin E np
       else if np_Identity np \<in> set (npg_identitiesChanged npg)
       then UpdateNextPin E ns (np_Sequence np) (np_Nonce np) (np_Hash np)
       else retM ()))"

text \<open>The state of the loop over the dispatched messages: the pins to mark, the state updates.\<close>

type_synonym flush_acc = "(uuid \<times> int list) list \<times> (message_state \<times> uuid option list) list"

definition pin_indexes :: "dispatched_message \<Rightarrow> int list" where
  "pin_indexes dm = map (\<lambda>i. dm_firstPinIndex dm + int i) [0 ..< dm_topicCount dm]"

definition assoc_list_add :: "'k \<Rightarrow> 'v list \<Rightarrow> ('k \<times> 'v list) list \<Rightarrow> ('k \<times> 'v list) list" where
  "assoc_list_add k vs kvs =
     (let all = (case map_of kvs k of None \<Rightarrow> [] | Some old \<Rightarrow> old) @ vs
      in if all = [] then kvs else assoc_put k all kvs)"

fun flush_loop :: "env \<Rightarrow> string \<Rightarrow> fftime \<Rightarrow> dispatched_message list \<Rightarrow> flush_acc \<Rightarrow> flush_acc nact" where
  "flush_loop E ns confirmTime [] acc = retM acc"
| "flush_loop E ns confirmTime (dm # dms) (pinsDispatched, updates) =
     (case dm_batchID dm of
        None \<Rightarrow> throwM (GoPanic ''nil batch ID'')
      | Some b \<Rightarrow>
          let pinsDispatched = assoc_list_add b (pin_indexes dm) pinsDispatched
          in if dm_newState dm = MS_Rejected
             then bindM (confirmMessages E ns [dm_msgID dm] (dm_newState dm) confirmTime (dm_rejectReason dm))
                    (\<lambda>_. flush_loop E ns confirmTime dms (pinsDispatched, updates))
             else flush_loop E ns confirmTime dms
                    (pinsDispatched, assoc_list_add (dm_newState dm) [dm_msgID dm] updates))"

definition pin_selected :: "(uuid \<times> int list) list \<Rightarrow> pin \<Rightarrow> bool" where
  "pin_selected sel p \<longleftrightarrow> (case map_of sel (p_Batch p) of None \<Rightarrow> False | Some idx \<Rightarrow> p_Index p \<in> set idx)"

definition mark_pins_dispatched :: "env \<Rightarrow> string \<Rightarrow> (uuid \<times> int list) list \<Rightarrow> unit nact" where
  "mark_pins_dispatched E ns sel =
     (if sel = [] then retM ()
      else UpdatePins E ns (pin_selected sel) (\<lambda>p. p \<lparr> p_Dispatched := True \<rparr>))"

definition flushPins :: "env \<Rightarrow> string \<Rightarrow> batch_state \<Rightarrow> unit nact" where
  "flushPins E ns bs =
     bindM (flushNextPins E ns (bst_masked bs)) (\<lambda>_.
     bindM (nowM E) (\<lambda>confirmTime.
     bindM (flush_loop E ns confirmTime (bst_dispatched bs) ([], [])) (\<lambda>(pinsDispatched, updates).
     bindM (mark_pins_dispatched E ns pinsDispatched) (\<lambda>_.
     forM updates (\<lambda>(st, ids). confirmMessages E ns ids st confirmTime '''')))))"

definition RunPreFinalize :: "batch_state \<Rightarrow> unit nact" where
  "RunPreFinalize bs = core_RunPreFinalize (bst_core bs)"

definition RunFinalize :: "env \<Rightarrow> string \<Rightarrow> batch_state \<Rightarrow> unit nact" where
  "RunFinalize E ns bs = bindM (core_RunFinalize (bst_core bs)) (\<lambda>_. flushPins E ns bs)"

text \<open>One rewind request per claim confirmed by the run.\<close>

definition queueRewinds :: "batch_state \<Rightarrow> unit nact" where
  "queueRewinds bs = modifyM (\<lambda>nd.
     nd \<lparr> nd_didrewinds := nd_didrewinds nd @ cb_ConfirmedDIDClaims (bst_core bs) \<rparr>)"

section \<open>Basic facts on the run\<close>

text \<open>The tables of the sequencing as a run sees them.\<close>

abbreviation run_tables :: "run \<Rightarrow> pin list \<times> next_pin list \<times> event list \<times> message list \<times> nonce list" where
  "run_tables s \<equiv> seq_tables (nd_db (fst s))"

lemma onNode_eq: "onNode m (nd, bs) = (r, (nd', bs')) \<longleftrightarrow> m nd = (r, nd') \<and> bs' = bs"
  by (auto simp: onNode_def split: prod.splits)

lemma onNode_eq': "onNode m s = (r, s') \<longleftrightarrow> m (fst s) = (r, fst s') \<and> snd s' = snd s"
  by (cases s; cases s') (simp add: onNode_eq)

lemma modifyBS_eq [simp]: "modifyBS f (nd, bs) = (r, s') \<longleftrightarrow> r = Inr () \<and> s' = (nd, f bs)"
  by (auto simp: modifyBS_def)

lemma getsBS_eq [simp]: "getsBS f (nd, bs) = (r, s') \<longleftrightarrow> r = Inr (f bs) \<and> s' = (nd, bs)"
  by (auto simp: getsBS_def)

lemma keeps_onNode [keeps_intros]:
  "keeps f m \<Longrightarrow> keeps (\<lambda>s. f (fst s)) (onNode m)"
  by (auto simp: keeps_def onNode_def split: prod.splits) (metis snd_conv)

lemma keeps_onNode_bs [keeps_intros]: "keeps (\<lambda>s. f (snd s)) (onNode m)"
  by (auto simp: keeps_def onNode_def split: prod.splits)

lemma keeps_modifyBS [keeps_intros]: "keeps (\<lambda>s. f (fst s)) (modifyBS g)"
  unfolding modifyBS_def by (rule keeps_modify) auto

lemma keeps_modifyBS_snd: "(\<And>bs. f (g bs) = f bs) \<Longrightarrow> keeps (\<lambda>s. f (snd s)) (modifyBS g)"
  unfolding modifyBS_def by (rule keeps_modify) auto

lemma keeps_getsBS [keeps_intros]: "keeps f (getsBS g)"
  unfolding getsBS_def by (rule keeps_gets)

lemma keeps_modifyCore [keeps_intros]: "keeps (\<lambda>s. f (fst s)) (modifyCore g)"
  unfolding modifyCore_def by (rule keeps_modifyBS)

section \<open>The context checks do not touch the tables or the dispatched messages\<close>

lemma keeps_checkUnmaskedContextReady [keeps_intros]:
  "keeps run_tables (checkUnmaskedContextReady E ns ctx sq)"
  unfolding checkUnmaskedContextReady_def db_reads
  by (intro keeps_intros keeps_onNode [where f = "\<lambda>nd. seq_tables (nd_db nd)"]
      keeps_modifyBS [where f = "\<lambda>nd. seq_tables (nd_db nd)"])

lemma keeps_checkMaskedContextReady [keeps_intros]:
  "keeps run_tables (checkMaskedContextReady E ns msg b g t sq pin)"
  unfolding checkMaskedContextReady_def stateForMaskedContext_def attemptContextInit_def Let_def
    GetPins_def GetNextPinsForContext_def
  by (intro keeps_intros keeps_onNode [where f = "\<lambda>nd. seq_tables (nd_db nd)"]
      keeps_modifyBS [where f = "\<lambda>nd. seq_tables (nd_db nd)"])

lemma keeps_dispatched_checkUnmasked [keeps_intros]:
  "keeps (\<lambda>s. bst_dispatched (snd s)) (checkUnmaskedContextReady E ns ctx sq)"
  unfolding checkUnmaskedContextReady_def
  by (intro keeps_intros keeps_onNode_bs [where f = bst_dispatched]
      keeps_modifyBS_snd [where f = bst_dispatched]) simp_all

lemma keeps_dispatched_checkMasked [keeps_intros]:
  "keeps (\<lambda>s. bst_dispatched (snd s)) (checkMaskedContextReady E ns msg b g t sq pin)"
  unfolding checkMaskedContextReady_def stateForMaskedContext_def attemptContextInit_def Let_def
  by (intro keeps_intros keeps_onNode_bs [where f = bst_dispatched]
      keeps_modifyBS_snd [where f = bst_dispatched]) simp_all

end
