(* ===== verification/Identity_Manager.thy ===== *)
theory Identity_Manager
  imports FF_Database
begin

text \<open>
  internal/identity/identitymanager.go and the identity methods of pkg/core/identity.go:
  generation and validation of DIDs, the cached lookups with their fall back to the
  legacy system namespace, the resolution of the signer of an input, the verification of
  the chain of parents and of the owner of a node. The blockchain plugin and the
  configuration are the fields of \<open>im\<close>.
\<close>

section \<open>Identities\<close>

definition LegacySystemNamespace :: string where
  "LegacySystemNamespace = ''ff_system''"

definition DIDPrefix :: string where "DIDPrefix = ''did:''"
definition FireFlyDIDPrefix :: string where "FireFlyDIDPrefix = ''did:firefly:''"
definition FireFlyOrgDIDPrefix :: string where "FireFlyOrgDIDPrefix = ''did:firefly:org/''"
definition FireFlyNodeDIDPrefix :: string where "FireFlyNodeDIDPrefix = ''did:firefly:node/''"
definition FireFlyCustomDIDPrefix :: string where "FireFlyCustomDIDPrefix = ''did:firefly:''"

definition has_prefix :: "string \<Rightarrow> string \<Rightarrow> bool" where
  "has_prefix p s \<longleftrightarrow> take (length p) s = p"

definition Identity_Topic :: "env \<Rightarrow> identity_base \<Rightarrow> string" where
  "Identity_Topic E i = e_hex E (e_sha256 E (bytes_of (ib_DID i)))"

definition GenerateDID :: "identity_base \<Rightarrow> fferr + string" where
  "GenerateDID i =
     (case ib_Type i of
        IT_Custom \<Rightarrow>
          if ib_Namespace i = LegacySystemNamespace then Inl (I18n ''MsgCustomIdentitySystemNS'')
          else if ib_Parent i = None then Inl (I18n ''MsgNilParentIdentity'')
          else Inr (FireFlyCustomDIDPrefix @ ib_Name i)
      | IT_Node \<Rightarrow>
          if ib_Parent i = None then Inl (I18n ''MsgNilParentIdentity'')
          else Inr (FireFlyNodeDIDPrefix @ ib_Name i)
      | IT_Org \<Rightarrow> Inr (FireFlyOrgDIDPrefix @ ib_Name i)
      | IT_Other _ \<Rightarrow> Inl (I18n ''MsgUnknownIdentityType''))"

definition IdentityBase_Validate :: "env \<Rightarrow> identity_base \<Rightarrow> fferr option" where
  "IdentityBase_Validate E i =
     (if ib_ID i = None then Some (I18n ''MsgNilID'')
      else case e_validate_name_nouuid E (ib_Name i) ''name'' of
        Some err \<Rightarrow> Some err
      | None \<Rightarrow>
          (let legacyDID = (if ib_Type i = IT_Custom
                 then FireFlyCustomDIDPrefix @ ''ns/'' @ ib_Namespace i @ ''/'' @ ib_Name i else '''')
           in case GenerateDID i of
                Inl err \<Rightarrow> Some err
              | Inr requiredDID \<Rightarrow>
                  if ib_DID i = '''' \<or> (ib_DID i \<noteq> requiredDID \<and> ib_DID i \<noteq> legacyDID)
                  then Some (I18n ''MsgInvalidDIDForType'') else None))"

definition IdentityBase_Equals :: "env \<Rightarrow> identity_base \<Rightarrow> identity_base \<Rightarrow> bool" where
  "IdentityBase_Equals E i i2 \<longleftrightarrow>
     IdentityBase_Validate E i = None \<and> IdentityBase_Validate E i2 = None \<and>
     ib_ID i = ib_ID i2 \<and> ib_DID i = ib_DID i2 \<and> ib_Type i = ib_Type i2 \<and>
     ib_Parent i = ib_Parent i2 \<and> ib_Namespace i = ib_Namespace i2 \<and> ib_Name i = ib_Name i2"

definition Identity_Validate :: "env \<Rightarrow> identity option \<Rightarrow> fferr option" where
  "Identity_Validate E io =
     (case io of
        None \<Rightarrow> Some (I18n ''MsgNilOrNullObject'')
      | Some i \<Rightarrow>
          (case IdentityBase_Validate E (id_Base i) of
             Some err \<Rightarrow> Some err
           | None \<Rightarrow> e_validate_length E (id_Description i) ''description'' 4096))"

section \<open>The manager\<close>

datatype key_intent = ResolveKeyIntentSign | ResolveKeyIntentQuery

datatype key_normalization = KeyNormalizationBlockchainPlugin | KeyNormalizationNone

record blockchain_plugin =
  bc_verifierType :: verifier_type
  bc_ResolveSigningKey :: "string \<Rightarrow> key_intent \<Rightarrow> fferr + string"

record multiparty =
  mp_networkVersion :: nat
  mp_localNodeName :: string
  mp_rootOrgName :: string
  mp_rootOrgKey :: string

record identity_manager =
  im_blockchain :: "blockchain_plugin option"
  im_multiparty :: "multiparty option"
  im_namespace :: string
  im_defaultKey :: string

definition ParseKeyNormalizationConfig :: "string \<Rightarrow> key_normalization" where
  "ParseKeyNormalizationConfig lowered =
     (if lowered = ''blockchain_plugin'' then KeyNormalizationBlockchainPlugin else KeyNormalizationNone)"

definition v1_fallback :: "identity_manager \<Rightarrow> string \<Rightarrow> bool" where
  "v1_fallback im ns \<longleftrightarrow> ns \<noteq> LegacySystemNamespace \<and>
     (case im_multiparty im of None \<Rightarrow> False | Some mp \<Rightarrow> mp_networkVersion mp = 1)"

section \<open>Cached lookups\<close>

definition idcache_get :: "string \<Rightarrow> identity option nact" where
  "idcache_get key = getsM (\<lambda>nd. map_of (nd_idcache nd) key)"

definition idcache_set :: "string \<Rightarrow> identity \<Rightarrow> unit nact" where
  "idcache_set key i = modifyM (\<lambda>nd. nd \<lparr> nd_idcache := assoc_put key i (nd_idcache nd) \<rparr>)"

definition id_key :: "env \<Rightarrow> string \<Rightarrow> uuid \<Rightarrow> string" where
  "id_key E ns i = ''ns='' @ ns @ '',id='' @ e_uuid_str E i"

definition did_key :: "string \<Rightarrow> string \<Rightarrow> string" where
  "did_key ns did = ''ns='' @ ns @ '',did='' @ did"

fun verifier_type_string :: "verifier_type \<Rightarrow> string" where
  "verifier_type_string VR_EthAddress = ''ethereum_address''"
| "verifier_type_string VR_TezosAddress = ''tezos_address''"
| "verifier_type_string VR_MSPIdentity = ''fabric_msp_id''"
| "verifier_type_string VR_FFDXPeerID = ''dx_peer_id''"

definition verifier_key :: "string \<Rightarrow> verifier_ref \<Rightarrow> string" where
  "verifier_key ns v = ''ns='' @ ns @ '',type='' @ verifier_type_string (vr_Type v) @
     '',verifier='' @ vr_Value v"

definition lookupByID_in :: "env \<Rightarrow> string \<Rightarrow> uuid \<Rightarrow> identity option nact \<Rightarrow> identity option nact" where
  "lookupByID_in E ns i fallback = bindM (idcache_get (id_key E ns i)) (\<lambda>cached.
     case cached of
       Some r \<Rightarrow> retM (Some r)
     | None \<Rightarrow> bindM (GetIdentityByID E ns (Some i)) (\<lambda>found.
         case found of
           None \<Rightarrow> fallback
         | Some r \<Rightarrow> bindM (idcache_set (id_key E ns i) r) (\<lambda>_. retM (Some r))))"

definition cachedIdentityLookupByID :: "env \<Rightarrow> identity_manager \<Rightarrow> string \<Rightarrow> uuid \<Rightarrow> identity option nact" where
  "cachedIdentityLookupByID E im ns i = lookupByID_in E ns i
     (if v1_fallback im ns then lookupByID_in E LegacySystemNamespace i (retM None) else retM None)"

definition CachedIdentityLookupByID :: "env \<Rightarrow> identity_manager \<Rightarrow> uuid \<Rightarrow> identity option nact" where
  "CachedIdentityLookupByID E im i = cachedIdentityLookupByID E im (im_namespace im) i"

definition lookupByVerifierRef_in :: "env \<Rightarrow> string \<Rightarrow> verifier_ref \<Rightarrow> identity option nact
    \<Rightarrow> identity option nact" where
  "lookupByVerifierRef_in E ns vref fallback = bindM (idcache_get (verifier_key ns vref)) (\<lambda>cached.
     case cached of
       Some r \<Rightarrow> retM (Some r)
     | None \<Rightarrow> bindM (GetVerifierByValue E (vr_Type vref) ns (vr_Value vref)) (\<lambda>v.
         case v of
           None \<Rightarrow> fallback
         | Some v \<Rightarrow> bindM (GetIdentityByID E ns (v_Identity v)) (\<lambda>r.
             case r of
               None \<Rightarrow> throwM (I18n ''MsgEmptyMemberIdentity'')
             | Some r \<Rightarrow> bindM (idcache_set (verifier_key ns vref) r) (\<lambda>_. retM (Some r)))))"

definition cachedIdentityLookupByVerifierRef :: "env \<Rightarrow> identity_manager \<Rightarrow> string \<Rightarrow> verifier_ref
    \<Rightarrow> identity option nact" where
  "cachedIdentityLookupByVerifierRef E im ns vref = lookupByVerifierRef_in E ns vref
     (if v1_fallback im ns then lookupByVerifierRef_in E LegacySystemNamespace vref (retM None)
      else retM None)"

text \<open>The list of identity types the caller passes is not used by the code.\<close>

definition FindIdentityForVerifier :: "env \<Rightarrow> identity_manager \<Rightarrow> identity_type list \<Rightarrow> verifier_ref
    \<Rightarrow> identity option nact" where
  "FindIdentityForVerifier E im iTypes vref =
     cachedIdentityLookupByVerifierRef E im (im_namespace im) vref"

text \<open>The value and the flag \<open>retryable\<close> of the error.\<close>

definition retryable :: "bool \<Rightarrow> 'a nact \<Rightarrow> ((bool \<times> fferr) + 'a) nact" where
  "retryable flag m = bindM (attemptM m) (\<lambda>r.
     retM (case r of Inl e \<Rightarrow> Inl (flag, e) | Inr x \<Rightarrow> Inr x))"

definition lookupDID_db :: "env \<Rightarrow> string \<Rightarrow> string \<Rightarrow> identity option nact" where
  "lookupDID_db E ns did =
     (if has_prefix DIDPrefix did
      then bindM (GetIdentityByDID E ns did) (\<lambda>r.
        if r = None \<and> has_prefix FireFlyOrgDIDPrefix did
        then (case e_parse_uuid E (drop (length FireFlyOrgDIDPrefix) did) of
                None \<Rightarrow> retM r
              | Some u \<Rightarrow> GetIdentityByID E ns (Some u))
        else retM r)
      else GetIdentityByName E IT_Org ns did)"

definition lookupDID_in :: "env \<Rightarrow> string \<Rightarrow> string \<Rightarrow> ((bool \<times> fferr) + identity option) nact
    \<Rightarrow> ((bool \<times> fferr) + identity option) nact" where
  "lookupDID_in E ns did fallback = bindM (idcache_get (did_key ns did)) (\<lambda>cached.
     case cached of
       Some r \<Rightarrow> retM (Inr (Some r))
     | None \<Rightarrow>
         if has_prefix DIDPrefix did \<and> \<not> has_prefix FireFlyDIDPrefix did
         then retM (Inl (False, I18n ''MsgDIDResolverUnknown''))
         else bindM (retryable True (lookupDID_db E ns did)) (\<lambda>found.
           case found of
             Inl e \<Rightarrow> retM (Inl e)
           | Inr None \<Rightarrow> fallback
           | Inr (Some r) \<Rightarrow> bindM (idcache_set (did_key ns did) r) (\<lambda>_. retM (Inr (Some r)))))"

definition cachedIdentityLookup :: "env \<Rightarrow> identity_manager \<Rightarrow> string \<Rightarrow> string
    \<Rightarrow> ((bool \<times> fferr) + identity option) nact" where
  "cachedIdentityLookup E im ns did = lookupDID_in E ns did
     (if v1_fallback im ns then lookupDID_in E LegacySystemNamespace did (retM (Inr None))
      else retM (Inr None))"

definition CachedIdentityLookupNilOK :: "env \<Rightarrow> identity_manager \<Rightarrow> string
    \<Rightarrow> ((bool \<times> fferr) + identity option) nact" where
  "CachedIdentityLookupNilOK E im did = cachedIdentityLookup E im (im_namespace im) did"

definition CachedIdentityLookupMustExist :: "env \<Rightarrow> identity_manager \<Rightarrow> string
    \<Rightarrow> ((bool \<times> fferr) + identity) nact" where
  "CachedIdentityLookupMustExist E im did = bindM (CachedIdentityLookupNilOK E im did) (\<lambda>r.
     retM (case r of
       Inl e \<Rightarrow> Inl e
     | Inr None \<Rightarrow> Inl (False, I18n ''MsgIdentityNotFoundByString'')
     | Inr (Some i) \<Rightarrow> Inr i))"

text \<open>The callers that ignore the flag.\<close>

definition lookupMustExist :: "env \<Rightarrow> identity_manager \<Rightarrow> string \<Rightarrow> identity nact" where
  "lookupMustExist E im did = bindM (CachedIdentityLookupMustExist E im did) (\<lambda>r.
     case r of Inl (_, e) \<Rightarrow> throwM e | Inr i \<Rightarrow> retM i)"

section \<open>The local node and root org\<close>

definition GetLocalNode :: "env \<Rightarrow> identity_manager \<Rightarrow> identity option nact" where
  "GetLocalNode E im =
     (case im_multiparty im of
        None \<Rightarrow> throwM (GoPanic ''nil multiparty manager'')
      | Some mp \<Rightarrow>
          if mp_localNodeName mp = '''' then throwM (I18n ''MsgLocalNodeNotSet'')
          else bindM (CachedIdentityLookupNilOK E im (FireFlyNodeDIDPrefix @ mp_localNodeName mp)) (\<lambda>r.
            case r of Inl (_, e) \<Rightarrow> throwM e | Inr i \<Rightarrow> retM i))"

definition GetRootOrgDID :: "identity_manager \<Rightarrow> fferr + string" where
  "GetRootOrgDID im =
     (case im_multiparty im of
        None \<Rightarrow> Inl (GoPanic ''nil multiparty manager'')
      | Some mp \<Rightarrow>
          if mp_rootOrgName mp \<noteq> '''' then Inr (FireFlyOrgDIDPrefix @ mp_rootOrgName mp)
          else Inl (I18n ''MsgLocalOrgNotSet''))"

definition GetRootOrg :: "env \<Rightarrow> identity_manager \<Rightarrow> identity nact" where
  "GetRootOrg E im = bindM (liftE (GetRootOrgDID im)) (lookupMustExist E im)"

section \<open>Signing keys\<close>

definition resolveInputKeyViaBlockchainPlugin :: "identity_manager \<Rightarrow> string \<Rightarrow> key_intent
    \<Rightarrow> fferr + verifier_ref" where
  "resolveInputKeyViaBlockchainPlugin im inputKey intent =
     (case im_blockchain im of
        None \<Rightarrow> Inl (I18n ''MsgBlockchainNotConfigured'')
      | Some bc \<Rightarrow>
          (case bc_ResolveSigningKey bc inputKey intent of
             Inl e \<Rightarrow> Inl e
           | Inr k \<Rightarrow> Inr \<lparr> vr_Type = bc_verifierType bc, vr_Value = k \<rparr>))"

definition getDefaultVerifier :: "identity_manager \<Rightarrow> key_intent \<Rightarrow> fferr + verifier_ref" where
  "getDefaultVerifier im intent =
     (if im_defaultKey im \<noteq> '''' then resolveInputKeyViaBlockchainPlugin im (im_defaultKey im) intent
      else case im_multiparty im of
        None \<Rightarrow> Inl (I18n ''MsgNodeMissingBlockchainKey'')
      | Some mp \<Rightarrow>
          if mp_rootOrgKey mp = '''' then Inl (I18n ''MsgNodeMissingBlockchainKey'')
          else resolveInputKeyViaBlockchainPlugin im (mp_rootOrgKey mp) intent)"

definition resolveInputSigningKey :: "identity_manager \<Rightarrow> string \<Rightarrow> key_normalization \<Rightarrow> key_intent
    \<Rightarrow> fferr + string" where
  "resolveInputSigningKey im inputKey mode intent =
     (if inputKey = '''' then
        (if im_blockchain im = None then
           (if im_defaultKey im = '''' then Inl (I18n ''MsgNodeMissingBlockchainKey'')
            else Inr (im_defaultKey im))
         else map_sum (\<lambda>e. e) vr_Value (getDefaultVerifier im intent))
      else if mode \<noteq> KeyNormalizationBlockchainPlugin then Inr inputKey
      else map_sum (\<lambda>e. e) vr_Value (resolveInputKeyViaBlockchainPlugin im inputKey intent))"

definition ResolveInputVerifierRef :: "identity_manager \<Rightarrow> verifier_type option \<Rightarrow> string \<Rightarrow> key_intent
    \<Rightarrow> fferr + verifier_ref" where
  "ResolveInputVerifierRef im vtype inputKey intent =
     (case im_blockchain im of
        None \<Rightarrow> Inl (I18n ''MsgBlockchainNotConfigured'')
      | Some bc \<Rightarrow>
          let vt = (case vtype of None \<Rightarrow> bc_verifierType bc | Some t \<Rightarrow> t) in
          if vt \<noteq> bc_verifierType bc then Inl (I18n ''MsgUnknownVerifierType'')
          else map_sum (\<lambda>e. e) (\<lambda>k. \<lparr> vr_Type = vt, vr_Value = k \<rparr>)
                 (bc_ResolveSigningKey bc inputKey intent))"

definition ResolveMultipartyRootVerifier :: "identity_manager \<Rightarrow> fferr + verifier_ref" where
  "ResolveMultipartyRootVerifier im =
     (case im_multiparty im of
        None \<Rightarrow> Inl (GoPanic ''nil multiparty manager'')
      | Some mp \<Rightarrow>
          if mp_rootOrgKey mp = '''' then Inl (I18n ''MsgNodeMissingBlockchainKey'')
          else resolveInputKeyViaBlockchainPlugin im (mp_rootOrgKey mp) ResolveKeyIntentSign)"

definition firstVerifierForIdentity :: "env \<Rightarrow> verifier_type \<Rightarrow> identity \<Rightarrow> verifier_ref nact" where
  "firstVerifierForIdentity E vt i =
     bindM (GetVerifiersFor E (ib_Namespace (id_Base i)) vt (ib_ID (id_Base i))) (\<lambda>vs.
       case vs of [] \<Rightarrow> throwM (I18n ''MsgNoVerifierForIdentity'') | v # _ \<Rightarrow> retM (v_Ref v))"

definition resolveDefaultSigningIdentity :: "env \<Rightarrow> identity_manager \<Rightarrow> signer_ref nact" where
  "resolveDefaultSigningIdentity E im =
     bindM (liftE (getDefaultVerifier im ResolveKeyIntentSign)) (\<lambda>vref.
     bindM (GetRootOrg E im) (\<lambda>org.
     retM \<lparr> sr_Author = ib_DID (id_Base org), sr_Key = vr_Value vref \<rparr>))"

text \<open>The signer as it is left by the method, which updates it in place.\<close>

definition ResolveInputSigningIdentity :: "env \<Rightarrow> identity_manager \<Rightarrow> signer_ref \<Rightarrow> signer_ref nact" where
  "ResolveInputSigningIdentity E im signer =
     (case im_blockchain im of
        None \<Rightarrow> throwM (I18n ''MsgBlockchainNotConfigured'')
      | Some bc \<Rightarrow>
          if sr_Author signer = '''' \<and> sr_Key signer = '''' then resolveDefaultSigningIdentity E im
          else if sr_Key signer \<noteq> '''' then
            bindM (liftE (resolveInputKeyViaBlockchainPlugin im (sr_Key signer) ResolveKeyIntentSign)) (\<lambda>vref.
            bindM (FindIdentityForVerifier E im [IT_Org, IT_Custom] vref) (\<lambda>found.
              case found of
                Some i \<Rightarrow>
                  (let author = (if sr_Author signer = ib_Name (id_Base i) \<or> sr_Author signer = ''''
                                 then ib_DID (id_Base i) else sr_Author signer)
                   in if author \<noteq> ib_DID (id_Base i) then throwM (I18n ''MsgAuthorRegistrationMismatch'')
                      else retM \<lparr> sr_Author = author, sr_Key = vr_Value vref \<rparr>)
              | None \<Rightarrow>
                  if sr_Author signer \<noteq> '''' then
                    bindM (lookupMustExist E im (sr_Author signer)) (\<lambda>i.
                      retM \<lparr> sr_Author = ib_DID (id_Base i), sr_Key = vr_Value vref \<rparr>)
                  else throwM (I18n ''MsgAuthorMissingForKey'')))
          else
            bindM (lookupMustExist E im (sr_Author signer)) (\<lambda>i.
            bindM (firstVerifierForIdentity E (bc_verifierType bc) i) (\<lambda>vref.
              retM \<lparr> sr_Author = ib_DID (id_Base i), sr_Key = vr_Value vref \<rparr>)))"

section \<open>The chain of parents\<close>

definition validateParentType :: "identity \<Rightarrow> identity \<Rightarrow> fferr option" where
  "validateParentType child parent =
     (case ib_Type (id_Base child) of
        IT_Node \<Rightarrow> if ib_Type (id_Base parent) \<noteq> IT_Org then Some (I18n ''MsgInvalidIdentityParentType'') else None
      | IT_Org \<Rightarrow> if ib_Type (id_Base parent) \<noteq> IT_Org then Some (I18n ''MsgInvalidIdentityParentType'') else None
      | IT_Custom \<Rightarrow>
          if ib_Type (id_Base parent) \<noteq> IT_Org \<and> ib_Type (id_Base parent) \<noteq> IT_Custom
          then Some (I18n ''MsgInvalidIdentityParentType'') else None
      | IT_Other _ \<Rightarrow> Some (I18n ''MsgUnknownIdentityType''))"

text \<open>
  The loop, with fuel for its iterations: the outer option is \<open>None\<close> when the fuel is
  used up, the sum carries the retryable flag of an error.
\<close>

fun chain_loop :: "nat \<Rightarrow> env \<Rightarrow> identity_manager \<Rightarrow> uuid list \<Rightarrow> identity \<Rightarrow> identity option
    \<Rightarrow> ((bool \<times> fferr) + identity option) option nact" where
  "chain_loop 0 E im loopDetect current immediateParent = retM None"
| "chain_loop (Suc n) E im loopDetect current immediateParent =
     (case ib_ID (id_Base current) of
        None \<Rightarrow> throwM (GoPanic ''nil identity ID'')
      | Some cid \<Rightarrow>
          let loopDetect = cid # loopDetect in
          case ib_Parent (id_Base current) of
            None \<Rightarrow> retM (Some (Inr immediateParent))
          | Some parentID \<Rightarrow>
              if parentID \<in> set loopDetect then retM (Some (Inl (False, I18n ''MsgIdentityChainLoop'')))
              else bindM (attemptM (CachedIdentityLookupByID E im parentID)) (\<lambda>r.
                case r of
                  Inl e \<Rightarrow> retM (Some (Inl (True, e)))
                | Inr None \<Rightarrow> retM (Some (Inl (False, I18n ''MsgParentIdentityNotFound'')))
                | Inr (Some parent) \<Rightarrow>
                    (case validateParentType current parent of
                       Some e \<Rightarrow> retM (Some (Inl (False, e)))
                     | None \<Rightarrow>
                         if im_multiparty im \<noteq> None \<and> id_Claim parent = None
                         then retM (Some (Inl (False, I18n ''MsgParentIdentityMissingClaim'')))
                         else chain_loop n E im loopDetect parent
                                (if immediateParent = None then Some parent else immediateParent))))"

definition VerifyIdentityChain :: "nat \<Rightarrow> env \<Rightarrow> identity_manager \<Rightarrow> identity
    \<Rightarrow> ((bool \<times> fferr) + identity option) option nact" where
  "VerifyIdentityChain fuel E im checkIdentity =
     (case Identity_Validate E (Some checkIdentity) of
        Some e \<Rightarrow> retM (Some (Inl (False, e)))
      | None \<Rightarrow> chain_loop fuel E im [] checkIdentity None)"

definition ResolveIdentitySigner :: "env \<Rightarrow> identity_manager \<Rightarrow> identity \<Rightarrow> signer_ref nact" where
  "ResolveIdentitySigner E im i = bindM (GetMessageByID E (im_namespace im) (id_Claim i)) (\<lambda>msg.
     case msg of
       None \<Rightarrow> throwM (I18n ''MsgParentIdentityMissingClaim'')
     | Some m \<Rightarrow> retM (mh_Signer (m_Header m)))"

text \<open>The climb from an identity to the owner of a node, with fuel: the code has no loop check.\<close>

fun owner_loop :: "nat \<Rightarrow> env \<Rightarrow> identity_manager \<Rightarrow> identity \<Rightarrow> identity \<Rightarrow> bool option nact" where
  "owner_loop 0 E im node candidate = retM None"
| "owner_loop (Suc n) E im node candidate =
     (if ib_ID (id_Base candidate) = ib_Parent (id_Base node) then retM (Some True)
      else case ib_Parent (id_Base candidate) of
        None \<Rightarrow> retM (Some False)
      | Some parent \<Rightarrow> bindM (CachedIdentityLookupByID E im parent) (\<lambda>r.
          case r of
            None \<Rightarrow> retM (Some False)
          | Some candidate \<Rightarrow> owner_loop n E im node candidate))"

definition ValidateNodeOwner :: "nat \<Rightarrow> env \<Rightarrow> identity_manager \<Rightarrow> identity \<Rightarrow> identity \<Rightarrow> bool option nact" where
  "ValidateNodeOwner fuel E im node i = owner_loop fuel E im node i"

end
