(* ===== verification/Aggregator.thy ===== *)
theory Aggregator
  imports Batch_State Identity_Manager
begin

text \<open>
  internal/events/aggregator.go: the processing of a page of pins in the order the
  blockchain sequenced them. For every pin the batch and its manifest are looked up, the
  message the pin belongs to is extracted, its signer is checked against the pin, its
  contexts are checked to be ready, and the message is dispatched (confirmed or
  rejected) or left for a later run. The definition handlers and the connection to the
  identity manager are the fields of \<open>aggregator\<close>.
\<close>

section \<open>The aggregator\<close>

record handler_result =
  hr_Action :: message_action
  hr_CustomCorrelator :: "uuid option"

record aggregator =
  ag_namespace :: string
  ag_verifierType :: verifier_type
  ag_identity :: identity_manager
  ag_definitions :: "core_bs \<Rightarrow> message \<Rightarrow> ffdata list \<Rightarrow> uuid option
     \<Rightarrow> (handler_result \<times> fferr option \<times> core_bs) nact"

section \<open>Batches and manifests\<close>

text \<open>The loops over the messages of the manifest and over the topics of a message.\<close>

fun topic_loop :: "int \<Rightarrow> manifest_entry \<Rightarrow> int \<Rightarrow> nat \<Rightarrow> int \<times> manifest_entry option \<times> int
    \<Rightarrow> int \<times> manifest_entry option \<times> int" where
  "topic_loop requiredIndex batchMsg baseIdx 0 acc = acc"
| "topic_loop requiredIndex batchMsg baseIdx (Suc n) (cnt, entry, base) =
     topic_loop requiredIndex batchMsg baseIdx n
       (if cnt = requiredIndex then (cnt + 1, Some batchMsg, baseIdx)
        else (cnt + 1, entry, base))"

fun entry_loop :: "int \<Rightarrow> manifest_entry list \<Rightarrow> int \<times> manifest_entry option \<times> int
    \<Rightarrow> int \<times> manifest_entry option \<times> int" where
  "entry_loop requiredIndex [] acc = acc"
| "entry_loop requiredIndex (m # ms) acc =
     entry_loop requiredIndex ms (topic_loop requiredIndex m (fst acc) (nat (me_Topics m)) acc)"

definition extractBatchMessagePin :: "batch_manifest \<Rightarrow> int \<Rightarrow> int \<times> manifest_entry option \<times> int" where
  "extractBatchMessagePin manifest requiredIndex =
     entry_loop requiredIndex (bm_Messages manifest) (0, None, 0)"

definition migrateManifest :: "env \<Rightarrow> batch_persisted \<Rightarrow> batch_manifest option" where
  "migrateManifest E persistedBatch =
     (case e_unjson_payload E (bpd_Manifest persistedBatch) of
        None \<Rightarrow> None
      | Some fullPayload \<Rightarrow>
          if bp_Messages fullPayload = [] then None
          else Some (GenManifest persistedBatch (bp_Messages fullPayload) (bp_Data fullPayload)))"

definition extractManifest :: "env \<Rightarrow> batch_persisted \<Rightarrow> batch_manifest option" where
  "extractManifest E batch =
     (case e_unjson_manifest E (bpd_Manifest batch) of
        None \<Rightarrow> None
      | Some manifest \<Rightarrow>
          if bm_Version manifest = ManifestVersionUnset then migrateManifest E batch
          else if bm_Version manifest = ManifestVersion1 then Some manifest
          else None)"

definition getBatchCacheKey :: "env \<Rightarrow> uuid \<Rightarrow> bytes32 option \<Rightarrow> string" where
  "getBatchCacheKey E i h =
     e_uuid_str E i @ ''/'' @ (case h of None \<Rightarrow> '''' | Some h \<Rightarrow> e_hex E h)"

definition cacheBatch :: "string \<Rightarrow> batch_persisted \<Rightarrow> batch_manifest \<Rightarrow> unit nact" where
  "cacheBatch cacheKey batch manifest = modifyM (\<lambda>nd.
     nd \<lparr> nd_batchcache := assoc_put cacheKey \<lparr> bce_batch = batch, bce_manifest = manifest \<rparr>
                             (nd_batchcache nd) \<rparr>)"

definition GetBatchForPin :: "env \<Rightarrow> string \<Rightarrow> pin \<Rightarrow> (batch_persisted \<times> batch_manifest) option nact" where
  "GetBatchForPin E ns pin =
     (let cacheKey = getBatchCacheKey E (p_Batch pin) (p_BatchHash pin) in
      bindM (getsM (\<lambda>nd. map_of (nd_batchcache nd) cacheKey)) (\<lambda>cachedValue.
        case cachedValue of
          Some bce \<Rightarrow> retM (Some (bce_batch bce, bce_manifest bce))
        | None \<Rightarrow> bindM (GetBatchByID E ns (Some (p_Batch pin))) (\<lambda>found.
            case found of
              None \<Rightarrow> retM None
            | Some batch \<Rightarrow>
                if bpd_Hash batch \<noteq> p_BatchHash pin then retM None
                else case extractManifest E batch of
                  None \<Rightarrow> retM None
                | Some manifest \<Rightarrow>
                    bindM (cacheBatch cacheKey batch manifest) (\<lambda>_. retM (Some (batch, manifest))))))"

section \<open>The signer of a message\<close>

definition SystemTagIdentityClaim :: string where
  "SystemTagIdentityClaim = ''ff_identity_claim''"
definition DeprecatedSystemTagDefineNode :: string where
  "DeprecatedSystemTagDefineNode = ''ff_define_node''"
definition DeprecatedSystemTagDefineOrganization :: string where
  "DeprecatedSystemTagDefineOrganization = ''ff_define_organization''"

text \<open>The action and the error returned with it.\<close>

definition checkOnchainConsistency :: "env \<Rightarrow> aggregator \<Rightarrow> message \<Rightarrow> pin
    \<Rightarrow> (message_action \<times> fferr option) nact" where
  "checkOnchainConsistency E ag msg pin =
     (let h = m_Header msg;
          verifierRef = \<lparr> vr_Type = ag_verifierType ag, vr_Value = p_Signer pin \<rparr> in
      if sr_Key (mh_Signer h) = '''' \<or> sr_Key (mh_Signer h) \<noteq> p_Signer pin
      then retM (ActionReject, Some (I18n ''MsgInvalidMessageSigner''))
      else bindM (attemptM (FindIdentityForVerifier E (ag_identity ag) [IT_Org, IT_Custom] verifierRef)) (\<lambda>r.
        case r of
          Inl err \<Rightarrow> retM (ActionRetry, Some err)
        | Inr None \<Rightarrow>
            if mh_Type h = MT_Definition \<and>
               (mh_Tag h = SystemTagIdentityClaim \<or> mh_Tag h = DeprecatedSystemTagDefineNode \<or>
                mh_Tag h = DeprecatedSystemTagDefineOrganization)
            then retM (ActionConfirm, None)
            else if mh_Type h = MT_Private \<or> mh_Type h = MT_GroupInit then retM (ActionConfirm, None)
            else retM (ActionWait, None)
        | Inr (Some resolvedAuthor) \<Rightarrow>
            if sr_Author (mh_Signer h) = '''' \<or> ib_DID (id_Base resolvedAuthor) \<noteq> sr_Author (mh_Signer h)
            then retM (ActionReject, Some (I18n ''MsgInvalidMessageIdentity''))
            else retM (ActionConfirm, None)))"

section \<open>Readiness\<close>

definition needsTokenTransfer :: "message \<Rightarrow> bool" where
  "needsTokenTransfer msg \<longleftrightarrow>
     (case mh_TxParent (m_Header msg) of None \<Rightarrow> False | Some t \<Rightarrow> tr_Type t = TT_TokenTransfer) \<or>
     mh_Type (m_Header msg) = MT_TransferBroadcast \<or> mh_Type (m_Header msg) = MT_TransferPrivate"

definition needsTokenApproval :: "message \<Rightarrow> bool" where
  "needsTokenApproval msg \<longleftrightarrow>
     (case mh_TxParent (m_Header msg) of None \<Rightarrow> False | Some t \<Rightarrow> tr_Type t = TT_TokenApproval) \<or>
     mh_Type (m_Header msg) = MT_ApprovalBroadcast \<or> mh_Type (m_Header msg) = MT_ApprovalPrivate"

fun resolveBlobs :: "env \<Rightarrow> string \<Rightarrow> ffdata list \<Rightarrow> bool nact" where
  "resolveBlobs E ns [] = retM True"
| "resolveBlobs E ns (d # ds) =
     (case blob_hash d of
        None \<Rightarrow> resolveBlobs E ns ds
      | Some h \<Rightarrow> bindM (GetBlobs E ns (\<lambda>b. bl_DataID b = d_ID d \<and> bl_Hash b = Some h)) (\<lambda>blobs.
          if blobs \<noteq> [] then resolveBlobs E ns ds else retM False))"

type_synonym readiness = "message_action \<times> uuid option \<times> fferr option"

text \<open>\<open>None\<close>: the evidence is there and its hash matches, otherwise the result to return.\<close>

definition checkEvidence :: "token_evidence list nact \<Rightarrow> message \<Rightarrow> readiness option nact" where
  "checkEvidence query msg = bindM (attemptM query) (\<lambda>r.
     case r of
       Inl err \<Rightarrow> retM (Some (ActionRetry, None, Some err))
     | Inr [] \<Rightarrow> retM (Some (ActionWait, None, None))
     | Inr (t # _) \<Rightarrow>
         if m_Hash msg \<noteq> te_MessageHash t then retM (Some (ActionWait, None, None)) else retM None)"

definition validateForDispatch :: "env \<Rightarrow> aggregator \<Rightarrow> message \<Rightarrow> ffdata list \<Rightarrow> uuid option
    \<Rightarrow> readiness ract" where
  "validateForDispatch E ag msg data tx =
     (if mh_Type (m_Header msg) = MT_Definition then
        bindM (getsBS bst_core) (\<lambda>core.
        bindM (onNode (ag_definitions ag core msg data tx)) (\<lambda>(hr, err, core').
        bindM (modifyCore (\<lambda>_. core')) (\<lambda>_.
        retM (hr_Action hr, hr_CustomCorrelator hr, err))))
      else if mh_Type (m_Header msg) = MT_GroupInit then retM (ActionConfirm, None, None)
      else if length (msg_refs msg) > 0 then
        bindM (attemptM (onNode (ValidateAll E (ag_namespace ag) data))) (\<lambda>r.
          case r of
            Inl err \<Rightarrow> retM (ActionRetry, None, Some err)
          | Inr ok \<Rightarrow> retM (if ok then ActionConfirm else ActionReject, None, None))
      else retM (ActionReject, None, None))"

definition readyForDispatch :: "env \<Rightarrow> aggregator \<Rightarrow> message \<Rightarrow> ffdata list \<Rightarrow> uuid option
    \<Rightarrow> readiness ract" where
  "readyForDispatch E ag msg data tx =
     bindM (attemptM (onNode (resolveBlobs E (ag_namespace ag) data))) (\<lambda>resolved.
       case resolved of
         Inl err \<Rightarrow> retM (ActionRetry, None, Some err)
       | Inr False \<Rightarrow> retM (ActionWait, None, None)
       | Inr True \<Rightarrow>
           bindM (if needsTokenTransfer msg
                  then onNode (checkEvidence (GetTokenTransfers E (ag_namespace ag) (mh_ID (m_Header msg))) msg)
                  else retM None) (\<lambda>res1.
           case res1 of
             Some r \<Rightarrow> retM r
           | None \<Rightarrow>
               bindM (if needsTokenApproval msg
                      then onNode (checkEvidence (GetTokenApprovals E (ag_namespace ag) (mh_ID (m_Header msg))) msg)
                      else retM None) (\<lambda>res2.
               case res2 of
                 Some r \<Rightarrow> retM r
               | None \<Rightarrow> validateForDispatch E ag msg data tx)))"

section \<open>Dispatch\<close>

fun insert_topic_events :: "env \<Rightarrow> string \<Rightarrow> event_type \<Rightarrow> message \<Rightarrow> uuid option \<Rightarrow> uuid option
    \<Rightarrow> string list \<Rightarrow> unit nact" where
  "insert_topic_events E ns eventType msg correlator tx [] = retM ()"
| "insert_topic_events E ns eventType msg correlator tx (topic # topics) =
     bindM (newUUID E) (\<lambda>i. bindM (nowM E) (\<lambda>t.
       let event = NewEvent i t eventType ns (mh_ID (m_Header msg)) tx topic;
           event = event \<lparr> ev_Correlator := (case correlator of None \<Rightarrow> mh_CID (m_Header msg) | Some c \<Rightarrow> Some c) \<rparr>
       in bindM (InsertEvent E event) (\<lambda>_. insert_topic_events E ns eventType msg correlator tx topics)))"

definition completeDispatch :: "env \<Rightarrow> aggregator \<Rightarrow> message_action \<Rightarrow> uuid option \<Rightarrow> message \<Rightarrow> uuid option
    \<Rightarrow> message_state ract" where
  "completeDispatch E ag action correlator msg tx =
     (let newState = (if action = ActionConfirm then MS_Confirmed else MS_Rejected);
          eventType = (if action = ActionConfirm then ET_MessageConfirmed else ET_MessageRejected)
      in bindM (if action = ActionConfirm
                then (case mh_ID (m_Header msg) of
                        None \<Rightarrow> throwM (GoPanic ''nil message ID'')
                      | Some i \<Rightarrow> modifyCore (AddPendingConfirm i msg))
                else retM ()) (\<lambda>_.
         bindM (modifyCore (AddFinalize
           (insert_topic_events E (ag_namespace ag) eventType msg correlator tx (mh_Topics (m_Header msg))))) (\<lambda>_.
         retM newState)))"

text \<open>
  The contexts of a message: \<open>Inl\<close> when they are not all ready, the next pins to spend
  otherwise. The pin strings may carry the nonce after a colon.
\<close>

fun checkMaskedPins :: "env \<Rightarrow> aggregator \<Rightarrow> message \<Rightarrow> batch_persisted \<Rightarrow> bytes32 \<Rightarrow> int
    \<Rightarrow> (string \<times> string) list \<Rightarrow> next_pin_state list option ract" where
  "checkMaskedPins E ag msg batch groupID sq [] = retM (Some [])"
| "checkMaskedPins E ag msg batch groupID sq ((topic, pinStr) # rest) =
     (case e_unhex E (hd (split_on (CHR '':'') pinStr)) of
        None \<Rightarrow> retM None
      | Some msgContext \<Rightarrow>
          bindM (checkMaskedContextReady E (ag_namespace ag) msg batch groupID topic sq msgContext) (\<lambda>np.
            case np of
              None \<Rightarrow> retM None
            | Some np \<Rightarrow> bindM (checkMaskedPins E ag msg batch groupID sq rest) (\<lambda>nps.
                retM (map_option ((#) np) nps))))"

fun checkUnmaskedTopics :: "env \<Rightarrow> string \<Rightarrow> int \<Rightarrow> string list \<Rightarrow> bool ract" where
  "checkUnmaskedTopics E ns sq [] = retM True"
| "checkUnmaskedTopics E ns sq (topic # topics) =
     bindM (checkUnmaskedContextReady E ns (broadcastContext E topic) sq) (\<lambda>ready.
       if \<not> ready then retM False else checkUnmaskedTopics E ns sq topics)"

text \<open>The next pins to spend when every context of the message is ready.\<close>

definition checkContexts :: "env \<Rightarrow> aggregator \<Rightarrow> message \<Rightarrow> batch_persisted \<Rightarrow> pin
    \<Rightarrow> next_pin_state list option ract" where
  "checkContexts E ag msg batch pin =
     (if p_Masked pin then
        (case mh_Group (m_Header msg) of
           None \<Rightarrow> retM None
         | Some g \<Rightarrow>
             if length (m_Pins msg) = 0 \<or> length (mh_Topics (m_Header msg)) \<noteq> length (m_Pins msg)
             then retM None
             else checkMaskedPins E ag msg batch g (p_Sequence pin)
                    (zip (mh_Topics (m_Header msg)) (m_Pins msg)))
      else bindM (checkUnmaskedTopics E (ag_namespace ag) (p_Sequence pin) (mh_Topics (m_Header msg))) (\<lambda>ready.
             retM (if ready then Some [] else None)))"

definition unmasked_contexts :: "env \<Rightarrow> message \<Rightarrow> pin \<Rightarrow> bytes32 list" where
  "unmasked_contexts E msg pin =
     (if p_Masked pin then [] else map (broadcastContext E) (mh_Topics (m_Header msg)))"

text \<open>The cached message is shared, so the reason of a rejection shows in the cache.\<close>

definition set_cached_reason :: "env \<Rightarrow> uuid option \<Rightarrow> string \<Rightarrow> unit nact" where
  "set_cached_reason E i reason = modifyM (\<lambda>nd.
     case map_of (nd_msgcache nd) (msg_key E i) of
       None \<Rightarrow> nd
     | Some mce \<Rightarrow> nd \<lparr> nd_msgcache := assoc_put (msg_key E i)
         (mce \<lparr> mce_msg := (mce_msg mce) \<lparr> m_RejectReason := reason \<rparr> \<rparr>) (nd_msgcache nd) \<rparr>)"

definition dispatchMessage :: "env \<Rightarrow> aggregator \<Rightarrow> message_action \<Rightarrow> uuid option \<Rightarrow> fferr option
    \<Rightarrow> message \<Rightarrow> batch_manifest \<Rightarrow> next_pin_state list \<Rightarrow> int \<Rightarrow> unit ract" where
  "dispatchMessage E ag action correlator err msg manifest nextPins msgBaseIndex =
     bindM (if action = ActionReject \<and> err \<noteq> None
            then bindM (onNode (set_cached_reason E (mh_ID (m_Header msg)) (e_errtext E (the err)))) (\<lambda>_.
                   retM (msg \<lparr> m_RejectReason := e_errtext E (the err) \<rparr>))
            else retM msg) (\<lambda>msg.
     bindM (completeDispatch E ag action correlator msg (tr_ID (bm_TX manifest))) (\<lambda>newState.
     bindM (forM nextPins (IncrementNextPin E (ag_namespace ag))) (\<lambda>_.
     markMessageDispatched (bm_ID manifest) msg msgBaseIndex newState)))"

text \<open>What is left of the message once its action is known.\<close>

definition finishMessage :: "env \<Rightarrow> aggregator \<Rightarrow> readiness \<Rightarrow> message \<Rightarrow> batch_manifest \<Rightarrow> pin
    \<Rightarrow> next_pin_state list \<Rightarrow> int \<Rightarrow> unit ract" where
  "finishMessage E ag res msg manifest pin nextPins msgBaseIndex =
     (case res of
        (ActionRetry, _, err) \<Rightarrow> (case err of None \<Rightarrow> retM () | Some e \<Rightarrow> throwM e)
      | (ActionWait, _, _) \<Rightarrow>
          forM (unmasked_contexts E msg pin) (\<lambda>ctx. SetContextBlockedBy ctx (p_Sequence pin))
      | (action, correlator, err) \<Rightarrow>
          dispatchMessage E ag action correlator err msg manifest nextPins msgBaseIndex)"

text \<open>
  A message that is not available, is missing data, or waits for its signer leaves
  before its contexts are computed, with nothing blocked.
\<close>

definition processMessage :: "env \<Rightarrow> aggregator \<Rightarrow> batch_manifest \<Rightarrow> pin \<Rightarrow> int \<Rightarrow> manifest_entry
    \<Rightarrow> batch_persisted \<Rightarrow> unit ract" where
  "processMessage E ag manifest pin msgBaseIndex msgEntry batch =
     bindM (onNode (GetMessageWithDataCached E (ag_namespace ag) (me_ID msgEntry)
              [if p_Masked pin then CRORequirePins else CRORequirePublicBlobRefs])) (\<lambda>(msgo, data, dataAvailable).
       case msgo of
         None \<Rightarrow> retM ()
       | Some msg \<Rightarrow>
           if \<not> dataAvailable then retM ()
           else bindM (onNode (checkOnchainConsistency E ag msg pin)) (\<lambda>(action, err).
             if action = ActionWait then retM ()
             else if action = ActionRetry then (case err of None \<Rightarrow> retM () | Some e \<Rightarrow> throwM e)
             else bindM (checkContexts E ag msg batch pin) (\<lambda>ready.
               case ready of
                 None \<Rightarrow> retM ()
               | Some nextPins \<Rightarrow>
                   bindM (if action = ActionConfirm
                          then readyForDispatch E ag msg data (tr_ID (bm_TX manifest))
                          else retM (action, None, err)) (\<lambda>res.
                   finishMessage E ag res msg manifest pin nextPins msgBaseIndex))))"

section \<open>A page of pins\<close>

record pins_state =
  ps_localCache :: "uuid \<rightharpoonup> (batch_persisted \<times> batch_manifest) option"
  ps_dupMsgCheck :: "uuid list"

definition processPin :: "env \<Rightarrow> aggregator \<Rightarrow> pin \<Rightarrow> pins_state \<Rightarrow> pins_state ract" where
  "processPin E ag pin ps =
     bindM (case ps_localCache ps (p_Batch pin) of
              Some found \<Rightarrow> retM (found, ps)
            | None \<Rightarrow> bindM (onNode (GetBatchForPin E (ag_namespace ag) pin)) (\<lambda>found.
                retM (found, ps \<lparr> ps_localCache := (ps_localCache ps)(p_Batch pin \<mapsto> found) \<rparr>)))
     (\<lambda>(found, ps).
       case found of
         None \<Rightarrow> retM ps
       | Some (batch, manifest) \<Rightarrow>
           (case extractBatchMessagePin manifest (p_Index pin) of
              (_, None, _) \<Rightarrow> retM ps
            | (_, Some msgEntry, msgBaseIndex) \<Rightarrow>
                (case me_ID msgEntry of
                   None \<Rightarrow> throwM (GoPanic ''nil message ID'')
                 | Some i \<Rightarrow>
                     if i \<in> set (ps_dupMsgCheck ps) then retM ps
                     else bindM (processMessage E ag manifest pin msgBaseIndex msgEntry batch) (\<lambda>_.
                       retM (ps \<lparr> ps_dupMsgCheck := i # ps_dupMsgCheck ps \<rparr>)))))"

fun processPins_loop :: "env \<Rightarrow> aggregator \<Rightarrow> pin list \<Rightarrow> pins_state \<Rightarrow> pins_state ract" where
  "processPins_loop E ag [] ps = retM ps"
| "processPins_loop E ag (pin # pins) ps =
     bindM (processPin E ag pin ps) (\<lambda>ps. processPins_loop E ag pins ps)"

text \<open>
  The polling offset moves at once; the commit loop is told through a channel that holds one
  value, without blocking.
\<close>

definition commitOffset :: "int \<Rightarrow> unit nact" where
  "commitOffset offset = modifyM (\<lambda>nd. nd \<lparr> nd_offset := offset,
     nd_offsetCommitted := (case nd_offsetCommitted nd of None \<Rightarrow> Some offset | Some o1 \<Rightarrow> Some o1) \<rparr>)"

definition processPins :: "env \<Rightarrow> aggregator \<Rightarrow> pin list \<Rightarrow> unit ract" where
  "processPins E ag pins =
     bindM (processPins_loop E ag pins \<lparr> ps_localCache = Map.empty, ps_dupMsgCheck = [] \<rparr>) (\<lambda>_.
       if pins = [] then throwM (GoPanic ''index out of range'')
       else onNode (commitOffset (p_Sequence (last pins))))"

section \<open>A run\<close>

text \<open>The batch state lives for the run only: it is created here and dropped at the end.\<close>

definition processWithBatchState :: "env \<Rightarrow> string \<Rightarrow> unit ract \<Rightarrow> unit nact" where
  "processWithBatchState E ns callback =
     bindM (run_as_group E (\<lambda>nd.
       case callback (nd, newBatchState) of
         (Inl err, (nd', _)) \<Rightarrow> (Inl err, nd')
       | (Inr _, (nd', state)) \<Rightarrow>
           if cb_PreFinalize (bst_core state) = []
           then (case RunFinalize E ns state nd' of
                   (Inl err, nd'') \<Rightarrow> (Inl err, nd'')
                 | (Inr _, nd'') \<Rightarrow> (Inr state, nd''))
           else (Inr state, nd'))) (\<lambda>state.
     bindM (if cb_PreFinalize (bst_core state) \<noteq> []
            then bindM (RunPreFinalize state) (\<lambda>_. run_as_group E (RunFinalize E ns state))
            else retM ()) (\<lambda>_.
     queueRewinds state))"

definition processPinsEventsHandler :: "env \<Rightarrow> aggregator \<Rightarrow> pin list \<Rightarrow> bool nact" where
  "processPinsEventsHandler E ag pins =
     bindM (processWithBatchState E (ag_namespace ag) (processPins E ag pins)) (\<lambda>_. retM False)"

text \<open>The page the event poller reads: the undispatched pins after the offset, oldest first.\<close>

definition getPins :: "env \<Rightarrow> aggregator \<Rightarrow> int \<Rightarrow> nat \<Rightarrow> pin list nact" where
  "getPins E ag offset limit =
     GetPins E False (Some limit) (ag_namespace ag) (\<lambda>p. p_Sequence p > offset \<and> \<not> p_Dispatched p)"

text \<open>
  The oldest undispatched pin of the batches to rewind to: the offset to poll from, one
  before its sequence. One attempt of the retry loop.
\<close>

definition rewindOffchainBatches :: "env \<Rightarrow> aggregator \<Rightarrow> uuid list \<Rightarrow> int option nact" where
  "rewindOffchainBatches E ag batchIDs =
     (if batchIDs = [] then retM None
      else bindM (GetPins E False (Some 1) (ag_namespace ag)
                   (\<lambda>p. p_Batch p \<in> set batchIDs \<and> \<not> p_Dispatched p)) (\<lambda>sequences.
        case sequences of [] \<Rightarrow> retM None | p # _ \<Rightarrow> retM (Some (p_Sequence p - 1))))"

end
