(* ===== verification/Aggregator_Order.thy ===== *)
theory Aggregator_Order
  imports Aggregator
begin

text \<open>
  Ordering of the unmasked (broadcast) contexts in a run of the aggregator: the first
  check of a context looks for older undispatched pins, a context once blocked stays
  blocked for the rest of the page, and a message that is dispatched never overtakes a
  pin parked before the page. The last section holds the case the check misses: a pin of the same
  page that is skipped before its contexts are computed.
\<close>

section \<open>The first check of a context\<close>

lemma pin_rows_eq_Nil:
  "pin_rows True (Some 1) ns P db = [] \<longleftrightarrow> (\<forall>p \<in> set (db_pins db). \<not> (p_Namespace p = ns \<and> P p))"
  "pin_rows desc None ns P db = [] \<longleftrightarrow> (\<forall>p \<in> set (db_pins db). \<not> (p_Namespace p = ns \<and> P p))"
  by (auto simp: pin_rows_def Let_def filter_empty_conv)

lemma pin_rows_in:
  "p \<in> set (pin_rows desc lim ns P db) \<Longrightarrow> p \<in> set (db_pins db) \<and> p_Namespace p = ns \<and> P p"
  by (auto simp: pin_rows_def Let_def split: option.splits if_splits dest: in_set_takeD)

definition parked :: "string \<Rightarrow> bytes32 \<Rightarrow> int \<Rightarrow> pin list \<Rightarrow> bool" where
  "parked ns ctx sq pins \<longleftrightarrow>
     list_ex (\<lambda>p. p_Namespace p = ns \<and> p_Hash p = ctx \<and> \<not> p_Dispatched p \<and> p_Sequence p < sq) pins"

lemma checkUnmasked_fresh:
  assumes "bst_unmasked bs ctx = None" "list_all (\<lambda>p. p_Sequence p \<ge> 0) (db_pins (nd_db nd))"
    and "checkUnmaskedContextReady E ns ctx sq (nd, bs) = (Inr ready, (nd', bs'))"
  shows "ready = (\<not> parked ns ctx sq (db_pins (nd_db nd)))"
    "\<exists>b. bst_unmasked bs' = (bst_unmasked bs)(ctx \<mapsto> b) \<and> (b < 0 \<longleftrightarrow> ready)"
proof -
  let ?P = "\<lambda>p. p_Hash p = ctx \<and> \<not> p_Dispatched p \<and> p_Sequence p < sq"
  let ?rows = "pin_rows True (Some 1) ns ?P (nd_db nd)"
  have e: "?rows = [] \<longleftrightarrow> \<not> parked ns ctx sq (db_pins (nd_db nd))"
    unfolding pin_rows_eq_Nil by (auto simp: parked_def list_ex_iff)
  show "ready = (\<not> parked ns ctx sq (db_pins (nd_db nd)))"
    "\<exists>b. bst_unmasked bs' = (bst_unmasked bs)(ctx \<mapsto> b) \<and> (b < 0 \<longleftrightarrow> ready)"
  proof (atomize (full), cases ?rows)
    case Nil
    then show "ready = (\<not> parked ns ctx sq (db_pins (nd_db nd))) \<and>
      (\<exists>b. bst_unmasked bs' = (bst_unmasked bs)(ctx \<mapsto> b) \<and> (b < 0 \<longleftrightarrow> ready))"
      using assms(1,3) e
      by (auto simp: checkUnmaskedContextReady_def bindM_eq_Inr onNode_eq GetPins_def db_read_Inr
          intro!: exI [of _ "-1"])
  next
    case (Cons p ps)
    then have "p \<in> set ?rows" by simp
    then have "p_Sequence p \<ge> 0"
      using pin_rows_in assms(2) by (fastforce simp: list_all_iff)
    then show "ready = (\<not> parked ns ctx sq (db_pins (nd_db nd))) \<and>
      (\<exists>b. bst_unmasked bs' = (bst_unmasked bs)(ctx \<mapsto> b) \<and> (b < 0 \<longleftrightarrow> ready))"
      using assms(1,3) e Cons
      by (auto simp: checkUnmaskedContextReady_def bindM_eq_Inr onNode_eq GetPins_def db_read_Inr
          intro!: exI [of _ "p_Sequence p"])
  qed
qed

lemma checkUnmasked_seen:
  assumes "bst_unmasked bs ctx = Some b"
  shows "checkUnmaskedContextReady E ns ctx sq (nd, bs) = (Inr (b < 0), (nd, bs))"
  using assms by (auto simp: checkUnmaskedContextReady_def bindM_def getsBS_def getsM_def retM_def)

section \<open>What the processing of a pin keeps\<close>

text \<open>The definition handlers are required to leave the tables of the sequencing alone.\<close>

definition handlers_keep :: "(ffdb \<Rightarrow> 'b) \<Rightarrow> aggregator \<Rightarrow> bool" where
  "handlers_keep f ag \<longleftrightarrow>
     (\<forall>core msg data tx. keeps (\<lambda>nd. f (nd_db nd)) (ag_definitions ag core msg data tx))"

lemma keeps_idcache_set [keeps_intros]: "keeps (\<lambda>nd. f (nd_db nd)) (idcache_set k i)"
  unfolding idcache_set_def by (rule keeps_modify) simp

lemma keeps_FindIdentityForVerifier [keeps_intros]:
  "keeps (\<lambda>nd. f (nd_db nd)) (FindIdentityForVerifier E im ts v)"
  unfolding FindIdentityForVerifier_def cachedIdentityLookupByVerifierRef_def
    lookupByVerifierRef_in_def idcache_get_def db_reads
  by (intro keeps_intros)

lemma keeps_checkOnchainConsistency [keeps_intros]:
  "keeps (\<lambda>nd. f (nd_db nd)) (checkOnchainConsistency E ag msg pin)"
  unfolding checkOnchainConsistency_def Let_def by (intro keeps_intros)

lemma keeps_GetBatchForPin [keeps_intros]: "keeps (\<lambda>nd. f (nd_db nd)) (GetBatchForPin E ns pin)"
  unfolding GetBatchForPin_def Let_def cacheBatch_def db_reads
  by (intro keeps_intros keeps_modify) simp

lemma keeps_resolveBlobs [keeps_intros]: "keeps (\<lambda>nd. f (nd_db nd)) (resolveBlobs E ns ds)"
proof (induction ds)
  case (Cons d ds)
  show ?case unfolding resolveBlobs.simps db_reads by (intro keeps_intros Cons.IH)
qed (simp add: keeps_ret)

lemma keeps_checkEvidence [keeps_intros]: "keeps f query \<Longrightarrow> keeps f (checkEvidence query msg)"
  unfolding checkEvidence_def by (intro keeps_intros)

lemma keeps_set_cached_reason [keeps_intros]:
  "keeps (\<lambda>nd. f (nd_db nd)) (set_cached_reason E i r)"
  unfolding set_cached_reason_def by (rule keeps_modify) (simp split: option.splits)

lemma keeps_readyForDispatch:
  assumes "handlers_keep f ag"
  shows "keeps (\<lambda>s. f (nd_db (fst s))) (readyForDispatch E ag msg data tx)"
proof -
  have h: "keeps (\<lambda>nd. f (nd_db nd)) (ag_definitions ag core msg data tx)" for core
    using assms by (simp add: handlers_keep_def)
  show ?thesis
    unfolding readyForDispatch_def validateForDispatch_def db_reads
    by (intro keeps_intros keeps_onNode [where f = "\<lambda>nd. f (nd_db nd)"]
        keeps_modifyCore [where f = "\<lambda>nd. f (nd_db nd)"] h)
qed

lemma keeps_completeDispatch [keeps_intros]:
  "keeps (\<lambda>s. f (fst s)) (completeDispatch E ag a c msg tx)"
  unfolding completeDispatch_def Let_def by (intro keeps_intros)

lemma keeps_dispatchMessage:
  "keeps (\<lambda>s. f (nd_db (fst s))) (dispatchMessage E ag a c err msg mf nps i)"
  unfolding dispatchMessage_def IncrementNextPin_def markMessageDispatched_def
  by (intro keeps_intros keeps_onNode [where f = "\<lambda>nd. f (nd_db nd)"]
      keeps_modifyBS [where f = "\<lambda>nd. f (nd_db nd)"]
      keeps_completeDispatch [where f = "\<lambda>nd. f (nd_db nd)"])

section \<open>How the blocked contexts evolve over a page\<close>

text \<open>
  Against the pins of the tables (which the page does not change): a blocked context
  keeps its block, and a context is only recorded free when no undispatched pin of it
  lies before \<open>s0\<close>.
\<close>

definition um_evolves :: "string \<Rightarrow> int \<Rightarrow> pin list \<Rightarrow> (bytes32 \<rightharpoonup> int) \<Rightarrow> (bytes32 \<rightharpoonup> int) \<Rightarrow> bool" where
  "um_evolves ns s0 pins um um' \<longleftrightarrow>
     (\<forall>c b. um c = Some b \<and> 0 \<le> b \<longrightarrow> um' c = Some b) \<and>
     (\<forall>c b. um' c = Some b \<and> b < 0 \<longrightarrow> (\<exists>b'. um c = Some b' \<and> b' < 0) \<or> \<not> parked ns c s0 pins)"

lemma um_evolves_refl: "um_evolves ns s0 pins um um"
  by (auto simp: um_evolves_def)

lemma parked_mono: "parked ns c s0 pins \<Longrightarrow> s0 \<le> s1 \<Longrightarrow> parked ns c s1 pins"
  by (fastforce simp: parked_def list_ex_iff)

lemma um_evolves_fresh:
  assumes "um_evolves ns s0 pins um0 um" "um c = None" "b < 0 \<longrightarrow> \<not> parked ns c sq pins" "s0 \<le> sq"
  shows "um_evolves ns s0 pins um0 (um(c \<mapsto> b))"
  using assms parked_mono by (fastforce simp: um_evolves_def)

definition ord_view :: "run \<Rightarrow> pin list \<times> (bytes32 \<rightharpoonup> int)" where
  "ord_view s = (db_pins (nd_db (fst s)), bst_unmasked (snd s))"

definition ord_inv :: "string \<Rightarrow> int \<Rightarrow> pin list \<Rightarrow> (bytes32 \<rightharpoonup> int) \<Rightarrow> pin list \<times> (bytes32 \<rightharpoonup> int) \<Rightarrow> bool" where
  "ord_inv ns s0 pins um0 v \<longleftrightarrow> fst v = pins \<and> um_evolves ns s0 pins um0 (snd v)"

lemma keeps_pair: "keeps f m \<Longrightarrow> keeps g m \<Longrightarrow> keeps (\<lambda>s. (f s, g s)) m"
  by (simp add: keeps_def)

lemma ord_view_onNode:
  assumes "keeps (\<lambda>nd. db_pins (nd_db nd)) m"
  shows "keeps ord_view (onNode m)"
  using keeps_onNode [OF assms] keeps_onNode_bs [of bst_unmasked m]
  by (auto simp: keeps_def ord_view_def)

lemma ord_view_modifyBS: "(\<And>bs. bst_unmasked (g bs) = bst_unmasked bs) \<Longrightarrow> keeps ord_view (modifyBS g)"
  by (auto simp: keeps_def ord_view_def modifyBS_def monad_defs)

lemma ord_view_modifyCore: "keeps ord_view (modifyCore g)"
  unfolding modifyCore_def by (rule ord_view_modifyBS) simp

lemma ord_view_checkMasked: "keeps ord_view (checkMaskedContextReady E ns msg b g t sq pin)"
proof -
  have r: "keeps (\<lambda>nd. db_pins (nd_db nd)) (ResolveInitGroup E ns msg mem)" for mem
    using keeps_ResolveInitGroup [of E ns msg mem] by (auto simp: keeps_def seq_tables_def)
  show ?thesis
    unfolding checkMaskedContextReady_def stateForMaskedContext_def attemptContextInit_def Let_def
      GetPins_def GetNextPinsForContext_def
    by (intro keeps_intros ord_view_onNode r ord_view_modifyBS
        keeps_db_read [where f = db_pins]) simp_all
qed

lemma preserves_checkUnmasked:
  assumes "s0 \<le> sq" "list_all (\<lambda>p. 0 \<le> p_Sequence p) pins"
  shows "preserves (\<lambda>s. ord_inv ns s0 pins um0 (ord_view s)) (checkUnmaskedContextReady E ns ctx sq)"
proof (rule preservesI)
  fix s x s'
  assume I: "ord_inv ns s0 pins um0 (ord_view s)" and r: "checkUnmaskedContextReady E ns ctx sq s = (Inr x, s')"
  obtain nd bs nd' bs' where s: "s = (nd, bs)" "s' = (nd', bs')" by (cases s; cases s')
  have p: "db_pins (nd_db nd') = db_pins (nd_db nd)"
    using keepsD [OF keeps_checkUnmaskedContextReady r] by (simp add: seq_tables_def s)
  show "ord_inv ns s0 pins um0 (ord_view s')"
  proof (cases "bst_unmasked bs ctx")
    case None
    have d: "db_pins (nd_db nd) = pins" and e: "um_evolves ns s0 pins um0 (bst_unmasked bs)"
      using I by (simp_all add: ord_inv_def ord_view_def s)
    have l: "list_all (\<lambda>p. 0 \<le> p_Sequence p) (db_pins (nd_db nd))"
      using assms(2) d by simp
    obtain b where b: "bst_unmasked bs' = (bst_unmasked bs)(ctx \<mapsto> b)" "b < 0 \<longleftrightarrow> x"
      using checkUnmasked_fresh(2) [OF None l r [unfolded s]] by blast
    have "x = (\<not> parked ns ctx sq pins)"
      using checkUnmasked_fresh(1) [OF None l r [unfolded s]] d by simp
    then have "um_evolves ns s0 pins um0 (bst_unmasked bs')"
      unfolding b(1) by (intro um_evolves_fresh [OF e None _ assms(1)]) (simp add: b(2))
    then show ?thesis using p d by (simp add: ord_inv_def ord_view_def s)
  next
    case (Some b)
    then show ?thesis
      using r I by (simp add: checkUnmasked_seen s)
  qed
qed

lemma preserves_SetContextBlockedBy:
  assumes "0 \<le> sq"
  shows "preserves (\<lambda>s. ord_inv ns s0 pins um0 (ord_view s)) (SetContextBlockedBy ctx sq)"
proof (rule preservesI)
  fix s x s'
  assume I: "ord_inv ns s0 pins um0 (ord_view s)" and r: "SetContextBlockedBy ctx sq s = (Inr x, s')"
  then show "ord_inv ns s0 pins um0 (ord_view s')"
    using assms
    by (cases s; cases "bst_unmasked (snd s) ctx")
      (fastforce simp: SetContextBlockedBy_def ord_inv_def ord_view_def um_evolves_def split: if_splits)+
qed

lemma preserves_processMessage:
  assumes "handlers_keep db_pins ag" "s0 \<le> p_Sequence pin" "0 \<le> p_Sequence pin"
    and "list_all (\<lambda>p. 0 \<le> p_Sequence p) pins"
  shows "preserves (\<lambda>s. ord_inv (ag_namespace ag) s0 pins um0 (ord_view s))
    (processMessage E ag mf pin base entry b)"
proof -
  let ?I = "\<lambda>s. ord_inv (ag_namespace ag) s0 pins um0 (ord_view s)"
  note k = preserves_keeps [where f = ord_view and J = "ord_inv (ag_namespace ag) s0 pins um0"]
  have h: "keeps (\<lambda>nd. db_pins (nd_db nd)) (ag_definitions ag core msg data tx)" for core msg data tx
    using assms(1) by (simp add: handlers_keep_def)
  have topics: "preserves ?I (checkUnmaskedTopics E (ag_namespace ag) (p_Sequence pin) ts)" for ts
  proof (induction ts)
    case (Cons t ts)
    show ?case unfolding checkUnmaskedTopics.simps
      by (intro preserves_intros preserves_checkUnmasked assms Cons.IH)
  qed (simp add: preserves_ret)
  have masked: "preserves ?I (checkMaskedPins E ag msg b g (p_Sequence pin) tps)" for msg g tps
  proof (induction tps)
    case (Cons tp tps)
    obtain t p where tp: "tp = (t, p)" by (cases tp)
    show ?case unfolding tp checkMaskedPins.simps
      by (intro preserves_intros k ord_view_checkMasked Cons.IH)
  qed (simp add: preserves_ret)
  have ready: "keeps ord_view (readyForDispatch E ag msg data tx)" for msg data tx
    unfolding readyForDispatch_def validateForDispatch_def db_reads
    by (intro keeps_intros ord_view_onNode h ord_view_modifyCore)
  have disp: "keeps ord_view (dispatchMessage E ag a c err msg mf nps i)" for a c err msg nps i
    unfolding dispatchMessage_def IncrementNextPin_def markMessageDispatched_def completeDispatch_def Let_def
    by (intro keeps_intros ord_view_onNode ord_view_modifyCore ord_view_modifyBS) (simp_all split: option.splits)
  have fin: "preserves ?I (finishMessage E ag res msg mf pin nps i)" for res msg nps i
    unfolding finishMessage_def
    by (cases res; cases "fst res")
      (auto intro!: preserves_intros preserves_SetContextBlockedBy assms k [OF disp] split: option.splits)
  show ?thesis
    unfolding processMessage_def checkContexts_def
    by (intro preserves_intros topics masked fin k ord_view_onNode ready keeps_intros)
qed

section \<open>What a dispatch needs\<close>

lemma checkUnmasked_mono:
  assumes "checkUnmaskedContextReady E ns ctx sq s = (Inr ready, s')"
  shows "bst_unmasked (snd s) \<subseteq>\<^sub>m bst_unmasked (snd s')"
    "ready \<Longrightarrow> \<exists>b < 0. bst_unmasked (snd s') ctx = Some b"
    "bst_unmasked (snd s) ctx = Some b \<Longrightarrow> ready = (b < 0)"
proof -
  obtain nd bs nd' bs' where s: "s = (nd, bs)" "s' = (nd', bs')" by (cases s; cases s')
  have "bst_unmasked bs \<subseteq>\<^sub>m bst_unmasked bs' \<and>
      (ready \<longrightarrow> (\<exists>b < 0. bst_unmasked bs' ctx = Some b)) \<and>
      (\<forall>b. bst_unmasked bs ctx = Some b \<longrightarrow> ready = (b < 0))"
  proof (cases "bst_unmasked bs ctx")
    case (Some b)
    then show ?thesis using assms by (auto simp: s checkUnmasked_seen)
  next
    case None
    then obtain rows nd1 where "GetPins E True (Some 1) ns
        (\<lambda>p. p_Hash p = ctx \<and> \<not> p_Dispatched p \<and> p_Sequence p < sq) nd = (Inr rows, nd1)"
      and r: "(case rows of [] \<Rightarrow> retM True
           | p # _ \<Rightarrow>
               bindM (modifyBS (\<lambda>bs. bs \<lparr> bst_unmasked := (bst_unmasked bs)(ctx \<mapsto> p_Sequence p) \<rparr>)) (\<lambda>_.
               retM (\<not> p_Sequence p \<ge> 0))) (nd1, bs \<lparr> bst_unmasked := (bst_unmasked bs)(ctx \<mapsto> -1) \<rparr>)
        = (Inr ready, s')"
      using assms by (auto simp: s checkUnmaskedContextReady_def bindM_eq_Inr onNode_eq')
    show ?thesis
      using r None by (cases rows) (auto simp: s bindM_eq_Inr map_le_def)
  qed
  then show "bst_unmasked (snd s) \<subseteq>\<^sub>m bst_unmasked (snd s')"
    "ready \<Longrightarrow> \<exists>b < 0. bst_unmasked (snd s') ctx = Some b"
    "bst_unmasked (snd s) ctx = Some b \<Longrightarrow> ready = (b < 0)"
    by (auto simp: s)
qed

lemma map_le_Some: "m \<subseteq>\<^sub>m m' \<Longrightarrow> m k = Some v \<Longrightarrow> m' k = Some v"
  by (metis domI map_le_def)

lemma checkUnmaskedTopics_mono:
  "checkUnmaskedTopics E ns sq ts s = (Inr ready, s') \<Longrightarrow>
     bst_unmasked (snd s) \<subseteq>\<^sub>m bst_unmasked (snd s') \<and>
     (ready \<longrightarrow> (\<forall>t \<in> set ts. \<exists>b < 0. bst_unmasked (snd s') (broadcastContext E t) = Some b))"
proof (induction ts arbitrary: s)
  case (Cons t ts)
  from Cons.prems obtain r s1 where
    c: "checkUnmaskedContextReady E ns (broadcastContext E t) sq s = (Inr r, s1)"
    and rest: "(if \<not> r then retM False else checkUnmaskedTopics E ns sq ts) s1 = (Inr ready, s')"
    by (auto simp: bindM_eq_Inr)
  note m = checkUnmasked_mono [OF c]
  show ?case
  proof (cases r)
    case True
    then have "checkUnmaskedTopics E ns sq ts s1 = (Inr ready, s')" using rest by simp
    from Cons.IH [OF this] m True show ?thesis
      by (auto intro: map_le_trans dest: map_le_Some)
  next
    case False
    then show ?thesis using rest m by auto
  qed
qed simp

lemma forM_inv:
  "forM xs f s = (Inr (), s') \<Longrightarrow> (\<And>x. x \<in> set xs \<Longrightarrow> keeps g (f x)) \<Longrightarrow> g s' = g s"
  by (rule keepsD [OF keeps_forM])

lemma keeps_disp_onNode: "keeps (\<lambda>s. bst_dispatched (snd s)) (onNode m)"
  by (rule keeps_onNode_bs [where f = bst_dispatched])

lemma keeps_disp_modifyCore: "keeps (\<lambda>s. bst_dispatched (snd s)) (modifyCore g)"
  unfolding modifyCore_def by (rule keeps_modifyBS_snd) simp

lemma keeps_disp_readyForDispatch: "keeps (\<lambda>s. bst_dispatched (snd s)) (readyForDispatch E ag msg data tx)"
  unfolding readyForDispatch_def validateForDispatch_def
  by (intro keeps_intros keeps_disp_onNode keeps_disp_modifyCore)

lemma keeps_disp_checkUnmaskedTopics:
  "keeps (\<lambda>s. bst_dispatched (snd s)) (checkUnmaskedTopics E ns sq ts)"
proof (induction ts)
  case (Cons t ts)
  show ?case unfolding checkUnmaskedTopics.simps by (intro keeps_intros Cons.IH)
qed (simp add: keeps_ret)

lemma keeps_disp_checkMaskedPins:
  "keeps (\<lambda>s. bst_dispatched (snd s)) (checkMaskedPins E ag msg b g sq tps)"
proof (induction tps)
  case (Cons tp tps)
  obtain t p where tp: "tp = (t, p)" by (cases tp)
  show ?case unfolding tp checkMaskedPins.simps by (intro keeps_intros Cons.IH)
qed (simp add: keeps_ret)

lemma keeps_disp_checkContexts: "keeps (\<lambda>s. bst_dispatched (snd s)) (checkContexts E ag msg b pin)"
  unfolding checkContexts_def
  by (intro keeps_intros keeps_disp_checkUnmaskedTopics keeps_disp_checkMaskedPins)

lemma dispatchMessage_dispatched:
  assumes "dispatchMessage E ag action correlator err msg mf nps base s = (Inr (), s')"
  shows "\<exists>dm. bst_dispatched (snd s') = bst_dispatched (snd s) @ [dm] \<and> dm_batchID dm = bm_ID mf \<and>
      dm_msgID dm = mh_ID (m_Header msg) \<and> dm_firstPinIndex dm = base \<and>
      dm_topicCount dm = length (mh_Topics (m_Header msg)) \<and>
      dm_newState dm = (if action = ActionConfirm then MS_Confirmed else MS_Rejected)"
    "bst_unmasked (snd s') = bst_unmasked (snd s)"
proof -
  let ?reason = "if action = ActionReject \<and> err \<noteq> None
            then bindM (onNode (set_cached_reason E (mh_ID (m_Header msg)) (e_errtext E (the err)))) (\<lambda>_.
                   retM (msg \<lparr> m_RejectReason := e_errtext E (the err) \<rparr>))
            else retM msg"
  obtain msg' s1 st s2 s3 where
    1: "?reason s = (Inr msg', s1)"
    and 2: "completeDispatch E ag action correlator msg' (tr_ID (bm_TX mf)) s1 = (Inr st, s2)"
    and 3: "forM nps (IncrementNextPin E (ag_namespace ag)) s2 = (Inr (), s3)"
    and 4: "markMessageDispatched (bm_ID mf) msg' base st s3 = (Inr (), s')"
    using assms unfolding dispatchMessage_def by (auto simp: bindM_eq_Inr)
  let ?g = "\<lambda>s :: run. (bst_dispatched (snd s), bst_unmasked (snd s))"
  have h: "m_Header msg' = m_Header msg" using 1 by (auto simp: bindM_eq_Inr split: if_splits)
  have k1: "?g s1 = ?g s"
    using 1 by (auto simp: bindM_eq_Inr onNode_eq' split: if_splits)
  have mb: "keeps ?g (modifyCore f)" for f
    by (auto simp: keeps_def modifyCore_def modifyBS_def monad_defs)
  have "keeps ?g (completeDispatch E ag action correlator msg' (tr_ID (bm_TX mf)))"
    unfolding completeDispatch_def Let_def by (intro keeps_intros mb)
  then have k2: "?g s2 = ?g s1" using 2 by (rule keepsD)
  have st: "st = (if action = ActionConfirm then MS_Confirmed else MS_Rejected)"
    using 2 by (auto simp: completeDispatch_def Let_def bindM_eq_Inr split: if_splits)
  have k3: "?g s3 = ?g s2"
    by (rule forM_inv [OF 3]) (auto simp: keeps_def IncrementNextPin_def modifyBS_def monad_defs split: option.splits)
  show "\<exists>dm. bst_dispatched (snd s') = bst_dispatched (snd s) @ [dm] \<and> dm_batchID dm = bm_ID mf \<and>
      dm_msgID dm = mh_ID (m_Header msg) \<and> dm_firstPinIndex dm = base \<and>
      dm_topicCount dm = length (mh_Topics (m_Header msg)) \<and>
      dm_newState dm = (if action = ActionConfirm then MS_Confirmed else MS_Rejected)"
    "bst_unmasked (snd s') = bst_unmasked (snd s)"
    using 4 k1 k2 k3 h st by (cases s3; simp add: markMessageDispatched_def)+
qed

text \<open>
  The message a dispatching call of \<open>processMessage\<close> worked on, with its record, the
  contexts found ready and the state before the dispatch.
\<close>

lemma processMessage_cases:
  assumes "processMessage E ag mf pin base entry b s = (Inr (), s')"
    and "bst_dispatched (snd s') \<noteq> bst_dispatched (snd s)"
  obtains msg data nd1 nps s1 s2 s3 act cor er dm where
    "GetMessageWithDataCached E (ag_namespace ag) (me_ID entry)
       [if p_Masked pin then CRORequirePins else CRORequirePublicBlobRefs] (fst s) = (Inr (Some msg, data, True), nd1)"
    "snd s1 = snd s" "checkContexts E ag msg b pin s1 = (Inr (Some nps), s2)"
    "act = ActionConfirm \<or> act = ActionReject"
    "bst_dispatched (snd s3) = bst_dispatched (snd s)"
    "dispatchMessage E ag act cor er msg mf nps base s3 = (Inr (), s')"
    "bst_unmasked (snd s3) = bst_unmasked (snd s2)"
    "bst_dispatched (snd s') = bst_dispatched (snd s) @ [dm]" "dm_batchID dm = bm_ID mf"
    "dm_msgID dm = mh_ID (m_Header msg)" "dm_firstPinIndex dm = base"
    "dm_topicCount dm = length (mh_Topics (m_Header msg))"
    "dm_newState dm = (if act = ActionConfirm then MS_Confirmed else MS_Rejected)"
proof -
  let ?get = "GetMessageWithDataCached E (ag_namespace ag) (me_ID entry)
       [if p_Masked pin then CRORequirePins else CRORequirePublicBlobRefs]"
  obtain msgo data av sa where g: "?get (fst s) = (Inr (msgo, data, av), fst sa)" "snd sa = snd s"
    and rest: "(case msgo of None \<Rightarrow> retM () | Some msg \<Rightarrow>
           if \<not> av then retM ()
           else bindM (onNode (checkOnchainConsistency E ag msg pin)) (\<lambda>(action, err).
             if action = ActionWait then retM ()
             else if action = ActionRetry then (case err of None \<Rightarrow> retM () | Some e \<Rightarrow> throwM e)
             else bindM (checkContexts E ag msg b pin) (\<lambda>ready.
               case ready of
                 None \<Rightarrow> retM ()
               | Some nextPins \<Rightarrow>
                   bindM (if action = ActionConfirm
                          then readyForDispatch E ag msg data (tr_ID (bm_TX mf))
                          else retM (action, None, err)) (\<lambda>res.
                   finishMessage E ag res msg mf pin nextPins base)))) sa = (Inr (), s')"
    using assms(1) unfolding processMessage_def by (fastforce simp: bindM_eq_Inr onNode_eq')
  obtain msg where msg: "msgo = Some msg" and av: "av"
    using rest assms(2) g(2) by (cases msgo; cases av) auto
  obtain action err s1 where oc: "snd s1 = snd sa"
    and rest1: "(if action = ActionWait then retM ()
             else if action = ActionRetry then (case err of None \<Rightarrow> retM () | Some e \<Rightarrow> throwM e)
             else bindM (checkContexts E ag msg b pin) (\<lambda>ready.
               case ready of
                 None \<Rightarrow> retM ()
               | Some nextPins \<Rightarrow>
                   bindM (if action = ActionConfirm
                          then readyForDispatch E ag msg data (tr_ID (bm_TX mf))
                          else retM (action, None, err)) (\<lambda>res.
                   finishMessage E ag res msg mf pin nextPins base))) s1 = (Inr (), s')"
    using rest msg av by (fastforce simp: bindM_eq_Inr onNode_eq')
  have s1: "snd s1 = snd s" using oc g(2) by simp
  have na: "action \<noteq> ActionWait" "action \<noteq> ActionRetry"
    using rest1 assms(2) s1 by (auto split: if_splits option.splits)
  obtain ready s2 where cc: "checkContexts E ag msg b pin s1 = (Inr ready, s2)"
    and rest2: "(case ready of
                 None \<Rightarrow> retM ()
               | Some nextPins \<Rightarrow>
                   bindM (if action = ActionConfirm
                          then readyForDispatch E ag msg data (tr_ID (bm_TX mf))
                          else retM (action, None, err)) (\<lambda>res.
                   finishMessage E ag res msg mf pin nextPins base)) s2 = (Inr (), s')"
    using rest1 na by (auto simp: bindM_eq_Inr)
  have d2: "bst_dispatched (snd s2) = bst_dispatched (snd s)"
    using keepsD [OF keeps_disp_checkContexts cc] s1 by simp
  obtain nps where nps: "ready = Some nps"
    using rest2 assms(2) d2 by (cases ready) auto
  let ?rfd = "if action = ActionConfirm then readyForDispatch E ag msg data (tr_ID (bm_TX mf))
              else retM (action, None, err)"
  obtain act cor er s3 where rd: "?rfd s2 = (Inr (act, cor, er), s3)"
    and f: "finishMessage E ag (act, cor, er) msg mf pin nps base s3 = (Inr (), s')"
    using rest2 nps by (fastforce simp: bindM_eq_Inr)
  have d3: "bst_dispatched (snd s3) = bst_dispatched (snd s2)"
    using rd keepsD [OF keeps_disp_readyForDispatch] by (auto split: if_splits)
  have u3: "bst_unmasked (snd s3) = bst_unmasked (snd s2)"
  proof -
    have mb: "keeps (\<lambda>s :: run. bst_unmasked (snd s)) (modifyCore f)" for f
      unfolding modifyCore_def by (rule keeps_modifyBS_snd) simp
    have "keeps (\<lambda>s. bst_unmasked (snd s)) (readyForDispatch E ag msg data (tr_ID (bm_TX mf)))"
      unfolding readyForDispatch_def validateForDispatch_def
      by (intro keeps_intros mb keeps_onNode_bs [where f = bst_unmasked])
    then show ?thesis using rd keepsD by (auto split: if_splits)
  qed
  have act: "act = ActionConfirm \<or> act = ActionReject"
  proof (rule ccontr)
    assume "\<not> ?thesis"
    then have "act = ActionRetry \<or> act = ActionWait" by (cases act) auto
    then have "bst_dispatched (snd s') = bst_dispatched (snd s3)"
    proof
      assume "act = ActionRetry"
      then show ?thesis using f by (auto simp: finishMessage_def split: option.splits)
    next
      assume "act = ActionWait"
      then have "forM (unmasked_contexts E msg pin) (\<lambda>ctx. SetContextBlockedBy ctx (p_Sequence pin)) s3 = (Inr (), s')"
        using f by (simp add: finishMessage_def)
      then show ?thesis
        by (rule forM_inv) (auto simp: keeps_def SetContextBlockedBy_def modifyBS_def monad_defs split: option.splits)
    qed
    then show False using d3 d2 assms(2) by simp
  qed
  then have dsp: "dispatchMessage E ag act cor er msg mf nps base s3 = (Inr (), s')"
    using f by (auto simp: finishMessage_def)
  obtain dm where dm: "bst_dispatched (snd s') = bst_dispatched (snd s3) @ [dm]" "dm_batchID dm = bm_ID mf"
      "dm_msgID dm = mh_ID (m_Header msg)" "dm_firstPinIndex dm = base"
      "dm_topicCount dm = length (mh_Topics (m_Header msg))"
      "dm_newState dm = (if act = ActionConfirm then MS_Confirmed else MS_Rejected)"
    using dispatchMessage_dispatched(1) [OF dsp] by blast
  have g1: "?get (fst s) = (Inr (Some msg, data, True), fst sa)"
    using g(1) msg av by simp
  have d: "bst_dispatched (snd s3) = bst_dispatched (snd s)"
      "bst_dispatched (snd s') = bst_dispatched (snd s) @ [dm]"
    using d2 d3 dm(1) by simp_all
  show ?thesis
    by (rule that [OF g1 s1 cc [unfolded nps] act d(1) dsp u3 d(2) dm(2-6)])
qed

section \<open>A page\<close>

lemma ord_view_GetBatchForPin: "keeps ord_view (onNode (GetBatchForPin E ns pin))"
  by (intro ord_view_onNode keeps_intros)

lemma processPin_cases:
  assumes "processPin E ag pin ps s = (Inr ps', s')"
    and "bst_dispatched (snd s') \<noteq> bst_dispatched (snd s)"
  obtains batch mf cnt entry base i s0 where
    "snd s0 = snd s" "extractBatchMessagePin mf (p_Index pin) = (cnt, Some entry, base)"
    "me_ID entry = Some i" "i \<notin> set (ps_dupMsgCheck ps)" "ps_dupMsgCheck ps' = i # ps_dupMsgCheck ps"
    "processMessage E ag mf pin base entry batch s0 = (Inr (), s')"
proof -
  obtain found psa s0 where f: "(case ps_localCache ps (p_Batch pin) of
              Some found \<Rightarrow> retM (found, ps)
            | None \<Rightarrow> bindM (onNode (GetBatchForPin E (ag_namespace ag) pin)) (\<lambda>found.
                retM (found, ps \<lparr> ps_localCache := (ps_localCache ps)(p_Batch pin \<mapsto> found) \<rparr>))) s
        = (Inr (found, psa), s0)"
    and r: "(case found of
         None \<Rightarrow> retM psa
       | Some (batch, manifest) \<Rightarrow>
           (case extractBatchMessagePin manifest (p_Index pin) of
              (_, None, _) \<Rightarrow> retM psa
            | (_, Some msgEntry, msgBaseIndex) \<Rightarrow>
                (case me_ID msgEntry of
                   None \<Rightarrow> throwM (GoPanic ''nil message ID'')
                 | Some i \<Rightarrow>
                     if i \<in> set (ps_dupMsgCheck psa) then retM psa
                     else bindM (processMessage E ag manifest pin msgBaseIndex msgEntry batch) (\<lambda>_.
                       retM (psa \<lparr> ps_dupMsgCheck := i # ps_dupMsgCheck psa \<rparr>))))) s0 = (Inr ps', s')"
    using assms(1) unfolding processPin_def by (fastforce simp: bindM_eq_Inr)
  have s0: "snd s0 = snd s" and d: "ps_dupMsgCheck psa = ps_dupMsgCheck ps"
    using f by (auto simp: bindM_eq_Inr onNode_eq' split: option.splits)
  have ne: "s0 \<noteq> s'" using assms(2) s0 by auto
  obtain batch mf where fo: "found = Some (batch, mf)"
    using r ne by (cases found) auto
  obtain cnt eo base where ex: "extractBatchMessagePin mf (p_Index pin) = (cnt, eo, base)"
    by (cases "extractBatchMessagePin mf (p_Index pin)")
  obtain entry where en: "eo = Some entry" using r ne fo ex by (cases eo) auto
  obtain i where i: "me_ID entry = Some i" using r ne fo ex en by (cases "me_ID entry") auto
  have ni: "i \<notin> set (ps_dupMsgCheck psa)" using r ne fo ex en i by auto
  then show ?thesis
    using that [OF s0 ex [unfolded en] i] r fo ex en i d by (auto simp: bindM_eq_Inr)
qed

lemma preserves_processPin:
  assumes "handlers_keep db_pins ag" "s0 \<le> p_Sequence pin" "0 \<le> p_Sequence pin"
    and "list_all (\<lambda>p. 0 \<le> p_Sequence p) pins"
  shows "preserves (\<lambda>s. ord_inv (ag_namespace ag) s0 pins um0 (ord_view s)) (processPin E ag pin ps)"
  unfolding processPin_def
  by (intro preserves_intros preserves_processMessage assms
      preserves_keeps [where f = ord_view and J = "ord_inv (ag_namespace ag) s0 pins um0",
        OF ord_view_GetBatchForPin])

lemma preserves_processPins_loop:
  assumes "handlers_keep db_pins ag" "list_all (\<lambda>p. 0 \<le> p_Sequence p) pins"
  shows "list_all (\<lambda>p. s0 \<le> p_Sequence p \<and> 0 \<le> p_Sequence p) page \<Longrightarrow>
    preserves (\<lambda>s. ord_inv (ag_namespace ag) s0 pins um0 (ord_view s)) (processPins_loop E ag page ps)"
proof (induction page arbitrary: ps)
  case (Cons p page)
  then show ?case
    unfolding processPins_loop.simps
    by (intro preserves_intros preserves_processPin assms Cons.IH) simp_all
qed (simp add: preserves_ret)

lemma ord_inv_start: "ord_inv ns s0 (db_pins (nd_db nd)) (bst_unmasked bs) (ord_view (nd, bs))"
  by (simp add: ord_inv_def ord_view_def um_evolves_refl)

lemma dispatch_contexts_free:
  assumes "processMessage E ag mf pin base entry b s = (Inr (), s')" "\<not> p_Masked pin"
    and "bst_dispatched (snd s') \<noteq> bst_dispatched (snd s)"
  obtains msg data nd1 dm where
    "GetMessageWithDataCached E (ag_namespace ag) (me_ID entry) [CRORequirePublicBlobRefs] (fst s)
       = (Inr (Some msg, data, True), nd1)"
    "\<forall>t \<in> set (mh_Topics (m_Header msg)). \<exists>k < 0. bst_unmasked (snd s') (broadcastContext E t) = Some k"
    "bst_dispatched (snd s') = bst_dispatched (snd s) @ [dm]"
    "dm_msgID dm = mh_ID (m_Header msg)" "dm_topicCount dm = length (mh_Topics (m_Header msg))"
proof (rule processMessage_cases [OF assms(1,3)])
  fix msg data nd1 nps s1 s2 s3 act cor er dm
  assume m: "GetMessageWithDataCached E (ag_namespace ag) (me_ID entry)
       [if p_Masked pin then CRORequirePins else CRORequirePublicBlobRefs] (fst s) = (Inr (Some msg, data, True), nd1)"
    and cc: "checkContexts E ag msg b pin s1 = (Inr (Some nps), s2)"
    and dsp: "dispatchMessage E ag act cor er msg mf nps base s3 = (Inr (), s')"
    and u3: "bst_unmasked (snd s3) = bst_unmasked (snd s2)"
    and dm: "bst_dispatched (snd s') = bst_dispatched (snd s) @ [dm]"
      "dm_msgID dm = mh_ID (m_Header msg)" "dm_topicCount dm = length (mh_Topics (m_Header msg))"
  have m': "GetMessageWithDataCached E (ag_namespace ag) (me_ID entry) [CRORequirePublicBlobRefs] (fst s)
       = (Inr (Some msg, data, True), nd1)" using m assms(2) by simp
  have "checkUnmaskedTopics E (ag_namespace ag) (p_Sequence pin) (mh_Topics (m_Header msg)) s1 = (Inr True, s2)"
    using cc assms(2) by (auto simp: checkContexts_def bindM_eq_Inr split: if_splits)
  from checkUnmaskedTopics_mono [OF this] u3 dispatchMessage_dispatched(2) [OF dsp]
  have "\<forall>t \<in> set (mh_Topics (m_Header msg)). \<exists>k < 0. bst_unmasked (snd s') (broadcastContext E t) = Some k"
    by simp
  from that [OF m' this dm] show thesis .
qed


text \<open>C2: A context that is blocked stays blocked with the same block for the rest of the page, and no
  unmasked message on it is dispatched: a call of \<open>processMessage\<close> after any further pins of the
  page, whose message carries a topic of the blocked context, adds no dispatched message.\<close>

theorem blocked_context_holds_back:
  assumes "handlers_keep db_pins ag"
    and "list_all (\<lambda>p. 0 \<le> p_Sequence p) (db_pins (nd_db nd))"
    and "list_all (\<lambda>p. 0 \<le> p_Sequence p) page"
    and "bst_unmasked bs (broadcastContext E topic) = Some k" "0 \<le> k"
    and "processPins_loop E ag page ps0 (nd, bs) = (Inr ps1, (nd1, bs1))"
    and "processMessage E ag mf pin base entry batch (nd1, bs1) = (Inr (), (nd2, bs2))"
    and "\<not> p_Masked pin"
    and "GetMessageWithDataCached E (ag_namespace ag) (me_ID entry) [CRORequirePublicBlobRefs] nd1
       = (Inr (Some msg, data, True), nd1')"
    and "topic \<in> set (mh_Topics (m_Header msg))" "0 \<le> p_Sequence pin"
  shows "bst_unmasked bs1 (broadcastContext E topic) = Some k \<and>
    bst_unmasked bs2 (broadcastContext E topic) = Some k \<and> bst_dispatched bs2 = bst_dispatched bs1"
proof -
  let ?I = "\<lambda>s. ord_inv (ag_namespace ag) 0 (db_pins (nd_db nd)) (bst_unmasked bs) (ord_view s)"
  have I1: "?I (nd1, bs1)"
    using preservesD [OF preserves_processPins_loop assms(6) ord_inv_start] assms(1-3) by simp
  then have I2: "?I (nd2, bs2)"
    using preservesD [OF preserves_processMessage assms(7)] assms(1,2,11) by simp
  have k: "bst_unmasked bs1 (broadcastContext E topic) = Some k"
      "bst_unmasked bs2 (broadcastContext E topic) = Some k"
    using I1 I2 assms(4,5) by (simp_all add: ord_inv_def ord_view_def um_evolves_def)
  have "bst_dispatched bs2 = bst_dispatched bs1"
  proof (rule ccontr)
    assume "bst_dispatched bs2 \<noteq> bst_dispatched bs1"
    then have ch: "bst_dispatched (snd (nd2, bs2)) \<noteq> bst_dispatched (snd (nd1, bs1))" by simp
    show False
    proof (rule dispatch_contexts_free [OF assms(7,8) ch])
      fix msg' data' ndm dm
      assume "GetMessageWithDataCached E (ag_namespace ag) (me_ID entry) [CRORequirePublicBlobRefs] (fst (nd1, bs1))
          = (Inr (Some msg', data', True), ndm)"
        and free: "\<forall>t \<in> set (mh_Topics (m_Header msg')).
          \<exists>k < 0. bst_unmasked (snd (nd2, bs2)) (broadcastContext E t) = Some k"
      then have "msg' = msg" using assms(9) by simp
      then show False using free assms(5,10) k(2) by fastforce
    qed
  qed
  with k show ?thesis by simp
qed

section \<open>A concrete run\<close>

text \<open>
  Three pins of one topic; the batch of the second has not arrived. The batches, messages
  and the identity of the signer are in the caches.
\<close>

definition db0 :: ffdb where
  "db0 = \<lparr> db_pins = [], db_pinseq = 1, db_nextpins = [], db_npseq = 1, db_nonces = [], db_events = [],
     db_evseq = 1, db_messages = [], db_msgseq = 1, db_batches = [], db_data = [], db_blobs = [],
     db_transfers = [], db_approvals = [], db_groups = [], db_members = [], db_identities = [],
     db_verifiers = [], db_datatypes = [], db_txs = [], db_ops = [], db_bcevents = [], db_apis = [], db_ffis = [], db_pools = [] \<rparr>"

definition identity0 :: identity where
  "identity0 = \<lparr> id_Base = \<lparr> ib_ID = Some 9, ib_DID = ''did:firefly:org/a'', ib_Type = IT_Org,
       ib_Parent = None, ib_Namespace = ''ns1'', ib_Name = ''a'' \<rparr>, id_Description = '''',
     id_Profile = '''', id_Claim = None, id_Verification = None, id_Update = None,
     id_Created = None, id_Updated = None \<rparr>"

definition im0 :: identity_manager where
  "im0 = \<lparr> im_blockchain = None, im_multiparty = None, im_namespace = ''ns1'', im_defaultKey = '''' \<rparr>"

definition ag0 :: aggregator where
  "ag0 = \<lparr> ag_namespace = ''ns1'', ag_verifierType = VR_EthAddress, ag_identity = im0,
     ag_definitions = (\<lambda>core msg data tx.
       retM (\<lparr> hr_Action = ActionReject, hr_CustomCorrelator = None \<rparr>, None, core)) \<rparr>"

definition msg0 :: "uuid \<Rightarrow> message" where
  "msg0 i = message0 \<lparr> m_Header := header0 \<lparr> mh_ID := Some i \<rparr>,
     m_Data := Some [\<lparr> dr_ID = Some i, dr_Hash = Some [1], dr_ValueSize = 1 \<rparr>] \<rparr>"

definition batch0 :: "uuid \<Rightarrow> batch_persisted" where
  "batch0 i = \<lparr> bpd_Header = \<lparr> bh_ID = Some i, bh_Type = BT_Broadcast, bh_Namespace = ''ns1'',
       bh_Node = None, bh_Group = None, bh_Created = None, bh_Signer = no_signer \<rparr>,
     bpd_Hash = Some [7], bpd_Manifest = ''{}'', bpd_TX = \<lparr> tr_Type = TT_BatchPin, tr_ID = None \<rparr>,
     bpd_Confirmed = None \<rparr>"

definition manifest0 :: "uuid \<Rightarrow> batch_manifest" where
  "manifest0 i = \<lparr> bm_Version = 1, bm_ID = Some i, bm_TX = \<lparr> tr_Type = TT_BatchPin, tr_ID = None \<rparr>,
     bm_Signer = no_signer, bm_Messages = [\<lparr> me_ID = Some i, me_Hash = None, me_Topics = 1 \<rparr>],
     bm_Data = [] \<rparr>"

definition pin0 :: "uuid \<Rightarrow> pin" where
  "pin0 i = \<lparr> p_Sequence = int i, p_Namespace = ''ns1'', p_Masked = False,
     p_Hash = broadcastContext env0 ''t'', p_Batch = i, p_BatchHash = Some [7], p_Index = 0,
     p_Dispatched = False, p_Signer = ''0xa'', p_Created = None \<rparr>"

definition node0 :: "uuid list \<Rightarrow> node" where
  "node0 arrived = \<lparr> nd_db = db0 \<lparr> db_pins := [pin0 1, pin0 2, pin0 3] \<rparr>, nd_calls = 0, nd_draws = 0,
     nd_msgcache = map (\<lambda>i. (e_uuid_str env0 i, \<lparr> mce_msg = msg0 i, mce_data = [data0], mce_size = 0 \<rparr>)) arrived,
     nd_batchcache = map (\<lambda>i. (getBatchCacheKey env0 i (Some [7]),
       \<lparr> bce_batch = batch0 i, bce_manifest = manifest0 i \<rparr>)) arrived,
     nd_valcache = [],
     nd_idcache = [(verifier_key ''ns1'' \<lparr> vr_Type = VR_EthAddress, vr_Value = ''0xa'' \<rparr>, identity0)],
     nd_offset = 0, nd_offsetCommitted = None, nd_didrewinds = [],
     nd_txheap = [], nd_txcache = [], nd_opheap = [], nd_opcache = [], nd_bccache = [] \<rparr>"

definition dispatched_ids :: "uuid option list \<Rightarrow> (fferr + unit) \<times> run \<Rightarrow> bool" where
  "dispatched_ids ids r \<longleftrightarrow> map dm_msgID (bst_dispatched (snd (snd r))) = ids"

text \<open>The documented rule that all later messages on a context wait for an earlier one does not
  hold inside a page: with the batch of the second pin missing, a page with the three pins dispatches
  the first and the third message, while the second pin, with the same context and an earlier
  sequence, stays undispatched; split after the second pin, the second page holds the third message
  back.\<close>

theorem page_overtakes_missing_batch:
  "dispatched_ids [Some 1, Some 3]
     (processPins env0 ag0 [pin0 1, pin0 2, pin0 3] (node0 [1, 3], newBatchState)) \<and>
   dispatched_ids [] (processPins env0 ag0 [pin0 3] (node0 [1, 3], newBatchState)) \<and>
   p_Hash (pin0 2) = p_Hash (pin0 3) \<and> p_Sequence (pin0 2) < p_Sequence (pin0 3)"
  by code_simp

lemma handlers_keep_ag0: "handlers_keep f ag0"
  by (simp add: handlers_keep_def ag0_def keeps_ret)

lemma run_result: "\<not> isl (fst r) \<Longrightarrow> r = (Inr (projr (fst r)), (fst (snd r), snd (snd r)))"
  by (cases r) auto

definition ps_start :: pins_state where
  "ps_start = \<lparr> ps_localCache = Map.empty, ps_dupMsgCheck = [] \<rparr>"

definition run_pre0 :: "(fferr + pins_state) \<times> run" where
  "run_pre0 = processPins_loop env0 ag0 [pin0 1] ps_start (node0 [1, 3], newBatchState)"

definition run_pin0 :: "(fferr + pins_state) \<times> run" where
  "run_pin0 = processPin env0 ag0 (pin0 3) (projr (fst run_pre0)) (snd run_pre0)"


definition run_blocked0 :: "(fferr + pins_state) \<times> run" where
  "run_blocked0 = processPins_loop env0 ag0 [pin0 2] ps_start
     (node0 [1, 3], newBatchState \<lparr> bst_unmasked := [broadcastContext env0 ''t'' \<mapsto> 1] \<rparr>)"

definition run_blocked1 :: "(fferr + unit) \<times> run" where
  "run_blocked1 = processMessage env0 ag0 (manifest0 3) (pin0 3) 0
     \<lparr> me_ID = Some 3, me_Hash = None, me_Topics = 1 \<rparr> (batch0 3) (snd run_blocked0)"

lemma blocked_context_holds_back_witness:
  "bst_dispatched (snd (snd run_blocked1)) = bst_dispatched (snd (snd run_blocked0))"
proof -
  let ?entry = "\<lparr> me_ID = Some 3, me_Hash = None, me_Topics = 1 \<rparr>"
  let ?get = "GetMessageWithDataCached env0 (ag_namespace ag0) (me_ID ?entry) [CRORequirePublicBlobRefs]
      (fst (snd run_blocked0))"
  have 1: "\<not> isl (fst run_blocked0)" "\<not> isl (fst run_blocked1)" by code_simp+
  have 2: "list_all (\<lambda>p. 0 \<le> p_Sequence p) (db_pins (nd_db (node0 [1, 3])))"
    "list_all (\<lambda>p. 0 \<le> p_Sequence p) [pin0 2]" "\<not> p_Masked (pin0 3)" "0 \<le> p_Sequence (pin0 3)"
    "''t'' \<in> set (mh_Topics (m_Header (msg0 3)))"
    by code_simp+
  have 3: "bst_unmasked (newBatchState \<lparr> bst_unmasked := [broadcastContext env0 ''t'' \<mapsto> 1] \<rparr>)
      (broadcastContext env0 ''t'') = Some 1"
    by simp
  have "fst ?get = Inr (Some (msg0 3), [data0], True)" by code_simp
  then have g: "?get = (Inr (Some (msg0 3), [data0], True), snd ?get)" by (rule fst_pairI)
  from run_result [OF 1(1)] have r1: "processPins_loop env0 ag0 [pin0 2] ps_start
      (node0 [1, 3], newBatchState \<lparr> bst_unmasked := [broadcastContext env0 ''t'' \<mapsto> 1] \<rparr>) =
      (Inr (projr (fst run_blocked0)), (fst (snd run_blocked0), snd (snd run_blocked0)))"
    by (simp add: run_blocked0_def)
  from run_result [OF 1(2)] have r2: "processMessage env0 ag0 (manifest0 3) (pin0 3) 0 ?entry (batch0 3)
      (fst (snd run_blocked0), snd (snd run_blocked0)) = (Inr (), (fst (snd run_blocked1), snd (snd run_blocked1)))"
    by (simp add: run_blocked1_def)
  from blocked_context_holds_back [OF handlers_keep_ag0 2(1,2) 3 _ r1 r2 2(3) g 2(5) 2(4)]
  show ?thesis by simp
qed

end
