(* ===== verification/Aggregator_Flush.thy ===== *)
theory Aggregator_Flush
  imports Aggregator_Order
begin

text \<open>
  The end of a run of the aggregator: the flush marks exactly the pins of the dispatched
  messages, gives each dispatched message its state, inserts one event per topic, and a
  run that fails leaves the tables of the sequencing as they were.
\<close>

section \<open>The pins a dispatched message owns\<close>

definition owned :: "dispatched_message list \<Rightarrow> pin \<Rightarrow> bool" where
  "owned dms p \<longleftrightarrow> list_ex (\<lambda>dm. dm_batchID dm = Some (p_Batch p) \<and>
     dm_firstPinIndex dm \<le> p_Index p \<and> p_Index p < dm_firstPinIndex dm + int (dm_topicCount dm)) dms"

lemma pin_indexes_iff:
  "i \<in> set (pin_indexes dm) \<longleftrightarrow> dm_firstPinIndex dm \<le> i \<and> i < dm_firstPinIndex dm + int (dm_topicCount dm)"
proof -
  have "i = dm_firstPinIndex dm + int (nat (i - dm_firstPinIndex dm))" if "dm_firstPinIndex dm \<le> i"
    using that by simp
  then show ?thesis
    by (auto simp: pin_indexes_def image_iff intro!: bexI [of _ "nat (i - dm_firstPinIndex dm)"])
qed

lemma pin_selected_add:
  "pin_selected (assoc_list_add b vs sel) p \<longleftrightarrow>
     pin_selected sel p \<or> (p_Batch p = b \<and> p_Index p \<in> set vs)"
  by (auto simp: pin_selected_def assoc_list_add_def Let_def split: option.splits)

section \<open>What the updates of messages keep\<close>

lemma keeps_confirmMessages:
  assumes "\<And>db ms. f (db \<lparr> db_messages := ms \<rparr>) = f db"
  shows "keeps (\<lambda>nd. f (nd_db nd)) (confirmMessages E ns ids st t r)"
  unfolding confirmMessages_def UpdateMessages_def
  by (intro keeps_intros keeps_db_write assms)

lemma keeps_flushNextPins:
  assumes "\<And>db nps n. f (db \<lparr> db_nextpins := nps, db_npseq := n \<rparr>) = f db"
    and "\<And>db nps. f (db \<lparr> db_nextpins := nps \<rparr>) = f db"
  shows "keeps (\<lambda>nd. f (nd_db nd)) (flushNextPins E ns masked)"
  unfolding flushNextPins_def InsertNextPin_def UpdateNextPin_def
  by (intro keeps_intros keeps_db_write) (simp_all add: insert_nextpin_row_def assms)

lemma keeps_flush_loop:
  assumes "\<And>db ms. f (db \<lparr> db_messages := ms \<rparr>) = f db"
  shows "keeps (\<lambda>nd. f (nd_db nd)) (flush_loop E ns t dms acc)"
proof (induction dms arbitrary: acc)
  case (Cons dm dms)
  obtain a u where acc: "acc = (a, u)" by (cases acc)
  show ?case unfolding acc flush_loop.simps
    by (intro keeps_intros keeps_confirmMessages assms Cons.IH)
qed (simp add: keeps_ret)

lemma flush_loop_selects:
  "flush_loop E ns t dms (sel, upd) nd = (Inr (sel', upd'), nd') \<Longrightarrow>
     pin_selected sel' p \<longleftrightarrow> pin_selected sel p \<or> owned dms p"
proof (induction dms arbitrary: sel upd nd)
  case Nil
  then show ?case by (simp add: owned_def)
next
  case (Cons dm dms)
  obtain b where b: "dm_batchID dm = Some b"
    using Cons.prems by (cases "dm_batchID dm") auto
  let ?sel = "assoc_list_add b (pin_indexes dm) sel"
  obtain upd1 nd1 where "flush_loop E ns t dms (?sel, upd1) nd1 = (Inr (sel', upd'), nd')"
    using Cons.prems b by (auto simp: Let_def bindM_eq_Inr split: if_splits)
  from Cons.IH [OF this] show ?case
    using b by (auto simp: owned_def pin_selected_add pin_indexes_iff)
qed

lemma flushPins_Inr:
  assumes "flushPins E ns bs nd = (Inr (), nd')"
  obtains nd1 t nd2 sel upd nd3 nd4 where
    "flushNextPins E ns (bst_masked bs) nd = (Inr (), nd1)"
    "nowM E nd1 = (Inr t, nd2)"
    "flush_loop E ns t (bst_dispatched bs) ([], []) nd2 = (Inr (sel, upd), nd3)"
    "mark_pins_dispatched E ns sel nd3 = (Inr (), nd4)"
    "forM upd (\<lambda>(st, ids). confirmMessages E ns ids st t '''') nd4 = (Inr (), nd')"
proof -
  note a = assms [unfolded flushPins_def bindM_eq_Inr]
  then show thesis using that by (elim exE conjE) (simp only: split_paired_all prod.case bindM_eq_Inr, elim exE conjE, simp)
qed

text \<open>C6: The flush marks exactly the pins of the dispatched messages: a pin of the namespace whose
  batch and index lie in the range of a dispatched message becomes dispatched, every other pin is
  left as it was; no page read afterwards returns a pin of a dispatched message.\<close>

theorem flush_marks_owned_pins:
  assumes "flushPins E ns bs nd = (Inr (), nd')"
  shows "db_pins (nd_db nd') = map (\<lambda>p. if p_Namespace p = ns \<and> owned (bst_dispatched bs) p
      then p \<lparr> p_Dispatched := True \<rparr> else p) (db_pins (nd_db nd)) \<and>
    list_all (\<lambda>p. \<not> owned (bst_dispatched bs) p)
      (pin_rows False lim ns (\<lambda>p. p_Sequence p > offset \<and> \<not> p_Dispatched p) (nd_db nd'))"
proof -
  obtain nd1 t nd2 sel upd nd3 nd4 where
    1: "flushNextPins E ns (bst_masked bs) nd = (Inr (), nd1)"
    and 2: "nowM E nd1 = (Inr t, nd2)"
    and 3: "flush_loop E ns t (bst_dispatched bs) ([], []) nd2 = (Inr (sel, upd), nd3)"
    and 4: "mark_pins_dispatched E ns sel nd3 = (Inr (), nd4)"
    and 5: "forM upd (\<lambda>(st, ids). confirmMessages E ns ids st t '''') nd4 = (Inr (), nd')"
    using flushPins_Inr [OF assms] .
  have k1: "db_pins (nd_db nd1) = db_pins (nd_db nd)"
    by (rule keepsD [OF keeps_flushNextPins 1]) simp_all
  have k2: "db_pins (nd_db nd2) = db_pins (nd_db nd1)"
    by (rule keepsD [OF keeps_nowM 2])
  have k3: "db_pins (nd_db nd3) = db_pins (nd_db nd2)"
    by (rule keepsD [OF keeps_flush_loop 3]) simp
  have "keeps (\<lambda>nd. db_pins (nd_db nd)) (forM upd (\<lambda>(st, ids). confirmMessages E ns ids st t ''''))"
    by (auto intro!: keeps_intros keeps_confirmMessages)
  then have k5: "db_pins (nd_db nd') = db_pins (nd_db nd4)"
    using 5 by (rule keepsD)
  have sel: "pin_selected sel p \<longleftrightarrow> owned (bst_dispatched bs) p" for p
    using flush_loop_selects [OF 3] by (simp add: pin_selected_def)
  have "db_pins (nd_db nd4) = map (\<lambda>p. if p_Namespace p = ns \<and> owned (bst_dispatched bs) p
      then p \<lparr> p_Dispatched := True \<rparr> else p) (db_pins (nd_db nd3))"
  proof (cases "sel = []")
    case True
    then have "\<not> owned (bst_dispatched bs) p" for p
      using sel [of p] by (simp add: pin_selected_def)
    then show ?thesis using 4 True by (simp add: mark_pins_dispatched_def)
  next
    case False
    then show ?thesis
      using 4 by (auto simp: mark_pins_dispatched_def UpdatePins_def db_write_Inr update_pin_rows_def sel)
  qed
  then have m: "db_pins (nd_db nd') = map (\<lambda>p. if p_Namespace p = ns \<and> owned (bst_dispatched bs) p
      then p \<lparr> p_Dispatched := True \<rparr> else p) (db_pins (nd_db nd))"
    using k1 k2 k3 k5 by simp
  have "\<not> owned (bst_dispatched bs) q"
    if "q \<in> set (pin_rows False lim ns (\<lambda>p. p_Sequence p > offset \<and> \<not> p_Dispatched p) (nd_db nd'))" for q
  proof -
    have q: "q \<in> set (db_pins (nd_db nd'))" "p_Namespace q = ns" "\<not> p_Dispatched q"
      using pin_rows_in [OF that] by simp_all
    from q(1) obtain p where p: "q = (if p_Namespace p = ns \<and> owned (bst_dispatched bs) p
      then p \<lparr> p_Dispatched := True \<rparr> else p)"
      unfolding m set_map by (rule imageE)
    show ?thesis
    proof (cases "p_Namespace p = ns \<and> owned (bst_dispatched bs) p")
      case True
      then show ?thesis using q(3) p by simp
    next
      case False
      have "q = p" using p unfolding if_not_P [OF False] .
      then show ?thesis using q(2) False by simp
    qed
  qed
  with m show ?thesis by (simp add: list_all_iff)
qed

section \<open>The states of the messages\<close>

definition states_ok :: "string \<Rightarrow> (uuid option \<times> message_state) set \<Rightarrow> ffdb \<Rightarrow> bool" where
  "states_ok ns S db \<longleftrightarrow> (\<forall>m \<in> set (db_messages db). \<forall>st.
     m_LocalNamespace m = ns \<and> (mh_ID (m_Header m), st) \<in> S \<longrightarrow> m_State m = st)"

definition functional :: "('a \<times> 'b) set \<Rightarrow> bool" where
  "functional T \<longleftrightarrow> (\<forall>x y z. (x, y) \<in> T \<and> (x, z) \<in> T \<longrightarrow> y = z)"

lemma confirmMessages_states:
  assumes "confirmMessages E ns ids st t r nd = (Inr (), nd')" "states_ok ns S (nd_db nd)"
    and "functional T" "S \<subseteq> T" "set ids \<times> {st} \<subseteq> T"
  shows "states_ok ns (S \<union> set ids \<times> {st}) (nd_db nd')"
proof -
  obtain nd1 where 1: "forM ids (\<lambda>i. UpdateMessageStateIfCached E ns i st (Some t) r) nd = (Inr (), nd1)"
    and 2: "UpdateMessages E ns (\<lambda>m. mh_ID (m_Header m) \<in> set ids)
       (\<lambda>m. m \<lparr> m_Confirmed := Some t, m_State := st, m_RejectReason := r \<rparr>) nd1 = (Inr (), nd')"
    using assms(1) by (auto simp: confirmMessages_def bindM_eq_Inr)
  have "keeps (\<lambda>nd. db_messages (nd_db nd)) (forM ids (\<lambda>i. UpdateMessageStateIfCached E ns i st (Some t) r))"
    by (intro keeps_intros)
  then have "db_messages (nd_db nd1) = db_messages (nd_db nd)"
    using 1 by (rule keepsD)
  then have ms: "db_messages (nd_db nd') = map (\<lambda>m. if m_LocalNamespace m = ns \<and> mh_ID (m_Header m) \<in> set ids
      then m \<lparr> m_Confirmed := Some t, m_State := st, m_RejectReason := r \<rparr> else m) (db_messages (nd_db nd))"
    using 2 by (simp add: UpdateMessages_def db_write_Inr)
  show ?thesis
    unfolding states_ok_def ms set_map
  proof (intro ballI allI impI, elim imageE conjE)
    fix m s m0
    assume m: "m = (if m_LocalNamespace m0 = ns \<and> mh_ID (m_Header m0) \<in> set ids
        then m0 \<lparr> m_Confirmed := Some t, m_State := st, m_RejectReason := r \<rparr> else m0)"
      and m0: "m0 \<in> set (db_messages (nd_db nd))" and ns: "m_LocalNamespace m = ns"
      and s: "(mh_ID (m_Header m), s) \<in> S \<union> set ids \<times> {st}"
    show "m_State m = s"
    proof (cases "m_LocalNamespace m0 = ns \<and> mh_ID (m_Header m0) \<in> set ids")
      case True
      then have "(mh_ID (m_Header m0), st) \<in> T" "(mh_ID (m_Header m0), s) \<in> T"
        using assms(4,5) s m True by auto
      then have "s = st" using assms(3) unfolding functional_def by blast
      with True m show ?thesis by simp
    next
      case False
      have "m = m0" using m unfolding if_not_P [OF False] .
      then have "(mh_ID (m_Header m0), s) \<in> S" using s ns False by auto
      then show ?thesis using assms(2) m0 ns \<open>m = m0\<close> unfolding states_ok_def by blast
    qed
  qed
qed

definition pairs_of :: "(message_state \<times> uuid option list) list \<Rightarrow> (uuid option \<times> message_state) set" where
  "pairs_of upd = {(i, st). \<exists>ids. map_of upd st = Some ids \<and> i \<in> set ids}"

lemma pairs_of_add: "pairs_of (assoc_list_add st ids upd) = pairs_of upd \<union> set ids \<times> {st}"
  by (auto simp: pairs_of_def assoc_list_add_def Let_def split: option.splits if_splits)

lemma distinct_assoc_list_add: "distinct (map fst upd) \<Longrightarrow> distinct (map fst (assoc_list_add k vs upd))"
  by (simp add: assoc_list_add_def Let_def distinct_assoc_put split: option.splits)

lemma flush_loop_states:
  "flush_loop E ns t dms (sel, upd) nd = (Inr (sel', upd'), nd') \<Longrightarrow> functional T \<Longrightarrow>
     (\<lambda>dm. (dm_msgID dm, dm_newState dm)) ` set dms \<subseteq> T \<Longrightarrow> S \<subseteq> T \<Longrightarrow> pairs_of upd \<subseteq> T \<Longrightarrow>
     distinct (map fst upd) \<Longrightarrow> states_ok ns S (nd_db nd) \<Longrightarrow>
     \<exists>S'. states_ok ns S' (nd_db nd') \<and> S' \<subseteq> T \<and> pairs_of upd' \<subseteq> T \<and> distinct (map fst upd') \<and>
       S \<union> pairs_of upd \<union> (\<lambda>dm. (dm_msgID dm, dm_newState dm)) ` set dms \<subseteq> S' \<union> pairs_of upd'"
proof (induction dms arbitrary: sel upd nd S)
  case Nil
  then show ?case by (auto intro!: exI [of _ S])
next
  case (Cons dm dms)
  obtain b where b: "dm_batchID dm = Some b"
    using Cons.prems(1) by (cases "dm_batchID dm") auto
  let ?sel = "assoc_list_add b (pin_indexes dm) sel"
  let ?p = "(dm_msgID dm, dm_newState dm)"
  show ?case
  proof (cases "dm_newState dm = MS_Rejected")
    case True
    then obtain nd1 where c: "confirmMessages E ns [dm_msgID dm] (dm_newState dm) t (dm_rejectReason dm) nd = (Inr (), nd1)"
      and l: "flush_loop E ns t dms (?sel, upd) nd1 = (Inr (sel', upd'), nd')"
      using Cons.prems(1) b by (auto simp: Let_def bindM_eq_Inr)
    have "states_ok ns (S \<union> set [dm_msgID dm] \<times> {dm_newState dm}) (nd_db nd1)"
      by (rule confirmMessages_states [OF c Cons.prems(7,2,4)]) (use Cons.prems(3) in auto)
    moreover have "?p \<in> T" using Cons.prems(3) by simp
    ultimately obtain S' where "states_ok ns S' (nd_db nd')" "S' \<subseteq> T" "pairs_of upd' \<subseteq> T"
      "distinct (map fst upd')"
      "(S \<union> {?p}) \<union> pairs_of upd \<union> (\<lambda>dm. (dm_msgID dm, dm_newState dm)) ` set dms \<subseteq> S' \<union> pairs_of upd'"
      using Cons.IH [OF l Cons.prems(2) _ _ Cons.prems(5,6), of "S \<union> {?p}"] Cons.prems(3,4) by auto
    then show ?thesis by (intro exI [of _ S']) auto
  next
    case False
    then have l: "flush_loop E ns t dms (?sel, assoc_list_add (dm_newState dm) [dm_msgID dm] upd) nd = (Inr (sel', upd'), nd')"
      using Cons.prems(1) b by (simp add: Let_def)
    have "?p \<in> T" using Cons.prems(3) by simp
    with Cons.IH [OF l Cons.prems(2) _ Cons.prems(4) _ _ Cons.prems(7)] Cons.prems(3,5,6)
    obtain S' where "states_ok ns S' (nd_db nd')" "S' \<subseteq> T" "pairs_of upd' \<subseteq> T"
      "distinct (map fst upd')"
      "S \<union> (pairs_of upd \<union> {?p}) \<union> (\<lambda>dm. (dm_msgID dm, dm_newState dm)) ` set dms \<subseteq> S' \<union> pairs_of upd'"
      by (auto simp: pairs_of_add distinct_assoc_list_add)
    then show ?thesis by (intro exI [of _ S']) auto
  qed
qed

lemma forM_confirm_states:
  "forM upd (\<lambda>(st, ids). confirmMessages E ns ids st t '''') nd = (Inr (), nd') \<Longrightarrow> functional T \<Longrightarrow>
     pairs_of upd \<subseteq> T \<Longrightarrow> distinct (map fst upd) \<Longrightarrow> S \<subseteq> T \<Longrightarrow> states_ok ns S (nd_db nd) \<Longrightarrow>
     states_ok ns (S \<union> pairs_of upd) (nd_db nd')"
proof (induction upd arbitrary: nd S)
  case Nil
  then show ?case by (simp add: pairs_of_def)
next
  case (Cons u upd)
  obtain st ids where u: "u = (st, ids)" by (cases u)
  obtain nd1 where c: "confirmMessages E ns ids st t '''' nd = (Inr (), nd1)"
    and l: "forM upd (\<lambda>(st, ids). confirmMessages E ns ids st t '''') nd1 = (Inr (), nd')"
    using Cons.prems(1) u by (auto simp: bindM_eq_Inr)
  have p: "pairs_of (u # upd) = set ids \<times> {st} \<union> pairs_of upd"
  proof -
    have "map_of upd st = None" using Cons.prems(4) u by (auto simp: map_of_eq_None_iff)
    then show ?thesis by (auto simp: pairs_of_def u split: if_splits)
  qed
  have "states_ok ns (S \<union> set ids \<times> {st}) (nd_db nd1)"
    by (rule confirmMessages_states [OF c Cons.prems(6,2,5)]) (use Cons.prems(3) p in auto)
  from Cons.IH [OF l Cons.prems(2) _ _ _ this] Cons.prems(3,4,5) p show ?case by (simp add: Un_assoc)
qed

text \<open>C7: After the flush every message dispatched by the run is in its new state: each row of the
  namespace with the identifier of a dispatched message has the state recorded for it (confirmed or
  rejected), provided no message was dispatched twice.\<close>

theorem flush_sets_states:
  assumes "flushPins E ns bs nd = (Inr (), nd')" "distinct (map dm_msgID (bst_dispatched bs))"
  shows "list_all (\<lambda>dm. list_all (\<lambda>m. m_LocalNamespace m = ns \<and> mh_ID (m_Header m) = dm_msgID dm \<longrightarrow>
      m_State m = dm_newState dm) (db_messages (nd_db nd'))) (bst_dispatched bs)"
proof -
  obtain nd1 t nd2 sel upd nd3 nd4 where
    3: "flush_loop E ns t (bst_dispatched bs) ([], []) nd2 = (Inr (sel, upd), nd3)"
    and 4: "mark_pins_dispatched E ns sel nd3 = (Inr (), nd4)"
    and 5: "forM upd (\<lambda>(st, ids). confirmMessages E ns ids st t '''') nd4 = (Inr (), nd')"
    using flushPins_Inr [OF assms(1)] .
  let ?T = "(\<lambda>dm. (dm_msgID dm, dm_newState dm)) ` set (bst_dispatched bs)"
  have T: "functional ?T"
    using assms(2) by (auto simp: functional_def distinct_map inj_on_def)
  have "pairs_of [] = {}" "states_ok ns {} (nd_db nd2)" by (simp_all add: pairs_of_def states_ok_def)
  then obtain S' where S': "states_ok ns S' (nd_db nd3)" "S' \<subseteq> ?T" "pairs_of upd \<subseteq> ?T"
      "distinct (map fst upd)" "?T \<subseteq> S' \<union> pairs_of upd"
    using flush_loop_states [OF 3 T, of "{}"] by auto
  have "db_messages (nd_db nd4) = db_messages (nd_db nd3)"
    using 4 by (auto simp: mark_pins_dispatched_def UpdatePins_def db_write_Inr update_pin_rows_def split: if_splits)
  then have "states_ok ns S' (nd_db nd4)" using S'(1) by (simp add: states_ok_def)
  from forM_confirm_states [OF 5 T S'(3,4,2) this] S'(5)
  show ?thesis by (fastforce simp: states_ok_def list_all_iff)
qed

section \<open>Events\<close>

text \<open>C8: The finaliser of a dispatched message inserts exactly one event per topic, in the order of the
  topics, all referring to the message with the given type, transaction and correlator (the
  message's own one when no custom correlator is set), with consecutive sequences from the next free
  one; nothing else of the event table changes.\<close>

theorem one_event_per_topic:
  assumes "insert_topic_events E ns et msg cor tx topics nd = (Inr (), nd')"
  shows "\<exists>evs. db_events (nd_db nd') = db_events (nd_db nd) @ evs \<and> map ev_Topic evs = topics \<and>
    list_all (\<lambda>ev. ev_Type ev = et \<and> ev_Namespace ev = ns \<and> ev_Reference ev = mh_ID (m_Header msg) \<and>
      ev_Transaction ev = tx \<and> ev_Correlator ev = (case cor of None \<Rightarrow> mh_CID (m_Header msg) | Some c \<Rightarrow> Some c)) evs \<and>
    map ev_Sequence evs = map (\<lambda>k. db_evseq (nd_db nd) + int k) [0 ..< length topics]"
  using assms
proof (induction topics arbitrary: nd)
  case Nil
  then show ?case by simp
next
  case (Cons t ts)
  let ?ev = "(NewEvent (e_newid E (nd_draws nd)) (e_now E (Suc (nd_draws nd))) et ns (mh_ID (m_Header msg)) tx t)
      \<lparr> ev_Correlator := (case cor of None \<Rightarrow> mh_CID (m_Header msg) | Some c \<Rightarrow> Some c),
        ev_Sequence := db_evseq (nd_db nd) \<rparr>"
  obtain ev nd1 where
    ev: "ev_Type ev = et" "ev_Namespace ev = ns" "ev_Reference ev = mh_ID (m_Header msg)"
      "ev_Transaction ev = tx" "ev_Topic ev = t" "ev_Sequence ev = db_evseq (nd_db nd)"
      "ev_Correlator ev = (case cor of None \<Rightarrow> mh_CID (m_Header msg) | Some c \<Rightarrow> Some c)"
    and d: "db_events (nd_db nd1) = db_events (nd_db nd) @ [ev]" "db_evseq (nd_db nd1) = db_evseq (nd_db nd) + 1"
    and r: "insert_topic_events E ns et msg cor tx ts nd1 = (Inr (), nd')"
  proof -
    obtain nd1 where "insert_topic_events E ns et msg cor tx ts nd1 = (Inr (), nd')"
      "db_events (nd_db nd1) = db_events (nd_db nd) @ [?ev]" "db_evseq (nd_db nd1) = db_evseq (nd_db nd) + 1"
      using Cons.prems by (auto simp: bindM_eq_Inr newUUID_def nowM_def InsertEvent_def db_write_Inr
          insert_event_row_def Let_def)
    then show thesis by (intro that [of ?ev nd1]) (simp_all add: NewEvent_def)
  qed
  obtain evs where evs: "db_events (nd_db nd') = db_events (nd_db nd1) @ evs" "map ev_Topic evs = ts"
    "list_all (\<lambda>ev. ev_Type ev = et \<and> ev_Namespace ev = ns \<and> ev_Reference ev = mh_ID (m_Header msg) \<and>
      ev_Transaction ev = tx \<and> ev_Correlator ev = (case cor of None \<Rightarrow> mh_CID (m_Header msg) | Some c \<Rightarrow> Some c)) evs"
    "map ev_Sequence evs = map (\<lambda>k. db_evseq (nd_db nd1) + int k) [0 ..< length ts]"
    using Cons.IH [OF r] by blast
  have "map ev_Sequence (ev # evs) = map (\<lambda>k. db_evseq (nd_db nd) + int k) [0 ..< length (t # ts)]"
    using evs(4) ev(6) d(2) by (simp add: upt_conv_Cons map_Suc_upt [symmetric] del: upt_Suc)
  with evs ev d show ?case by (intro exI [of _ "ev # evs"]) simp
qed

section \<open>A failed run\<close>

text \<open>
  The handlers may register actions to run before the flush, outside the groups: they are
  required not to write the tables of the sequencing either.
\<close>

definition prefinalize_keep :: "(ffdb \<Rightarrow> 'b) \<Rightarrow> core_bs \<Rightarrow> bool" where
  "prefinalize_keep f core \<longleftrightarrow> (\<forall>a \<in> set (cb_PreFinalize core). keeps (\<lambda>nd. f (nd_db nd)) a)"

definition handlers_prefinalize_keep :: "(ffdb \<Rightarrow> 'b) \<Rightarrow> aggregator \<Rightarrow> bool" where
  "handlers_prefinalize_keep f ag \<longleftrightarrow> (\<forall>core msg data tx nd hr err core' nd'.
     prefinalize_keep f core \<and> ag_definitions ag core msg data tx nd = (Inr (hr, err, core'), nd') \<longrightarrow>
     prefinalize_keep f core')"

lemma keeps_tables_processMessage:
  assumes "handlers_keep seq_tables ag"
  shows "keeps run_tables (processMessage E ag mf pin base entry b)"
proof -
  have topics: "keeps run_tables (checkUnmaskedTopics E ns sq ts)" for ns sq ts
    by (induction ts) (auto intro!: keeps_intros)
  have masked: "keeps run_tables (checkMaskedPins E ag msg b g sq tps)" for msg g sq tps
    by (induction tps) (auto intro!: keeps_intros split: prod.splits)
  have fin: "keeps run_tables (finishMessage E ag res msg mf pin nps i)" for res msg nps i
    unfolding finishMessage_def SetContextBlockedBy_def
    by (cases res; cases "fst res")
      (auto intro!: keeps_intros keeps_dispatchMessage [where f = seq_tables]
        keeps_modifyBS [where f = "\<lambda>nd. seq_tables (nd_db nd)"] split: option.splits)
  show ?thesis
    unfolding processMessage_def checkContexts_def
    by (intro keeps_intros topics masked fin keeps_onNode [where f = "\<lambda>nd. seq_tables (nd_db nd)"]
        keeps_readyForDispatch [where f = seq_tables, OF assms])
qed

lemma keeps_tables_processPins:
  assumes "handlers_keep seq_tables ag"
  shows "keeps run_tables (processPins E ag pins)"
proof -
  have pin: "keeps run_tables (processPin E ag p ps)" for p ps
    unfolding processPin_def
    by (intro keeps_intros keeps_tables_processMessage assms keeps_onNode [where f = "\<lambda>nd. seq_tables (nd_db nd)"])
  have loop: "keeps run_tables (processPins_loop E ag page ps)" for page ps
    by (induction page arbitrary: ps) (auto intro!: keeps_intros pin)
  have "keeps (\<lambda>nd. seq_tables (nd_db nd)) (commitOffset off)" for off
    unfolding commitOffset_def by (rule keeps_modify) simp
  then show ?thesis
    unfolding processPins_def
    by (intro keeps_intros loop keeps_onNode [where f = "\<lambda>nd. seq_tables (nd_db nd)"])
qed

lemma core_modifyBS: "(\<And>bs. bst_core (g bs) = bst_core bs) \<Longrightarrow> keeps (\<lambda>s. bst_core (snd s)) (modifyBS g)"
  by (rule keeps_modifyBS_snd)

lemma core_onNode: "keeps (\<lambda>s. bst_core (snd s)) (onNode m)"
  by (rule keeps_onNode_bs)

abbreviation pre_ok :: "(ffdb \<Rightarrow> 'b) \<Rightarrow> run \<Rightarrow> bool" where
  "pre_ok f s \<equiv> prefinalize_keep f (bst_core (snd s))"

lemma preserves_pre_modifyCore:
  "(\<And>c. cb_PreFinalize (g c) = cb_PreFinalize c) \<Longrightarrow> preserves (pre_ok f) (modifyCore g)"
  unfolding modifyCore_def modifyBS_def by (rule preservesI) (auto simp: prefinalize_keep_def)

lemma preserves_pre_definitions:
  assumes "handlers_prefinalize_keep f ag"
  shows "preserves (pre_ok f) (bindM (getsBS bst_core) (\<lambda>core.
        bindM (onNode (ag_definitions ag core msg data tx)) (\<lambda>(hr, err, core').
        bindM (modifyCore (\<lambda>_. core')) (\<lambda>_. retM (hr_Action hr, hr_CustomCorrelator hr, err)))))"
  using assms unfolding handlers_prefinalize_keep_def
  by (intro preservesI) (auto simp: bindM_eq_Inr onNode_eq getsBS_def modifyCore_def modifyBS_def, blast)

lemma preserves_pre_processMessage:
  assumes "handlers_prefinalize_keep f ag"
  shows "preserves (pre_ok f) (processMessage E ag mf pin base entry b)"
proof -
  note k = preserves_keeps [where f = "\<lambda>s. bst_core (snd s)" and J = "prefinalize_keep f"]
  have unm: "keeps (\<lambda>s. bst_core (snd s)) (checkUnmaskedContextReady E ns c sq)" for ns c sq
    unfolding checkUnmaskedContextReady_def by (intro keeps_intros core_onNode core_modifyBS) simp_all
  have topics: "keeps (\<lambda>s. bst_core (snd s)) (checkUnmaskedTopics E ns sq ts)" for ns sq ts
    by (induction ts) (auto intro!: keeps_intros unm)
  have msk: "keeps (\<lambda>s. bst_core (snd s)) (checkMaskedContextReady E ns msg b g t sq p)" for ns msg b g t sq p
    unfolding checkMaskedContextReady_def stateForMaskedContext_def attemptContextInit_def Let_def
    by (intro keeps_intros core_onNode core_modifyBS) simp_all
  have masked: "keeps (\<lambda>s. bst_core (snd s)) (checkMaskedPins E ag msg b g sq tps)" for msg g sq tps
    by (induction tps) (auto intro!: keeps_intros msk split: prod.splits)
  have val: "preserves (pre_ok f) (validateForDispatch E ag msg data tx)" for msg data tx
    unfolding validateForDispatch_def
    by (rule preserves_if, rule preserves_pre_definitions [OF assms])
      (intro preserves_intros k keeps_attempt core_onNode)
  have ready: "preserves (pre_ok f) (readyForDispatch E ag msg data tx)" for msg data tx
    unfolding readyForDispatch_def
    by (intro preserves_intros val k keeps_attempt core_onNode)
  have disp: "preserves (pre_ok f) (dispatchMessage E ag a c err msg mf nps i)" for a c err msg nps i
    unfolding dispatchMessage_def IncrementNextPin_def markMessageDispatched_def completeDispatch_def Let_def
    by (intro preserves_intros preserves_pre_modifyCore k core_onNode core_modifyBS)
      (simp_all add: AddPendingConfirm_def AddFinalize_def split: option.splits)
  have blk: "keeps (\<lambda>s. bst_core (snd s)) (SetContextBlockedBy ctx sq)" for ctx sq
    unfolding SetContextBlockedBy_def by (intro core_modifyBS) (simp split: option.splits)
  have fin: "preserves (pre_ok f) (finishMessage E ag res msg mf pin nps i)" for res msg nps i
    unfolding finishMessage_def
    by (cases res; cases "fst res") (auto intro!: preserves_intros k keeps_forM blk disp split: option.splits)
  show ?thesis
    unfolding processMessage_def checkContexts_def
    by (intro preserves_intros fin ready k topics masked core_onNode keeps_intros)
qed

lemma preserves_pre_processPins:
  assumes "handlers_prefinalize_keep f ag"
  shows "preserves (pre_ok f) (processPins E ag pins)"
proof -
  note k = preserves_keeps [where f = "\<lambda>s. bst_core (snd s)" and J = "prefinalize_keep f"]
  have pin: "preserves (pre_ok f) (processPin E ag p ps)" for p ps
    unfolding processPin_def
    by (intro preserves_intros preserves_pre_processMessage assms k core_onNode)
  have loop: "preserves (pre_ok f) (processPins_loop E ag page ps)" for page ps
    by (induction page arbitrary: ps) (auto intro!: preserves_intros pin)
  show ?thesis
    unfolding processPins_def
    by (intro preserves_bind preserves_if preserves_throw loop) (rule k, rule core_onNode)
qed

lemma processWithBatchState_Inl:
  assumes "processWithBatchState E ns callback nd = (Inl e, nd')"
  obtains (body) m where "run_as_group E (m :: batch_state nact) nd = (Inl e, nd')"
  | (finalize) state nd2 where "callback (nd, newBatchState) = (Inr (), (nd2, state))"
      "bindM (RunPreFinalize state) (\<lambda>_. run_as_group E (RunFinalize E ns state))
         (nd2 \<lparr> nd_calls := Suc (nd_calls nd2) \<rparr>) = (Inl e, nd')"
proof -
  obtain m where m: "m = (\<lambda>nd. case callback (nd, newBatchState) of
         (Inl err, (nd', _)) \<Rightarrow> (Inl err, nd')
       | (Inr _, (nd', state)) \<Rightarrow>
           if cb_PreFinalize (bst_core state) = []
           then (case RunFinalize E ns state nd' of
                   (Inl err, nd'') \<Rightarrow> (Inl err, nd'')
                 | (Inr _, nd'') \<Rightarrow> (Inr state, nd''))
           else (Inr state, nd'))" by simp
  obtain rest where rest: "rest = (\<lambda>state. bindM (if cb_PreFinalize (bst_core state) \<noteq> []
            then bindM (RunPreFinalize state) (\<lambda>_. run_as_group E (RunFinalize E ns state))
            else retM ()) (\<lambda>_. queueRewinds state))" by simp
  have "bindM (run_as_group E m) rest nd = (Inl e, nd')"
    using assms unfolding processWithBatchState_def m rest .
  from bindM_eq_Inl [THEN iffD1, OF this] show thesis
  proof (elim disjE exE conjE)
    assume "run_as_group E m nd = (Inl e, nd')"
    then show thesis by (rule body)
  next
    fix state nd1
    assume g: "run_as_group E m nd = (Inr state, nd1)" and r: "rest state nd1 = (Inl e, nd')"
    from run_as_group_Inr [OF g] obtain nd2
      where nd2: "m nd = (Inr state, nd2)" "nd1 = nd2 \<lparr> nd_calls := Suc (nd_calls nd2) \<rparr>" .
    have pf: "cb_PreFinalize (bst_core state) \<noteq> []"
      using r by (auto simp: rest queueRewinds_def)
    have "callback (nd, newBatchState) = (Inr (), (nd2, state))"
      using nd2(1) pf by (auto simp: m split: prod.splits sum.splits if_splits)
    moreover have "bindM (RunPreFinalize state) (\<lambda>_. run_as_group E (RunFinalize E ns state)) nd1 = (Inl e, nd')"
      using r pf by (auto simp: rest queueRewinds_def bindM_eq_Inl)
    ultimately show thesis using nd2(2) by (intro finalize) simp_all
  qed
qed


section \<open>Concrete runs\<close>

definition node1 :: node where
  "node1 = (node0 [1, 3]) \<lparr> nd_db := (nd_db (node0 [1, 3])) \<lparr> db_messages := [msg0 1, msg0 2, msg0 3] \<rparr> \<rparr>"

definition bs1 :: batch_state where
  "bs1 = snd (snd (processPins env0 ag0 [pin0 1, pin0 2, pin0 3] (node1, newBatchState)))"

definition flush1 :: "(fferr + unit) \<times> node" where
  "flush1 = flushPins env0 ''ns1'' bs1 node1"

lemma flush_marks_owned_pins_witness:
  "list_all (\<lambda>p. \<not> owned (bst_dispatched bs1) p)
     (pin_rows False (Some 50) ''ns1'' (\<lambda>p. p_Sequence p > 0 \<and> \<not> p_Dispatched p) (nd_db (snd flush1))) \<and>
   map p_Dispatched (db_pins (nd_db (snd flush1))) = [True, False, True]"
proof -
  have "\<not> isl (fst flush1)" by code_simp
  from unit_result [OF this] have "flushPins env0 ''ns1'' bs1 node1 = (Inr (), snd flush1)"
    by (simp add: flush1_def)
  from flush_marks_owned_pins [OF this] have
    "list_all (\<lambda>p. \<not> owned (bst_dispatched bs1) p)
     (pin_rows False (Some 50) ''ns1'' (\<lambda>p. p_Sequence p > 0 \<and> \<not> p_Dispatched p) (nd_db (snd flush1)))"
    by blast
  moreover have "map p_Dispatched (db_pins (nd_db (snd flush1))) = [True, False, True]" by code_simp
  ultimately show ?thesis by blast
qed

lemma flush_sets_states_witness:
  "list_all (\<lambda>dm. list_all (\<lambda>m. m_LocalNamespace m = ''ns1'' \<and> mh_ID (m_Header m) = dm_msgID dm \<longrightarrow>
      m_State m = dm_newState dm) (db_messages (nd_db (snd flush1)))) (bst_dispatched bs1) \<and>
   map m_State (db_messages (nd_db (snd flush1))) = [MS_Confirmed, MS_Unset, MS_Confirmed]"
proof -
  have "\<not> isl (fst flush1)" by code_simp
  from unit_result [OF this] have "flushPins env0 ''ns1'' bs1 node1 = (Inr (), snd flush1)"
    by (simp add: flush1_def)
  moreover have "distinct (map dm_msgID (bst_dispatched bs1))" by code_simp
  ultimately have "list_all (\<lambda>dm. list_all (\<lambda>m. m_LocalNamespace m = ''ns1'' \<and> mh_ID (m_Header m) = dm_msgID dm \<longrightarrow>
      m_State m = dm_newState dm) (db_messages (nd_db (snd flush1)))) (bst_dispatched bs1)"
    by (rule flush_sets_states)
  moreover have "map m_State (db_messages (nd_db (snd flush1))) = [MS_Confirmed, MS_Unset, MS_Confirmed]" by code_simp
  ultimately show ?thesis by blast
qed

definition topics_msg :: message where
  "topics_msg = (msg0 1) \<lparr> m_Header := (m_Header (msg0 1)) \<lparr> mh_Topics := [''t'', ''u''] \<rparr> \<rparr>"

lemma one_event_per_topic_witness:
  "\<exists>evs. db_events (nd_db (snd (insert_topic_events env0 ''ns1'' ET_MessageConfirmed topics_msg None None
     [''t'', ''u''] node1))) = db_events (nd_db node1) @ evs \<and> map ev_Topic evs = [''t'', ''u'']"
proof -
  let ?r = "insert_topic_events env0 ''ns1'' ET_MessageConfirmed topics_msg None None [''t'', ''u''] node1"
  have "\<not> isl (fst ?r)" by code_simp
  from one_event_per_topic [OF unit_result [OF this]] show ?thesis
    by (elim exE conjE, intro exI conjI)
qed

definition env1 :: env where
  "env1 = env0 \<lparr> e_flt := (\<lambda>n. n = 6) \<rparr>"

definition run_fail1 :: "(fferr + bool) \<times> node" where
  "run_fail1 = processPinsEventsHandler env1 ag0 [pin0 1, pin0 2, pin0 3] node1"

lemma handlers_prefinalize_keep_ag0: "handlers_prefinalize_keep f ag0"
  by (simp add: handlers_prefinalize_keep_def ag0_def)

lemma run_result_Inl: "isl (fst r) \<Longrightarrow> r = (Inl (projl (fst r)), snd r)"
  by (cases r) auto


text \<open>The polling offset is not part of what a failed run rolls back: when the commit of the
  run fails, no pin of the page is dispatched, yet the offset handed to the poller (which its commit
  loop may persist) is past the page, and a page read from that offset does not return them.\<close>

theorem failed_run_moves_offset:
  "let r = processPinsEventsHandler env1 ag0 [pin0 1, pin0 2, pin0 3] node1 in
     isl (fst r) \<and> nd_offset (snd r) = 3 \<and> map p_Dispatched (db_pins (nd_db (snd r))) = [False, False, False] \<and>
     (case fst (getPins env0 ag0 (nd_offset (snd r)) 50 (snd r)) of Inl _ \<Rightarrow> False | Inr page \<Rightarrow> page = []) \<and>
     (case fst (getPins env0 ag0 (nd_offset node1) 50 (snd r)) of Inl _ \<Rightarrow> False | Inr page \<Rightarrow> length page = 3)"
  by code_simp

end
