(* ===== verification/Masked_Contexts.thy ===== *)
theory Masked_Contexts
  imports Aggregator_Order
begin

text \<open>
  Masked (private) contexts: the next pins a run keeps per context always carry the hash
  of their topic, group, identity and nonce, the pin of a message is accepted only when it
  is the one at the current nonce of its author, and accepting it moves that nonce by one.
  The hypothesis \<open>inj (e_sha256 E)\<close> says that the hash has no collision.
\<close>

section \<open>Injectivity of the pin hash\<close>

lemma bytes_of_inj [simp]: "bytes_of s = bytes_of t \<longleftrightarrow> s = t"
proof -
  have "inj (\<lambda>c. of_nat (of_char c) :: byte)"
  proof (rule injI)
    fix c d :: char
    assume "of_nat (of_char c) = (of_nat (of_char d) :: byte)"
    then have "unat (of_nat (of_char c) :: byte) = unat (of_nat (of_char d) :: byte)" by simp
    then have "(of_char c :: nat) = of_char d" by (simp add: unat_of_nat)
    then show "c = d" by simp
  qed
  then show ?thesis by (simp add: bytes_of_def inj_map_eq_map)
qed

lemma length_be64 [simp]: "length (be64 n) = 8"
  by (simp add: be64_def Let_def)

definition pin_text :: "string \<Rightarrow> bytes32 \<Rightarrow> string \<Rightarrow> int \<Rightarrow> byte list" where
  "pin_text t g ident n = (bytes_of t @ g) @ bytes_of ident @ be64 n"

lemma privatePinHash_text: "privatePinHash E t g ident n = e_sha256 E (pin_text t g ident n)"
  by (simp add: privatePinHash_def pin_text_def)

lemma pinHash_same_context:
  assumes "inj (e_sha256 E)" "privateContext E t g = privateContext E t' g'"
  shows "privatePinHash E t g ident n = privatePinHash E t' g' ident n"
proof -
  have "bytes_of t @ g = bytes_of t' @ g'"
    using injD [OF assms(1)] assms(2) unfolding privateContext_def by blast
  then show ?thesis by (simp add: privatePinHash_text pin_text_def)
qed

lemma pinHash_identity:
  assumes "inj (e_sha256 E)" "privatePinHash E t g ident n = privatePinHash E t g ident' n'"
  shows "ident = ident' \<and> be64 n = be64 n'"
proof -
  have "pin_text t g ident n = pin_text t g ident' n'"
    using injD [OF assms(1)] assms(2) unfolding privatePinHash_text by blast
  then have "bytes_of ident @ be64 n = bytes_of ident' @ be64 n'" by (simp add: pin_text_def)
  then show ?thesis by simp
qed

section \<open>The invariant of the next pins\<close>

definition np_hash_ok :: "env \<Rightarrow> next_pin \<Rightarrow> bool" where
  "np_hash_ok E np \<longleftrightarrow> (\<forall>t g. np_Context np = privateContext E t g \<longrightarrow>
     np_Hash np = privatePinHash E t g (np_Identity np) (np_Nonce np))"

definition nonces_agree :: "next_pin list \<Rightarrow> bool" where
  "nonces_agree nps \<longleftrightarrow> (\<forall>np \<in> set nps. \<forall>np' \<in> set nps.
     np_Namespace np = np_Namespace np' \<and> np_Context np = np_Context np' \<and> np_Identity np = np_Identity np' \<longrightarrow>
     np_Nonce np = np_Nonce np')"

definition np_rows_ok :: "env \<Rightarrow> next_pin list \<Rightarrow> bool" where
  "np_rows_ok E nps \<longleftrightarrow> list_all (np_hash_ok E) nps \<and> nonces_agree nps"

definition npg_ok :: "env \<Rightarrow> string \<Rightarrow> bytes32 \<Rightarrow> npg_state \<Rightarrow> bool" where
  "npg_ok E ns ctx npg \<longleftrightarrow> ctx = privateContext E (npg_topic npg) (npg_groupID npg) \<and>
     list_all (\<lambda>np. np_Context np = ctx \<and> np_Namespace np = ns) (npg_nextPins npg) \<and>
     np_rows_ok E (npg_nextPins npg)"

text \<open>
  A group read from the tables follows their rows: same sequences and identities, and the
  row itself until the identity spends a pin (when each identity has one row in the context).
\<close>

definition ctx_rows :: "string \<Rightarrow> bytes32 \<Rightarrow> next_pin list \<Rightarrow> next_pin list" where
  "ctx_rows ns ctx rows = filter (\<lambda>np. np_Context np = ctx \<and> np_Namespace np = ns) rows"

definition link_ok :: "string \<Rightarrow> next_pin list \<Rightarrow> bytes32 \<Rightarrow> npg_state \<Rightarrow> bool" where
  "link_ok ns rows ctx npg \<longleftrightarrow>
     (if npg_new npg then ctx_rows ns ctx rows = []
      else distinct (map np_Identity (ctx_rows ns ctx rows)) \<longrightarrow>
        list_all2 (\<lambda>p r. np_Sequence p = np_Sequence r \<and> np_Identity p = np_Identity r \<and>
          (np_Identity p \<notin> set (npg_identitiesChanged npg) \<longrightarrow> p = r)) (npg_nextPins npg) (ctx_rows ns ctx rows))"

text \<open>The rows of the tables and the groups of the run.\<close>

definition masked_ok :: "env \<Rightarrow> string \<Rightarrow> next_pin list \<times> (bytes32 \<times> npg_state) list \<Rightarrow> bool" where
  "masked_ok E ns v \<longleftrightarrow> np_rows_ok E (fst v) \<and> distinct (map fst (snd v)) \<and>
     list_all (\<lambda>(ctx, npg). npg_ok E ns ctx npg \<and> link_ok ns (fst v) ctx npg) (snd v)"

definition masked_view :: "run \<Rightarrow> next_pin list \<times> (bytes32 \<times> npg_state) list" where
  "masked_view s = (db_nextpins (nd_db (fst s)), bst_masked (snd s))"

definition nps_ok :: "env \<Rightarrow> string \<Rightarrow> next_pin list \<Rightarrow> next_pin_state \<Rightarrow> bool" where
  "nps_ok E ns rows nps \<longleftrightarrow> np_Context (nps_nextPin nps) = nps_context nps \<and>
     np_Namespace (nps_nextPin nps) = ns \<and> np_hash_ok E (nps_nextPin nps) \<and>
     (let R = ctx_rows ns (nps_context nps) rows in R \<noteq> [] \<and> distinct (map np_Identity R) \<longrightarrow>
        (\<exists>r \<in> set R. np_Sequence (nps_nextPin nps) = np_Sequence r \<and> np_Identity (nps_nextPin nps) = np_Identity r))"

lemma np_hash_okI:
  assumes "inj (e_sha256 E)" "np_Context np = privateContext E t g"
    and "np_Hash np = privatePinHash E t g (np_Identity np) (np_Nonce np)"
  shows "np_hash_ok E np"
  using assms pinHash_same_context [OF assms(1)] by (metis np_hash_ok_def)

lemma set_assoc_put: "x \<in> set (assoc_put k v kvs) \<Longrightarrow> x = (k, v) \<or> x \<in> set kvs"
  by (induction kvs) (auto split: if_splits)

lemma masked_ok_put:
  assumes "masked_ok E ns (rows, masked)" "npg_ok E ns ctx npg" "link_ok ns rows ctx npg"
  shows "masked_ok E ns (rows, assoc_put ctx npg masked)"
  using assms by (auto simp: masked_ok_def list_all_iff intro: distinct_assoc_put dest!: set_assoc_put)

lemma masked_ok_get:
  assumes "masked_ok E ns (rows, masked)" "map_of masked ctx = Some npg"
  shows "npg_ok E ns ctx npg \<and> link_ok ns rows ctx npg"
  using assms map_of_SomeD [OF assms(2)] by (auto simp: masked_ok_def list_all_iff)

lemma nextpins_for_ok:
  assumes "np_rows_ok E (db_nextpins db)"
  shows "np_rows_ok E (nextpins_for ns ctx db)"
  using assms by (auto simp: np_rows_ok_def nextpins_for_def list_all_iff nonces_agree_def)

lemma zero_pins_spec:
  "zero_pins E ns npg ctx author pin ms = Some (nps, found) \<Longrightarrow>
     list_all (\<lambda>np. np_Context np = ctx \<and> np_Namespace np = ns \<and> np_Nonce np = 0 \<and>
       np_Hash np = calcPinHash E npg (np_Identity np) 0) nps \<and>
     (\<forall>np. found = Some np \<longrightarrow> np \<in> set nps \<and> np_Hash np = pin \<and> np_Identity np = author)"
proof (induction ms arbitrary: nps found)
  case (Cons mem ms)
  then obtain nps' found' where r: "zero_pins E ns npg ctx author pin ms = Some (nps', found')"
    by (auto simp: Let_def split: if_splits option.splits)
  from Cons.IH [OF this] Cons.prems r show ?case
    by (auto simp: Let_def split: if_splits option.splits)
qed simp

section \<open>The operations preserve it\<close>

lemma list_all2_conj_mem:
  "list_all2 P xs ys \<Longrightarrow> list_all2 (\<lambda>x y. (x \<in> set xs \<and> y \<in> set ys) \<and> P x y) xs ys"
  by (auto simp: list_all2_conv_all_nth)

lemma list_all2_refl_rows: "(\<And>x. x \<in> set xs \<Longrightarrow> P x x) \<Longrightarrow> list_all2 P xs xs"
  by (simp add: list_all2_same)

lemma stateForMaskedContext_spec:
  assumes "masked_ok E ns (masked_view s)"
    and "stateForMaskedContext E ns g t (privateContext E t g) s = (Inr r, s')"
  shows "masked_ok E ns (masked_view s') \<and> fst (masked_view s') = fst (masked_view s) \<and>
    (\<forall>npg. r = Some npg \<longrightarrow> map_of (bst_masked (snd s')) (privateContext E t g) = Some npg) \<and>
    (r = None \<longrightarrow> ctx_rows ns (privateContext E t g) (fst (masked_view s')) = [])"
proof (cases "map_of (bst_masked (snd s)) (privateContext E t g)")
  case (Some npg)
  then have "r = Some npg" "s' = s"
    using assms(2) by (cases s; auto simp: stateForMaskedContext_def bindM_eq_Inr)+
  then show ?thesis using assms(1) Some by (simp add: masked_view_def)
next
  case None
  obtain nd bs where s: "s = (nd, bs)" by (cases s)
  let ?rows = "nextpins_for ns (privateContext E t g) (nd_db nd)"
  have rows: "np_rows_ok E ?rows"
    using assms(1) by (intro nextpins_for_ok) (simp add: masked_ok_def masked_view_def s)
  have ctx: "list_all (\<lambda>np. np_Context np = privateContext E t g \<and> np_Namespace np = ns) ?rows"
    by (auto simp: nextpins_for_def list_all_iff)
  show ?thesis
    using assms rows ctx None
    by (auto simp: s stateForMaskedContext_def bindM_eq_Inr onNode_eq GetNextPinsForContext_def db_read_Inr
        masked_view_def Let_def npg_ok_def link_ok_def list_all2_refl_rows ctx_rows_def nextpins_for_def
        intro!: masked_ok_put split: if_splits)
qed

lemma attemptContextInit_spec:
  assumes "inj (e_sha256 E)" "masked_ok E ns (masked_view s)"
    and "ctx_rows ns (privateContext E t g) (fst (masked_view s)) = []"
    and "attemptContextInit E ns msg b g t sq (privateContext E t g) pin s = (Inr r, s')"
  shows "masked_ok E ns (masked_view s') \<and> fst (masked_view s') = fst (masked_view s) \<and>
    (\<forall>nps. r = Some nps \<longrightarrow> nps_ok E ns (fst (masked_view s')) nps \<and> nps_context nps = privateContext E t g \<and>
       np_Hash (nps_nextPin nps) = pin \<and> np_Identity (nps_nextPin nps) = sr_Author (mh_Signer (m_Header msg)) \<and>
       (\<exists>npg. map_of (bst_masked (snd s')) (privateContext E t g) = Some npg \<and> npg_topic npg = t \<and>
          npg_groupID npg = g \<and> nps_nextPin nps \<in> set (npg_nextPins npg)))"
proof -
  let ?ctx = "privateContext E t g" and ?author = "sr_Author (mh_Signer (m_Header msg))"
  let ?npg = "\<lparr> npg_groupID = g, npg_topic = t, npg_nextPins = [], npg_new = True, npg_identitiesChanged = [] \<rparr>"
  obtain nd bs where s: "s = (nd, bs)" by (cases s)
  obtain grp nd1 where 1: "ResolveInitGroup E ns msg \<lparr> mb_Identity = sr_Author (bh_Signer (bpd_Header b)),
      mb_Node = bh_Node (bpd_Header b) \<rparr> nd = (Inr grp, nd1)"
    using assms(4) by (auto simp: attemptContextInit_def bindM_eq_Inr onNode_def s split: prod.splits)
  have rows: "db_nextpins (nd_db nd1) = db_nextpins (nd_db nd)"
    using keepsD [OF keeps_ResolveInitGroup 1] by (simp add: seq_tables_def)
  show ?thesis
  proof (cases "\<exists>gr nps np. grp = Some gr \<and>
      zero_pins E ns ?npg ?ctx ?author pin (gi_Members (g_Identity gr)) = Some (nps, Some np) \<and> r \<noteq> None")
    case False
    then have "r = None \<and> masked_view s' = masked_view s"
      using assms(4) 1 rows
      by (auto simp: attemptContextInit_def bindM_eq_Inr onNode_eq s masked_view_def Let_def GetPins_def db_read_Inr
          split: option.splits prod.splits if_splits)
    then show ?thesis using assms(2) by simp
  next
    case True
    then obtain gr nps np where z: "grp = Some gr"
      "zero_pins E ns ?npg ?ctx ?author pin (gi_Members (g_Identity gr)) = Some (nps, Some np)"
      and rn: "r \<noteq> None" by blast
    from z rn have fin: "r = Some \<lparr> nps_context = ?ctx, nps_nextPin = np \<rparr>"
      "masked_view s' = (db_nextpins (nd_db nd1), assoc_put ?ctx (?npg \<lparr> npg_nextPins := nps \<rparr>) (bst_masked bs))"
      using assms(4) 1
      by (auto simp: attemptContextInit_def bindM_eq_Inr onNode_eq s masked_view_def Let_def GetPins_def db_read_Inr
          split: if_splits)
    note zs = zero_pins_spec [OF z(2)]
    have ok: "np_hash_ok E p" if "p \<in> set nps" for p
      using zs that by (intro np_hash_okI [OF assms(1), where t = t and g = g])
        (auto simp: list_all_iff calcPinHash_def)
    have npg: "npg_ok E ns ?ctx (?npg \<lparr> npg_nextPins := nps \<rparr>)"
      using zs ok by (auto simp: npg_ok_def np_rows_ok_def list_all_iff nonces_agree_def)
    have "masked_ok E ns (db_nextpins (nd_db nd1), bst_masked bs)"
      using assms(2) rows by (simp add: masked_view_def s)
    moreover have "link_ok ns (db_nextpins (nd_db nd1)) ?ctx (?npg \<lparr> npg_nextPins := nps \<rparr>)"
      using assms(3) rows by (simp add: link_ok_def masked_view_def s)
    ultimately have "masked_ok E ns (masked_view s')" using masked_ok_put [OF _ npg] fin(2) by simp
    moreover have "bst_masked (snd s') = assoc_put ?ctx (?npg \<lparr> npg_nextPins := nps \<rparr>) (bst_masked bs)"
      using fin(2) by (simp add: masked_view_def)
    ultimately show ?thesis
      using fin zs ok assms(3) rows by (auto simp: nps_ok_def list_all_iff masked_view_def s)
  qed
qed

lemma link_member:
  assumes "link_ok ns rows ctx npg" "np \<in> set (npg_nextPins npg)" "ctx_rows ns ctx rows \<noteq> []"
    "distinct (map np_Identity (ctx_rows ns ctx rows))"
  shows "\<exists>r \<in> set (ctx_rows ns ctx rows). np_Sequence np = np_Sequence r \<and> np_Identity np = np_Identity r"
proof -
  have "list_all2 (\<lambda>p r. np_Sequence p = np_Sequence r \<and> np_Identity p = np_Identity r \<and>
          (np_Identity p \<notin> set (npg_identitiesChanged npg) \<longrightarrow> p = r)) (npg_nextPins npg) (ctx_rows ns ctx rows)"
    using assms(1,3,4) by (auto simp: link_ok_def split: if_splits)
  moreover obtain i where "i < length (npg_nextPins npg)" "np = npg_nextPins npg ! i"
    using assms(2) by (auto simp: in_set_conv_nth)
  ultimately show ?thesis
    by (intro bexI [of _ "ctx_rows ns ctx rows ! i"]) (auto simp: list_all2_conv_all_nth)
qed

lemma checkMaskedContextReady_spec:
  assumes "inj (e_sha256 E)" "masked_ok E ns (masked_view s)"
    and "checkMaskedContextReady E ns msg b g t sq pin s = (Inr r, s')"
  shows "masked_ok E ns (masked_view s') \<and> fst (masked_view s') = fst (masked_view s) \<and>
    (\<forall>nps. r = Some nps \<longrightarrow> nps_ok E ns (fst (masked_view s')) nps \<and> nps_context nps = privateContext E t g \<and>
       np_Hash (nps_nextPin nps) = pin \<and> np_Identity (nps_nextPin nps) = sr_Author (mh_Signer (m_Header msg)) \<and>
       (\<exists>npg. map_of (bst_masked (snd s')) (privateContext E t g) = Some npg \<and>
          nps_nextPin nps \<in> set (npg_nextPins npg)))"
proof -
  obtain o1 s1 where st: "stateForMaskedContext E ns g t (privateContext E t g) s = (Inr o1, s1)"
    and rest: "(case o1 of None \<Rightarrow> attemptContextInit E ns msg b g t sq (privateContext E t g) pin
        | Some npg \<Rightarrow> (case find (\<lambda>np. np_Hash np = pin) (npg_nextPins npg) of
               None \<Rightarrow> retM None
             | Some np \<Rightarrow>
                 if np_Identity np \<noteq> sr_Author (mh_Signer (m_Header msg)) then retM None
                 else retM (Some \<lparr> nps_context = privateContext E t g, nps_nextPin = np \<rparr>))) s1 = (Inr r, s')"
    using assms(3) by (auto simp: checkMaskedContextReady_def Let_def bindM_eq_Inr)
  note sp = stateForMaskedContext_spec [OF assms(2) st]
  show ?thesis
  proof (cases o1)
    case None
    then show ?thesis
      using attemptContextInit_spec [OF assms(1), of ns s1] sp rest by fastforce
  next
    case (Some npg)
    have m: "masked_ok E ns (fst (masked_view s1), snd (masked_view s1))" using conjunct1 [OF sp] by simp
    have e: "map_of (snd (masked_view s1)) (privateContext E t g) = Some npg"
      using sp Some by (simp add: masked_view_def)
    note ok = masked_ok_get [OF m e]
    show ?thesis
    proof (cases "find (\<lambda>np. np_Hash np = pin) (npg_nextPins npg)")
      case None
      then show ?thesis using sp Some rest by simp
    next
      case (Some np)
      then show ?thesis
        using sp \<open>o1 = Some npg\<close> rest ok find_Some_in [OF Some] link_member [OF conjunct2 [OF ok], of np]
        by (auto simp: nps_ok_def npg_ok_def np_rows_ok_def list_all_iff Let_def split: if_splits)
    qed
  qed
qed

lemma incrementNPG_ok:
  assumes "inj (e_sha256 E)" "npg_ok E ns ctx npg" "np_Context np = ctx" "np_Namespace np = ns" "np_hash_ok E np"
  shows "npg_ok E ns ctx (incrementNPG E ns np npg)"
proof (cases "\<exists>e \<in> set (npg_nextPins npg). np_Hash e = np_Hash np")
  case False
  then show ?thesis using assms(2) by (simp add: incrementNPG_def)
next
  case True
  then obtain e where e: "e \<in> set (npg_nextPins npg)" "np_Hash e = np_Hash np" by blast
  let ?t = "npg_topic npg" and ?g = "npg_groupID npg"
  let ?new = "\<lparr> np_Namespace = ns, np_Context = np_Context np, np_Identity = np_Identity np,
      np_Hash = calcPinHash E npg (np_Identity np) (np_Nonce np + 1), np_Nonce = np_Nonce np + 1,
      np_Sequence = np_Sequence np \<rparr>"
  have ctx: "ctx = privateContext E ?t ?g" using assms(2) by (simp add: npg_ok_def)
  have hash: "np_Hash p = privatePinHash E ?t ?g (np_Identity p) (np_Nonce p)" if "p \<in> set (npg_nextPins npg)" for p
    using assms(2) that ctx by (simp add: npg_ok_def np_rows_ok_def list_all_iff np_hash_ok_def)
  have "np_Hash np = privatePinHash E ?t ?g (np_Identity np) (np_Nonce np)"
    using assms(3,5) ctx by (simp add: np_hash_ok_def)
  then have ide: "np_Identity e = np_Identity np"
    using pinHash_identity [OF assms(1)] hash [OF e(1)] e(2) by metis
  have same: "np_Hash p = np_Hash np" if "p \<in> set (npg_nextPins npg)" "np_Identity p = np_Identity np" for p
  proof -
    have "np_Nonce p = np_Nonce e"
      using assms(2) that e(1) ide unfolding npg_ok_def np_rows_ok_def nonces_agree_def list_all_iff by metis
    then show ?thesis using hash [OF that(1)] hash [OF e(1)] that(2) ide e(2) by simp
  qed
  have other: "np_Identity p = np_Identity np" if "p \<in> set (npg_nextPins npg)" "np_Hash p = np_Hash np" for p
    using pinHash_identity [OF assms(1)] hash [OF that(1)] hash [OF e(1)] that(2) e(2) ide by metis
  have new: "np_hash_ok E ?new"
    using assms(3) ctx by (intro np_hash_okI [OF assms(1), where t = ?t and g = ?g]) (simp_all add: calcPinHash_def)
  let ?nps = "map (\<lambda>p. if np_Hash np = np_Hash p then ?new else p) (npg_nextPins npg)"
  have inc: "npg_nextPins (incrementNPG E ns np npg) = ?nps" "npg_topic (incrementNPG E ns np npg) = ?t"
    "npg_groupID (incrementNPG E ns np npg) = ?g"
    using True by (auto simp: incrementNPG_def)
  have old: "\<forall>p \<in> set (npg_nextPins npg). np_Context p = ctx \<and> np_Namespace p = ns \<and> np_hash_ok E p"
    "nonces_agree (npg_nextPins npg)"
    using assms(2) by (auto simp: npg_ok_def np_rows_ok_def list_all_iff)
  have q: "if np_Identity q = np_Identity np then np_Nonce q = np_Nonce np + 1 else q \<in> set (npg_nextPins npg)"
    if q: "q \<in> set ?nps" for q
  proof -
    from q obtain p where p: "p \<in> set (npg_nextPins npg)" "q = (if np_Hash np = np_Hash p then ?new else p)"
      unfolding set_map by (rule imageE)
    show ?thesis
    proof (cases "np_Hash np = np_Hash p")
      case True
      then show ?thesis using p(2) by simp
    next
      case False
      then have "q = p" "np_Identity p \<noteq> np_Identity np" using p same by auto
      then show ?thesis using p(1) by simp
    qed
  qed
  have "nonces_agree ?nps"
    unfolding nonces_agree_def
  proof (intro ballI impI, elim conjE)
    fix p1 p2
    assume p: "p1 \<in> set ?nps" "p2 \<in> set ?nps" "np_Namespace p1 = np_Namespace p2"
      "np_Context p1 = np_Context p2" "np_Identity p1 = np_Identity p2"
    show "np_Nonce p1 = np_Nonce p2"
    proof (cases "np_Identity p1 = np_Identity np")
      case True
      then show ?thesis using q [OF p(1)] q [OF p(2)] p(5) by simp
    next
      case False
      then show ?thesis using q [OF p(1)] q [OF p(2)] p old(2) unfolding nonces_agree_def by metis
    qed
  qed
  then show ?thesis
    using old new assms(3,4) ctx unfolding npg_ok_def np_rows_ok_def inc list_all_iff by auto
qed

lemma incrementNPG_link:
  assumes "inj (e_sha256 E)" "npg_ok E ns ctx npg" "link_ok ns rows ctx npg" "nps_ok E ns rows nps"
    and "nps_context nps = ctx"
  shows "link_ok ns rows ctx (incrementNPG E ns (nps_nextPin nps) npg)"
proof (cases "npg_new npg \<or> \<not> distinct (map np_Identity (ctx_rows ns ctx rows))
    \<or> (\<forall>e \<in> set (npg_nextPins npg). np_Hash e \<noteq> np_Hash (nps_nextPin nps))")
  case True
  then show ?thesis using assms(3) by (auto simp: link_ok_def incrementNPG_def)
next
  case False
  let ?np = "nps_nextPin nps" and ?R = "ctx_rows ns ctx rows"
  from False have nn: "\<not> npg_new npg" and d: "distinct (map np_Identity ?R)"
    and ex: "\<exists>e \<in> set (npg_nextPins npg). np_Hash e = np_Hash ?np" by auto
  let ?t = "npg_topic npg" and ?g = "npg_groupID npg"
  let ?new = "\<lparr> np_Namespace = ns, np_Context = np_Context ?np, np_Identity = np_Identity ?np,
      np_Hash = calcPinHash E npg (np_Identity ?np) (np_Nonce ?np + 1), np_Nonce = np_Nonce ?np + 1,
      np_Sequence = np_Sequence ?np \<rparr>"
  have ctx: "ctx = privateContext E ?t ?g" using assms(2) by (simp add: npg_ok_def)
  have hash: "np_Hash p = privatePinHash E ?t ?g (np_Identity p) (np_Nonce p)" if "p \<in> set (npg_nextPins npg)" for p
    using assms(2) that ctx by (simp add: npg_ok_def np_rows_ok_def list_all_iff np_hash_ok_def)
  have np: "np_Hash ?np = privatePinHash E ?t ?g (np_Identity ?np) (np_Nonce ?np)"
    using assms(4,5) ctx by (simp add: nps_ok_def np_hash_ok_def)
  have ide: "np_Identity p = np_Identity ?np" if "p \<in> set (npg_nextPins npg)" "np_Hash p = np_Hash ?np" for p
    using pinHash_identity [OF assms(1)] hash [OF that(1)] that(2) np by metis
  have l: "list_all2 (\<lambda>p r. np_Sequence p = np_Sequence r \<and> np_Identity p = np_Identity r \<and>
          (np_Identity p \<notin> set (npg_identitiesChanged npg) \<longrightarrow> p = r)) (npg_nextPins npg) ?R"
    using assms(3) nn d by (simp add: link_ok_def)
  then have "length (npg_nextPins npg) = length ?R" by (rule list_all2_lengthD)
  with ex have "?R \<noteq> []" by auto
  then obtain r0 where r0: "r0 \<in> set ?R" "np_Sequence ?np = np_Sequence r0" "np_Identity ?np = np_Identity r0"
    using assms(4,5) d by (auto simp: nps_ok_def Let_def)
  have one: "r = r0" if "r \<in> set ?R" "np_Identity r = np_Identity ?np" for r
    using d r0(1,3) that by (auto simp: distinct_map dest: inj_onD)
  have "list_all2 (\<lambda>p r. np_Sequence p = np_Sequence r \<and> np_Identity p = np_Identity r \<and>
          (np_Identity p \<notin> set (np_Identity ?np # npg_identitiesChanged npg) \<longrightarrow> p = r))
      (map (\<lambda>p. if np_Hash ?np = np_Hash p then ?new else p) (npg_nextPins npg)) ?R"
    unfolding list_all2_map1
  proof (rule list_all2_mono [OF list_all2_conj_mem [OF l]])
    fix p r
    assume a: "(p \<in> set (npg_nextPins npg) \<and> r \<in> set ?R) \<and> np_Sequence p = np_Sequence r \<and> np_Identity p = np_Identity r \<and>
          (np_Identity p \<notin> set (npg_identitiesChanged npg) \<longrightarrow> p = r)"
    show "np_Sequence (if np_Hash ?np = np_Hash p then ?new else p) = np_Sequence r \<and>
        np_Identity (if np_Hash ?np = np_Hash p then ?new else p) = np_Identity r \<and>
        (np_Identity (if np_Hash ?np = np_Hash p then ?new else p) \<notin> set (np_Identity ?np # npg_identitiesChanged npg)
           \<longrightarrow> (if np_Hash ?np = np_Hash p then ?new else p) = r)"
    proof (cases "np_Hash ?np = np_Hash p")
      case True
      from a have m: "p \<in> set (npg_nextPins npg)" "r \<in> set ?R" "np_Identity r = np_Identity p" by simp_all
      have "np_Identity p = np_Identity ?np" by (rule ide [OF m(1) True [symmetric]])
      then have "r = r0" using m(3) by (intro one [OF m(2)]) simp
      then show ?thesis using True r0(2,3) by simp
    next
      case False
      from a have "np_Sequence p = np_Sequence r" "np_Identity p = np_Identity r"
        and keep: "np_Identity p \<notin> set (npg_identitiesChanged npg) \<Longrightarrow> p = r" by blast+
      then show ?thesis unfolding if_not_P [OF False] by (intro conjI impI keep) auto
    qed
  qed
  then show ?thesis using ex nn d by (simp add: link_ok_def incrementNPG_def)
qed

lemma IncrementNextPin_ok:
  assumes "inj (e_sha256 E)" "masked_ok E ns (masked_view s)" "nps_ok E ns (fst (masked_view s)) nps"
    and "IncrementNextPin E ns nps s = (r, s')"
  shows "masked_ok E ns (masked_view s') \<and> fst (masked_view s') = fst (masked_view s)"
proof (cases "map_of (bst_masked (snd s)) (nps_context nps)")
  case None
  then show ?thesis
    using assms(2,4) by (cases s) (auto simp: IncrementNextPin_def masked_view_def)
next
  case (Some npg)
  have mok: "masked_ok E ns (db_nextpins (nd_db (fst s)), bst_masked (snd s))"
    using assms(2) by (simp add: masked_view_def)
  have n: "npg_ok E ns (nps_context nps) (incrementNPG E ns (nps_nextPin nps) npg)"
    using masked_ok_get [OF mok Some] assms(3) by (intro incrementNPG_ok [OF assms(1)]) (auto simp: nps_ok_def)
  have "link_ok ns (db_nextpins (nd_db (fst s))) (nps_context nps) (incrementNPG E ns (nps_nextPin nps) npg)"
    using masked_ok_get [OF mok Some] assms(3)
    by (intro incrementNPG_link [OF assms(1)]) (simp_all add: masked_view_def)
  from masked_ok_put [OF mok n this] show ?thesis
    using assms(4) Some by (cases s) (auto simp: IncrementNextPin_def masked_view_def)
qed

lemma last_be64: "last (be64 n) = word_of_int n"
  by (simp add: be64_def Let_def ucast_down_wi is_down)

lemma be64_Suc: "be64 n \<noteq> be64 (n + 1)"
proof
  assume "be64 n = be64 (n + 1)"
  then have "(word_of_int n :: byte) = word_of_int (n + 1)" by (metis last_be64)
  then have "(word_of_int n :: byte) = word_of_int n + 1" by (metis wi_hom_add word_1_wi)
  then show False by simp
qed

text \<open>After a pin is spent, the entries of its author carry the next nonce, the others are as before.\<close>

lemma IncrementNextPin_entry:
  assumes "inj (e_sha256 E)" "masked_ok E ns (masked_view s)" "nps_ok E ns (fst (masked_view s)) nps"
    and "map_of (bst_masked (snd s)) (nps_context nps) = Some npg" "nps_nextPin nps \<in> set (npg_nextPins npg)"
    and "nps_context nps = privateContext E t g" "IncrementNextPin E ns nps s = (r, s')"
  shows "map_of (bst_masked (snd s')) (nps_context nps) = Some (incrementNPG E ns (nps_nextPin nps) npg) \<and>
    (\<forall>q \<in> set (npg_nextPins (incrementNPG E ns (nps_nextPin nps) npg)).
       np_Hash q = privatePinHash E t g (np_Identity q) (np_Nonce q) \<and>
       (np_Identity q = np_Identity (nps_nextPin nps) \<longrightarrow> np_Nonce q = np_Nonce (nps_nextPin nps) + 1))"
proof -
  let ?np = "nps_nextPin nps"
  have e: "map_of (bst_masked (snd s')) (nps_context nps) = Some (incrementNPG E ns ?np npg)"
    using assms(4,7) by (cases s) (auto simp: IncrementNextPin_def)
  have mok: "masked_ok E ns (fst (masked_view s'), bst_masked (snd s'))"
    using conjunct1 [OF IncrementNextPin_ok [OF assms(1,2,3,7)]] by (simp add: masked_view_def)
  from masked_ok_get [OF this e] have ok: "npg_ok E ns (nps_context nps) (incrementNPG E ns ?np npg)" by blast
  have h: "np_Hash q = privatePinHash E t g (np_Identity q) (np_Nonce q)"
    if "q \<in> set (npg_nextPins (incrementNPG E ns ?np npg))" for q
  proof -
    have "np_Context q = privateContext E t g" "np_hash_ok E q"
      using ok that assms(6) by (simp_all add: npg_ok_def np_rows_ok_def list_all_iff)
    then show ?thesis unfolding np_hash_ok_def by blast
  qed
  have "\<exists>p \<in> set (npg_nextPins (incrementNPG E ns ?np npg)).
      np_Identity p = np_Identity ?np \<and> np_Nonce p = np_Nonce ?np + 1"
  proof -
    have "\<exists>e \<in> set (npg_nextPins npg). np_Hash e = np_Hash ?np" using assms(5) by blast
    then show ?thesis using assms(5) by (auto simp: incrementNPG_def bex_Un)
  qed
  then have "np_Nonce q = np_Nonce ?np + 1"
    if "q \<in> set (npg_nextPins (incrementNPG E ns ?np npg))" "np_Identity q = np_Identity ?np" for q
    using ok that unfolding npg_ok_def np_rows_ok_def nonces_agree_def list_all_iff by metis
  with e h show ?thesis by blast
qed

lemma checkMasked_existing:
  assumes "map_of (bst_masked (snd s)) (privateContext E t g) = Some npg"
    and "checkMaskedContextReady E ns msg b g t sq pin s = (Inr r, s')"
  shows "s' = s \<and> (\<forall>nps. r = Some nps \<longrightarrow> nps_nextPin nps \<in> set (npg_nextPins npg) \<and>
    np_Hash (nps_nextPin nps) = pin \<and> np_Identity (nps_nextPin nps) = sr_Author (mh_Signer (m_Header msg)))"
proof -
  have "stateForMaskedContext E ns g t (privateContext E t g) s = (Inr (Some npg), s)"
    using assms(1) by (cases s) (simp add: stateForMaskedContext_def bindM_def getsBS_def getsM_def retM_def)
  then show ?thesis
    using assms(2) by (auto simp: checkMaskedContextReady_def Let_def bindM_eq_Inr
        split: option.splits if_splits dest: find_Some_in)
qed

lemma first_then:
  assumes "inj (e_sha256 E)" "masked_ok E ns (masked_view s)"
    and "checkMaskedContextReady E ns msg b g t sq pin s = (Inr (Some nps), s1)"
    and "IncrementNextPin E ns nps s1 = (Inr (), s2)"
    and "checkMaskedContextReady E ns msg' b' g t sq' pin' s2 = (Inr r, s3)"
  shows "pin = privatePinHash E t g (sr_Author (mh_Signer (m_Header msg))) (np_Nonce (nps_nextPin nps)) \<and>
    (\<forall>nps'. r = Some nps' \<longrightarrow>
      pin' = privatePinHash E t g (sr_Author (mh_Signer (m_Header msg'))) (np_Nonce (nps_nextPin nps')) \<and>
      (sr_Author (mh_Signer (m_Header msg')) = sr_Author (mh_Signer (m_Header msg)) \<longrightarrow>
         np_Nonce (nps_nextPin nps') = np_Nonce (nps_nextPin nps) + 1))"
proof -
  from checkMaskedContextReady_spec [OF assms(1-3)] obtain npg where

    ok: "masked_ok E ns (masked_view s1)" "nps_ok E ns (fst (masked_view s1)) nps" "nps_context nps = privateContext E t g"
    and np: "np_Hash (nps_nextPin nps) = pin" "np_Identity (nps_nextPin nps) = sr_Author (mh_Signer (m_Header msg))"
    and npg: "map_of (bst_masked (snd s1)) (nps_context nps) = Some npg"
      "nps_nextPin nps \<in> set (npg_nextPins npg)"
    by auto
  note e = IncrementNextPin_entry [OF assms(1) ok(1,2) npg ok(3) assms(4)]
  then have e1: "map_of (bst_masked (snd s2)) (privateContext E t g) = Some (incrementNPG E ns (nps_nextPin nps) npg)"
    by (simp add: ok(3))
  note c = checkMasked_existing [OF e1 assms(5)]
  have "pin = privatePinHash E t g (sr_Author (mh_Signer (m_Header msg))) (np_Nonce (nps_nextPin nps))"
    using ok(2,3) np by (auto simp: nps_ok_def np_hash_ok_def)
  then show ?thesis using c e np by auto
qed



section \<open>The invariant over a run\<close>

lemma preserves_bind_post:
  assumes "\<And>s x s'. I s \<Longrightarrow> m s = (Inr x, s') \<Longrightarrow> I s' \<and> R x" "\<And>x. R x \<Longrightarrow> preserves I (g x)"
  shows "preserves I (bindM m g)"
proof (rule preservesI)
  fix s x s'
  assume "I s" "bindM m g s = (Inr x, s')"
  then obtain y s1 where "m s = (Inr y, s1)" "g y s1 = (Inr x, s')" by (auto simp: bindM_eq_Inr)
  then show "I s'" using assms(1) [OF \<open>I s\<close>] preservesD [OF assms(2)] by blast
qed

lemma masked_onNode:
  assumes "keeps (\<lambda>nd. db_nextpins (nd_db nd)) m"
  shows "keeps masked_view (onNode m)"
  unfolding masked_view_def
  by (rule keeps_pair [OF keeps_onNode [OF assms] keeps_onNode_bs])

lemma masked_modifyBS:
  assumes "\<And>bs. bst_masked (g bs) = bst_masked bs"
  shows "keeps masked_view (modifyBS g)"
  unfolding masked_view_def
  by (rule keeps_pair [OF keeps_modifyBS [where f = "\<lambda>nd. db_nextpins (nd_db nd)"] keeps_modifyBS_snd])
    (rule assms)

lemma masked_modifyCore: "keeps masked_view (modifyCore g)"
  unfolding modifyCore_def by (rule masked_modifyBS) simp

lemma checkMaskedPins_ok:
  assumes "inj (e_sha256 E)"
  shows "masked_ok E (ag_namespace ag) (masked_view s) \<Longrightarrow>
     checkMaskedPins E ag msg b g sq tps s = (Inr r, s') \<Longrightarrow>
     masked_ok E (ag_namespace ag) (masked_view s') \<and> fst (masked_view s') = fst (masked_view s) \<and>
     (\<forall>nps. r = Some nps \<longrightarrow> list_all (nps_ok E (ag_namespace ag) (fst (masked_view s))) nps)"
proof (induction tps arbitrary: s r)
  case (Cons tp tps)
  obtain t p where tp: "tp = (t, p)" by (cases tp)
  show ?case
  proof (cases "e_unhex E (hd (split_on (CHR '':'') p))")
    case None
    then show ?thesis using Cons.prems tp by simp
  next
    case (Some ctx)
    then obtain np s1 where 1: "checkMaskedContextReady E (ag_namespace ag) msg b g t sq ctx s = (Inr np, s1)"
      and 2: "(case np of None \<Rightarrow> retM None
            | Some np \<Rightarrow> bindM (checkMaskedPins E ag msg b g sq tps) (\<lambda>nps. retM (map_option ((#) np) nps))) s1 = (Inr r, s')"
      using Cons.prems(2) by (auto simp: tp bindM_eq_Inr)
    note c = checkMaskedContextReady_spec [OF assms Cons.prems(1) 1]
    show ?thesis
    proof (cases np)
      case None
      then show ?thesis using 2 c by simp
    next
      case (Some n)
      then obtain r' where "checkMaskedPins E ag msg b g sq tps s1 = (Inr r', s')" "r = map_option ((#) n) r'"
        using 2 by (auto simp: bindM_eq_Inr)
      then show ?thesis using Cons.IH [of s1 r'] c Some by auto
    qed
  qed
qed simp

lemma masked_checkUnmaskedTopics: "keeps masked_view (checkUnmaskedTopics E ns sq ts)"
proof (induction ts)
  case (Cons t ts)
  show ?case unfolding checkUnmaskedTopics.simps checkUnmaskedContextReady_def GetPins_def
    by (intro keeps_intros masked_onNode masked_modifyBS Cons.IH) simp_all
qed (simp add: keeps_ret)

lemma checkContexts_ok:
  assumes "inj (e_sha256 E)" "masked_ok E (ag_namespace ag) (masked_view s)"
    and "checkContexts E ag msg b pin s = (Inr r, s')"
  shows "masked_ok E (ag_namespace ag) (masked_view s') \<and> fst (masked_view s') = fst (masked_view s) \<and>
    (\<forall>nps. r = Some nps \<longrightarrow> list_all (nps_ok E (ag_namespace ag) (fst (masked_view s))) nps)"
proof (cases "p_Masked pin")
  case True
  then show ?thesis
    using assms checkMaskedPins_ok [OF assms(1,2)]
    by (auto simp: checkContexts_def split: option.splits if_splits)
next
  case False
  then obtain rd where "checkUnmaskedTopics E (ag_namespace ag) (p_Sequence pin) (mh_Topics (m_Header msg)) s = (Inr rd, s')"
      "r = (if rd then Some [] else None)"
    using assms(3) by (auto simp: checkContexts_def bindM_eq_Inr)
  then show ?thesis
    using keepsD [OF masked_checkUnmaskedTopics] assms(2) by (metis list.pred_inject(1) option.distinct(1) option.inject)
qed

definition masked_run :: "env \<Rightarrow> aggregator \<Rightarrow> next_pin list \<Rightarrow> next_pin list \<times> (bytes32 \<times> npg_state) list \<Rightarrow> bool" where
  "masked_run E ag rows v \<longleftrightarrow> masked_ok E (ag_namespace ag) v \<and> fst v = rows"

lemma preserves_masked_dispatch:
  assumes "inj (e_sha256 E)" "list_all (nps_ok E (ag_namespace ag) rows) nps"
  shows "preserves (\<lambda>s. masked_run E ag rows (masked_view s)) (dispatchMessage E ag a c err msg mf nps i)"
proof -
  note k = preserves_keeps [where f = masked_view and J = "masked_run E ag rows"]
  have inc: "preserves (\<lambda>s. masked_run E ag rows (masked_view s)) (IncrementNextPin E (ag_namespace ag) n)"
    if n: "n \<in> set nps" for n
  proof (rule preservesI)
    fix s x s'
    assume I: "masked_run E ag rows (masked_view s)" and r: "IncrementNextPin E (ag_namespace ag) n s = (Inr x, s')"
    have "nps_ok E (ag_namespace ag) (fst (masked_view s)) n"
      using n assms(2) I by (simp add: list_all_iff masked_run_def)
    from IncrementNextPin_ok [OF assms(1) _ this r] I show "masked_run E ag rows (masked_view s')"
      by (simp add: masked_run_def)
  qed
  show ?thesis
    unfolding dispatchMessage_def markMessageDispatched_def completeDispatch_def Let_def
    by (intro preserves_intros inc k masked_onNode masked_modifyCore masked_modifyBS keeps_intros) simp_all
qed

lemma preserves_masked_processMessage:
  assumes "inj (e_sha256 E)" "handlers_keep db_nextpins ag"
  shows "preserves (\<lambda>s. masked_run E ag rows (masked_view s)) (processMessage E ag mf pin base entry b)"
proof -
  let ?I = "\<lambda>s. masked_run E ag rows (masked_view s)"
  note k = preserves_keeps [where f = masked_view and J = "masked_run E ag rows"]
  have h: "keeps (\<lambda>nd. db_nextpins (nd_db nd)) (ag_definitions ag core msg data tx)" for core msg data tx
    using assms(2) by (simp add: handlers_keep_def)
  have ready: "keeps masked_view (readyForDispatch E ag msg data tx)" for msg data tx
    unfolding readyForDispatch_def validateForDispatch_def db_reads
    by (intro keeps_intros masked_onNode h masked_modifyCore)
  have blk: "keeps masked_view (SetContextBlockedBy ctx sq)" for ctx sq
    unfolding SetContextBlockedBy_def by (rule masked_modifyBS) (simp split: option.splits)
  have fin: "preserves ?I (finishMessage E ag res msg mf pin nps i)"
    if "list_all (nps_ok E (ag_namespace ag) rows) nps" for res msg nps i
    unfolding finishMessage_def
    by (cases res; cases "fst res")
      (auto intro!: preserves_intros preserves_masked_dispatch assms that k [OF blk] split: option.splits)
  have rest: "preserves ?I (bindM (checkContexts E ag msg b pin) (\<lambda>ready.
      case ready of None \<Rightarrow> retM ()
      | Some nps \<Rightarrow> bindM (if act = ActionConfirm then readyForDispatch E ag msg data (tr_ID (bm_TX mf))
                          else retM (act, None, err)) (\<lambda>res. finishMessage E ag res msg mf pin nps base)))"
    for msg data act err
  proof (rule preserves_bind_post [where R = "\<lambda>r. \<forall>nps. r = Some nps \<longrightarrow> list_all (nps_ok E (ag_namespace ag) rows) nps"])
    fix r assume "\<forall>nps. r = Some nps \<longrightarrow> list_all (nps_ok E (ag_namespace ag) rows) nps"
    then show "preserves ?I (case r of None \<Rightarrow> retM ()
      | Some nps \<Rightarrow> bindM (if act = ActionConfirm then readyForDispatch E ag msg data (tr_ID (bm_TX mf))
                          else retM (act, None, err)) (\<lambda>res. finishMessage E ag res msg mf pin nps base))"
      by (cases r) (auto intro!: preserves_intros fin k [OF ready])
  qed (use checkContexts_ok [OF assms(1)] in \<open>fastforce simp: masked_run_def\<close>)
  show ?thesis
    unfolding processMessage_def
    by (intro preserves_intros rest k masked_onNode keeps_intros)
qed

lemma preserves_masked_processPins:
  assumes "inj (e_sha256 E)" "handlers_keep db_nextpins ag"
  shows "preserves (\<lambda>s. masked_run E ag rows (masked_view s)) (processPins E ag pins)"
proof -
  note k = preserves_keeps [where f = masked_view and J = "masked_run E ag rows"]
  have pin: "preserves (\<lambda>s. masked_run E ag rows (masked_view s)) (processPin E ag p ps)" for p ps
    unfolding processPin_def
    by (intro preserves_intros preserves_masked_processMessage assms k masked_onNode keeps_intros)
  have loop: "preserves (\<lambda>s. masked_run E ag rows (masked_view s)) (processPins_loop E ag page ps)" for page ps
    by (induction page arbitrary: ps) (auto intro!: preserves_intros pin)
  have "keeps (\<lambda>nd. db_nextpins (nd_db nd)) (commitOffset off)" for off
    unfolding commitOffset_def by (rule keeps_modify) simp
  then show ?thesis
    unfolding processPins_def
    by (intro preserves_bind preserves_if preserves_throw loop) (rule k, rule masked_onNode)
qed

section \<open>The flush of the next pins\<close>

definition np_key :: "next_pin \<Rightarrow> string \<times> int \<times> bytes32" where
  "np_key np = (np_Identity np, np_Nonce np, np_Hash np)"

definition seqs_ok :: "ffdb \<Rightarrow> bool" where
  "seqs_ok db \<longleftrightarrow> distinct (map np_Sequence (db_nextpins db)) \<and>
     (\<forall>np \<in> set (db_nextpins db). np_Sequence np < db_npseq db)"

text \<open>One entry written back, as a function on the rows.\<close>

definition write_back :: "string \<Rightarrow> next_pin \<Rightarrow> next_pin list \<Rightarrow> next_pin list" where
  "write_back ns p rows = map (\<lambda>r. if np_Sequence r = np_Sequence p
     then r \<lparr> np_Nonce := np_Nonce p, np_Hash := np_Hash p, np_Namespace := ns \<rparr> else r) rows"

lemma flush_changed:
  "forM ps (\<lambda>np. if np_Identity np \<in> C then UpdateNextPin E ns (np_Sequence np) (np_Nonce np) (np_Hash np)
       else retM ()) nd = (Inr (), nd') \<Longrightarrow>
   db_nextpins (nd_db nd') = fold (write_back ns) (filter (\<lambda>p. np_Identity p \<in> C) ps) (db_nextpins (nd_db nd)) \<and>
   db_npseq (nd_db nd') = db_npseq (nd_db nd)"
proof (induction ps arbitrary: nd)
  case (Cons p ps)
  then obtain nd1 where 1: "(if np_Identity p \<in> C then UpdateNextPin E ns (np_Sequence p) (np_Nonce p) (np_Hash p)
       else retM ()) nd = (Inr (), nd1)"
    and 2: "forM ps (\<lambda>np. if np_Identity np \<in> C then UpdateNextPin E ns (np_Sequence np) (np_Nonce np) (np_Hash np)
       else retM ()) nd1 = (Inr (), nd')"
    by (auto simp: bindM_eq_Inr)
  have "db_nextpins (nd_db nd1) = (if np_Identity p \<in> C then write_back ns p (db_nextpins (nd_db nd))
      else db_nextpins (nd_db nd)) \<and> db_npseq (nd_db nd1) = db_npseq (nd_db nd)"
    using 1 by (auto simp: UpdateNextPin_def db_write_Inr write_back_def split: if_splits)
  with Cons.IH [OF 2] show ?case by simp
qed simp

lemma fold_write_back:
  assumes "distinct (map np_Sequence ps)"
  shows "fold (write_back ns) ps rows = map (\<lambda>r. case find (\<lambda>p. np_Sequence p = np_Sequence r) ps of
     None \<Rightarrow> r | Some p \<Rightarrow> r \<lparr> np_Nonce := np_Nonce p, np_Hash := np_Hash p, np_Namespace := ns \<rparr>) rows"
  using assms
proof (induction ps arbitrary: rows)
  case (Cons p ps)
  have n: "find (\<lambda>q. np_Sequence q = np_Sequence p) ps = None"
    using Cons.prems by (auto simp: find_None_iff) (metis image_eqI)
  show ?case
    using Cons n by (auto simp: write_back_def split: option.splits)
qed simp

lemma list_all2_map_eq: "list_all2 (\<lambda>p r. g r = f p) ps rs \<Longrightarrow> map g rs = map f ps"
  by (induction rule: list_all2_induct) auto

lemma find_in_filter:
  assumes "distinct (map f xs)" "x \<in> set xs"
  shows "find (\<lambda>y. f y = f x) (filter Q xs) = (if Q x then Some x else None)"
  using assms by (induction xs) (auto simp: find_None_iff, (metis image_eqI)+)

lemma flush_existing_group:
  assumes "\<not> npg_new npg" "link_ok ns rows ctx npg" "distinct (map np_Identity (ctx_rows ns ctx rows))"
    and "distinct (map np_Sequence rows)"
  shows "let rows' = fold (write_back ns) (filter (\<lambda>p. np_Identity p \<in> set (npg_identitiesChanged npg)) (npg_nextPins npg)) rows
    in map np_key (ctx_rows ns ctx rows') = map np_key (npg_nextPins npg) \<and>
       map np_Sequence rows' = map np_Sequence rows \<and>
       (\<forall>ctx'. ctx' \<noteq> ctx \<longrightarrow> ctx_rows ns ctx' rows' = ctx_rows ns ctx' rows)"
proof -
  let ?C = "set (npg_identitiesChanged npg)" and ?R = "ctx_rows ns ctx rows" and ?P = "npg_nextPins npg"
  let ?F = "filter (\<lambda>p. np_Identity p \<in> ?C) ?P"
  let ?g = "\<lambda>r. case find (\<lambda>p. np_Sequence p = np_Sequence r) ?F of
     None \<Rightarrow> r | Some p \<Rightarrow> r \<lparr> np_Nonce := np_Nonce p, np_Hash := np_Hash p, np_Namespace := ns \<rparr>"
  have l: "list_all2 (\<lambda>p r. np_Sequence p = np_Sequence r \<and> np_Identity p = np_Identity r \<and>
          (np_Identity p \<notin> ?C \<longrightarrow> p = r)) ?P ?R"
    using assms(1-3) by (simp add: link_ok_def)
  then have sq: "map np_Sequence ?P = map np_Sequence ?R"
    by (induction rule: list_all2_induct) auto
  have dR: "distinct (map np_Sequence ?R)"
    using assms(4) by (simp add: ctx_rows_def distinct_map_filter)
  then have dP: "distinct (map np_Sequence ?P)" by (simp add: sq)
  then have rows': "fold (write_back ns) ?F rows = map ?g rows"
    by (intro fold_write_back) (rule distinct_map_filter)
  have other: "?g r = r" if r: "r \<in> set rows" "\<not> (np_Context r = ctx \<and> np_Namespace r = ns)" for r
  proof -
    have "np_Sequence r \<notin> np_Sequence ` set ?R"
      using assms(4) r by (auto simp: ctx_rows_def distinct_map dest: inj_onD)
    then have "np_Sequence r \<notin> np_Sequence ` set ?P"
      using sq by (metis list.set_map)
    then have "find (\<lambda>p. np_Sequence p = np_Sequence r) ?F = None"
      by (auto simp: find_None_iff) (metis image_eqI)
    then show ?thesis by simp
  qed
  have filt: "(np_Context (?g r) = c \<and> np_Namespace (?g r) = ns) = (np_Context r = c \<and> np_Namespace r = ns)"
    if "r \<in> set rows" for r c
  proof (cases "np_Context r = ctx \<and> np_Namespace r = ns")
    case True
    then show ?thesis by (simp split: option.splits)
  next
    case False
    show ?thesis unfolding other [OF that False] ..
  qed
  have cm: "ctx_rows ns c (map ?g rows) = map ?g (ctx_rows ns c rows)" for c
    unfolding ctx_rows_def filter_map comp_def
    by (rule arg_cong [where f = "map ?g"], rule filter_cong [OF refl], rule filt)
  have keys: "map np_key (map ?g ?R) = map np_key ?P"
  proof -
    have "list_all2 (\<lambda>p r. np_key (?g r) = np_key p) ?P ?R"
    proof (rule list_all2_mono [OF list_all2_conj_mem [OF l]])
      fix p r
      assume a: "(p \<in> set ?P \<and> r \<in> set ?R) \<and> np_Sequence p = np_Sequence r \<and> np_Identity p = np_Identity r \<and>
          (np_Identity p \<notin> ?C \<longrightarrow> p = r)"
      have "find (\<lambda>q. np_Sequence q = np_Sequence p) ?F = (if np_Identity p \<in> ?C then Some p else None)"
        using a by (intro find_in_filter [OF dP]) blast
      then show "np_key (?g r) = np_key p"
        using a by (cases "np_Identity p \<in> ?C") (auto simp: np_key_def)
    qed
    from list_all2_map_eq [OF this] show ?thesis by (simp only: map_map comp_def)
  qed
  have "ctx_rows ns c (map ?g rows) = ctx_rows ns c rows" if "c \<noteq> ctx" for c
    unfolding cm using other that by (intro map_idI) (auto simp: ctx_rows_def)
  moreover have "map np_Sequence (map ?g rows) = map np_Sequence rows"
    by (simp split: option.splits)
  ultimately show ?thesis unfolding rows' Let_def cm [of ctx] using keys by blast
qed

lemma flush_new_group:
  "forM ps (InsertNextPin E) nd = (Inr (), nd') \<Longrightarrow> seqs_ok (nd_db nd) \<Longrightarrow>
   \<exists>qs. db_nextpins (nd_db nd') = db_nextpins (nd_db nd) @ qs \<and> seqs_ok (nd_db nd') \<and>
     list_all2 (\<lambda>p q. np_key q = np_key p \<and> np_Context q = np_Context p \<and> np_Namespace q = np_Namespace p) ps qs"
proof (induction ps arbitrary: nd)
  case (Cons p ps)
  then obtain nd1 where 1: "InsertNextPin E p nd = (Inr (), nd1)" and 2: "forM ps (InsertNextPin E) nd1 = (Inr (), nd')"
    by (auto simp: bindM_eq_Inr)
  let ?q = "p \<lparr> np_Sequence := db_npseq (nd_db nd) \<rparr>"
  have d: "db_nextpins (nd_db nd1) = db_nextpins (nd_db nd) @ [?q]" "db_npseq (nd_db nd1) = db_npseq (nd_db nd) + 1"
    using 1 by (auto simp: InsertNextPin_def db_write_Inr insert_nextpin_row_def)
  then have "seqs_ok (nd_db nd1)" using Cons.prems(2) by (fastforce simp: seqs_ok_def)
  from Cons.IH [OF 2 this] obtain qs where "db_nextpins (nd_db nd') = db_nextpins (nd_db nd1) @ qs"
    "seqs_ok (nd_db nd')"
    "list_all2 (\<lambda>p q. np_key q = np_key p \<and> np_Context q = np_Context p \<and> np_Namespace q = np_Namespace p) ps qs"
    by blast
  then show ?case using d by (intro exI [of _ "?q # qs"]) (simp add: np_key_def)
qed simp

lemma list_all2_keys: "list_all2 (\<lambda>p q. f q = f p \<and> R p q) ps qs \<Longrightarrow> map f qs = map f ps"
  by (induction rule: list_all2_induct) auto

text \<open>What a group needs to be written back: its rows, or none when it is new.\<close>

definition flushable :: "string \<Rightarrow> ffdb \<Rightarrow> bytes32 \<Rightarrow> npg_state \<Rightarrow> bool" where
  "flushable ns db ctx npg \<longleftrightarrow> link_ok ns (db_nextpins db) ctx npg \<and>
     distinct (map np_Identity (ctx_rows ns ctx (db_nextpins db))) \<and>
     list_all (\<lambda>np. np_Context np = ctx \<and> np_Namespace np = ns) (npg_nextPins npg)"

lemma flush_group:
  assumes "forM (npg_nextPins npg) (\<lambda>np.
       if npg_new npg then InsertNextPin E np
       else if np_Identity np \<in> set (npg_identitiesChanged npg)
       then UpdateNextPin E ns (np_Sequence np) (np_Nonce np) (np_Hash np) else retM ()) nd = (Inr (), nd')"
    and "flushable ns (nd_db nd) ctx npg" "seqs_ok (nd_db nd)"
  shows "map np_key (ctx_rows ns ctx (db_nextpins (nd_db nd'))) = map np_key (npg_nextPins npg) \<and>
    seqs_ok (nd_db nd') \<and>
    (\<forall>c. c \<noteq> ctx \<longrightarrow> ctx_rows ns c (db_nextpins (nd_db nd')) = ctx_rows ns c (db_nextpins (nd_db nd)))"
proof (cases "npg_new npg")
  case True
  then have "forM (npg_nextPins npg) (InsertNextPin E) nd = (Inr (), nd')" using assms(1) by simp
  from flush_new_group [OF this assms(3)] obtain qs where
    q: "db_nextpins (nd_db nd') = db_nextpins (nd_db nd) @ qs" "seqs_ok (nd_db nd')"
    "list_all2 (\<lambda>p q. np_key q = np_key p \<and> np_Context q = np_Context p \<and> np_Namespace q = np_Namespace p)
       (npg_nextPins npg) qs" by blast
  have "list_all (\<lambda>np. np_Context np = ctx \<and> np_Namespace np = ns) (npg_nextPins npg)"
    using assms(2) by (simp add: flushable_def)
  with q(3) have all: "list_all (\<lambda>np. np_Context np = ctx \<and> np_Namespace np = ns) qs"
    by (induction rule: list_all2_induct) auto
  then have "ctx_rows ns ctx qs = qs" "ctx_rows ns c qs = []" if "c \<noteq> ctx" for c
    using that by (auto simp: ctx_rows_def list_all_iff filter_empty_conv)
  moreover have "ctx_rows ns ctx qs = qs" using all by (auto simp: ctx_rows_def list_all_iff)
  moreover have "ctx_rows ns ctx (db_nextpins (nd_db nd)) = []"
    using assms(2) True by (simp add: flushable_def link_ok_def)
  moreover have "ctx_rows ns c (xs @ ys) = ctx_rows ns c xs @ ctx_rows ns c ys" for c xs ys
    by (simp add: ctx_rows_def)
  ultimately show ?thesis using q list_all2_keys [OF q(3)] by simp
next
  case False
  let ?rows = "db_nextpins (nd_db nd)"
  let ?rows' = "fold (write_back ns) (filter (\<lambda>p. np_Identity p \<in> set (npg_identitiesChanged npg)) (npg_nextPins npg)) ?rows"
  have n: "db_nextpins (nd_db nd') = ?rows'" "db_npseq (nd_db nd') = db_npseq (nd_db nd)"
    using flush_changed [of "npg_nextPins npg" "set (npg_identitiesChanged npg)" E ns nd nd'] assms(1) False by simp_all
  have f: "link_ok ns ?rows ctx npg" "distinct (map np_Identity (ctx_rows ns ctx ?rows))" "distinct (map np_Sequence ?rows)"
    using assms(2,3) by (simp_all add: flushable_def seqs_ok_def)
  note e = flush_existing_group [OF False f, unfolded Let_def]
  then have "np_Sequence ` set ?rows' = np_Sequence ` set ?rows" by (metis list.set_map)
  then have "seqs_ok (nd_db nd')"
    using assms(3) n e by (simp add: seqs_ok_def) (metis (no_types, lifting) image_iff)
  with e n show ?thesis by simp
qed

lemma flushNextPins_keys:
  assumes "flushNextPins E ns masked nd = (Inr (), nd')" "distinct (map fst masked)" "seqs_ok (nd_db nd)"
    and "list_all (\<lambda>(ctx, npg). flushable ns (nd_db nd) ctx npg) masked"
  shows "list_all (\<lambda>(ctx, npg). map np_key (ctx_rows ns ctx (db_nextpins (nd_db nd'))) = map np_key (npg_nextPins npg)) masked"
proof -
  have "list_all (\<lambda>(ctx, npg). map np_key (ctx_rows ns ctx (db_nextpins (nd_db nd'))) = map np_key (npg_nextPins npg)) masked \<and>
    (\<forall>c. c \<notin> fst ` set masked \<longrightarrow> ctx_rows ns c (db_nextpins (nd_db nd')) = ctx_rows ns c (db_nextpins (nd_db nd)))"
    using assms
  proof (induction masked arbitrary: nd)
    case (Cons m masked)
    obtain ctx npg where m: "m = (ctx, npg)" by (cases m)
    obtain nd1 where 1: "forM (npg_nextPins npg) (\<lambda>np. if npg_new npg then InsertNextPin E np
       else if np_Identity np \<in> set (npg_identitiesChanged npg)
       then UpdateNextPin E ns (np_Sequence np) (np_Nonce np) (np_Hash np) else retM ()) nd = (Inr (), nd1)"
      and 2: "flushNextPins E ns masked nd1 = (Inr (), nd')"
      using Cons.prems(1) m by (auto simp: flushNextPins_def bindM_eq_Inr)
    have fl: "flushable ns (nd_db nd) ctx npg" using Cons.prems(4) m by simp
    note g = flush_group [OF 1 fl Cons.prems(3)]
    have rest: "list_all (\<lambda>(ctx, npg). flushable ns (nd_db nd1) ctx npg) masked"
      unfolding list_all_iff
    proof (rule ballI)
      fix x assume x: "x \<in> set masked"
      obtain c n where cn: "x = (c, n)" by (cases x)
      have "c \<noteq> ctx" using Cons.prems(2) x m cn by force
      then have "ctx_rows ns c (db_nextpins (nd_db nd1)) = ctx_rows ns c (db_nextpins (nd_db nd))" using g by blast
      then show "case x of (ctx, npg) \<Rightarrow> flushable ns (nd_db nd1) ctx npg"
        using Cons.prems(4) x cn by (auto simp: list_all_iff flushable_def link_ok_def)
    qed
    have d: "distinct (map fst masked)" "ctx \<notin> fst ` set masked" using Cons.prems(2) m by auto
    from Cons.IH [OF 2 d(1) _ rest] g have
      ih: "list_all (\<lambda>(ctx, npg). map np_key (ctx_rows ns ctx (db_nextpins (nd_db nd'))) = map np_key (npg_nextPins npg)) masked"
        "\<forall>c. c \<notin> fst ` set masked \<longrightarrow> ctx_rows ns c (db_nextpins (nd_db nd')) = ctx_rows ns c (db_nextpins (nd_db nd1))"
      by blast+
    then show ?case using g d(2) m by auto
  qed (simp add: flushNextPins_def)
  then show ?thesis by blast
qed


section \<open>Concrete runs\<close>

text \<open>Two members of a group, with next pins at different nonces.\<close>

definition row0 :: "int \<Rightarrow> string \<Rightarrow> int \<Rightarrow> next_pin" where
  "row0 sq ident n = \<lparr> np_Namespace = ''ns1'', np_Context = privateContext env0 ''t'' [5], np_Identity = ident,
     np_Hash = privatePinHash env0 ''t'' [5] ident n, np_Nonce = n, np_Sequence = sq \<rparr>"

definition nodem :: "next_pin list \<Rightarrow> node" where
  "nodem rows = (node0 []) \<lparr> nd_db := db0 \<lparr> db_nextpins := rows, db_npseq := 10 \<rparr> \<rparr>"

definition author0 :: string where
  "author0 = ''did:firefly:org/a''"

definition start_m :: run where
  "start_m = (nodem [row0 1 author0 3, row0 2 ''did:firefly:org/b'' 0], newBatchState)"

definition check_m :: "int \<Rightarrow> run \<Rightarrow> (fferr + next_pin_state option) \<times> run" where
  "check_m n s = checkMaskedContextReady env0 ''ns1'' (msg0 1) (batch0 1) [5] ''t'' 0
     (privatePinHash env0 ''t'' [5] author0 n) s"

definition got_m :: "(fferr + next_pin_state option) \<times> run \<Rightarrow> next_pin_state" where
  "got_m r = the (projr (fst r))"

definition spent_m :: run where
  "spent_m = snd (IncrementNextPin env0 ''ns1'' (got_m (check_m 3 start_m)) (snd (check_m 3 start_m)))"

lemma inj_env0: "inj (e_sha256 env0)"
  by (simp add: inj_def)

lemma row0_ok: "np_hash_ok env0 (row0 sq ident n)"
  by (rule np_hash_okI [OF inj_env0, of _ "''t''" "[5]"]) (simp_all add: row0_def)

lemma start_m_ok: "masked_ok env0 ''ns1'' (masked_view start_m)"
  by (simp add: masked_ok_def masked_view_def start_m_def nodem_def newBatchState_def np_rows_ok_def row0_ok
      nonces_agree_def author0_def) (simp add: row0_def)

lemma check_result:
  assumes "case fst r of Inl _ \<Rightarrow> False | Inr x \<Rightarrow> x \<noteq> None"
  shows "r = (Inr (Some (got_m r)), snd r)"
  using assms by (cases r; cases "fst r") (auto simp: got_m_def)

lemma spent_m_step: "IncrementNextPin env0 ''ns1'' (got_m (check_m 3 start_m)) (snd (check_m 3 start_m)) = (Inr (), spent_m)"
  unfolding spent_m_def IncrementNextPin_def modifyBS_def modifyM_def by simp

lemma first_m: "checkMaskedContextReady env0 ''ns1'' (msg0 1) (batch0 1) [5] ''t'' 0
     (privatePinHash env0 ''t'' [5] author0 3) start_m = (Inr (Some (got_m (check_m 3 start_m))), snd (check_m 3 start_m))"
proof -
  have "case fst (check_m 3 start_m) of Inl _ \<Rightarrow> False | Inr x \<Rightarrow> x \<noteq> None" by code_simp
  from check_result [OF this] show ?thesis by (simp add: check_m_def)
qed



text \<open>A page with one masked pin: the message of the batch is in the cache.\<close>

definition author1 :: string where
  "author1 = ''orga''"

definition pinm :: pin where
  "pinm = (pin0 1) \<lparr> p_Masked := True, p_Hash := privatePinHash env0 ''t'' [5] author1 3 \<rparr>"

definition msgm :: message where
  "msgm = (msg0 1) \<lparr> m_Header := (m_Header (msg0 1)) \<lparr> mh_Type := MT_Private, mh_Group := Some [5],
       mh_Signer := \<lparr> sr_Author = author1, sr_Key = ''0xa'' \<rparr> \<rparr>,
     m_Pins := [e_hex env0 (privatePinHash env0 ''t'' [5] author1 3)] \<rparr>"

definition noder :: node where
  "noder = (node0 [1]) \<lparr> nd_db := db0 \<lparr> db_nextpins := [row0 1 author1 3, row0 2 ''orgb'' 0], db_npseq := 10 \<rparr>,
     nd_msgcache := [(e_uuid_str env0 1, \<lparr> mce_msg = msgm, mce_data = [data0], mce_size = 0 \<rparr>)],
     nd_idcache := [(verifier_key ''ns1'' \<lparr> vr_Type = VR_EthAddress, vr_Value = ''0xa'' \<rparr>,
       identity0 \<lparr> id_Base := (id_Base identity0) \<lparr> ib_DID := author1 \<rparr> \<rparr>)] \<rparr>"

definition run_m :: "(fferr + unit) \<times> run" where
  "run_m = processPins env0 ag0 [pinm] (noder, newBatchState)"

definition flush_m :: "(fferr + unit) \<times> node" where
  "flush_m = flushNextPins env0 ''ns1'' (bst_masked (snd (snd run_m))) (fst (snd run_m))"


text \<open>
  A run that spends one pin: check, increment, flush. \<open>True\<close> when the pin was accepted.
\<close>

definition spend_pin :: "int \<Rightarrow> bool nact" where
  "spend_pin n = (\<lambda>nd. case check_m n (nd, newBatchState) of
     (Inl err, (nd1, bs1)) \<Rightarrow> (Inl err, nd1)
   | (Inr None, (nd1, bs1)) \<Rightarrow> (Inr False, nd1)
   | (Inr (Some nps), s1) \<Rightarrow>
       (case IncrementNextPin env0 ''ns1'' nps s1 of
          (_, (nd2, bs2)) \<Rightarrow> bindM (flushNextPins env0 ''ns1'' (bst_masked bs2)) (\<lambda>_. retM True) nd2))"

definition spends :: "next_pin list \<Rightarrow> int list \<Rightarrow> (fferr + bool list) \<times> node" where
  "spends rows ns = mapM spend_pin ns (nodem rows)"

text \<open>With one row per identity a spent pin stays spent in later runs. But a group may list one
  identity on two nodes, which gives two rows for the identity; a later run updates only one of
  them (the increment copies one sequence to both entries), and the other row keeps the spent nonce: the
  same pin is accepted again.\<close>

theorem two_node_identity_pin_reused:
  "(case fst (spends [row0 1 author0 3, row0 2 ''did:firefly:org/b'' 0] [3, 4, 3, 4]) of
      Inl _ \<Rightarrow> False | Inr accepted \<Rightarrow> accepted = [True, True, False, False]) \<and>
   (case fst (spends [row0 1 author0 3, row0 2 author0 3] [3, 4, 3, 4]) of
      Inl _ \<Rightarrow> False | Inr accepted \<Rightarrow> accepted = [True, True, True, True]) \<and>
   Group_Validate env0 False \<lparr> g_Identity = \<lparr> gi_Namespace = ''ns1'', gi_Name = '''',
       gi_Members = [\<lparr> mb_Identity = author0, mb_Node = Some 1 \<rparr>, \<lparr> mb_Identity = author0, mb_Node = Some 2 \<rparr>] \<rparr>,
     g_LocalNamespace = ''ns1'', g_Message = None, g_Hash = None, g_Created = None \<rparr> = None"
  by code_simp

end
