(* ===== verification/Event_Poller.thy ===== *)
theory Event_Poller
  imports Aggregator_Order
begin

text \<open>
  internal/events/event_poller.go, aggregator_rewind.go and offset_calc.go with the offsets
  table: the loop that reads pages of pins from the polling offset, the loops that take
  rewind requests from the other threads, and the loop that commits the offset. Each
  thread is a set of steps over one shared state; a critical section is one step.
\<close>

section \<open>State\<close>

datatype offset_type = OffsetTypeBatch | OffsetTypeAggregator | OffsetTypeSubscription

record offset_row =
  of_Type :: offset_type
  of_Name :: string
  of_Current :: int
  of_RowID :: int

datatype rewind = RewindBatch uuid | RewindMessage "uuid option" | RewindBlob bytes32 | RewindDID string

text \<open>The channel, the two lists under the lock, the ready batches and the tap of the second loop.\<close>

record rewinder =
  rw_requests :: "rewind list"
  rw_queued :: "rewind list"
  rw_staged :: "rewind list"
  rw_ready :: "uuid list"
  rw_tap :: bool

record poller =
  ep_offsetID :: int
  ep_shoulderTap :: bool
  ep_batchDelay :: bool

record poller_conf =
  pc_ephemeral :: bool
  pc_batchSize :: nat
  pc_batchTimeout :: bool
  pc_firstEvent :: "string option"
  pc_namespace :: string
  pc_offsetName :: string
  pc_offsetType :: offset_type

record pworld =
  pw_node :: node
  pw_offsets :: "offset_row list"
  pw_rowseq :: int
  pw_poller :: poller
  pw_rewinder :: rewinder

type_synonym 'a pact = "(pworld, 'a) act"

definition onPNode :: "'a nact \<Rightarrow> 'a pact" where
  "onPNode m = (\<lambda>w. case m (pw_node w) of (r, nd) \<Rightarrow> (r, w \<lparr> pw_node := nd \<rparr>))"

definition modifyRW :: "(rewinder \<Rightarrow> rewinder) \<Rightarrow> unit pact" where
  "modifyRW f = modifyM (\<lambda>w. w \<lparr> pw_rewinder := f (pw_rewinder w) \<rparr>)"

section \<open>The offsets table\<close>

definition odb_op :: "env \<Rightarrow> (pworld \<Rightarrow> fferr + ('a \<times> pworld)) \<Rightarrow> 'a pact" where
  "odb_op E f = (\<lambda>w.
     let n = nd_calls (pw_node w); w' = w \<lparr> pw_node := (pw_node w) \<lparr> nd_calls := Suc n \<rparr> \<rparr>
     in if e_flt E n then (Inl (DBErr n), w')
        else case f w' of Inl err \<Rightarrow> (Inl err, w') | Inr (x, w'') \<Rightarrow> (Inr x, w''))"

definition offset_find :: "offset_type \<Rightarrow> string \<Rightarrow> offset_row list \<Rightarrow> offset_row option" where
  "offset_find t name rows = find (\<lambda>r. of_Type r = t \<and> of_Name r = name) rows"

definition GetOffset :: "env \<Rightarrow> offset_type \<Rightarrow> string \<Rightarrow> offset_row option pact" where
  "GetOffset E t name = odb_op E (\<lambda>w. Inr (offset_find t name (pw_offsets w), w))"

definition UpsertOffset :: "env \<Rightarrow> offset_row \<Rightarrow> bool \<Rightarrow> unit pact" where
  "UpsertOffset E off allowExisting = odb_op E (\<lambda>w.
     case offset_find (of_Type off) (of_Name off) (pw_offsets w) of
       Some r \<Rightarrow>
         if allowExisting
         then Inr ((), w \<lparr> pw_offsets := map (\<lambda>x. if of_RowID x = of_RowID r
                then x \<lparr> of_Type := of_Type off, of_Name := of_Name off, of_Current := of_Current off \<rparr>
                else x) (pw_offsets w) \<rparr>)
         else Inl (I18n ''MsgDBInsertFailed'')
     | None \<Rightarrow> Inr ((), w \<lparr> pw_offsets := pw_offsets w @ [off \<lparr> of_RowID := pw_rowseq w \<rparr>],
                          pw_rowseq := pw_rowseq w + 1 \<rparr>))"

definition UpdateOffset :: "env \<Rightarrow> int \<Rightarrow> int \<Rightarrow> unit pact" where
  "UpdateOffset E rowID current = odb_op E (\<lambda>w.
     Inr ((), w \<lparr> pw_offsets := map (\<lambda>r. if of_RowID r = rowID then r \<lparr> of_Current := current \<rparr> else r)
       (pw_offsets w) \<rparr>))"

section \<open>The first offset\<close>

text \<open>\<open>strconv.ParseInt (s, 10, 64)\<close>.\<close>

fun digits_val :: "nat \<Rightarrow> string \<Rightarrow> nat option" where
  "digits_val acc [] = Some acc"
| "digits_val acc (c # cs) =
     (if (of_char c :: nat) \<ge> 48 \<and> (of_char c :: nat) \<le> 57
      then digits_val (10 * acc + (of_char c - 48)) cs else None)"

definition parse_int64 :: "string \<Rightarrow> int option" where
  "parse_int64 s =
     (case s of
        [] \<Rightarrow> None
      | c # cs \<Rightarrow>
          let ds = (if c = CHR ''+'' \<or> c = CHR ''-'' then cs else s)
          in if ds = [] then None
             else case digits_val 0 ds of
               None \<Rightarrow> None
             | Some n \<Rightarrow>
                 let v = (if c = CHR ''-'' then - int n else int n)
                 in if - (2 ^ 63) \<le> v \<and> v < 2 ^ 63 then Some v else None)"

definition newest_event :: "string \<Rightarrow> ffdb \<Rightarrow> event option" where
  "newest_event ns db = (case rev (sort_key ev_Sequence (filter (\<lambda>ev. ev_Namespace ev = ns) (db_events db))) of
     [] \<Rightarrow> None | ev # _ \<Rightarrow> Some ev)"

definition calcFirstOffset :: "env \<Rightarrow> string \<Rightarrow> string option \<Rightarrow> int nact" where
  "calcFirstOffset E ns pfe =
     (let firstEvent = (case pfe of None \<Rightarrow> ''newest'' | Some fe \<Rightarrow> fe)
      in if firstEvent = '''' \<or> firstEvent = ''newest''
         then bindM (db_read E (newest_event ns)) (\<lambda>newest.
                retM (case newest of None \<Rightarrow> -1 | Some ev \<Rightarrow> ev_Sequence ev))
         else if firstEvent = ''oldest'' then retM (-1)
         else case parse_int64 firstEvent of
                None \<Rightarrow> throwM (I18n ''MsgInvalidFirstEvent'')
              | Some n \<Rightarrow> if n < -1 then throwM (I18n ''MsgNumberMustBeGreaterEqual'') else retM n)"

section \<open>Restoring the offset\<close>

text \<open>The loop that reads the offset until it is there; \<open>restoreOffset_once\<close> is one attempt.\<close>

fun restoreOffset_loop :: "env \<Rightarrow> poller_conf \<Rightarrow> nat \<Rightarrow> offset_row option pact" where
  "restoreOffset_loop E pc 0 = retM None"
| "restoreOffset_loop E pc (Suc fuel) =
     bindM (GetOffset E (pc_offsetType pc) (pc_offsetName pc)) (\<lambda>offset.
       case offset of
         Some r \<Rightarrow> retM (Some r)
       | None \<Rightarrow> bindM (onPNode (calcFirstOffset E (pc_namespace pc) (pc_firstEvent pc))) (\<lambda>firstOffset.
           bindM (UpsertOffset E \<lparr> of_Type = pc_offsetType pc, of_Name = pc_offsetName pc,
                                   of_Current = firstOffset, of_RowID = 0 \<rparr> False) (\<lambda>_.
           restoreOffset_loop E pc fuel)))"

definition set_polling :: "int \<Rightarrow> unit nact" where
  "set_polling offset = modifyM (\<lambda>nd. nd \<lparr> nd_offset := offset \<rparr>)"

definition restoreOffset_once :: "env \<Rightarrow> poller_conf \<Rightarrow> nat \<Rightarrow> bool pact" where
  "restoreOffset_once E pc fuel =
     (if pc_ephemeral pc
      then bindM (onPNode (calcFirstOffset E (pc_namespace pc) (pc_firstEvent pc))) (\<lambda>offset.
           bindM (onPNode (set_polling offset)) (\<lambda>_. retM True))
      else bindM (restoreOffset_loop E pc fuel) (\<lambda>offset.
           case offset of
             None \<Rightarrow> retM False
           | Some r \<Rightarrow>
               bindM (modifyM (\<lambda>w. w \<lparr> pw_poller := (pw_poller w) \<lparr> ep_offsetID := of_RowID r \<rparr> \<rparr>)) (\<lambda>_.
               bindM (onPNode (set_polling (of_Current r))) (\<lambda>_. retM True))))"

section \<open>The polling offset\<close>

definition rewindPollingOffset :: "int \<Rightarrow> int nact" where
  "rewindPollingOffset offset =
     bindM (modifyM (\<lambda>nd. if offset < nd_offset nd then nd \<lparr> nd_offset := offset \<rparr> else nd)) (\<lambda>_.
     getsM nd_offset)"

definition getPollingOffset :: "int nact" where
  "getPollingOffset = getsM nd_offset"

text \<open>The commit loop takes the value out of the channel, but writes the offset as it is by then.\<close>

definition offsetCommitLoop :: "env \<Rightarrow> nat \<Rightarrow> unit pact" where
  "offsetCommitLoop E n = (\<lambda>w.
     case nd_offsetCommitted (pw_node w) of
       None \<Rightarrow> (Inr (), w)
     | Some _ \<Rightarrow>
         retryM n (\<lambda>w. UpdateOffset E (ep_offsetID (pw_poller w)) (nd_offset (pw_node w)) w)
           (w \<lparr> pw_node := (pw_node w) \<lparr> nd_offsetCommitted := None \<rparr> \<rparr>))"

definition shoulderTap :: "unit pact" where
  "shoulderTap = modifyM (\<lambda>w. w \<lparr> pw_poller := (pw_poller w) \<lparr> ep_shoulderTap := True \<rparr> \<rparr>)"

section \<open>Rewinds\<close>

definition queueRewind :: "rewind \<Rightarrow> unit pact" where
  "queueRewind r = modifyRW (\<lambda>rw. rw \<lparr> rw_requests := rw_requests rw @ [r] \<rparr>)"

text \<open>One turn of the receiving loop.\<close>

definition rewindReceive :: "unit pact" where
  "rewindReceive = (\<lambda>w.
     case rw_requests (pw_rewinder w) of
       [] \<Rightarrow> (Inr (), w)
     | r # rs \<Rightarrow> bindM (modifyRW (\<lambda>rw. rw \<lparr> rw_requests := rs, rw_queued := rw_queued rw @ [r] \<rparr>))
                   (\<lambda>_. shoulderTap) w)"

definition popRewinds :: "uuid list pact" where
  "popRewinds = (\<lambda>w.
     let rw = pw_rewinder w;
         staged = rw_staged rw @ rw_queued rw
     in (Inr (rw_ready rw), w \<lparr> pw_rewinder := rw \<lparr> rw_staged := staged, rw_queued := [],
           rw_tap := (staged \<noteq> [] \<or> rw_tap rw), rw_ready := [] \<rparr> \<rparr>))"

text \<open>
  The queries of the second loop run over the tables and the set of batches found so far,
  which keeps what an attempt added when the attempt fails.
\<close>

type_synonym 'a rwact = "(node \<times> uuid list, 'a) act"

definition onRNode :: "'a nact \<Rightarrow> 'a rwact" where
  "onRNode m = (\<lambda>(nd, ids). case m nd of (r, nd') \<Rightarrow> (r, (nd', ids)))"

definition addBatch :: "uuid \<Rightarrow> unit rwact" where
  "addBatch b = modifyM (\<lambda>(nd, ids). (nd, List.insert b ids))"

definition GetBatchIDsForMessages :: "env \<Rightarrow> string \<Rightarrow> uuid option list \<Rightarrow> uuid list nact" where
  "GetBatchIDsForMessages E ns msgIDs = db_read E (\<lambda>db.
     List.map_filter m_BatchID (filter (\<lambda>m. m_LocalNamespace m = ns \<and> mh_ID (m_Header m) \<in> set msgIDs) (db_messages db)))"

definition GetBatchIDsForDataAttachments :: "env \<Rightarrow> string \<Rightarrow> uuid option list \<Rightarrow> uuid list nact" where
  "GetBatchIDsForDataAttachments E ns dataIDs = db_read E (\<lambda>db.
     let hits = filter (\<lambda>m. m_LocalNamespace m = ns \<and> list_ex (\<lambda>d. dr_ID d \<in> set dataIDs) (msg_refs m)) (db_messages db)
     in List.map_filter m_BatchID (concat (map (\<lambda>h. filter (\<lambda>m. mh_ID (m_Header m) = mh_ID (m_Header h)) (db_messages db)) hits)))"

text \<open>The queries with a safety limit; the order is the default one of the (third-party) filter builder.\<close>

record query_conf =
  qc_limit :: nat
  qc_msgorder :: "message list \<Rightarrow> message list"
  qc_dataorder :: "ffdata list \<Rightarrow> ffdata list"

definition GetDataRefs_blobs :: "env \<Rightarrow> query_conf \<Rightarrow> string \<Rightarrow> bytes32 list \<Rightarrow> uuid option list nact" where
  "GetDataRefs_blobs E qc ns hashes = db_read E (\<lambda>db.
     map d_ID (take (qc_limit qc) (qc_dataorder qc
       (filter (\<lambda>d. d_Namespace d = ns \<and> (case blob_hash d of None \<Rightarrow> False | Some h \<Rightarrow> h \<in> set hashes)) (db_data db)))))"

definition GetMessageIDs_pending :: "env \<Rightarrow> query_conf \<Rightarrow> string \<Rightarrow> string list \<Rightarrow> uuid option list nact" where
  "GetMessageIDs_pending E qc ns dids = db_read E (\<lambda>db.
     map (\<lambda>m. mh_ID (m_Header m)) (take (qc_limit qc) (qc_msgorder qc
       (filter (\<lambda>m. m_LocalNamespace m = ns \<and> m_State m = MS_Pending \<and>
          sr_Author (mh_Signer (m_Header m)) \<in> set dids) (db_messages db)))))"

fun peek_messages :: "env \<Rightarrow> string \<Rightarrow> uuid option list \<Rightarrow> uuid option list rwact" where
  "peek_messages E ns [] = retM []"
| "peek_messages E ns (i # is) =
     bindM (onRNode (PeekMessageCache E ns i [CRORequireBatchID])) (\<lambda>found.
       case found of
         Some (msg, data) \<Rightarrow>
           (case m_BatchID msg of
              Some b \<Rightarrow> bindM (addBatch b) (\<lambda>_. peek_messages E ns is)
            | None \<Rightarrow> bindM (peek_messages E ns is) (\<lambda>misses. retM (i # misses)))
       | None \<Rightarrow> bindM (peek_messages E ns is) (\<lambda>misses. retM (i # misses)))"

definition getRewindsForMessages :: "env \<Rightarrow> string \<Rightarrow> uuid option list \<Rightarrow> unit rwact" where
  "getRewindsForMessages E ns msgRewinds =
     bindM (peek_messages E ns msgRewinds) (\<lambda>cacheMisses.
       if cacheMisses = [] then retM ()
       else bindM (onRNode (GetBatchIDsForMessages E ns cacheMisses)) (\<lambda>msgBatchIDs.
         forM msgBatchIDs addBatch))"

definition getRewindsForBlobs :: "env \<Rightarrow> query_conf \<Rightarrow> string \<Rightarrow> bytes32 list \<Rightarrow> unit rwact" where
  "getRewindsForBlobs E qc ns newHashes =
     bindM (onRNode (GetDataRefs_blobs E qc ns newHashes)) (\<lambda>data.
       if data = [] then retM ()
       else bindM (onRNode (GetBatchIDsForDataAttachments E ns data)) (\<lambda>msgBatchIDs.
         forM msgBatchIDs addBatch))"

definition getRewindsForDIDs :: "env \<Rightarrow> query_conf \<Rightarrow> string \<Rightarrow> string list \<Rightarrow> unit rwact" where
  "getRewindsForDIDs E qc ns dids =
     bindM (onRNode (GetMessageIDs_pending E qc ns dids)) (\<lambda>records.
       if records = [] then retM () else getRewindsForMessages E ns records)"

definition staged_messages :: "rewind list \<Rightarrow> uuid option list" where
  "staged_messages rs = List.map_filter (\<lambda>r. case r of RewindMessage i \<Rightarrow> Some i | _ \<Rightarrow> None) rs"

definition staged_blobs :: "rewind list \<Rightarrow> bytes32 list" where
  "staged_blobs rs = List.map_filter (\<lambda>r. case r of RewindBlob h \<Rightarrow> Some h | _ \<Rightarrow> None) rs"

definition staged_dids :: "rewind list \<Rightarrow> string list" where
  "staged_dids rs = List.map_filter (\<lambda>r. case r of RewindDID d \<Rightarrow> Some d | _ \<Rightarrow> None) rs"

definition staged_batches :: "rewind list \<Rightarrow> uuid list" where
  "staged_batches rs = List.map_filter (\<lambda>r. case r of RewindBatch b \<Rightarrow> Some b | _ \<Rightarrow> None) rs"

definition run_as_group_R :: "env \<Rightarrow> 'a rwact \<Rightarrow> 'a rwact" where
  "run_as_group_R E m = (\<lambda>(nd, ids). case m (nd, ids) of
     (r, (nd', ids')) \<Rightarrow> (case run_as_group E (\<lambda>_. (r, nd')) nd of (r', nd'') \<Rightarrow> (r', (nd'', ids'))))"

text \<open>One attempt at the queries for the rewinds that were popped out of the staging area.\<close>

definition resolveStaged :: "env \<Rightarrow> query_conf \<Rightarrow> string \<Rightarrow> rewind list \<Rightarrow> unit rwact" where
  "resolveStaged E qc ns rs = run_as_group_R E (
     bindM (if staged_messages rs \<noteq> [] then getRewindsForMessages E ns (staged_messages rs) else retM ()) (\<lambda>_.
     bindM (if staged_blobs rs \<noteq> [] then getRewindsForBlobs E qc ns (staged_blobs rs) else retM ()) (\<lambda>_.
     if staged_dids rs \<noteq> [] then getRewindsForDIDs E qc ns (staged_dids rs) else retM ())))"

definition takeStaged :: "rewind list pact" where
  "takeStaged = (\<lambda>w. (Inr (rw_staged (pw_rewinder w)),
     w \<lparr> pw_rewinder := (pw_rewinder w) \<lparr> rw_staged := [] \<rparr> \<rparr>))"

definition storeReady :: "uuid list \<Rightarrow> unit pact" where
  "storeReady ids = modifyRW (\<lambda>rw. rw \<lparr> rw_ready := fold List.insert ids (rw_ready rw) \<rparr>)"

definition processStagedRewinds :: "env \<Rightarrow> query_conf \<Rightarrow> string \<Rightarrow> nat \<Rightarrow> bool pact" where
  "processStagedRewinds E qc ns n =
     bindM takeStaged (\<lambda>rs.
     bindM (\<lambda>w. case retryM n (resolveStaged E qc ns rs) (pw_node w, fold List.insert (staged_batches rs) []) of
              (_, (nd, ids)) \<Rightarrow> (Inr ids, w \<lparr> pw_node := nd \<rparr>)) (\<lambda>ids.
     bindM (storeReady ids) (\<lambda>_. retM (ids \<noteq> []))))"

text \<open>One turn of the processing loop: what woke it, and whether the timer runs afterwards.\<close>

datatype loop2_wake = TimerFired | Tapped

definition rewindProcessLoop :: "env \<Rightarrow> query_conf \<Rightarrow> string \<Rightarrow> nat \<Rightarrow> bool \<Rightarrow> loop2_wake \<Rightarrow> bool pact" where
  "rewindProcessLoop E qc ns n timer wake =
     (case wake of
        TimerFired \<Rightarrow>
          bindM (processStagedRewinds E qc ns n) (\<lambda>found.
          bindM (if found then shoulderTap else retM ()) (\<lambda>_. retM False))
      | Tapped \<Rightarrow> bindM (modifyRW (\<lambda>rw. rw \<lparr> rw_tap := False \<rparr>)) (\<lambda>_. retM True))"

section \<open>The event loop\<close>

definition maybeRewind :: "env \<Rightarrow> aggregator \<Rightarrow> nat \<Rightarrow> int option pact" where
  "maybeRewind E ag n = bindM popRewinds (\<lambda>batchIDs.
     bindM (attemptM (onPNode (retryM n (rewindOffchainBatches E ag batchIDs)))) (\<lambda>r.
     retM (case r of Inr off \<Rightarrow> off | Inl _ \<Rightarrow> None)))"

definition readPage :: "env \<Rightarrow> aggregator \<Rightarrow> poller_conf \<Rightarrow> nat \<Rightarrow> pin list pact" where
  "readPage E ag pc n = bindM (maybeRewind E ag n) (\<lambda>rewind.
     bindM (onPNode (case rewind of Some off \<Rightarrow> rewindPollingOffset off | None \<Rightarrow> getPollingOffset)) (\<lambda>offset.
     onPNode (retryM n (getPins E ag offset (pc_batchSize pc)))))"

definition drainDIDRewinds :: "unit pact" where
  "drainDIDRewinds = modifyM (\<lambda>w. w \<lparr> pw_node := (pw_node w) \<lparr> nd_didrewinds := [] \<rparr>,
     pw_rewinder := (pw_rewinder w) \<lparr> rw_requests := rw_requests (pw_rewinder w)
       @ map RewindDID (nd_didrewinds (pw_node w)) \<rparr> \<rparr>)"

definition dispatchEventsRetry :: "env \<Rightarrow> aggregator \<Rightarrow> nat \<Rightarrow> pin list \<Rightarrow> bool pact" where
  "dispatchEventsRetry E ag n pins =
     bindM (onPNode (retryM n (processPinsEventsHandler E ag pins))) (\<lambda>repoll.
     bindM drainDIDRewinds (\<lambda>_. retM repoll))"

datatype loop_next = LoopAgain | LoopWait nat | LoopExit

definition set_batchDelay :: "bool \<Rightarrow> unit pact" where
  "set_batchDelay b = modifyM (\<lambda>w. w \<lparr> pw_poller := (pw_poller w) \<lparr> ep_batchDelay := b \<rparr> \<rparr>)"

definition eventLoop :: "env \<Rightarrow> aggregator \<Rightarrow> poller_conf \<Rightarrow> nat \<Rightarrow> loop_next pact" where
  "eventLoop E ag pc n =
     bindM (attemptM (readPage E ag pc n)) (\<lambda>r.
       case r of
         Inl _ \<Rightarrow> retM LoopExit
       | Inr events \<Rightarrow>
           bindM (getsM (\<lambda>w. ep_batchDelay (pw_poller w))) (\<lambda>doBatchDelay.
           if pc_batchTimeout pc \<and> \<not> doBatchDelay \<and> length events < pc_batchSize pc
           then bindM (set_batchDelay True) (\<lambda>_. retM LoopAgain)
           else bindM (set_batchDelay False) (\<lambda>_.
             if events = [] then retM (LoopWait 0)
             else bindM (attemptM (dispatchEventsRetry E ag n events)) (\<lambda>r.
               case r of
                 Inl _ \<Rightarrow> retM LoopExit
               | Inr repoll \<Rightarrow> retM (if repoll then LoopAgain else LoopWait (length events))))))"

datatype wake = WakePollTimeout | WakeShoulderTap | WakeCancelled

definition waitForShoulderTapOrPollTimeout :: "poller_conf \<Rightarrow> nat \<Rightarrow> wake \<Rightarrow> bool pact" where
  "waitForShoulderTapOrPollTimeout pc lastEventCount wk =
     (if lastEventCount \<ge> pc_batchSize pc then retM True
      else case wk of
        WakePollTimeout \<Rightarrow> retM True
      | WakeShoulderTap \<Rightarrow>
          bindM (modifyM (\<lambda>w. w \<lparr> pw_poller := (pw_poller w) \<lparr> ep_shoulderTap := False \<rparr> \<rparr>)) (\<lambda>_. retM True)
      | WakeCancelled \<Rightarrow> retM False)"

section \<open>The threads as a step relation\<close>

text \<open>
  The event loop is between two of its critical sections; the second rewind loop holds the
  rewinds it took and the batches found for them so far.
\<close>

datatype poll_pc = PCPop | PCRewind "uuid list" | PCRead int | PCDispatch "pin list"

record threads =
  th_world :: pworld
  th_pc :: poll_pc
  th_inflight :: "(rewind list \<times> uuid list) option"

datatype step_label = LQueue rewind | LReceive | LPop | LRewound "uuid list" | LRead | LDispatch | LTake
  | LResolve | LStore | LCommit | LRetry | LOther

inductive pstep :: "env \<Rightarrow> aggregator \<Rightarrow> query_conf \<Rightarrow> poller_conf \<Rightarrow> threads \<Rightarrow> step_label \<Rightarrow> threads \<Rightarrow> bool"
  for E :: env and ag :: aggregator and qc :: query_conf and pc :: poller_conf where
  queue: "queueRewind r (th_world s) = (Inr (), w) \<Longrightarrow> pstep E ag qc pc s (LQueue r) (s \<lparr> th_world := w \<rparr>)"
| receive: "rewindReceive (th_world s) = (Inr (), w) \<Longrightarrow> pstep E ag qc pc s LReceive (s \<lparr> th_world := w \<rparr>)"
| pop: "th_pc s = PCPop \<Longrightarrow> popRewinds (th_world s) = (Inr ids, w) \<Longrightarrow>
     pstep E ag qc pc s LPop (s \<lparr> th_world := w, th_pc := PCRewind ids \<rparr>)"
| rewound: "th_pc s = PCRewind ids \<Longrightarrow>
     onPNode (rewindOffchainBatches E ag ids) (th_world s) = (Inr off, w) \<Longrightarrow>
     onPNode (case off of Some k \<Rightarrow> rewindPollingOffset k | None \<Rightarrow> getPollingOffset) w = (Inr k', w') \<Longrightarrow>
     pstep E ag qc pc s (LRewound ids) (s \<lparr> th_world := w', th_pc := PCRead k' \<rparr>)"
| rewind_fails: "th_pc s = PCRewind ids \<Longrightarrow>
     onPNode (rewindOffchainBatches E ag ids) (th_world s) = (Inl err, w) \<Longrightarrow>
     pstep E ag qc pc s LRetry (s \<lparr> th_world := w \<rparr>)"
| read: "th_pc s = PCRead k \<Longrightarrow> onPNode (getPins E ag k (pc_batchSize pc)) (th_world s) = (Inr pins, w) \<Longrightarrow>
     pstep E ag qc pc s LRead (s \<lparr> th_world := w, th_pc := (if pins = [] then PCPop else PCDispatch pins) \<rparr>)"
| read_delay: "th_pc s = PCRead k \<Longrightarrow> onPNode (getPins E ag k (pc_batchSize pc)) (th_world s) = (Inr pins, w) \<Longrightarrow>
     pc_batchTimeout pc \<Longrightarrow> length pins < pc_batchSize pc \<Longrightarrow>
     pstep E ag qc pc s LRead (s \<lparr> th_world := w, th_pc := PCPop \<rparr>)"
| read_fails: "th_pc s = PCRead k \<Longrightarrow> onPNode (getPins E ag k (pc_batchSize pc)) (th_world s) = (Inl err, w) \<Longrightarrow>
     pstep E ag qc pc s LRetry (s \<lparr> th_world := w \<rparr>)"
| dispatch: "th_pc s = PCDispatch pins \<Longrightarrow>
     dispatchEventsRetry E ag 1 pins (th_world s) = (Inr repoll, w) \<Longrightarrow>
     pstep E ag qc pc s LDispatch (s \<lparr> th_world := w, th_pc := PCPop \<rparr>)"
| dispatch_fails: "th_pc s = PCDispatch pins \<Longrightarrow>
     dispatchEventsRetry E ag 1 pins (th_world s) = (Inl err, w) \<Longrightarrow>
     pstep E ag qc pc s LRetry (s \<lparr> th_world := w \<rparr>)"
| take: "th_inflight s = None \<Longrightarrow> takeStaged (th_world s) = (Inr rs, w) \<Longrightarrow>
     pstep E ag qc pc s LTake (s \<lparr> th_world := w, th_inflight := Some (rs, fold List.insert (staged_batches rs) []) \<rparr>)"
| resolve: "th_inflight s = Some (rs, ids) \<Longrightarrow>
     resolveStaged E qc (ag_namespace ag) rs (pw_node (th_world s), ids) = (r, (nd, ids')) \<Longrightarrow>
     pstep E ag qc pc s LResolve (s \<lparr> th_world := (th_world s) \<lparr> pw_node := nd \<rparr>, th_inflight := Some (rs, ids') \<rparr>)"
| store: "th_inflight s = Some (rs, ids) \<Longrightarrow> storeReady ids (th_world s) = (Inr (), w) \<Longrightarrow>
     pstep E ag qc pc s LStore (s \<lparr> th_world := w, th_inflight := None \<rparr>)"
| commit: "offsetCommitLoop E 1 (th_world s) = (r, w) \<Longrightarrow> pstep E ag qc pc s LCommit (s \<lparr> th_world := w \<rparr>)"
| other: "pstep E ag qc pc s LOther (s \<lparr> th_world := (th_world s) \<lparr> pw_node := nd \<rparr> \<rparr>)"

inductive_simps pstep_pop: "pstep E ag qc pc s LPop s'"
inductive_cases pstepE: "pstep E ag qc pc s l s'"

text \<open>Where a request to rewind to batch \<open>b\<close> may be.\<close>

definition outstanding :: "uuid \<Rightarrow> threads \<Rightarrow> bool" where
  "outstanding b s \<longleftrightarrow>
     (let rw = pw_rewinder (th_world s) in
      RewindBatch b \<in> set (rw_requests rw) \<union> set (rw_queued rw) \<union> set (rw_staged rw) \<or>
      b \<in> set (rw_ready rw) \<or>
      (case th_inflight s of None \<Rightarrow> False | Some (rs, ids) \<Rightarrow> b \<in> set ids) \<or>
      (case th_pc s of PCRewind ids \<Rightarrow> b \<in> set ids | _ \<Rightarrow> False))"

definition rewound_to :: "string \<Rightarrow> uuid \<Rightarrow> node \<Rightarrow> bool" where
  "rewound_to ns b nd \<longleftrightarrow> list_all (\<lambda>p. p_Namespace p = ns \<and> p_Batch p = b \<and> \<not> p_Dispatched p \<longrightarrow>
     nd_offset nd < p_Sequence p) (db_pins (nd_db nd))"

lemma set_fold_insert: "set (fold List.insert xs ys) = set xs \<union> set ys"
  by (induction xs arbitrary: ys) auto

lemma in_staged_batches: "b \<in> set (staged_batches rs) \<longleftrightarrow> RewindBatch b \<in> set rs"
  by (induction rs) (auto simp: staged_batches_def List.map_filter_simps split: rewind.splits)

lemma onPNode_eq: "onPNode m w = (r, w') \<longleftrightarrow> (\<exists>nd. m (pw_node w) = (r, nd) \<and> w' = w \<lparr> pw_node := nd \<rparr>)"
  by (auto simp: onPNode_def split: prod.splits)

text \<open>The queries of the second loop only add batches.\<close>

definition grows :: "'a rwact \<Rightarrow> bool" where
  "grows m \<longleftrightarrow> (\<forall>nd ids. set ids \<subseteq> set (snd (snd (m (nd, ids)))))"

lemma grows_ret: "grows (retM x)"
  by (simp add: grows_def retM_def)

lemma grows_onRNode: "grows (onRNode m)"
  by (simp add: grows_def onRNode_def split: prod.splits)

lemma grows_addBatch: "grows (addBatch b)"
  by (auto simp: grows_def addBatch_def modifyM_def)

lemma grows_bind:
  assumes "grows m" "\<And>x. grows (f x)"
  shows "grows (bindM m f)"
  unfolding grows_def
proof (intro allI)
  fix nd ids
  obtain r nd1 ids1 where m: "m (nd, ids) = (r, (nd1, ids1))" by (metis prod.collapse)
  have 1: "set ids \<subseteq> set ids1" using assms(1) m by (metis grows_def snd_conv)
  have "set ids1 \<subseteq> set (snd (snd (f x (nd1, ids1))))" for x using assms(2) by (simp add: grows_def)
  with 1 show "set ids \<subseteq> set (snd (snd (bindM m f (nd, ids))))"
    by (auto simp: bindM_def m split: sum.splits)
qed

lemma grows_forM: "(\<And>x. grows (f x)) \<Longrightarrow> grows (forM xs f)"
  by (induction xs) (simp_all add: grows_ret grows_bind)

lemma grows_run_as_group: "grows m \<Longrightarrow> grows (run_as_group_R E m)"
  unfolding grows_def run_as_group_R_def
  by (auto split: prod.splits) (metis in_mono snd_conv)

lemma grows_peek: "grows (peek_messages E ns is)"
proof (induction "is")
  case (Cons i "is")
  show ?case unfolding peek_messages.simps
    by (intro grows_bind grows_onRNode) (auto intro!: grows_bind grows_addBatch grows_ret Cons.IH split: option.splits)
qed (simp add: grows_ret)

lemma grows_resolveStaged: "grows (resolveStaged E qc ns rs)"
  unfolding resolveStaged_def getRewindsForMessages_def getRewindsForBlobs_def getRewindsForDIDs_def
  by (auto intro!: grows_run_as_group grows_bind grows_ret grows_onRNode grows_forM grows_addBatch grows_peek)

lemma pin_rows_first:
  assumes "pin_rows False (Some (Suc n)) ns P db = p # ps" "q \<in> set (db_pins db)" "p_Namespace q = ns" "P q"
  shows "p_Sequence p \<le> p_Sequence q"
proof -
  let ?rows = "sort_key p_Sequence (filter (\<lambda>p. p_Namespace p = ns \<and> P p) (db_pins db))"
  obtain rest where r: "?rows = p # rest"
    using assms(1) by (cases ?rows) (auto simp: pin_rows_def)
  have "sorted (map p_Sequence ?rows)" by simp
  then have "\<forall>x \<in> set ?rows. p_Sequence p \<le> p_Sequence x" unfolding r by auto
  moreover have "q \<in> set ?rows" using assms(2-4) by simp
  ultimately show ?thesis by blast
qed

lemma pin_rows_Nil:
  assumes "pin_rows False (Some (Suc n)) ns P db = []" "q \<in> set (db_pins db)" "p_Namespace q = ns"
  shows "\<not> P q"
proof -
  have "sort_key p_Sequence (filter (\<lambda>p. p_Namespace p = ns \<and> P p) (db_pins db)) = []"
    using assms(1) by (auto simp: pin_rows_def)
  then show ?thesis using assms(2,3) by (auto simp: filter_empty_conv)
qed

lemma rewindPollingOffset_le:
  "rewindPollingOffset k nd = (Inr k', nd') \<Longrightarrow>
     nd_offset nd' \<le> k \<and> k' = nd_offset nd' \<and> nd_db nd' = nd_db nd \<and> nd_offset nd' \<le> nd_offset nd"
  by (auto simp: rewindPollingOffset_def bindM_eq_Inr)

lemma rewind_effect:
  assumes "rewindOffchainBatches E ag ids nd = (Inr off, nd1)"
    and "(case off of Some k \<Rightarrow> rewindPollingOffset k | None \<Rightarrow> getPollingOffset) nd1 = (Inr k', nd2)" "b \<in> set ids"
  shows "rewound_to (ag_namespace ag) b nd2 \<and> k' = nd_offset nd2 \<and> nd_db nd2 = nd_db nd"
proof -
  let ?P = "\<lambda>p. p_Batch p \<in> set ids \<and> \<not> p_Dispatched p"
  have ne: "ids \<noteq> []" using assms(3) by auto
  then obtain rows where rows: "rows = pin_rows False (Some 1) (ag_namespace ag) ?P (nd_db nd)"
    and nd1: "nd_db nd1 = nd_db nd" and off: "off = (case rows of [] \<Rightarrow> None | p # _ \<Rightarrow> Some (p_Sequence p - 1))"
    using assms(1) by (auto simp: rewindOffchainBatches_def bindM_eq_Inr GetPins_def db_read_Inr split: list.splits)
  show ?thesis
  proof (cases rows)
    case Nil
    then have "\<forall>p \<in> set (db_pins (nd_db nd)). p_Namespace p = ag_namespace ag \<longrightarrow> \<not> ?P p"
      using pin_rows_Nil [of 0 "ag_namespace ag" ?P "nd_db nd"] rows by simp
    then show ?thesis
      using assms(2,3) off Nil nd1 by (auto simp: rewound_to_def list_all_iff getPollingOffset_def)
  next
    case (Cons p ps)
    then have "rewindPollingOffset (p_Sequence p - 1) nd1 = (Inr k', nd2)" using assms(2) off by simp
    note k = rewindPollingOffset_le [OF this]
    have "p_Sequence p \<le> p_Sequence q" if "q \<in> set (db_pins (nd_db nd))" "p_Namespace q = ag_namespace ag" "?P q" for q
      using pin_rows_first [of 0 "ag_namespace ag" ?P "nd_db nd" p ps q] rows Cons that by simp
    then show ?thesis using k nd1 assms(3) by (fastforce simp: rewound_to_def list_all_iff)
  qed
qed

lemma pstep_outstanding:
  assumes "pstep E ag qc pc s l s'" "outstanding b s"
  shows "outstanding b s' \<or>
    (\<exists>ids. l = LRewound ids \<and> b \<in> set ids \<and> rewound_to (ag_namespace ag) b (pw_node (th_world s')))"
  using assms
proof (cases rule: pstep.cases)
  case (receive w)
  then show ?thesis using assms(2)
    by (auto simp: outstanding_def Let_def rewindReceive_def modifyRW_def shoulderTap_def bindM_eq_Inr split: list.splits)
next
  case (pop ids w)
  then show ?thesis using assms(2) by (auto simp: outstanding_def Let_def popRewinds_def)
next
  case (rewound ids off w k' w')
  then obtain nd1 nd2 where nd: "rewindOffchainBatches E ag ids (pw_node (th_world s)) = (Inr off, nd1)"
      "w = (th_world s) \<lparr> pw_node := nd1 \<rparr>"
      "(case off of Some k \<Rightarrow> rewindPollingOffset k | None \<Rightarrow> getPollingOffset) nd1 = (Inr k', nd2)"
      "w' = w \<lparr> pw_node := nd2 \<rparr>"
    by (auto simp: onPNode_eq)
  show ?thesis
  proof (cases "b \<in> set ids")
    case True
    then show ?thesis using rewind_effect [OF nd(1,3) True] rewound nd by auto
  next
    case False
    then show ?thesis using assms(2) rewound nd by (auto simp: outstanding_def Let_def)
  qed
next
  case (dispatch pins repoll w)
  then show ?thesis using assms(2)
    by (auto simp: outstanding_def Let_def dispatchEventsRetry_def bindM_eq_Inr onPNode_eq drainDIDRewinds_def)
next
  case (dispatch_fails pins err w)
  then show ?thesis using assms(2)
    by (auto simp: outstanding_def Let_def dispatchEventsRetry_def bindM_eq_Inl onPNode_eq drainDIDRewinds_def)
next
  case (take rs w)
  then show ?thesis using assms(2)
    by (auto simp: outstanding_def Let_def takeStaged_def set_fold_insert in_staged_batches)
next
  case (resolve rs ids r nd ids')
  have "set ids \<subseteq> set (snd (snd (resolveStaged E qc (ag_namespace ag) rs (pw_node (th_world s), ids))))"
    using grows_resolveStaged unfolding grows_def by blast
  then have "set ids \<subseteq> set ids'" using resolve by simp
  then show ?thesis using assms(2) resolve by (auto simp: outstanding_def Let_def)
next
  case (store rs ids w)
  then show ?thesis using assms(2)
    by (auto simp: outstanding_def Let_def storeReady_def modifyRW_def set_fold_insert)
next
  case (commit r w)
  then have "pw_rewinder w = pw_rewinder (th_world s)"
    by (auto simp: offsetCommitLoop_def UpdateOffset_def odb_op_def Let_def split: option.splits sum.splits fferr.splits if_splits prod.splits)
  then show ?thesis using assms(2) commit by (auto simp: outstanding_def Let_def)
qed (auto simp: outstanding_def Let_def queueRewind_def modifyRW_def onPNode_eq split: if_splits)

inductive ptrace :: "env \<Rightarrow> aggregator \<Rightarrow> query_conf \<Rightarrow> poller_conf \<Rightarrow> threads \<Rightarrow> (step_label \<times> threads) list \<Rightarrow> threads \<Rightarrow> bool"
  for E :: env and ag :: aggregator and qc :: query_conf and pc :: poller_conf where
  ptrace_nil: "ptrace E ag qc pc s [] s"
| ptrace_cons: "pstep E ag qc pc s l s1 \<Longrightarrow> ptrace E ag qc pc s1 tr s' \<Longrightarrow> ptrace E ag qc pc s ((l, s1) # tr) s'"

inductive_simps ptrace_simps: "ptrace E ag qc pc s [] s'" "ptrace E ag qc pc s (x # tr) s'"

text \<open>C17: A request to rewind to a batch is never lost between the threads: along every interleaving of
  the queueing threads, the two rewind loops, the event loop, the commit loop and anything else that
  changes the node, a queued request is still held by one of them, or the event loop executed it at
  some step, after which the polling offset was before every undispatched pin of the batch.\<close>

theorem queued_rewind_not_lost:
  assumes "ptrace E ag qc pc s tr s'" "outstanding b s"
  shows "outstanding b s' \<or> list_ex (\<lambda>(l, s1). \<exists>ids. l = LRewound ids \<and> b \<in> set ids \<and>
    rewound_to (ag_namespace ag) b (pw_node (th_world s1))) tr"
  using assms
proof (induction rule: ptrace.induct)
  case (ptrace_cons s l s1 tr s')
  from pstep_outstanding [OF ptrace_cons.hyps(1) ptrace_cons.prems] ptrace_cons.IH
  show ?case by auto
qed simp

section \<open>A rewind reaches the pins of its batch\<close>

lemma keeps_onRNode [keeps_intros]: "keeps (\<lambda>nd. f (nd_db nd)) m \<Longrightarrow> keeps (\<lambda>s. f (nd_db (fst s))) (onRNode m)"
  by (auto simp: keeps_def onRNode_def split: prod.splits) (metis snd_conv)

lemma keeps_addBatch [keeps_intros]: "keeps (\<lambda>s. f (fst s)) (addBatch b)"
  unfolding addBatch_def by (rule keeps_modify) auto

lemma keeps_run_as_group_R:
  assumes "keeps (\<lambda>s. f (nd_db (fst s))) m"
  shows "keeps (\<lambda>s. f (nd_db (fst s))) (run_as_group_R E m)"
proof (rule keepsI)
  fix s :: "node \<times> uuid list"
  obtain nd ids where s: "s = (nd, ids)" by (cases s)
  obtain r nd' ids' where m: "m (nd, ids) = (r, (nd', ids'))" by (metis prod.collapse)
  have "f (nd_db nd') = f (nd_db nd)" using keepsD [OF assms m] by simp
  then have "f (nd_db (snd (run_as_group E (\<lambda>_. (r, nd')) nd))) = f (nd_db nd)"
    by (auto simp: run_as_group_def Let_def split: sum.splits)
  then show "f (nd_db (fst (snd (run_as_group_R E m s)))) = f (nd_db (fst s))"
    by (auto simp: s run_as_group_R_def m split: prod.splits)
qed

lemma keeps_peek: "keeps (\<lambda>s. f (nd_db (fst s))) (peek_messages E ns is)"
proof (induction "is")
  case (Cons i "is")
  show ?case unfolding peek_messages.simps PeekMessageCache_def
    by (intro keeps_intros keeps_addBatch [where f = "\<lambda>nd. f (nd_db nd)"] Cons.IH)
qed (simp add: keeps_ret)

lemma keeps_resolveStaged: "keeps (\<lambda>s. f (nd_db (fst s))) (resolveStaged E qc ns rs)"
  unfolding resolveStaged_def getRewindsForMessages_def getRewindsForBlobs_def getRewindsForDIDs_def
    GetBatchIDsForMessages_def GetBatchIDsForDataAttachments_def GetDataRefs_blobs_def GetMessageIDs_pending_def
  by (intro keeps_run_as_group_R keeps_intros keeps_peek keeps_addBatch [where f = "\<lambda>nd. f (nd_db nd)"])

lemma grows_retryM: "grows m \<Longrightarrow> grows (retryM n m)"
proof (induction n)
  case (Suc n)
  show ?case unfolding grows_def
  proof (intro allI)
    fix nd ids
    obtain r nd' ids' where m: "m (nd, ids) = (r, (nd', ids'))" by (metis prod.collapse)
    have 1: "set ids \<subseteq> set ids'" using Suc.prems m by (metis grows_def snd_conv)
    have 2: "set ids' \<subseteq> set (snd (snd (retryM n m (nd', ids'))))" using Suc by (simp add: grows_def)
    from 1 2 show "set ids \<subseteq> set (snd (snd (retryM (Suc n) m (nd, ids))))"
      by (auto simp: m split: sum.splits fferr.splits)
  qed
qed (simp add: grows_def throwM_def)

text \<open>Whatever the queries do, a rewind to a batch that was staged is ready afterwards.\<close>

lemma processStaged_batch:
  "\<exists>found w'. processStagedRewinds E qc ns n w = (Inr found, w') \<and>
     nd_db (pw_node w') = nd_db (pw_node w) \<and> (\<forall>b. RewindBatch b \<in> set (rw_staged (pw_rewinder w)) \<longrightarrow>
       b \<in> set (rw_ready (pw_rewinder w')))"
proof -
  let ?rs = "rw_staged (pw_rewinder w)"
  let ?m = "retryM n (resolveStaged E qc ns ?rs)"
  let ?ids0 = "fold List.insert (staged_batches ?rs) []"
  obtain r nd ids where m: "?m (pw_node w, ?ids0) = (r, (nd, ids))" by (metis prod.collapse)
  have "set ?ids0 \<subseteq> set ids"
    using grows_retryM [OF grows_resolveStaged] m unfolding grows_def by (metis snd_conv)
  moreover have "nd_db nd = nd_db (pw_node w)"
    using keepsD [OF keeps_retryM [OF keeps_resolveStaged [where f = "\<lambda>x. x"]] m] by simp
  ultimately show ?thesis
    using m by (auto simp: processStagedRewinds_def bindM_def takeStaged_def storeReady_def modifyRW_def modifyM_def
        retM_def set_fold_insert in_staged_batches)
qed

lemma db_read_ok: "\<not> e_flt E (nd_calls nd) \<Longrightarrow> db_read E f nd = (Inr (f (nd_db nd)), nd \<lparr> nd_calls := Suc (nd_calls nd) \<rparr>)"
  by (simp add: db_read_def db_op_def Let_def)

lemma pin_rows_after:
  assumes "p \<in> set (db_pins db)" "p_Namespace p = ns" "P p" "page = pin_rows False (Some n) ns P db"
  shows "p \<in> set page \<or> length page = n \<and> list_all (\<lambda>q. p_Sequence q \<le> p_Sequence p) page"
proof -
  let ?rows = "sort_key p_Sequence (filter (\<lambda>p. p_Namespace p = ns \<and> P p) (db_pins db))"
  have page: "page = take n ?rows" using assms(4) by (simp add: pin_rows_def)
  have inr: "p \<in> set ?rows" using assms(1-3) by simp
  show ?thesis
  proof (cases "p \<in> set page")
    case False
    have "p \<in> set (take n ?rows @ drop n ?rows)" using inr unfolding append_take_drop_id .
    then have d: "p \<in> set (drop n ?rows)" using False unfolding page set_append by blast
    then have "drop n ?rows \<noteq> []" by auto
    then have "n < length ?rows" by (simp only: drop_eq_Nil not_le)
    then have "length page = n" unfolding page length_take by (rule min.absorb2 [OF less_imp_le])
    moreover have "sorted (map p_Sequence (take n ?rows) @ map p_Sequence (drop n ?rows))"
      unfolding map_append [symmetric] append_take_drop_id by (rule sorted_sort_key)
    then have "\<forall>q \<in> set (take n ?rows). \<forall>x \<in> set (drop n ?rows). p_Sequence q \<le> p_Sequence x"
      unfolding sorted_append set_map by blast
    then have "list_all (\<lambda>q. p_Sequence q \<le> p_Sequence p) page"
      using d unfolding page list_all_iff by blast
    ultimately show ?thesis by blast
  qed simp
qed


section \<open>The offset\<close>

lemma offset_find_append: "offset_find t n rows = None \<Longrightarrow> of_Type r = t \<Longrightarrow> of_Name r = n \<Longrightarrow> offset_find t n (rows @ [r]) = Some r"
  by (induction rows) (auto simp: offset_find_def split: if_splits)

lemma calcFirstOffset_db: "calcFirstOffset E ns fe nd = (r, nd') \<Longrightarrow> nd_db nd' = nd_db nd"
  by (auto simp: calcFirstOffset_def Let_def db_read_def db_op_def bindM_def retM_def throwM_def
      split: option.splits if_splits)

text \<open>C19: The loop that restores the offset ends after at most two rounds: either a database call or the
  configured first event fails, or the second round at the latest finds a row for the offset; more
  rounds change nothing.\<close>

theorem restoreOffset_two_rounds:
  "restoreOffset_loop E pc (Suc (Suc n)) w = restoreOffset_loop E pc 2 w \<and>
   (\<forall>r w'. restoreOffset_loop E pc 2 w = (Inr r, w') \<longrightarrow>
      (\<exists>row. r = Some row \<and> offset_find (pc_offsetType pc) (pc_offsetName pc) (pw_offsets w') = Some row))"
proof -
  let ?get = "GetOffset E (pc_offsetType pc) (pc_offsetName pc)"
  have after: "restoreOffset_loop E pc (Suc m) w1 = restoreOffset_loop E pc 1 w1 \<and>
      (\<forall>r w'. restoreOffset_loop E pc (Suc m) w1 = (Inr r, w') \<longrightarrow> r = Some row \<and> pw_offsets w' = pw_offsets w1)"
    if "offset_find (pc_offsetType pc) (pc_offsetName pc) (pw_offsets w1) = Some row" for w1 row m
    using that by (auto simp: GetOffset_def odb_op_def Let_def bindM_def retM_def split: if_splits)
  have upsert: "\<exists>row. offset_find (pc_offsetType pc) (pc_offsetName pc) (pw_offsets w2) = Some row"
    if "UpsertOffset E \<lparr> of_Type = pc_offsetType pc, of_Name = pc_offsetName pc, of_Current = k, of_RowID = 0 \<rparr> False w1
      = (Inr (), w2)" for w1 w2 k
    using that by (auto simp: UpsertOffset_def odb_op_def Let_def offset_find_append split: if_splits option.splits)
  let ?cont = "\<lambda>m offset. (case offset of Some r \<Rightarrow> retM (Some r)
       | None \<Rightarrow> bindM (onPNode (calcFirstOffset E (pc_namespace pc) (pc_firstEvent pc))) (\<lambda>firstOffset.
           bindM (UpsertOffset E \<lparr> of_Type = pc_offsetType pc, of_Name = pc_offsetName pc,
                                   of_Current = firstOffset, of_RowID = 0 \<rparr> False) (\<lambda>_.
           restoreOffset_loop E pc m)))"
  have step: "restoreOffset_loop E pc (Suc m) w = (case ?get w of (Inl e, w1) \<Rightarrow> (Inl e, w1) | (Inr off, w1) \<Rightarrow>
      ?cont m off w1)" for m
    by (simp only: restoreOffset_loop.simps) (subst bindM_def, rule refl)
  have eq: "?cont (Suc n) off w1 = ?cont 1 off w1" for off w1 n
  proof (cases off)
    case None
    obtain r2 w2 where c: "onPNode (calcFirstOffset E (pc_namespace pc) (pc_firstEvent pc)) w1 = (r2, w2)" by fastforce
    show ?thesis
    proof (cases r2)
      case (Inr k)
      obtain r3 w3 where u: "UpsertOffset E \<lparr> of_Type = pc_offsetType pc, of_Name = pc_offsetName pc,
          of_Current = k, of_RowID = 0 \<rparr> False w2 = (r3, w3)" by fastforce
      show ?thesis
      proof (cases r3)
        case (Inr x)
        then obtain row where "offset_find (pc_offsetType pc) (pc_offsetName pc) (pw_offsets w3) = Some row"
          using upsert u by fastforce
        from after [OF this, of n] show ?thesis using None c u Inr \<open>r2 = Inr k\<close> by (simp add: bindM_def)
      qed (simp add: None c u bindM_def \<open>r2 = Inr k\<close>)
    qed (simp add: None c bindM_def)
  qed simp
  have 1: "restoreOffset_loop E pc (Suc (Suc n)) w = restoreOffset_loop E pc 2 w"
    unfolding numeral_2_eq_2 step eq [of n] One_nat_def ..
  have 2: "\<exists>row. r = Some row \<and> offset_find (pc_offsetType pc) (pc_offsetName pc) (pw_offsets w') = Some row"
    if r: "restoreOffset_loop E pc 2 w = (Inr r, w')" for r w'
  proof -
    obtain off w1 where g: "?get w = (Inr off, w1)" "?cont (Suc 0) off w1 = (Inr r, w')"
      using r unfolding numeral_2_eq_2 step by (auto split: prod.splits sum.splits)
    show ?thesis
    proof (cases off)
      case (Some row)
      then show ?thesis using g by (auto simp: GetOffset_def odb_op_def Let_def split: if_splits)
    next
      case None
      then obtain k w2 w3 where u: "UpsertOffset E \<lparr> of_Type = pc_offsetType pc, of_Name = pc_offsetName pc,
          of_Current = k, of_RowID = 0 \<rparr> False w2 = (Inr (), w3)" "restoreOffset_loop E pc (Suc 0) w3 = (Inr r, w')"
        using g(2) by (auto simp: bindM_eq_Inr)
      from upsert [OF u(1)] obtain row where "offset_find (pc_offsetType pc) (pc_offsetName pc) (pw_offsets w3) = Some row"
        by blast
      with after [OF this, of 0] u(2) show ?thesis by auto
    qed
  qed
  from 1 2 show ?thesis by blast
qed

text \<open>A committed offset is what a restart restores: after the commit loop wrote the offset of a
  started poller, restoring it in a node with any offset in memory gives the offset back (one row
  per offset name).\<close>

theorem committed_offset_restored:
  assumes "offset_find (pc_offsetType pc) (pc_offsetName pc) (pw_offsets w) = Some row"
    and "ep_offsetID (pw_poller w) = of_RowID row" "nd_offsetCommitted (pw_node w) = Some k"
    and "offsetCommitLoop E (Suc n) w = (Inr (), w1)" "\<not> pc_ephemeral pc"
    and "restoreOffset_once E pc 2 (w1 \<lparr> pw_node := (pw_node w1) \<lparr> nd_offset := lost \<rparr> \<rparr>) = (Inr True, w2)"
  shows "nd_offset (pw_node w2) = nd_offset (pw_node w)"
proof -
  let ?t = "pc_offsetType pc" and ?n = "pc_offsetName pc"
  have upd: "retryM m (\<lambda>w. UpdateOffset E (ep_offsetID (pw_poller w)) (nd_offset (pw_node w)) w) v = (Inr (), v1) \<Longrightarrow>
     pw_offsets v1 = map (\<lambda>r. if of_RowID r = ep_offsetID (pw_poller v) then r \<lparr> of_Current := nd_offset (pw_node v) \<rparr> else r)
       (pw_offsets v)" for m v v1
  proof (induction m arbitrary: v)
    case (Suc m)
    show ?case
    proof (cases "e_flt E (nd_calls (pw_node v))")
      case True
      let ?v = "v \<lparr> pw_node := (pw_node v) \<lparr> nd_calls := Suc (nd_calls (pw_node v)) \<rparr> \<rparr>"
      have "retryM m (\<lambda>w. UpdateOffset E (ep_offsetID (pw_poller w)) (nd_offset (pw_node w)) w) ?v = (Inr (), v1)"
        using Suc.prems True by (simp add: UpdateOffset_def odb_op_def Let_def)
      from Suc.IH [OF this] show ?thesis by simp
    next
      case False
      then show ?thesis using Suc.prems by (auto simp: UpdateOffset_def odb_op_def Let_def)
    qed
  qed simp
  have rows: "pw_offsets w1 = map (\<lambda>r. if of_RowID r = of_RowID row then r \<lparr> of_Current := nd_offset (pw_node w) \<rparr> else r)
       (pw_offsets w)"
  proof -
    have "retryM (Suc n) (\<lambda>w. UpdateOffset E (ep_offsetID (pw_poller w)) (nd_offset (pw_node w)) w)
        (w \<lparr> pw_node := (pw_node w) \<lparr> nd_offsetCommitted := None \<rparr> \<rparr>) = (Inr (), w1)"
      using assms(3,4) by (simp add: offsetCommitLoop_def del: retryM.simps)
    from upd [OF this] assms(2) show ?thesis by simp
  qed
  have "offset_find ?t ?n (map (\<lambda>r. if of_RowID r = of_RowID row then r \<lparr> of_Current := c \<rparr> else r) rs) =
      Some (row \<lparr> of_Current := c \<rparr>)" if "offset_find ?t ?n rs = Some row" for rs c
    using that by (induction rs) (auto simp: offset_find_def split: if_splits)
  then have f: "offset_find ?t ?n (pw_offsets w1) = Some (row \<lparr> of_Current := nd_offset (pw_node w) \<rparr>)"
    using assms(1) rows by simp
  show ?thesis
    using assms(5,6) f
    by (auto simp: restoreOffset_once_def bindM_eq_Inr numeral_2_eq_2 GetOffset_def odb_op_def Let_def
        set_polling_def onPNode_eq split: if_splits option.splits)
qed

lemma first_in: "(case xs of [] \<Rightarrow> None | x # _ \<Rightarrow> Some x) = Some e \<Longrightarrow> e \<in> set xs"
  by (cases xs) auto

text \<open>The first offset a poller starts from is at least -1 and fits 64 bits: for every setting of the
  first event (none, newest, oldest, or a number), and event sequences that fit.\<close>

theorem first_offset_bounds:
  assumes "calcFirstOffset E ns fe nd = (Inr k, nd')"
    and "list_all (\<lambda>ev. 0 \<le> ev_Sequence ev \<and> ev_Sequence ev < 2 ^ 63) (db_events (nd_db nd))"
  shows "-1 \<le> k \<and> k < 2 ^ 63"
proof -
  have newest: "0 \<le> ev_Sequence ev \<and> ev_Sequence ev < 2 ^ 63" if "newest_event ns (nd_db nd) = Some ev" for ev
  proof -
    have "ev \<in> set (rev (sort_key ev_Sequence (filter (\<lambda>ev. ev_Namespace ev = ns) (db_events (nd_db nd)))))"
      using that unfolding newest_event_def by (rule first_in)
    then show ?thesis using assms(2) by (simp add: list_all_iff)
  qed
  have parsed: "n < 2 ^ 63" if "parse_int64 s = Some n" for s n
    using that by (auto simp: parse_int64_def Let_def split: list.splits option.splits if_splits)
  show ?thesis
    using assms(1) newest parsed
    by (auto simp: calcFirstOffset_def Let_def bindM_eq_Inr db_read_Inr split: option.splits if_splits)
qed

section \<open>Concrete threads\<close>

definition pconf0 :: poller_conf where
  "pconf0 = \<lparr> pc_ephemeral = False, pc_batchSize = 50, pc_batchTimeout = False, pc_firstEvent = Some ''oldest'',
     pc_namespace = ''ns1'', pc_offsetName = ''ff_aggregator'', pc_offsetType = OffsetTypeAggregator \<rparr>"

definition qconf0 :: query_conf where
  "qconf0 = \<lparr> qc_limit = 10, qc_msgorder = (\<lambda>xs. xs), qc_dataorder = (\<lambda>xs. xs) \<rparr>"

definition rewinder0 :: rewinder where
  "rewinder0 = \<lparr> rw_requests = [], rw_queued = [], rw_staged = [], rw_ready = [], rw_tap = False \<rparr>"

definition poller0 :: poller where
  "poller0 = \<lparr> ep_offsetID = 0, ep_shoulderTap = False, ep_batchDelay = False \<rparr>"

definition world0 :: "uuid list \<Rightarrow> pworld" where
  "world0 arrived = \<lparr> pw_node = node0 arrived, pw_offsets = [], pw_rowseq = 7, pw_poller = poller0,
     pw_rewinder = rewinder0 \<rparr>"

definition requested0 :: pworld where
  "requested0 = snd (queueRewind (RewindBatch 2) (world0 [1, 3]))"

definition threads0 :: threads where
  "threads0 = \<lparr> th_world = world0 [1, 3], th_pc = PCPop, th_inflight = None \<rparr>"

definition threads1 :: threads where
  "threads1 = threads0 \<lparr> th_world := requested0 \<rparr>"

lemma queued_rewind_not_lost_witness:
  "outstanding 2 (threads1 \<lparr> th_world := snd (rewindReceive requested0) \<rparr>)"
proof -
  let ?s = "threads1 \<lparr> th_world := snd (rewindReceive requested0) \<rparr>"
  have "rewindReceive (th_world threads1) = (Inr (), snd (rewindReceive requested0))"
    by (simp add: rewindReceive_def threads1_def requested0_def queueRewind_def bindM_def modifyRW_def modifyM_def
        shoulderTap_def split: list.splits)
  then have "pstep env0 ag0 qconf0 pconf0 threads1 LReceive ?s" by (rule pstep.receive)
  then have tr: "ptrace env0 ag0 qconf0 pconf0 threads1 [(LReceive, ?s)] ?s"
    by (intro ptrace_cons ptrace_nil)
  have "outstanding 2 threads1"
    by (simp add: outstanding_def threads1_def requested0_def queueRewind_def modifyRW_def modifyM_def Let_def)
  from queued_rewind_not_lost [OF tr this] show ?thesis by simp
qed


lemma restoreOffset_two_rounds_witness:
  "offset_find OffsetTypeAggregator ''ff_aggregator'' (pw_offsets (snd (restoreOffset_loop env0 pconf0 2 (world0 [1, 3])))) =
     projr (fst (restoreOffset_loop env0 pconf0 2 (world0 [1, 3])))"
proof -
  let ?r = "restoreOffset_loop env0 pconf0 2 (world0 [1, 3])"
  have "\<not> isl (fst ?r)" by code_simp
  then have "?r = (Inr (projr (fst ?r)), snd ?r)" by (cases ?r) auto
  with restoreOffset_two_rounds [of env0 pconf0 0 "world0 [1, 3]"]
  obtain row where "projr (fst ?r) = Some row"
      "offset_find (pc_offsetType pconf0) (pc_offsetName pconf0) (pw_offsets (snd ?r)) = Some row"
    by blast
  then show ?thesis by (simp add: pconf0_def)
qed

text \<open>The started poller after a page in which the second of three batches was missing.\<close>

definition polled0 :: pworld where
  "polled0 = \<lparr> pw_node = (node0 []) \<lparr> nd_db := db0 \<lparr> db_pins := [(pin0 1) \<lparr> p_Dispatched := True \<rparr>, pin0 2,
       (pin0 3) \<lparr> p_Dispatched := True \<rparr>] \<rparr>, nd_offset := 3, nd_offsetCommitted := Some 3 \<rparr>,
     pw_offsets = [\<lparr> of_Type = OffsetTypeAggregator, of_Name = ''ff_aggregator'', of_Current = -1, of_RowID = 7 \<rparr>],
     pw_rowseq = 8, pw_poller = poller0 \<lparr> ep_offsetID := 7 \<rparr>, pw_rewinder = rewinder0 \<rparr>"

definition committed0 :: pworld where
  "committed0 = snd (offsetCommitLoop env0 1 polled0)"

lemma committed_offset_restored_witness:
  "nd_offset (pw_node (snd (restoreOffset_once env0 pconf0 2
      (committed0 \<lparr> pw_node := (pw_node committed0) \<lparr> nd_offset := 0 \<rparr> \<rparr>)))) = 3"
proof -
  let ?w = "committed0 \<lparr> pw_node := (pw_node committed0) \<lparr> nd_offset := 0 \<rparr> \<rparr>"
  have 1: "offset_find (pc_offsetType pconf0) (pc_offsetName pconf0) (pw_offsets polled0) =
      Some \<lparr> of_Type = OffsetTypeAggregator, of_Name = ''ff_aggregator'', of_Current = -1, of_RowID = 7 \<rparr>"
    by code_simp
  have 2: "ep_offsetID (pw_poller polled0) = 7" "nd_offsetCommitted (pw_node polled0) = Some 3"
    "nd_offset (pw_node polled0) = 3" "\<not> pc_ephemeral pconf0"
    by code_simp+
  have "fst (offsetCommitLoop env0 1 polled0) = Inr ()" by code_simp
  then have 3: "offsetCommitLoop env0 (Suc 0) polled0 = (Inr (), committed0)"
    by (simp add: committed0_def prod_eq_iff)
  have "fst (restoreOffset_once env0 pconf0 2 ?w) = Inr True" by code_simp
  then have 4: "restoreOffset_once env0 pconf0 2 ?w = (Inr True, snd (restoreOffset_once env0 pconf0 2 ?w))"
    by (simp add: prod_eq_iff)
  from committed_offset_restored [OF 1 _ 2(2) 3 2(4) 4] 2(1,3) show ?thesis by simp
qed

lemma first_offset_bounds_witness:
  "\<exists>k nd. calcFirstOffset env0 ''ns1'' (Some ''42'') (node0 []) = (Inr k, nd) \<and> -1 \<le> k \<and> k < 2 ^ 63"
proof -
  have 1: "calcFirstOffset env0 ''ns1'' (Some ''42'') (node0 []) = (Inr 42, node0 [])"
    by (simp add: calcFirstOffset_def parse_int64_def retM_def)
  have 2: "list_all (\<lambda>ev. 0 \<le> ev_Sequence ev \<and> ev_Sequence ev < 2 ^ 63) (db_events (nd_db (node0 [])))"
    by (simp add: node0_def db0_def)
  from 1 first_offset_bounds [OF 1 2] show ?thesis by blast
qed

text \<open>
  A restart: the rewinder, the poller and the caches of the node are new, the tables stay.
\<close>

definition restarted :: "pworld \<Rightarrow> pworld" where
  "restarted w = w \<lparr> pw_node := (pw_node w) \<lparr> nd_msgcache := [], nd_batchcache := [], nd_valcache := [], nd_idcache := [],
     nd_offset := 0, nd_offsetCommitted := None, nd_didrewinds := [] \<rparr>,
     pw_poller := poller0, pw_rewinder := rewinder0 \<rparr>"

definition arrived0 :: pworld where
  "arrived0 = snd (queueRewind (RewindBatch 2) committed0)"

definition recovered0 :: pworld where
  "recovered0 = snd (restoreOffset_once env0 pconf0 2 (restarted arrived0))"

text \<open>Rewinds are only in memory: the second of three batches is missing, the page is processed and the
  offset 3 is committed, then the batch arrives and its rewind is queued. The running node reads its
  pin again; a node that restarts at this point resumes from offset 3 and reads an empty page,
  with the pin of the batch still undispatched.\<close>

theorem restart_loses_rewind:
  "nd_offset (fst (snd (processPins env0 ag0 [pin0 1, pin0 2, pin0 3] (node0 [1, 3], newBatchState)))) = 3 \<and>
   fst (bindM rewindReceive (\<lambda>_. bindM popRewinds (\<lambda>_. bindM (processStagedRewinds env0 qconf0 ''ns1'' 1) (\<lambda>_.
      readPage env0 ag0 pconf0 1))) arrived0) = Inr [pin0 2] \<and>
   fst (readPage env0 ag0 pconf0 1 recovered0) = Inr [] \<and>
   fst (eventLoop env0 ag0 pconf0 1 recovered0) = Inr (LoopWait 0) \<and>
   map p_Sequence (filter (\<lambda>p. \<not> p_Dispatched p) (db_pins (nd_db (pw_node recovered0)))) = [2] \<and>
   nd_offset (pw_node recovered0) = 3"
  by (intro conjI; code_simp)

end
