(* ===== verification/Batch_Assembly.thy ===== *)
theory Batch_Assembly
  imports Data_Manager "HOL-Library.Multiset"
begin

text \<open>
  internal/batch/batch_processor.go, first part: a batch processor collects the work it is
  handed in an assembly queue and splits it into batches. The assembly loop is a step
  function over the events that wake it; a step that flushes returns the work of the batch.
  What a flush does with the work is in \<open>Batch_Seal\<close>.
\<close>

section \<open>State\<close>

record batch_work =
  bw_msg :: message
  bw_data :: "ffdata list"

record processor_conf =
  bc_BatchType :: batch_type
  bc_BatchMaxSize :: nat
  bc_BatchMaxBytes :: int
  bc_txType :: tx_type
  bc_author :: string
  bc_group :: "bytes32 option"

record assembly =
  as_ID :: uuid
  as_queue :: "batch_work list"
  as_bytes :: int

text \<open>What the timer of the loop was started with; a stopped or popped timer does not fire.\<close>

datatype batch_timer = DisposeTimer | BatchTimer | NoTimer

record processor =
  pr_assembly :: assembly
  pr_timer :: batch_timer
  pr_idle :: bool
  pr_quiescing :: bool
  pr_done :: bool

definition batchSizeEstimateBase :: int where
  "batchSizeEstimateBase = 512"

text \<open>The size of a data item is remembered in the item; the items are shared with the work.\<close>

fun data_sizes :: "ffdata list \<Rightarrow> int \<times> ffdata list" where
  "data_sizes [] = (0, [])"
| "data_sizes (d # ds) =
     (let (n, d') = Data_EstimateSize d; (m, ds') = data_sizes ds in (n + m, d' # ds'))"

definition estimateSize :: "batch_work \<Rightarrow> int \<times> batch_work" where
  "estimateSize bw =
     (let (n, ds) = data_sizes (bw_data bw)
      in (Message_EstimateSize False (bw_msg bw) + n, bw \<lparr> bw_data := ds \<rparr>))"

definition newAssembly :: "uuid \<Rightarrow> batch_work list \<Rightarrow> assembly" where
  "newAssembly newid initialWork =
     \<lparr> as_ID = newid, as_queue = initialWork, as_bytes = batchSizeEstimateBase \<rparr>"

definition work_seq :: "batch_work \<Rightarrow> int" where
  "work_seq bw = m_Sequence (bw_msg bw)"

definition work_key :: "batch_work \<Rightarrow> string" where
  "work_key bw = sr_Key (mh_Signer (m_Header (bw_msg bw)))"

text \<open>The loop that builds the new sorted queue.\<close>

fun insert_work :: "batch_work \<Rightarrow> batch_work list \<Rightarrow> batch_work list" where
  "insert_work nw [] = [nw]"
| "insert_work nw (w # ws) = (if work_seq nw < work_seq w then nw # w # ws else w # insert_work nw ws)"

definition addWork :: "processor_conf \<Rightarrow> batch_work \<Rightarrow> assembly \<Rightarrow> (bool \<times> bool) \<times> assembly" where
  "addWork conf newWork a =
     (let batchOfOne = (bc_txType conf = TT_ContractInvokePin);
          (full, overflow) =
            (if batchOfOne then (True, as_queue a \<noteq> [])
             else case as_queue a of
               [] \<Rightarrow> (False, False)
             | w # _ \<Rightarrow> (work_key newWork \<noteq> work_key w, True))
      in if full then ((full, overflow), a \<lparr> as_queue := as_queue a @ [newWork] \<rparr>)
         else
           let (size, newWork) = estimateSize newWork;
               bytes = as_bytes a + size;
               queue = insert_work newWork (as_queue a);
               full = (length queue \<ge> bc_BatchMaxSize conf \<or> bytes \<ge> bc_BatchMaxBytes conf);
               overflow = (length queue > 1 \<and> (batchOfOne \<or> bytes > bc_BatchMaxBytes conf))
           in ((full, overflow), a \<lparr> as_queue := queue, as_bytes := bytes \<rparr>))"

text \<open>The batch that is flushed: its identifier, its work and its estimated size.\<close>

record flushed =
  fl_ID :: uuid
  fl_work :: "batch_work list"
  fl_byteSize :: int

definition startFlush :: "bool \<Rightarrow> uuid \<Rightarrow> assembly \<Rightarrow> flushed \<times> assembly" where
  "startFlush overflow newid a =
     (let (flushAssembly, overflowWork) =
        (if overflow then (butlast (as_queue a), [last (as_queue a)]) else (as_queue a, []))
      in (\<lparr> fl_ID = as_ID a, fl_work = flushAssembly, fl_byteSize = as_bytes a \<rparr>,
          newAssembly newid overflowWork))"

section \<open>The assembly loop\<close>

datatype assembly_event = EvTimer | EvWork batch_work | EvClosed

definition processor_start :: "uuid \<Rightarrow> processor" where
  "processor_start newid = \<lparr> pr_assembly = newAssembly newid [], pr_timer = DisposeTimer, pr_idle = True,
     pr_quiescing = False, pr_done = False \<rparr>"

text \<open>
  One turn of the loop: the wake-up (\<open>assembly_wake\<close>), with whether the timer popped on
  work, and the flush. \<open>pr_quiescing\<close> is the message in the channel that asks the manager
  to close the work channel; \<open>pr_done\<close> is the end of the loop, after the channel was closed.
\<close>

definition assembly_wake :: "processor_conf \<Rightarrow> assembly_event \<Rightarrow> processor \<Rightarrow> (bool \<times> bool \<times> bool) \<times> processor" where
  "assembly_wake conf ev p =
     (case ev of
        EvTimer \<Rightarrow>
          let p = p \<lparr> pr_timer := NoTimer \<rparr>
          in if as_queue (pr_assembly p) = [] then ((False, False, False), p \<lparr> pr_quiescing := True \<rparr>)
             else ((True, False, False), p)
      | EvWork work \<Rightarrow>
          let ((full, overflow), a) = addWork conf work (pr_assembly p);
              p = p \<lparr> pr_assembly := a \<rparr>
          in ((False, full, overflow), if pr_idle p then p \<lparr> pr_timer := BatchTimer, pr_idle := False \<rparr> else p)
      | EvClosed \<Rightarrow> ((False, False, False), p \<lparr> pr_done := True \<rparr>))"

definition assembly_step :: "processor_conf \<Rightarrow> uuid \<Rightarrow> assembly_event \<Rightarrow> processor \<Rightarrow> flushed option \<times> processor" where
  "assembly_step conf newid ev p =
     (let ((timedout, full, overflow), p) = assembly_wake conf ev p
      in if (full \<or> timedout \<or> pr_done p) \<and> as_queue (pr_assembly p) \<noteq> []
         then let p = p \<lparr> pr_timer := (if overflow then BatchTimer else NoTimer) \<rparr>;
                  (fl, a) = startFlush overflow newid (pr_assembly p);
                  p = p \<lparr> pr_assembly := a \<rparr>
              in (Some fl, if \<not> overflow \<and> \<not> pr_done p then p \<lparr> pr_timer := DisposeTimer, pr_idle := True \<rparr> else p)
         else (None, p))"

text \<open>The loop over a sequence of wake-ups with the identifiers it draws; it ends when the channel is closed.\<close>

fun assemblyLoop :: "processor_conf \<Rightarrow> (uuid \<times> assembly_event) list \<Rightarrow> processor \<Rightarrow> flushed list \<times> processor" where
  "assemblyLoop conf [] p = ([], p)"
| "assemblyLoop conf ((newid, ev) # evs) p =
     (if pr_done p then ([], p)
      else case assembly_step conf newid ev p of
        (fl, p') \<Rightarrow> (case assemblyLoop conf evs p' of
          (fls, p'') \<Rightarrow> ((case fl of None \<Rightarrow> fls | Some f \<Rightarrow> f # fls), p'')))"

section \<open>What the queue and the batches look like\<close>

definition one_key :: "batch_work list \<Rightarrow> bool" where
  "one_key ws \<longleftrightarrow> list_all (\<lambda>w. work_key w = work_key (hd ws)) ws"

definition batchOfOne :: "processor_conf \<Rightarrow> bool" where
  "batchOfOne conf \<longleftrightarrow> bc_txType conf = TT_ContractInvokePin"

definition queue_ok :: "processor_conf \<Rightarrow> batch_work list \<Rightarrow> bool" where
  "queue_ok conf q \<longleftrightarrow> sorted (map work_seq q) \<and> one_key q \<and>
     (q = [] \<or> length q < bc_BatchMaxSize conf \<or> batchOfOne conf) \<and> (batchOfOne conf \<longrightarrow> length q \<le> 1)"

definition batch_ok :: "processor_conf \<Rightarrow> flushed \<Rightarrow> bool" where
  "batch_ok conf fl \<longleftrightarrow> fl_work fl \<noteq> [] \<and> sorted (map work_seq (fl_work fl)) \<and> one_key (fl_work fl) \<and>
     length (fl_work fl) \<le> max 1 (bc_BatchMaxSize conf) \<and> (batchOfOne conf \<longrightarrow> length (fl_work fl) = 1)"

text \<open>A queue with work has the batch timer running; the loop is idle when the queue is empty.\<close>

definition timer_ok :: "processor \<Rightarrow> bool" where
  "timer_ok p \<longleftrightarrow> pr_done p \<or>
     (if as_queue (pr_assembly p) = [] then pr_idle p else pr_timer p = BatchTimer \<and> \<not> pr_idle p)"

lemma estimateSize_msg [simp]: "bw_msg (snd (estimateSize w)) = bw_msg w"
  by (simp add: estimateSize_def split: prod.splits)

lemma work_seq_msg: "bw_msg w' = bw_msg w \<Longrightarrow> work_seq w' = work_seq w \<and> work_key w' = work_key w"
  by (simp add: work_seq_def work_key_def)

lemma mset_insert_work [simp]: "mset (insert_work w q) = add_mset w (mset q)"
  by (induction q) auto

lemma set_insert_work [simp]: "set (insert_work w q) = insert w (set q)"
  by (induction q) auto

lemma length_insert_work [simp]: "length (insert_work w q) = Suc (length q)"
  by (induction q) auto

lemma insert_work_nonempty [simp]: "insert_work w q \<noteq> []"
  by (cases q) auto

lemma sorted_insert_work: "sorted (map work_seq q) \<Longrightarrow> sorted (map work_seq (insert_work w q))"
  by (induction q) auto

lemma one_keyI: "(\<And>w. w \<in> set ws \<Longrightarrow> work_key w = k) \<Longrightarrow> one_key ws"
  by (cases ws) (simp_all add: one_key_def list_all_iff)

lemma one_keyD: "one_key ws \<Longrightarrow> w \<in> set ws \<Longrightarrow> work_key w = work_key (hd ws)"
  by (simp add: one_key_def list_all_iff)

lemma one_key_singleton [simp]: "one_key [w]"
  by (simp add: one_key_def)

lemma addWork_cases:
  assumes "addWork conf w a = ((full, overflow), a')"
  obtains (one) "batchOfOne conf" "full" "overflow \<longleftrightarrow> as_queue a \<noteq> []" "as_queue a' = as_queue a @ [w]"
  | (key) "\<not> batchOfOne conf" "as_queue a \<noteq> []" "full" "overflow" "as_queue a' = as_queue a @ [w]"
  | (insert) w' where "\<not> batchOfOne conf" "as_queue a = [] \<or> work_key w = work_key (hd (as_queue a))"
      "bw_msg w' = bw_msg w" "as_queue a' = insert_work w' (as_queue a)"
      "\<not> full \<longrightarrow> length (as_queue a') < bc_BatchMaxSize conf" "overflow \<longrightarrow> full \<and> length (as_queue a') > 1"
proof -
  note d = assms [unfolded addWork_def batchOfOne_def [symmetric] Let_def]
  show thesis
  proof (cases "batchOfOne conf")
    case True
    then show ?thesis using d one by auto
  next
    case False
    show ?thesis
    proof (cases "as_queue a = [] \<or> work_key w = work_key (hd (as_queue a))")
      case True
      let ?w = "snd (estimateSize w)" and ?q = "as_queue a"
      let ?bytes = "as_bytes a + fst (estimateSize w)"
      have r: "((full, overflow), a') = ((length (insert_work ?w ?q) \<ge> bc_BatchMaxSize conf \<or> ?bytes \<ge> bc_BatchMaxBytes conf,
          length (insert_work ?w ?q) > 1 \<and> ?bytes > bc_BatchMaxBytes conf),
          a \<lparr> as_queue := insert_work ?w ?q, as_bytes := ?bytes \<rparr>)"
        using d True False by (cases ?q) (simp_all add: case_prod_unfold)
      then show ?thesis using True False by (intro insert [of ?w]) auto
    next
      case False2: False
      then show ?thesis using d False key by (auto split: list.splits)
    qed
  qed
qed

definition work_msgs :: "batch_work list \<Rightarrow> message multiset" where
  "work_msgs ws = mset (map bw_msg ws)"

text \<open>What one wake-up does to the queue, before the flush.\<close>

definition event_msgs :: "assembly_event \<Rightarrow> message multiset" where
  "event_msgs ev = (case ev of EvWork w \<Rightarrow> {# bw_msg w #} | _ \<Rightarrow> {#})"

lemma addWork_msgs: "addWork conf w a = (r, a') \<Longrightarrow> work_msgs (as_queue a') = work_msgs (as_queue a) + {# bw_msg w #}"
  by (cases r; clarify; erule addWork_cases) (auto simp: work_msgs_def)

lemma addWork_nonempty: "addWork conf w a = (r, a') \<Longrightarrow> as_queue a' \<noteq> []"
  by (cases r; clarify; erule addWork_cases) (auto simp flip: length_greater_0_conv)

lemma addWork_ok:
  assumes "addWork conf w a = ((full, overflow), a')" "queue_ok conf (as_queue a)"
  shows "\<not> full \<Longrightarrow> queue_ok conf (as_queue a')"
    and "full \<Longrightarrow> overflow \<Longrightarrow> batch_ok conf (fst (startFlush True i a')) \<and> queue_ok conf (as_queue (snd (startFlush True i a')))"
    and "full \<Longrightarrow> \<not> overflow \<Longrightarrow> batch_ok conf (fst (startFlush False i a'))"
    and "overflow \<Longrightarrow> full"
proof -
  let ?q = "as_queue a"
  have sorted_ins: "sorted (map work_seq (insert_work v ?q))" for v
    using assms(2) sorted_insert_work by (simp add: queue_ok_def)
  have key_ins: "one_key (insert_work v ?q)"
    if h: "?q = [] \<or> work_key w = work_key (hd ?q)" "bw_msg v = bw_msg w" for v
  proof (rule one_keyI)
    fix x assume "x \<in> set (insert_work v ?q)"
    then consider "x = v" | "x \<in> set ?q" by auto
    then show "work_key x = (if ?q = [] then work_key w else work_key (hd ?q))"
    proof cases
      case 1
      then show ?thesis using h(1) work_seq_msg [OF h(2)] by (cases "?q = []") simp_all
    next
      case 2
      have "one_key ?q" using assms(2) by (simp add: queue_ok_def)
      from one_keyD [OF this 2] 2 show ?thesis by (metis empty_iff empty_set)
    qed
  qed
  show "queue_ok conf (as_queue a')" if "\<not> full"
    using assms(1) that by (elim addWork_cases) (auto simp: queue_ok_def sorted_ins key_ins)
  show "batch_ok conf (fst (startFlush True i a')) \<and> queue_ok conf (as_queue (snd (startFlush True i a')))"
    if "full" "overflow"
    using assms(1)
  proof (cases rule: addWork_cases)
    case (insert w')
    let ?b = "butlast (insert_work w' ?q)"
    have "sorted (map work_seq ?b)" "one_key ?b"
      using sorted_butlast [of "map work_seq (insert_work w' ?q)"] sorted_ins [of w']
        one_keyI [OF one_keyD [OF key_ins [OF insert(2,3)] in_set_butlastD]]
      by (simp_all add: map_butlast)
    moreover have "?b \<noteq> []" "Suc (length ?b) = length (insert_work w' ?q)" "?q \<noteq> []"
      using insert(4,6) that by (simp_all flip: length_greater_0_conv)
    ultimately show ?thesis using insert that assms(2)
      by (auto simp: startFlush_def newAssembly_def batch_ok_def queue_ok_def neq_Nil_conv)
  qed (use assms(2) that in \<open>auto simp: startFlush_def newAssembly_def batch_ok_def queue_ok_def neq_Nil_conv\<close>)
  show "batch_ok conf (fst (startFlush False i a'))" if "full" "\<not> overflow"
    using assms(1)
    by (cases rule: addWork_cases)
      (use assms(2) that sorted_ins key_ins in \<open>auto simp: startFlush_def batch_ok_def queue_ok_def\<close>)
  show "full" if "overflow"
    using assms(1) that by (elim addWork_cases) auto
qed

lemma startFlush_msgs:
  "as_queue a \<noteq> [] \<Longrightarrow> startFlush ov i a = (fl, a') \<Longrightarrow>
     work_msgs (as_queue a) = work_msgs (fl_work fl) + work_msgs (as_queue a')"
  by (cases "as_queue a" rule: rev_cases) (auto simp: startFlush_def newAssembly_def work_msgs_def split: if_splits)

text \<open>One turn of the loop.\<close>

definition flushed_works :: "flushed option \<Rightarrow> batch_work list" where
  "flushed_works fl = (case fl of None \<Rightarrow> [] | Some f \<Rightarrow> fl_work f)"

lemma assembly_wake_spec:
  assumes "assembly_wake conf ev p = ((timedout, full, overflow), p')" "queue_ok conf (as_queue (pr_assembly p))" "timer_ok p" "\<not> pr_done p"
  shows "work_msgs (as_queue (pr_assembly p')) = work_msgs (as_queue (pr_assembly p)) + event_msgs ev"
    and "\<not> full \<Longrightarrow> queue_ok conf (as_queue (pr_assembly p'))"
    and "full \<Longrightarrow> overflow \<Longrightarrow> batch_ok conf (fst (startFlush True i (pr_assembly p'))) \<and>
           queue_ok conf (as_queue (snd (startFlush True i (pr_assembly p'))))"
    and "full \<Longrightarrow> \<not> overflow \<Longrightarrow> batch_ok conf (fst (startFlush False i (pr_assembly p')))"
    and "overflow \<Longrightarrow> full" "as_queue (pr_assembly p') \<noteq> [] \<Longrightarrow> \<not> pr_idle p' \<or> pr_done p'"
    and "timedout \<or> pr_done p' \<or> as_queue (pr_assembly p') = [] \<or> pr_timer p' = BatchTimer"
    and "pr_done p' \<longleftrightarrow> ev = EvClosed"
proof -
  have conj: "work_msgs (as_queue (pr_assembly p')) = work_msgs (as_queue (pr_assembly p)) + event_msgs ev \<and>
    (\<not> full \<longrightarrow> queue_ok conf (as_queue (pr_assembly p'))) \<and>
    (full \<longrightarrow> overflow \<longrightarrow> batch_ok conf (fst (startFlush True i (pr_assembly p'))) \<and>
           queue_ok conf (as_queue (snd (startFlush True i (pr_assembly p'))))) \<and>
    (full \<longrightarrow> \<not> overflow \<longrightarrow> batch_ok conf (fst (startFlush False i (pr_assembly p')))) \<and>
    (overflow \<longrightarrow> full) \<and> (as_queue (pr_assembly p') \<noteq> [] \<longrightarrow> \<not> pr_idle p' \<or> pr_done p') \<and>
    (timedout \<or> pr_done p' \<or> as_queue (pr_assembly p') = [] \<or> pr_timer p' = BatchTimer) \<and>
    (pr_done p' \<longleftrightarrow> ev = EvClosed)"
  proof (cases ev)
    case (EvWork w)
    obtain r a' where a: "addWork conf w (pr_assembly p) = (r, a')" by (cases "addWork conf w (pr_assembly p)")
    then obtain f ov where a: "addWork conf w (pr_assembly p) = ((f, ov), a')" by (cases r) auto
    note ok = addWork_ok [OF a assms(2)] and msgs = addWork_msgs [OF a]
    have w: "full = f" "overflow = ov" "pr_assembly p' = a'" "\<not> pr_idle p'" "\<not> pr_done p'"
      "pr_idle p \<longrightarrow> pr_timer p' = BatchTimer" "\<not> pr_idle p \<longrightarrow> pr_timer p' = pr_timer p"
      using assms(1,4) a by (auto simp: assembly_wake_def EvWork Let_def split: if_splits)
    have "pr_timer p' = BatchTimer"
      using w assms(3,4) by (cases "pr_idle p") (auto simp: timer_ok_def split: if_splits)
    then show ?thesis
      using ok msgs w assms(4) by (auto simp: event_msgs_def EvWork)
  qed (use assms in \<open>auto simp: assembly_wake_def Let_def event_msgs_def timer_ok_def split: if_splits\<close>)
  then show "work_msgs (as_queue (pr_assembly p')) = work_msgs (as_queue (pr_assembly p)) + event_msgs ev"
    and "\<not> full \<Longrightarrow> queue_ok conf (as_queue (pr_assembly p'))"
    and "full \<Longrightarrow> overflow \<Longrightarrow> batch_ok conf (fst (startFlush True i (pr_assembly p'))) \<and>
           queue_ok conf (as_queue (snd (startFlush True i (pr_assembly p'))))"
    and "full \<Longrightarrow> \<not> overflow \<Longrightarrow> batch_ok conf (fst (startFlush False i (pr_assembly p')))"
    and "overflow \<Longrightarrow> full" "as_queue (pr_assembly p') \<noteq> [] \<Longrightarrow> \<not> pr_idle p' \<or> pr_done p'"
    and "timedout \<or> pr_done p' \<or> as_queue (pr_assembly p') = [] \<or> pr_timer p' = BatchTimer"
    and "pr_done p' \<longleftrightarrow> ev = EvClosed" by blast+
qed

lemma assembly_step_spec:
  assumes "assembly_step conf i ev p = (fl, p')" "queue_ok conf (as_queue (pr_assembly p))" "timer_ok p" "\<not> pr_done p"
  shows "queue_ok conf (as_queue (pr_assembly p'))" "timer_ok p'" "\<And>f. fl = Some f \<Longrightarrow> batch_ok conf f"
    and "work_msgs (flushed_works fl) + work_msgs (as_queue (pr_assembly p')) =
      work_msgs (as_queue (pr_assembly p)) + event_msgs ev"
    and "pr_done p' \<longleftrightarrow> ev = EvClosed" "ev = EvClosed \<or> ev = EvTimer \<Longrightarrow> as_queue (pr_assembly p') = []"
proof -
  obtain timedout full overflow p1 where w: "assembly_wake conf ev p = ((timedout, full, overflow), p1)"
    by (metis prod.collapse)
  note spec = assembly_wake_spec [OF w assms(2-4)]
  have kind: "ev = EvClosed \<or> ev = EvTimer \<Longrightarrow> \<not> full" "ev = EvTimer \<Longrightarrow> as_queue (pr_assembly p1) \<noteq> [] \<Longrightarrow> timedout"
    using w by (auto simp: assembly_wake_def Let_def split: if_splits)
  let ?fl = "(full \<or> timedout \<or> pr_done p1) \<and> as_queue (pr_assembly p1) \<noteq> []"
  have idle: "as_queue (pr_assembly p1) = [] \<Longrightarrow> pr_done p1 \<or> pr_idle p1"
    using w assms(3,4) addWork_nonempty [of conf _ "pr_assembly p"]
    by (cases ev) (auto simp: assembly_wake_def Let_def timer_ok_def split: if_splits prod.splits)
  have "queue_ok conf (as_queue (pr_assembly p')) \<and> timer_ok p' \<and> (\<forall>f. fl = Some f \<longrightarrow> batch_ok conf f) \<and>
     work_msgs (flushed_works fl) + work_msgs (as_queue (pr_assembly p')) = work_msgs (as_queue (pr_assembly p)) + event_msgs ev \<and>
     (pr_done p' \<longleftrightarrow> ev = EvClosed) \<and> (ev = EvClosed \<or> ev = EvTimer \<longrightarrow> as_queue (pr_assembly p') = [])"
  proof (cases ?fl)
    case False
    then have "fl = None" "p' = p1" "\<not> full \<or> as_queue (pr_assembly p1) = []" using assms(1) w by (auto simp: assembly_step_def Let_def)
    moreover have "queue_ok conf (as_queue (pr_assembly p1))"
    proof (cases "as_queue (pr_assembly p1) = []")
      case True
      then show ?thesis by (simp add: queue_ok_def one_key_def)
    qed (use spec(2) \<open>\<not> full \<or> as_queue (pr_assembly p1) = []\<close> in blast)
    moreover have "timer_ok p1" using spec(6,7) idle False unfolding timer_ok_def by argo
    moreover have "as_queue (pr_assembly p1) = []" if "ev = EvClosed \<or> ev = EvTimer"
      using that False kind(2) spec(8) by blast
    ultimately show ?thesis
      using spec(1,8) by (simp add: flushed_works_def work_msgs_def)
  next
    case True
    obtain f a where s: "startFlush overflow i (pr_assembly p1) = (f, a)" by (cases "startFlush overflow i (pr_assembly p1)")
    then have fl: "fl = Some f" "pr_assembly p' = a" "pr_done p' = pr_done p1"
        "pr_timer p' = (if \<not> overflow \<and> \<not> pr_done p1 then DisposeTimer else if overflow then BatchTimer else NoTimer)"
        "pr_idle p' = (\<not> overflow \<and> \<not> pr_done p1 \<or> pr_idle p1)"
      using assms(1) w True by (simp_all add: assembly_step_def Let_def split: if_splits) auto
    have msgs: "work_msgs (as_queue (pr_assembly p1)) = work_msgs (fl_work f) + work_msgs (as_queue a)"
      using startFlush_msgs s True by blast
    have a: "as_queue a = (if overflow then [last (as_queue (pr_assembly p1))] else [])"
      using s by (auto simp: startFlush_def newAssembly_def split: if_splits)
    have "batch_ok conf f \<and> queue_ok conf (as_queue a)"
    proof (cases full)
      case full: True
      show ?thesis
      proof (cases overflow)
        case True
        with spec(3) [OF full True, of i] s show ?thesis by simp
      next
        case False
        with spec(4) [OF full False, of i] s a show ?thesis by (simp add: queue_ok_def one_key_def)
      qed
    next
      case False
      then have nf: "\<not> overflow" "queue_ok conf (as_queue (pr_assembly p1))" using spec(2,5) by auto
      have "fl_work f = as_queue (pr_assembly p1)" using s nf(1) by (auto simp: startFlush_def)
      moreover obtain x xs where "as_queue (pr_assembly p1) = x # xs" using True by (auto simp: neq_Nil_conv)
      ultimately show ?thesis using nf a by (auto simp: batch_ok_def queue_ok_def one_key_def)
    qed
    then show ?thesis
      using spec(1,5,6,8) kind(1) fl msgs a True by (auto simp: flushed_works_def timer_ok_def split: if_splits)
  qed
  then show "queue_ok conf (as_queue (pr_assembly p'))" "timer_ok p'" "\<And>f. fl = Some f \<Longrightarrow> batch_ok conf f"
    and "work_msgs (flushed_works fl) + work_msgs (as_queue (pr_assembly p')) =
      work_msgs (as_queue (pr_assembly p)) + event_msgs ev"
    and "pr_done p' \<longleftrightarrow> ev = EvClosed" "ev = EvClosed \<or> ev = EvTimer \<Longrightarrow> as_queue (pr_assembly p') = []"
    by blast+
qed

text \<open>The messages of the events the loop consumes: those before the channel is closed.\<close>

definition consumed_msgs :: "(uuid \<times> assembly_event) list \<Rightarrow> message multiset" where
  "consumed_msgs evs = sum_list (map (\<lambda>e. event_msgs (snd e)) (takeWhile (\<lambda>e. snd e \<noteq> EvClosed) evs))"

lemma assemblyLoop_spec:
  assumes "assemblyLoop conf evs p = (fls, p')" "queue_ok conf (as_queue (pr_assembly p))" "timer_ok p" "\<not> pr_done p"
  shows "queue_ok conf (as_queue (pr_assembly p')) \<and> timer_ok p' \<and> list_all (batch_ok conf) fls \<and>
    work_msgs (concat (map fl_work fls)) + work_msgs (as_queue (pr_assembly p')) =
      work_msgs (as_queue (pr_assembly p)) + consumed_msgs evs \<and>
    (pr_done p' \<longleftrightarrow> EvClosed \<in> snd ` set evs) \<and> (pr_done p' \<longrightarrow> as_queue (pr_assembly p') = [])"
  using assms
proof (induction evs arbitrary: p fls)
  case Nil
  then show ?case by (auto simp: consumed_msgs_def work_msgs_def)
next
  case (Cons e evs)
  obtain i ev where e: "e = (i, ev)" by (cases e)
  obtain fl p1 where s: "assembly_step conf i ev p = (fl, p1)" by (cases "assembly_step conf i ev p")
  obtain fls1 where l: "assemblyLoop conf evs p1 = (fls1, p')" "fls = (case fl of None \<Rightarrow> fls1 | Some f \<Rightarrow> f # fls1)"
    using Cons.prems(1,4) e s by (auto split: prod.splits)
  note st = assembly_step_spec [OF s Cons.prems(2-4)]
  have split: "work_msgs (concat (map fl_work fls)) = work_msgs (flushed_works fl) + work_msgs (concat (map fl_work fls1))"
    using l(2) by (auto simp: flushed_works_def work_msgs_def split: option.splits)
  show ?case
  proof (cases "ev = EvClosed")
    case True
    then have d: "pr_done p1" "as_queue (pr_assembly p1) = []" using st(5,6) by auto
    then have "fls1 = []" "p' = p1" using l(1) by (cases evs; auto)+
    then show ?thesis
      using st(1-4) d l(2) split True e
      by (auto simp: work_msgs_def consumed_msgs_def event_msgs_def split: option.splits)
  next
    case False
    then have nd: "\<not> pr_done p1" using st(5) by simp
    have c: "consumed_msgs (e # evs) = event_msgs ev + consumed_msgs evs" using False e by (simp add: consumed_msgs_def)
    show ?thesis
      using Cons.IH [OF l(1) st(1,2) nd] st(3,4) split c False e l(2)
      by (auto simp: ac_simps split: option.splits)
  qed
qed

section \<open>Properties of the assembly\<close>

lemma start_ok: "queue_ok conf (as_queue (pr_assembly (processor_start i)))" "timer_ok (processor_start i)"
    "\<not> pr_done (processor_start i)" "as_queue (pr_assembly (processor_start i)) = []"
  by (simp_all add: processor_start_def newAssembly_def queue_ok_def one_key_def timer_ok_def)

text \<open>C20: Every batch a processor flushes, whatever the order in which work, timer and close arrive, is not
  empty, holds its messages in the order of their database sequences, has one signing key, at most the
  configured number of messages (at least one), and exactly one message when the processor is for
  contract invocations with a pin.\<close>

theorem flushed_batches_ok:
  "list_all (\<lambda>fl. fl_work fl \<noteq> [] \<and> sorted (map work_seq (fl_work fl)) \<and> one_key (fl_work fl) \<and>
     1 \<le> length (fl_work fl) \<and> length (fl_work fl) \<le> (if batchOfOne conf then 1 else max 1 (bc_BatchMaxSize conf)))
   (fst (assemblyLoop conf evs (processor_start i)))"
proof -
  obtain fls p' where l: "assemblyLoop conf evs (processor_start i) = (fls, p')" by fastforce
  have "list_all (batch_ok conf) fls" using assemblyLoop_spec [OF l start_ok(1-3)] by blast
  then show ?thesis using l by (auto simp: list_all_iff batch_ok_def Suc_le_eq)
qed

text \<open>C21: No message is lost or put into two batches: the messages of the flushed batches together with
  those still in the queue are, as a multiset, the messages the loop was handed; once the channel is
  closed the queue is empty, so that each message handed over before is in exactly one batch.\<close>

theorem assembly_conserves_messages:
  "let (fls, p) = assemblyLoop conf evs (processor_start i) in
     mset (map bw_msg (concat (map fl_work fls))) + mset (map bw_msg (as_queue (pr_assembly p))) = consumed_msgs evs \<and>
     (EvClosed \<in> snd ` set evs \<longrightarrow> as_queue (pr_assembly p) = [])"
proof -
  obtain fls p' where l: "assemblyLoop conf evs (processor_start i) = (fls, p')" by fastforce
  then show ?thesis using assemblyLoop_spec [OF l start_ok(1-3)] start_ok(4) [of i]
    by (simp add: work_msgs_def)
qed

text \<open>C22: Work that waits in the queue is flushed: in every state the loop reaches, a queue with work has the
  batch timer running, and when the timer pops the whole queue becomes one batch.\<close>

theorem waiting_work_is_flushed:
  assumes "assemblyLoop conf evs (processor_start i) = (fls, p)" "as_queue (pr_assembly p) \<noteq> []"
  shows "pr_timer p = BatchTimer \<and>
    (\<exists>fl p'. assembly_step conf j EvTimer p = (Some fl, p') \<and> fl_work fl = as_queue (pr_assembly p) \<and>
       as_queue (pr_assembly p') = [] \<and> pr_timer p' = DisposeTimer)"
proof -
  from assemblyLoop_spec [OF assms(1) start_ok(1-3)] assms(2)
  have "timer_ok p" "\<not> pr_done p" by auto
  with assms(2) show ?thesis
    by (simp add: timer_ok_def assembly_step_def assembly_wake_def Let_def startFlush_def newAssembly_def)
qed

text \<open>The size of a batch by the estimates of the code.\<close>

definition batch_estimate :: "batch_work list \<Rightarrow> int" where
  "batch_estimate ws = batchSizeEstimateBase + sum_list (map (\<lambda>w. fst (estimateSize w)) ws)"

section \<open>Concrete assemblies\<close>

definition conf_b :: processor_conf where
  "conf_b = \<lparr> bc_BatchType = BT_Broadcast, bc_BatchMaxSize = 10, bc_BatchMaxBytes = 4000, bc_txType = TT_BatchPin,
     bc_author = ''did:firefly:org/a'', bc_group = None \<rparr>"

text \<open>Work with a sequence and a data item of the given size.\<close>

definition work_b :: "int \<Rightarrow> int \<Rightarrow> batch_work" where
  "work_b sq bytes = \<lparr> bw_msg = message0 \<lparr> m_Header := header0 \<lparr> mh_ID := Some (nat sq) \<rparr>, m_Sequence := sq \<rparr>,
     bw_data = [data0 \<lparr> d_ValueSize := bytes \<rparr>] \<rparr>"

lemma assembly_conserves_messages_witness:
  "as_queue (pr_assembly (snd (assemblyLoop conf_b [(1, EvWork (work_b 5 10)), (2, EvClosed)] (processor_start 0)))) = []"
  using assembly_conserves_messages [of conf_b "[(1, EvWork (work_b 5 10)), (2, EvClosed)]" 0]
  by (auto simp: case_prod_beta)

lemma waiting_work_is_flushed_witness:
  "\<exists>fl p'. assembly_step conf_b 2 EvTimer (snd (assemblyLoop conf_b [(1, EvWork (work_b 5 10))] (processor_start 0))) =
     (Some fl, p') \<and> map work_seq (fl_work fl) = [5]"
proof -
  let ?r = "assemblyLoop conf_b [(1, EvWork (work_b 5 10))] (processor_start 0)"
  have "?r = (fst ?r, snd ?r)" by simp
  moreover have "map work_seq (as_queue (pr_assembly (snd ?r))) = [5]" by code_simp
  moreover from this have "as_queue (pr_assembly (snd ?r)) \<noteq> []" by (metis list.simps(8) not_Cons_self2)
  ultimately show ?thesis using waiting_work_is_flushed [of conf_b _ 0 "fst ?r" "snd ?r" 2] by metis
qed

text \<open>The limit on the bytes of a batch is not kept. The work that overflows into the next assembly is not
  counted there: with a limit of 4000, work of 1780, 3280 and 1380 bytes leads to a second batch with the
  last two, counted as 1892 bytes, of 5172. And because new work is inserted by sequence while the overflow
  takes the last of the queue, a large message with an early sequence stays in a batch of 7073 bytes.\<close>

theorem batch_bytes_exceed_limit:
  "(let fls = fst (assemblyLoop conf_b [(1, EvWork (work_b 1 500)), (2, EvWork (work_b 2 2000)), (3, EvWork (work_b 3 100)),
        (4, EvTimer)] (processor_start 0))
    in map (\<lambda>fl. (length (fl_work fl), fl_byteSize fl, batch_estimate (fl_work fl))) fls = [(1, 5572, 2292), (2, 1892, 5172)]) \<and>
   (let fls = fst (assemblyLoop conf_b [(1, EvWork (work_b 5 0)), (2, EvWork (work_b 6 0)), (3, EvWork (work_b 4 4000))]
        (processor_start 0))
    in map (\<lambda>fl. (map work_seq (fl_work fl), batch_estimate (fl_work fl))) fls = [([4, 5], 7073)])"
  by code_simp

end
