(* ===== verification/Transactions.thy ===== *)
theory Transactions
  imports FF_Database
begin

text \<open>
  internal/txcommon/txcommon.go with the transactions table (transaction_sql.go): submission of
  new transactions with idempotency keys, one at a time and in batches, and the record of
  the blockchain transactions of a transaction. The cache of transactions holds pointers.
\<close>

section \<open>The transactions table\<close>

definition tx_same_key :: "transaction \<Rightarrow> transaction \<Rightarrow> bool" where
  "tx_same_key a b \<longleftrightarrow> t_IdempotencyKey a \<noteq> '''' \<and> t_Namespace a = t_Namespace b \<and> t_IdempotencyKey a = t_IdempotencyKey b"

text \<open>The unique indexes: the identifier, and the namespace with a key that is set (an empty one is stored as null).\<close>

definition tx_conflict :: "transaction \<Rightarrow> ffdb \<Rightarrow> bool" where
  "tx_conflict tx db \<longleftrightarrow> list_ex (\<lambda>r. t_ID r = t_ID tx \<or> tx_same_key tx r) (db_txs db)"

definition insert_tx_row :: "transaction \<Rightarrow> ffdb \<Rightarrow> ffdb" where
  "insert_tx_row tx db = db \<lparr> db_txs := db_txs db @ [tx] \<rparr>"

definition GetTransactions :: "env \<Rightarrow> string \<Rightarrow> (transaction \<Rightarrow> bool) \<Rightarrow> transaction list nact" where
  "GetTransactions E ns P = db_read E (\<lambda>db. filter (\<lambda>t. t_Namespace t = ns \<and> P t) (db_txs db))"

definition GetTransactionByID :: "env \<Rightarrow> string \<Rightarrow> uuid \<Rightarrow> transaction option nact" where
  "GetTransactionByID E ns i = db_read E (\<lambda>db. find (\<lambda>t. t_ID t = i \<and> t_Namespace t = ns) (db_txs db))"

definition UpdateTransaction_blockchainids :: "env \<Rightarrow> string \<Rightarrow> uuid \<Rightarrow> string list \<Rightarrow> unit nact" where
  "UpdateTransaction_blockchainids E ns i bids = db_write E (\<lambda>db. db \<lparr> db_txs :=
     map (\<lambda>t. if t_ID t = i \<and> t_Namespace t = ns then t \<lparr> t_BlockchainIDs := bids \<rparr> else t) (db_txs db) \<rparr>)"

text \<open>
  \<open>attemptInsertTxnWithIdempotencyCheck\<close>: the object it stamps, whether the error is one of
  idempotency, and the error. With a key the insert returns no row on a conflict; without
  one it returns an error.
\<close>

definition insert_failure :: "env \<Rightarrow> transaction \<Rightarrow> fferr + bool \<Rightarrow> (bool \<times> fferr) nact" where
  "insert_failure E tx r =
     (if t_IdempotencyKey tx \<noteq> '''' then
        bindM (attemptM (GetTransactions E (t_Namespace tx) (\<lambda>t. t_IdempotencyKey t = t_IdempotencyKey tx))) (\<lambda>ex.
          retM (case ex of
            Inr (t # _) \<Rightarrow> (True, IdempotencyErr (t_ID t))
          | _ \<Rightarrow> (False, case r of Inl err \<Rightarrow> err | Inr _ \<Rightarrow> I18n ''MsgNonIdempotencyKeyConflictTxInsert'')))
      else retM (False, case r of Inl err \<Rightarrow> err | Inr _ \<Rightarrow> I18n ''''))"

definition attemptInsertTxn :: "env \<Rightarrow> transaction \<Rightarrow> (transaction \<times> (bool \<times> fferr) option) nact" where
  "attemptInsertTxn E tx =
     bindM (nowM E) (\<lambda>now.
     let tx = tx \<lparr> t_Created := now \<rparr> in
     bindM (attemptM (db_op E (\<lambda>db.
       if \<not> tx_conflict tx db then Inr (True, insert_tx_row tx db)
       else if t_IdempotencyKey tx \<noteq> '''' then Inr (False, db) else Inl (I18n ''MsgDBInsertFailed'')))) (\<lambda>r.
     if r = Inr True then retM (tx, None)
     else bindM (insert_failure E tx r) (\<lambda>f. retM (tx, Some f))))"

definition InsertTransaction :: "env \<Rightarrow> transaction \<Rightarrow> transaction nact" where
  "InsertTransaction E tx = bindM (attemptInsertTxn E tx) (\<lambda>(tx, err).
     case err of None \<Rightarrow> retM tx | Some (_, e) \<Rightarrow> throwM e)"

text \<open>
  The multi-row insert leaves out the rows that conflict and then fails, so that the caller finds a
  mixed result; the fallback goes on after an idempotency error and returns the last one.
\<close>

fun insert_tx_rows :: "transaction list \<Rightarrow> ffdb \<Rightarrow> bool \<times> ffdb" where
  "insert_tx_rows [] db = (True, db)"
| "insert_tx_rows (tx # txs) db =
     (if tx_conflict tx db then (False, snd (insert_tx_rows txs db))
      else insert_tx_rows txs (insert_tx_row tx db))"

fun insert_txs_loop :: "env \<Rightarrow> fferr option \<Rightarrow> transaction list \<Rightarrow> (transaction list \<times> fferr option) nact" where
  "insert_txs_loop E idempotencyErr [] = retM ([], idempotencyErr)"
| "insert_txs_loop E idempotencyErr (tx # txs) = bindM (attemptInsertTxn E tx) (\<lambda>(tx, err).
     case err of
       Some (False, e) \<Rightarrow> retM (tx # txs, Some e)
     | _ \<Rightarrow> bindM (insert_txs_loop E (case err of None \<Rightarrow> idempotencyErr | Some (_, e) \<Rightarrow> Some e) txs) (\<lambda>(txs, err).
              retM (tx # txs, err)))"

definition stamp_tx :: "env \<Rightarrow> transaction \<Rightarrow> transaction nact" where
  "stamp_tx E tx = bindM (nowM E) (\<lambda>now. retM (tx \<lparr> t_Created := now \<rparr>))"

text \<open>The stamped objects, and the error.\<close>

definition InsertTransactions :: "env \<Rightarrow> bool \<Rightarrow> transaction list \<Rightarrow> (transaction list \<times> fferr option) nact" where
  "InsertTransactions E multiRow txs =
     (if multiRow
      then bindM (mapM (stamp_tx E) txs) (\<lambda>txs.
           bindM (attemptM (db_op E (\<lambda>db. Inr (insert_tx_rows txs db)))) (\<lambda>r.
           retM (txs, case r of Inr ok \<Rightarrow> if ok then None else Some (I18n ''MsgDBInsertFailed'') | Inl e \<Rightarrow> Some e)))
      else insert_txs_loop E None txs)"

section \<open>The cache\<close>

definition tx_alloc :: "transaction \<Rightarrow> nat nact" where
  "tx_alloc tx = (\<lambda>nd. (Inr (length (nd_txheap nd)), nd \<lparr> nd_txheap := nd_txheap nd @ [tx] \<rparr>))"

definition tx_deref :: "nat \<Rightarrow> transaction nact" where
  "tx_deref ptr = getsM (\<lambda>nd. nd_txheap nd ! ptr)"

definition tx_assign :: "nat \<Rightarrow> transaction \<Rightarrow> unit nact" where
  "tx_assign ptr tx = modifyM (\<lambda>nd. nd \<lparr> nd_txheap := (nd_txheap nd)[ptr := tx] \<rparr>)"

definition updateTransactionsCache :: "env \<Rightarrow> nat \<Rightarrow> unit nact" where
  "updateTransactionsCache E ptr = bindM (tx_deref ptr) (\<lambda>tx.
     modifyM (\<lambda>nd. nd \<lparr> nd_txcache := assoc_put (e_uuid_str E (t_ID tx)) ptr (nd_txcache nd) \<rparr>))"

definition GetTransactionByIDCached :: "env \<Rightarrow> string \<Rightarrow> uuid \<Rightarrow> nat option nact" where
  "GetTransactionByIDCached E ns i =
     bindM (getsM (\<lambda>nd. map_of (nd_txcache nd) (e_uuid_str E i))) (\<lambda>c.
     case c of
       Some ptr \<Rightarrow> retM (Some ptr)
     | None \<Rightarrow> bindM (GetTransactionByID E ns i) (\<lambda>tx.
         case tx of
           None \<Rightarrow> retM None
         | Some tx \<Rightarrow> bindM (tx_alloc tx) (\<lambda>ptr. bindM (updateTransactionsCache E ptr) (\<lambda>_. retM (Some ptr)))))"

section \<open>Submission\<close>

definition NewTransaction :: "uuid \<Rightarrow> string \<Rightarrow> tx_type \<Rightarrow> string \<Rightarrow> transaction" where
  "NewTransaction i ns ty key = \<lparr> t_ID = i, t_Namespace = ns, t_Type = ty, t_Created = 0,
     t_IdempotencyKey = key, t_BlockchainIDs = [] \<rparr>"

definition insert_submitted_event :: "env \<Rightarrow> transaction \<Rightarrow> unit nact" where
  "insert_submitted_event E tx =
     bindM (newUUID E) (\<lambda>evid. bindM (nowM E) (\<lambda>now.
     InsertEvent E (NewEvent evid now ET_TransactionSubmitted (t_Namespace tx) (Some (t_ID tx)) (Some (t_ID tx))
       (txtype_str (t_Type tx)))))"

definition cache_transaction :: "env \<Rightarrow> transaction \<Rightarrow> unit nact" where
  "cache_transaction E tx = bindM (tx_alloc tx) (updateTransactionsCache E)"

definition SubmitNewTransaction :: "env \<Rightarrow> string \<Rightarrow> tx_type \<Rightarrow> string \<Rightarrow> uuid nact" where
  "SubmitNewTransaction E ns txType idempotencyKey =
     bindM (newUUID E) (\<lambda>i.
     bindM (InsertTransaction E (NewTransaction i ns txType idempotencyKey)) (\<lambda>tx.
     bindM (insert_submitted_event E tx) (\<lambda>_.
     bindM (cache_transaction E tx) (\<lambda>_. retM (t_ID tx)))))"

text \<open>An entry of a batch: its transaction and the transaction its key belongs to, when that is another one.\<close>

record batched_insert =
  bi_Transaction :: transaction
  bi_IdempotencyError :: "uuid option"

text \<open>The check for keys that occur twice in the batch; the map takes a key to the first transaction with it.\<close>

fun precheck :: "(string \<times> uuid) list \<Rightarrow> transaction list \<Rightarrow> batched_insert list" where
  "precheck seen [] = []"
| "precheck seen (tx # txs) =
     (if t_IdempotencyKey tx = '''' then \<lparr> bi_Transaction = tx, bi_IdempotencyError = None \<rparr> # precheck seen txs
      else case map_of seen (t_IdempotencyKey tx) of
        Some existing \<Rightarrow> \<lparr> bi_Transaction = tx, bi_IdempotencyError = Some existing \<rparr> # precheck seen txs
      | None \<Rightarrow> \<lparr> bi_Transaction = tx, bi_IdempotencyError = None \<rparr>
                 # precheck ((t_IdempotencyKey tx, t_ID tx) # seen) txs)"

definition plain_inserts :: "batched_insert list \<Rightarrow> transaction list" where
  "plain_inserts bs = filter (\<lambda>t. t_IdempotencyKey t = '''') (map bi_Transaction bs)"

definition idempotent_inserts :: "batched_insert list \<Rightarrow> transaction list" where
  "idempotent_inserts bs = map bi_Transaction (filter (\<lambda>b. t_IdempotencyKey (bi_Transaction b) \<noteq> '''' \<and>
     bi_IdempotencyError b = None) bs)"

text \<open>The resolution of a failed or mixed insert: every key must be found, other identifiers are clashes.\<close>

definition resolve_clashes :: "transaction list \<Rightarrow> batched_insert list \<Rightarrow> batched_insert list" where
  "resolve_clashes resolved bs = map (\<lambda>b.
     if t_IdempotencyKey (bi_Transaction b) = '''' \<or> bi_IdempotencyError b \<noteq> None then b
     else case find (\<lambda>r. t_IdempotencyKey r = t_IdempotencyKey (bi_Transaction b)) resolved of
       Some r \<Rightarrow> if t_ID r \<noteq> t_ID (bi_Transaction b) then b \<lparr> bi_IdempotencyError := Some (t_ID r) \<rparr> else b
     | None \<Rightarrow> b) bs"

fun insert_batch_events :: "env \<Rightarrow> batched_insert list \<Rightarrow> unit nact" where
  "insert_batch_events E [] = retM ()"
| "insert_batch_events E (b # bs) =
     (if bi_IdempotencyError b = None
      then bindM (insert_submitted_event E (bi_Transaction b)) (\<lambda>_.
           bindM (cache_transaction E (bi_Transaction b)) (\<lambda>_. insert_batch_events E bs))
      else insert_batch_events E bs)"

definition restamp :: "transaction list \<Rightarrow> batched_insert list \<Rightarrow> batched_insert list" where
  "restamp txs bs = map (\<lambda>b. case find (\<lambda>t. t_ID t = t_ID (bi_Transaction b)) txs of
     None \<Rightarrow> b | Some t \<Rightarrow> b \<lparr> bi_Transaction := (bi_Transaction b) \<lparr> t_Created := t_Created t \<rparr> \<rparr>) bs"

definition insert_plain :: "env \<Rightarrow> bool \<Rightarrow> batched_insert list \<Rightarrow> batched_insert list nact" where
  "insert_plain E multiRow batch =
     (let plain = plain_inserts batch in
      if plain = [] then retM batch
      else bindM (InsertTransactions E multiRow plain) (\<lambda>(txs, err).
           case err of None \<Rightarrow> retM (restamp txs batch) | Some e \<Rightarrow> throwM e))"

definition insert_idempotent :: "env \<Rightarrow> bool \<Rightarrow> string \<Rightarrow> batched_insert list \<Rightarrow> batched_insert list nact" where
  "insert_idempotent E multiRow ns batch =
     (let idem = idempotent_inserts batch in
      if idem = [] then retM batch
      else bindM (InsertTransactions E multiRow idem) (\<lambda>(txs, err).
           case err of
             None \<Rightarrow> retM (restamp txs batch)
           | Some insertErr \<Rightarrow>
               bindM (attemptM (GetTransactions E ns (\<lambda>t. t_IdempotencyKey t \<in> set (map t_IdempotencyKey idem)))) (\<lambda>q.
                 case q of
                   Inl _ \<Rightarrow> throwM insertErr
                 | Inr resolved \<Rightarrow>
                     if length resolved \<noteq> length idem then throwM insertErr
                     else retM (resolve_clashes resolved (restamp txs batch)))))"

definition new_transactions :: "env \<Rightarrow> string \<Rightarrow> (tx_type \<times> string) list \<Rightarrow> transaction list nact" where
  "new_transactions E ns inputs =
     mapM (\<lambda>(ty, key). bindM (newUUID E) (\<lambda>i. retM (NewTransaction i ns ty key))) inputs"

definition SubmitNewTransactionBatch :: "env \<Rightarrow> bool \<Rightarrow> string \<Rightarrow> (tx_type \<times> string) list \<Rightarrow> batched_insert list nact" where
  "SubmitNewTransactionBatch E multiRow ns inputs =
     bindM (new_transactions E ns inputs) (\<lambda>txs.
     bindM (insert_plain E multiRow (precheck [] txs)) (\<lambda>batch.
     bindM (insert_idempotent E multiRow ns batch) (\<lambda>batch.
     bindM (insert_batch_events E batch) (\<lambda>_. retM batch))))"

section \<open>Blockchain transactions\<close>

definition AddBlockchainTX :: "env \<Rightarrow> string \<Rightarrow> nat \<Rightarrow> string \<Rightarrow> unit nact" where
  "AddBlockchainTX E ns ptr blockchainTXID =
     bindM (tx_deref ptr) (\<lambda>tx.
     case e_sorted_add E (t_BlockchainIDs tx) blockchainTXID of (bids, changed) \<Rightarrow>
     bindM (tx_assign ptr (tx \<lparr> t_BlockchainIDs := bids \<rparr>)) (\<lambda>_.
     if \<not> changed then retM ()
     else bindM (UpdateTransaction_blockchainids E ns (t_ID tx) bids) (\<lambda>_. updateTransactionsCache E ptr)))"

definition PersistTransaction :: "env \<Rightarrow> string \<Rightarrow> uuid \<Rightarrow> tx_type \<Rightarrow> string \<Rightarrow> bool nact" where
  "PersistTransaction E ns i txType blockchainTXID =
     bindM (GetTransactionByIDCached E ns i) (\<lambda>found.
     case found of
       Some ptr \<Rightarrow>
         bindM (tx_deref ptr) (\<lambda>tx.
         if t_Type tx \<noteq> txType then retM False
         else case e_sorted_add E (t_BlockchainIDs tx) blockchainTXID of (bids, changed) \<Rightarrow>
           bindM (tx_assign ptr (tx \<lparr> t_BlockchainIDs := bids \<rparr>)) (\<lambda>_.
           if \<not> changed then retM True
           else bindM (UpdateTransaction_blockchainids E ns (t_ID tx) bids) (\<lambda>_.
                bindM (updateTransactionsCache E ptr) (\<lambda>_. retM True))))
     | None \<Rightarrow>
         bindM (InsertTransaction E ((NewTransaction i ns txType '''')
           \<lparr> t_BlockchainIDs := e_string_array E (to_lower blockchainTXID) \<rparr>)) (\<lambda>tx.
         bindM (cache_transaction E tx) (\<lambda>_. retM True)))"

section \<open>What submission keeps\<close>

lemma stable_db_op:
  assumes "\<And>db x db'. I db \<Longrightarrow> g db = Inr (x, db') \<Longrightarrow> I db'"
  shows "stable (\<lambda>nd. I (nd_db nd)) (db_op E g)"
  by (rule stableI) (auto simp: db_op_def Let_def split: sum.splits dest: assms)

lemma stable_db_read [stable_intros]: "stable (\<lambda>nd. I (nd_db nd)) (db_read E g)"
  unfolding db_read_def by (rule stable_db_op) auto

lemma stable_db_write: "(\<And>db. I db \<Longrightarrow> I (g db)) \<Longrightarrow> stable (\<lambda>nd. I (nd_db nd)) (db_write E g)"
  unfolding db_write_def by (rule stable_db_op) auto

lemma stable_draw [stable_intros]:
  "stable (\<lambda>nd. I (nd_db nd)) (newUUID E)" "stable (\<lambda>nd. I (nd_db nd)) (nowM E)"
  by (simp_all add: stable_def newUUID_def nowM_def)

lemma stable_tx_heap [stable_intros]:
  "stable (\<lambda>nd. I (nd_db nd)) (tx_alloc tx)" "stable (\<lambda>nd. I (nd_db nd)) (tx_deref ptr)"
  "stable (\<lambda>nd. I (nd_db nd)) (tx_assign ptr tx)" "stable (\<lambda>nd. I (nd_db nd)) (updateTransactionsCache E ptr)"
  "stable (\<lambda>nd. I (nd_db nd)) (cache_transaction E tx)"
  unfolding cache_transaction_def updateTransactionsCache_def
  by (intro stable_intros stable_modify | simp add: stable_def tx_alloc_def tx_deref_def tx_assign_def monad_defs)+

text \<open>
  A predicate on the rows that an insert accepted by the unique indexes leaves true: every
  submission leaves it true, whatever fails.
\<close>

locale tx_invariant =
  fixes I :: "transaction list \<Rightarrow> bool"
  assumes insert_ok: "I (db_txs db) \<Longrightarrow> \<not> tx_conflict tx db \<Longrightarrow> I (db_txs db @ [tx])"
begin

lemma insert_row: "I (db_txs db) \<Longrightarrow> \<not> tx_conflict tx db \<Longrightarrow> I (db_txs (insert_tx_row tx db))"
  using insert_ok by (simp add: insert_tx_row_def)

lemma insert_rows: "insert_tx_rows txs db = (ok, db') \<Longrightarrow> I (db_txs db) \<Longrightarrow> I (db_txs db')"
proof (induction txs arbitrary: ok db)
  case (Cons tx txs)
  show ?case
  proof (cases "tx_conflict tx db")
    case True
    then show ?thesis using Cons.prems Cons.IH [of db "fst (insert_tx_rows txs db)"] by (auto simp: prod_eq_iff)
  next
    case False
    then show ?thesis using Cons.prems Cons.IH [of "insert_tx_row tx db" ok] insert_row by simp
  qed
qed simp

lemma attempt [stable_intros]: "stable (\<lambda>nd. I (db_txs (nd_db nd))) (attemptInsertTxn E tx)"
  unfolding attemptInsertTxn_def insert_failure_def GetTransactions_def
  by (intro stable_intros stable_db_op) (auto split: if_splits intro: insert_row)

lemma insert_loop [stable_intros]: "stable (\<lambda>nd. I (db_txs (nd_db nd))) (insert_txs_loop E err txs)"
proof (induction txs arbitrary: err)
  case (Cons tx txs)
  show ?case unfolding insert_txs_loop.simps by (intro stable_intros Cons.IH)
qed (simp add: stable_ret)

lemma insert_many [stable_intros]: "stable (\<lambda>nd. I (db_txs (nd_db nd))) (InsertTransactions E multi txs)"
  unfolding InsertTransactions_def stamp_tx_def
  by (intro stable_intros stable_db_op) (auto dest: insert_rows)

lemma insert_one [stable_intros]: "stable (\<lambda>nd. I (db_txs (nd_db nd))) (InsertTransaction E tx)"
  unfolding InsertTransaction_def by (intro stable_intros)

lemma submitted_event [stable_intros]: "stable (\<lambda>nd. I (db_txs (nd_db nd))) (insert_submitted_event E tx)"
  unfolding insert_submitted_event_def InsertEvent_def by (intro stable_intros stable_db_write) (simp add: insert_event_row_def)

lemma batch_events [stable_intros]: "stable (\<lambda>nd. I (db_txs (nd_db nd))) (insert_batch_events E bs)"
proof (induction bs)
  case (Cons b bs)
  show ?case unfolding insert_batch_events.simps by (intro stable_intros Cons.IH)
qed (simp add: stable_ret)

lemma idempotent_batch [stable_intros]: "stable (\<lambda>nd. I (db_txs (nd_db nd))) (insert_idempotent E multi ns bs)"
  unfolding insert_idempotent_def GetTransactions_def by (intro stable_intros)

lemma submit_one: "stable (\<lambda>nd. I (db_txs (nd_db nd))) (SubmitNewTransaction E ns ty key)"
  unfolding SubmitNewTransaction_def by (intro stable_intros)

lemma submit_batch: "stable (\<lambda>nd. I (db_txs (nd_db nd))) (SubmitNewTransactionBatch E multi ns inputs)"
  unfolding SubmitNewTransactionBatch_def new_transactions_def insert_plain_def
  by (intro stable_intros)

end

definition row_key :: "transaction \<Rightarrow> string \<times> string" where
  "row_key t = (t_Namespace t, t_IdempotencyKey t)"

definition keys_unique :: "transaction list \<Rightarrow> bool" where
  "keys_unique rows \<longleftrightarrow> distinct (map row_key (filter (\<lambda>t. t_IdempotencyKey t \<noteq> '''') rows))"

interpretation keys: tx_invariant keys_unique
  by unfold_locales (auto simp: keys_unique_def tx_conflict_def tx_same_key_def row_key_def list_ex_iff)

interpretation rows: tx_invariant "\<lambda>rows. R \<subseteq> set rows" for R
  by unfold_locales auto

lemma keys_unique_map: "(\<And>t. row_key (f t) = row_key t) \<Longrightarrow> keys_unique (map f rows) = keys_unique rows"
proof -
  assume k: "\<And>t. row_key (f t) = row_key t"
  then have "t_IdempotencyKey (f t) = t_IdempotencyKey t" for t by (simp add: row_key_def)
  then show ?thesis using k by (simp add: keys_unique_def filter_map o_def)
qed

lemma stable_UpdateTransaction [stable_intros]:
  "stable (\<lambda>nd. keys_unique (db_txs (nd_db nd))) (UpdateTransaction_blockchainids E ns i bids)"
  unfolding UpdateTransaction_blockchainids_def
  by (intro stable_db_write) (simp add: keys_unique_map row_key_def)


section \<open>Every key finds its transaction\<close>

definition same_tx :: "transaction \<Rightarrow> transaction \<Rightarrow> bool" where
  "same_tx a b \<longleftrightarrow> t_ID a = t_ID b \<and> row_key a = row_key b"

definition has_row :: "transaction list \<Rightarrow> transaction \<Rightarrow> bool" where
  "has_row rows t \<longleftrightarrow> list_ex (same_tx t) rows"

lemma has_row_mono: "has_row rows t \<Longrightarrow> set rows \<subseteq> set rows' \<Longrightarrow> has_row rows' t"
  by (auto simp: has_row_def list_ex_iff)

lemma same_tx_trans: "same_tx a b \<Longrightarrow> has_row rows b \<Longrightarrow> has_row rows a"
  by (auto simp: has_row_def list_ex_iff same_tx_def)

lemma rows_grow: "stable (\<lambda>nd. set R \<subseteq> set (db_txs (nd_db nd))) m \<Longrightarrow> db_txs (nd_db nd) = R \<Longrightarrow> m nd = (r, nd') \<Longrightarrow>
    set R \<subseteq> set (db_txs (nd_db nd'))"
  by (metis stableD subset_refl)

lemma attemptInsertTxn_None:
  assumes "attemptInsertTxn E tx nd = (Inr (tx', None), nd')"
  shows "same_tx tx tx' \<and> has_row (db_txs (nd_db nd')) tx"
  using assms
  by (auto simp: attemptInsertTxn_def bindM_eq_Inr Let_def attemptM_eq db_op_Inr insert_tx_row_def same_tx_def
      row_key_def has_row_def list_ex_iff split: if_splits)

lemma insert_txs_loop_None:
  "insert_txs_loop E err txs nd = (Inr (txs', None), nd') \<Longrightarrow> err = None \<and> list_all (has_row (db_txs (nd_db nd'))) txs"
proof (induction txs arbitrary: err nd txs')
  case (Cons tx txs)
  then obtain tx1 e1 nd1 where a: "attemptInsertTxn E tx nd = (Inr (tx1, e1), nd1)"
    by (auto simp: bindM_eq_Inr)
  obtain txs1 where r: "insert_txs_loop E (case e1 of None \<Rightarrow> err | Some (_, e) \<Rightarrow> Some e) txs nd1 = (Inr (txs1, None), nd')"
    using Cons.prems a by (auto simp: bindM_eq_Inr split: option.splits bool.splits)
  note ih = Cons.IH [OF r]
  then have e: "e1 = None" "err = None" by (auto split: option.splits)
  have "has_row (db_txs (nd_db nd1)) tx" using attemptInsertTxn_None a e by blast
  then have "has_row (db_txs (nd_db nd')) tx"
    using rows_grow [OF rows.insert_loop refl r] has_row_mono by blast
  then show ?case using ih e by simp
qed simp

lemma insert_tx_rows_True: "insert_tx_rows txs db = (True, db') \<Longrightarrow> list_all (has_row (db_txs db')) txs"
proof (induction txs arbitrary: db)
  case (Cons tx txs)
  then have r: "insert_tx_rows txs (insert_tx_row tx db) = (True, db')" by (auto split: if_splits)
  have "set (db_txs (insert_tx_row tx db)) \<subseteq> set (db_txs db')" using rows.insert_rows [OF r] by blast
  moreover have "has_row (db_txs (insert_tx_row tx db)) tx" by (simp add: has_row_def insert_tx_row_def same_tx_def)
  ultimately show ?case using Cons.IH [OF r] has_row_mono by auto
qed simp

lemma mapM_rel:
  assumes "\<And>x s y s'. f x s = (Inr y, s') \<Longrightarrow> P x y" "mapM f xs s = (Inr ys, s')"
  shows "list_all2 P xs ys"
  using assms(2)
proof (induction xs arbitrary: s ys)
  case (Cons x xs)
  then obtain y s1 ys1 where "f x s = (Inr y, s1)" "mapM f xs s1 = (Inr ys1, s')" "ys = y # ys1"
    by (auto simp: bindM_eq_Inr)
  then show ?case using Cons.IH assms(1) by blast
qed simp

lemma InsertTransactions_None:
  assumes "InsertTransactions E multi txs nd = (Inr (txs', None), nd')"
  shows "list_all (has_row (db_txs (nd_db nd'))) txs"
proof (cases multi)
  case True
  obtain ts nd1 where m: "mapM (stamp_tx E) txs nd = (Inr ts, nd1)" and
    i: "bindM (attemptM (db_op E (\<lambda>db. Inr (insert_tx_rows ts db)))) (\<lambda>r.
       retM (ts, case r of Inr ok \<Rightarrow> if ok then None else Some (I18n ''MsgDBInsertFailed'') | Inl e \<Rightarrow> Some e)) nd1 = (Inr (txs', None), nd')"
    using assms True by (auto simp: InsertTransactions_def bindM_eq_Inr)
  have "list_all2 same_tx txs ts"
    by (rule mapM_rel [OF _ m]) (auto simp: stamp_tx_def bindM_eq_Inr same_tx_def row_key_def)
  moreover have "list_all (has_row (db_txs (nd_db nd'))) ts"
  proof -
    obtain q where q: "db_op E (\<lambda>db. Inr (insert_tx_rows ts db)) nd1 = (q, nd')"
        "(case q of Inr ok \<Rightarrow> if ok then None else Some (I18n ''MsgDBInsertFailed'') | Inl e \<Rightarrow> Some e) = None"
      using i by (auto simp: bindM_eq_Inr attemptM_eq)
    then have "q = Inr True" by (cases q) (auto split: if_splits)
    with q(1) obtain db where "insert_tx_rows ts (nd_db nd1) = (True, db)" "nd_db nd' = db"
      by (auto simp: db_op_Inr)
    then show ?thesis using insert_tx_rows_True by blast
  qed
  ultimately show ?thesis
    unfolding list_all_length list_all2_conv_all_nth using same_tx_trans by metis
next
  case False
  then show ?thesis using assms insert_txs_loop_None by (auto simp: InsertTransactions_def)
qed

text \<open>The transaction an entry reports to its caller, and how an entry may change.\<close>

definition reported :: "batched_insert \<Rightarrow> uuid" where
  "reported b = (case bi_IdempotencyError b of None \<Rightarrow> t_ID (bi_Transaction b) | Some i \<Rightarrow> i)"

definition open_entry :: "batched_insert \<Rightarrow> bool" where
  "open_entry b \<longleftrightarrow> t_IdempotencyKey (bi_Transaction b) \<noteq> '''' \<and> bi_IdempotencyError b = None"

definition entry_in :: "transaction list \<Rightarrow> batched_insert \<Rightarrow> batched_insert \<Rightarrow> bool" where
  "entry_in rws b b' \<longleftrightarrow> same_tx (bi_Transaction b) (bi_Transaction b') \<and>
     (open_entry b \<longrightarrow> list_ex (\<lambda>r. row_key r = row_key (bi_Transaction b) \<and> t_ID r = reported b') rws)"

lemma restamp_same: "list_all2 (\<lambda>b b'. same_tx (bi_Transaction b) (bi_Transaction b') \<and>
    bi_IdempotencyError b' = bi_IdempotencyError b) bs (restamp txs bs)"
  by (auto simp: restamp_def list_all2_conv_all_nth same_tx_def row_key_def split: option.splits)

lemma precheck_map: "map bi_Transaction (precheck seen txs) = txs"
  by (induction seen txs rule: precheck.induct) (auto split: option.splits)

lemma idempotent_Cons: "idempotent_inserts (b # bs) = (if open_entry b then [bi_Transaction b] else []) @ idempotent_inserts bs"
  by (simp add: idempotent_inserts_def open_entry_def)

lemma precheck_keys: "distinct (map t_IdempotencyKey (idempotent_inserts (precheck seen txs))) \<and>
    (\<forall>t \<in> set (idempotent_inserts (precheck seen txs)). t_IdempotencyKey t \<notin> fst ` set seen)"
proof (induction seen txs rule: precheck.induct)
  case (2 seen tx txs)
  show ?case
  proof (cases "t_IdempotencyKey tx = ''''")
    case True
    then show ?thesis using 2(1) by (simp add: idempotent_Cons open_entry_def)
  next
    case key: False
    show ?thesis
    proof (cases "map_of seen (t_IdempotencyKey tx)")
      case None
      then have "t_IdempotencyKey tx \<notin> fst ` set seen" by (simp add: map_of_eq_None_iff)
      then show ?thesis using 2(2) [OF key None] key None by (auto simp: idempotent_Cons open_entry_def)
    next
      case (Some i)
      then show ?thesis using 2(3) [OF key Some] key Some by (simp add: idempotent_Cons open_entry_def)
    qed
  qed
qed (simp add: idempotent_inserts_def)

lemma precheck_first:
  assumes "i < length txs" "t_IdempotencyKey (txs ! i) \<noteq> ''''" "t_IdempotencyKey (txs ! i) \<notin> set (map t_IdempotencyKey (take i txs))"
    "t_IdempotencyKey (txs ! i) \<notin> fst ` set seen"
  shows "open_entry (precheck seen txs ! i)"
  using assms
proof (induction seen txs arbitrary: i rule: precheck.induct)
  case (2 seen tx txs)
  show ?case
  proof (cases i)
    case 0
    then have "map_of seen (t_IdempotencyKey tx) = None" using 2(7) by (simp add: map_of_eq_None_iff)
    then show ?thesis using 2(5) 0 by (simp add: open_entry_def)
  next
    case (Suc j)
    then show ?thesis using 2 by (auto split: option.splits)
  qed
qed simp

text \<open>As many rows as keys, the keys distinct and each on one row at most: every key has its row.\<close>

lemma resolved_all:
  assumes "keys_unique rws" "distinct ks" "'''' \<notin> set ks"
    "resolved = filter (\<lambda>t. t_Namespace t = ns \<and> t_IdempotencyKey t \<in> set ks) rws" "length resolved = length ks" "k \<in> set ks"
  shows "\<exists>r \<in> set resolved. t_IdempotencyKey r = k"
proof -
  have f: "resolved = filter (\<lambda>t. t_Namespace t = ns \<and> t_IdempotencyKey t \<in> set ks)
      (filter (\<lambda>t. t_IdempotencyKey t \<noteq> '''') rws)"
    unfolding assms(4) filter_filter using assms(3) by (intro filter_cong) auto
  have "distinct (map row_key resolved)"
    unfolding f by (rule distinct_map_filter) (use assms(1) in \<open>simp add: keys_unique_def\<close>)
  moreover have "inj_on snd (row_key ` set resolved)" using assms(4) by (auto simp: inj_on_def row_key_def)
  ultimately have "distinct (map snd (map row_key resolved))" by (simp only: distinct_map set_map)
  then have d: "distinct (map t_IdempotencyKey resolved)" by (simp add: o_def row_key_def)
  have "set (map t_IdempotencyKey resolved) \<subseteq> set ks" using assms(4) by auto
  moreover have "card (set (map t_IdempotencyKey resolved)) = card (set ks)"
    using distinct_card [OF d] distinct_card [OF assms(2)] assms(5) by simp
  ultimately have "set (map t_IdempotencyKey resolved) = set ks" by (intro card_subset_eq) auto
  then show ?thesis using assms(6) by (metis (no_types, lifting) imageE set_map)
qed

lemma insert_idempotent_entries:
  assumes "insert_idempotent E multi ns bs nd = (Inr bs', nd')" "keys_unique (db_txs (nd_db nd))"
    "distinct (map t_IdempotencyKey (idempotent_inserts bs))"
    "\<And>b. b \<in> set bs \<Longrightarrow> t_Namespace (bi_Transaction b) = ns"
  shows "list_all2 (entry_in (db_txs (nd_db nd'))) bs bs'"
proof (cases "idempotent_inserts bs = []")
  case True
  then have "b \<in> set bs \<Longrightarrow> \<not> open_entry b" for b
    by (auto simp: idempotent_inserts_def open_entry_def filter_empty_conv)
  moreover have "bs' = bs" using assms(1) True by (simp add: insert_idempotent_def)
  ultimately show ?thesis by (auto simp: list_all2_same entry_in_def same_tx_def)
next
  case False
  let ?idem = "idempotent_inserts bs"
  obtain txs err nd1 where ins: "InsertTransactions E multi ?idem nd = (Inr (txs, err), nd1)"
    and rest: "(case err of None \<Rightarrow> retM (restamp txs bs)
        | Some insertErr \<Rightarrow> bindM (attemptM (GetTransactions E ns (\<lambda>t. t_IdempotencyKey t \<in> set (map t_IdempotencyKey ?idem)))) (\<lambda>q.
            case q of Inl _ \<Rightarrow> throwM insertErr
            | Inr resolved \<Rightarrow> if length resolved \<noteq> length ?idem then throwM insertErr
                else retM (resolve_clashes resolved (restamp txs bs)))) nd1 = (Inr bs', nd')"
    using assms(1) False by (auto simp: insert_idempotent_def bindM_eq_Inr Let_def simp del: set_map)
  have open_in: "bi_Transaction (bs ! i) \<in> set ?idem" if "i < length bs" "open_entry (bs ! i)" for i
    using that by (auto simp: idempotent_inserts_def open_entry_def intro: nth_mem)
  note re = restamp_same [of bs txs, unfolded list_all2_conv_all_nth]
  show ?thesis
  proof (cases err)
    case None
    then have bs': "bs' = restamp txs bs" and nd': "nd' = nd1" using rest by auto
    have rws: "list_all (has_row (db_txs (nd_db nd'))) ?idem" using InsertTransactions_None ins None nd' by blast
    show ?thesis unfolding list_all2_conv_all_nth bs'
    proof (intro conjI allI impI)
      fix i assume i: "i < length bs"
      show "entry_in (db_txs (nd_db nd')) (bs ! i) (restamp txs bs ! i)"
        using re i open_in [OF i] rws
        by (fastforce simp: entry_in_def list_all_iff has_row_def list_ex_iff reported_def open_entry_def same_tx_def)
    qed (use re in simp)
  next
    case (Some e)
    obtain resolved where q: "resolved = filter (\<lambda>t. t_Namespace t = ns \<and> t_IdempotencyKey t \<in> set (map t_IdempotencyKey ?idem)) (db_txs (nd_db nd1))"
      "length resolved = length ?idem" "bs' = resolve_clashes resolved (restamp txs bs)" "nd_db nd' = nd_db nd1"
    proof -
      let ?get = "GetTransactions E ns (\<lambda>t. t_IdempotencyKey t \<in> set (map t_IdempotencyKey ?idem))"
      obtain q nd2 where "?get nd1 = (q, nd2)"
          "(case q of Inl _ \<Rightarrow> throwM e | Inr resolved \<Rightarrow> if length resolved \<noteq> length ?idem then throwM e
             else retM (resolve_clashes resolved (restamp txs bs))) nd2 = (Inr bs', nd')"
        using rest Some by (auto simp: bindM_eq_Inr attemptM_eq simp del: set_map)
      then show thesis using that
        by (cases q) (auto simp: GetTransactions_def db_read_Inr simp del: set_map split: if_splits)
    qed
    have ku: "keys_unique (db_txs (nd_db nd1))" using stableD [OF keys.insert_many ins] assms(2) by simp
    have ne: "'''' \<notin> set (map t_IdempotencyKey ?idem)" by (auto simp: idempotent_inserts_def)
    note all = resolved_all [OF ku assms(3) ne q(1), unfolded length_map, OF q(2)]
    show ?thesis unfolding list_all2_conv_all_nth
    proof (intro conjI allI impI)
      fix i assume i: "i < length bs"
      let ?b = "restamp txs bs ! i"
      have b: "same_tx (bi_Transaction (bs ! i)) (bi_Transaction ?b)" "bi_IdempotencyError ?b = bi_IdempotencyError (bs ! i)"
          "length (restamp txs bs) = length bs"
        using re i by auto
      show "entry_in (db_txs (nd_db nd')) (bs ! i) (bs' ! i)"
      proof (cases "open_entry (bs ! i)")
        case False
        then have "bs' ! i = ?b" using b i q(3) by (auto simp: resolve_clashes_def open_entry_def same_tx_def row_key_def)
        then show ?thesis using b False by (simp add: entry_in_def)
      next
        case True
        let ?k = "t_IdempotencyKey (bi_Transaction (bs ! i))"
        have "?k \<in> set (map t_IdempotencyKey ?idem)" using open_in [OF i True] by simp
        from all [OF this] have "\<exists>r. find (\<lambda>r. t_IdempotencyKey r = ?k) resolved = Some r"
          by (metis (mono_tags, lifting) find_None_iff option.exhaust)
        then obtain r where r: "find (\<lambda>r. t_IdempotencyKey r = ?k) resolved = Some r" by blast
        from find_Some_in [OF this] q(1,4) have rin: "r \<in> set (db_txs (nd_db nd'))" "t_Namespace r = ns" "t_IdempotencyKey r = ?k" by auto
        have "bs' ! i = (if t_ID r \<noteq> t_ID (bi_Transaction ?b) then ?b \<lparr> bi_IdempotencyError := Some (t_ID r) \<rparr> else ?b)"
          using b i q(3) r True by (auto simp: resolve_clashes_def open_entry_def same_tx_def row_key_def)
        then show ?thesis using b rin True assms(4) [OF nth_mem [OF i]]
          by (auto simp: entry_in_def reported_def list_ex_iff row_key_def open_entry_def same_tx_def split: if_splits)
      qed
    qed (simp add: q(3) resolve_clashes_def restamp_def)
  qed
qed

lemma insert_plain_entries:
  assumes "insert_plain E multi bs nd = (Inr bs', nd')"
  shows "list_all2 (\<lambda>b b'. same_tx (bi_Transaction b) (bi_Transaction b') \<and> bi_IdempotencyError b' = bi_IdempotencyError b) bs bs'"
  using assms restamp_same
  by (auto simp: insert_plain_def bindM_eq_Inr Let_def list_all2_same same_tx_def split: if_splits option.splits)

lemma idempotent_keys_cong:
  "list_all2 (\<lambda>b b'. same_tx (bi_Transaction b) (bi_Transaction b') \<and> bi_IdempotencyError b' = bi_IdempotencyError b) bs bs' \<Longrightarrow>
     map t_IdempotencyKey (idempotent_inserts bs') = map t_IdempotencyKey (idempotent_inserts bs)"
  by (induction rule: list_all2_induct)
    (auto simp: idempotent_Cons open_entry_def same_tx_def row_key_def idempotent_inserts_def)

text \<open>A batch of submissions tells every caller which transaction its idempotency key belongs to: when the
  batch returns, for every entry whose key is set and did not occur earlier in the batch, the transaction
  the entry reports (its own, or the one of its idempotency error) is a row with that key.\<close>

theorem batch_reports_key_owner:
  assumes "keys_unique (db_txs (nd_db nd))" "SubmitNewTransactionBatch E multi ns inputs nd = (Inr out, nd')"
    and "i < length inputs" "snd (inputs ! i) \<noteq> ''''" "snd (inputs ! i) \<notin> set (map snd (take i inputs))"
  shows "length out = length inputs \<and>
    (\<exists>r \<in> set (db_txs (nd_db nd')). t_Namespace r = ns \<and> t_IdempotencyKey r = snd (inputs ! i) \<and> t_ID r = reported (out ! i))"
proof -
  obtain txs b1 nd1 nd2 nd3 where s: "new_transactions E ns inputs nd = (Inr txs, nd1)"
      "insert_plain E multi (precheck [] txs) nd1 = (Inr b1, nd2)" "insert_idempotent E multi ns b1 nd2 = (Inr out, nd3)"
      "insert_batch_events E out nd3 = (Inr (), nd')"
    using assms(2) by (auto simp: SubmitNewTransactionBatch_def bindM_eq_Inr)
  have new: "list_all2 (\<lambda>inp t. t_Namespace t = ns \<and> t_IdempotencyKey t = snd inp) inputs txs"
    by (rule mapM_rel [OF _ s(1) [unfolded new_transactions_def]]) (auto simp: bindM_eq_Inr NewTransaction_def)
  have len: "length txs = length inputs" using new by (simp add: list_all2_lengthD)
  have "map t_IdempotencyKey (take i txs) = map snd (take i inputs)"
    using new assms(3) by (auto simp: list_all2_conv_all_nth intro!: nth_equalityI)
  then have o1: "open_entry (precheck [] txs ! i)"
    using new assms(3-5) len by (intro precheck_first) (auto simp: list_all2_conv_all_nth)
  note pl = insert_plain_entries [OF s(2)]
  have plen: "length (precheck [] txs) = length txs" using precheck_map [of "[]" txs] by (metis length_map)
  have txi: "bi_Transaction (precheck [] txs ! i) = txs ! i"
    using precheck_map [of "[]" txs] assms(3) len plen by (metis nth_map)
  have o2: "open_entry (b1 ! i)" "same_tx (txs ! i) (bi_Transaction (b1 ! i))" "length b1 = length inputs"
    using pl o1 assms(3) len plen txi
    by (auto simp: list_all2_conv_all_nth open_entry_def same_tx_def row_key_def)
  have "keys_unique (db_txs (nd_db nd1))"
  proof -
    have "stable (\<lambda>nd. keys_unique (db_txs (nd_db nd))) (new_transactions E ns inputs)"
      unfolding new_transactions_def by (intro stable_intros)
    from stableD [OF this s(1) assms(1)] show ?thesis .
  qed
  then have ku: "keys_unique (db_txs (nd_db nd2))"
  proof -
    have "stable (\<lambda>nd. keys_unique (db_txs (nd_db nd))) (insert_plain E multi (precheck [] txs))"
      unfolding insert_plain_def by (intro stable_intros)
    from stableD [OF this s(2)] show "keys_unique (db_txs (nd_db nd1)) \<Longrightarrow> ?thesis" .
  qed
  have dk: "distinct (map t_IdempotencyKey (idempotent_inserts b1))"
    using idempotent_keys_cong [OF pl] precheck_keys [of "[]" txs] by simp
  have nsb: "t_Namespace (bi_Transaction b) = ns" if inb: "b \<in> set b1" for b
  proof -
    obtain j where j: "j < length b1" "b = b1 ! j" using inb by (auto simp: in_set_conv_nth)
    then have "same_tx (bi_Transaction (precheck [] txs ! j)) (bi_Transaction b)" using pl by (auto simp: list_all2_conv_all_nth)
    moreover have "bi_Transaction (precheck [] txs ! j) = txs ! j"
      using precheck_map [of "[]" txs] j o2(3) len plen by (metis nth_map)
    ultimately show ?thesis using new j o2(3) by (auto simp: same_tx_def row_key_def list_all2_conv_all_nth)
  qed
  note ent = insert_idempotent_entries [OF s(3) ku dk nsb]
  then have "entry_in (db_txs (nd_db nd3)) (b1 ! i) (out ! i)" "length out = length inputs"
    using assms(3) o2(3) by (auto simp: list_all2_conv_all_nth)
  moreover have "set (db_txs (nd_db nd3)) \<subseteq> set (db_txs (nd_db nd'))" using rows_grow [OF rows.batch_events refl s(4)] .
  ultimately show ?thesis
    using o2 new assms(3) by (fastforce simp: entry_in_def list_ex_iff row_key_def same_tx_def list_all2_conv_all_nth)
qed

section \<open>Blockchain transactions are recorded\<close>

text \<open>The cached object of a transaction agrees with its row.\<close>

definition tx_coherent :: "env \<Rightarrow> string \<Rightarrow> uuid \<Rightarrow> node \<Rightarrow> bool" where
  "tx_coherent E ns i nd \<longleftrightarrow> (case map_of (nd_txcache nd) (e_uuid_str E i) of
     None \<Rightarrow> True
   | Some ptr \<Rightarrow> ptr < length (nd_txheap nd) \<and> t_ID (nd_txheap nd ! ptr) = i \<and>
       list_ex (\<lambda>r. t_ID r = i \<and> t_Namespace r = ns \<and> t_BlockchainIDs r = t_BlockchainIDs (nd_txheap nd ! ptr))
         (db_txs (nd_db nd)))"

definition records_id :: "string \<Rightarrow> uuid \<Rightarrow> string \<Rightarrow> node \<Rightarrow> bool" where
  "records_id ns i b nd \<longleftrightarrow> list_ex (\<lambda>r. t_ID r = i \<and> t_Namespace r = ns \<and> b \<in> set (t_BlockchainIDs r)) (db_txs (nd_db nd))"

lemma update_records:
  assumes "list_ex (\<lambda>r. t_ID r = i \<and> t_Namespace r = ns) (db_txs (nd_db nd))" "b \<in> set bids"
    and "UpdateTransaction_blockchainids E ns i bids nd = (Inr (), nd')"
  shows "records_id ns i b nd'"
proof -
  obtain r where r: "r \<in> set (db_txs (nd_db nd))" "t_ID r = i" "t_Namespace r = ns"
    using assms(1) by (auto simp: list_ex_iff)
  have "db_txs (nd_db nd') = map (\<lambda>t. if t_ID t = i \<and> t_Namespace t = ns then t \<lparr> t_BlockchainIDs := bids \<rparr> else t) (db_txs (nd_db nd))"
    using assms(3) by (simp add: UpdateTransaction_blockchainids_def db_write_Inr)
  then have "r \<lparr> t_BlockchainIDs := bids \<rparr> \<in> set (db_txs (nd_db nd'))" using r by force
  then show ?thesis unfolding records_id_def list_ex_iff
    by (rule bexI [rotated]) (use r assms(2) in simp)
qed

lemma cache_records [simp]: "updateTransactionsCache E ptr nd = (r, nd') \<Longrightarrow> records_id ns i b nd' = records_id ns i b nd"
  by (auto simp: updateTransactionsCache_def tx_deref_def bindM_def getsM_def modifyM_def records_id_def)

text \<open>After \<open>PersistTransaction\<close> says the transaction is valid, the row of the transaction holds the blockchain
  transaction it was called with, provided the cached object agreed with the row before. The set
  operation of the (third-party) string array is taken to contain what it adds, in its canonical
  spelling, and to leave the list as it is when it reports no change.\<close>

theorem persist_records_blockchain_id:
  assumes "\<And>xs s. canon s \<in> set (fst (e_sorted_add E xs s))" "\<And>xs s. \<not> snd (e_sorted_add E xs s) \<Longrightarrow> fst (e_sorted_add E xs s) = xs"
    and "\<And>s. canon s \<in> set (e_string_array E (to_lower s))" "tx_coherent E ns i nd"
    and "PersistTransaction E ns i ty bid nd = (Inr True, nd')"
  shows "records_id ns i (canon bid) nd'"
proof -
  obtain found nd1 where g: "GetTransactionByIDCached E ns i nd = (Inr found, nd1)"
    using assms(5) by (auto simp: PersistTransaction_def bindM_eq_Inr)
  show ?thesis
  proof (cases found)
    case None
    then obtain tx nd2 where ins: "InsertTransaction E ((NewTransaction i ns ty '''') \<lparr> t_BlockchainIDs := e_string_array E (to_lower bid) \<rparr>) nd1 = (Inr tx, nd2)"
      and c: "cache_transaction E tx nd2 = (Inr (), nd')"
      using assms(5) g by (auto simp: PersistTransaction_def bindM_eq_Inr)
    have "records_id ns i (canon bid) nd2"
      using ins assms(3)
      by (auto simp: InsertTransaction_def attemptInsertTxn_def NewTransaction_def bindM_eq_Inr Let_def attemptM_eq db_op_Inr
          insert_tx_row_def records_id_def split: if_splits option.splits)
    moreover have "db_txs (nd_db nd') = db_txs (nd_db nd2)"
      using c by (auto simp: cache_transaction_def tx_alloc_def updateTransactionsCache_def tx_deref_def bindM_def getsM_def modifyM_def)
    ultimately show ?thesis by (simp add: records_id_def)
  next
    case (Some ptr)
    let ?tx = "nd_txheap nd1 ! ptr"
    have ptr: "ptr < length (nd_txheap nd1)" "t_ID ?tx = i"
      "list_ex (\<lambda>r. t_ID r = i \<and> t_Namespace r = ns \<and> t_BlockchainIDs r = t_BlockchainIDs ?tx) (db_txs (nd_db nd1))"
      using g Some assms(4)
      by (auto simp: GetTransactionByIDCached_def GetTransactionByID_def bindM_eq_Inr db_read_Inr tx_alloc_def tx_deref_def
          updateTransactionsCache_def tx_coherent_def list_ex_iff nth_append dest!: find_Some_in split: option.splits)
    obtain bids changed where a: "e_sorted_add E (t_BlockchainIDs ?tx) bid = (bids, changed)" by fastforce
    have b: "canon bid \<in> set bids" using assms(1) [of bid "t_BlockchainIDs ?tx"] a by simp
    have row: "list_ex (\<lambda>r. t_ID r = i \<and> t_Namespace r = ns) (db_txs (nd_db nd1))" using ptr(3) by (auto simp: list_ex_iff)
    show ?thesis
    proof (cases changed)
      case False
      then have "bids = t_BlockchainIDs ?tx" using assms(2) [of "t_BlockchainIDs ?tx" bid] a by simp
      moreover have "nd_db nd' = nd_db nd1"
        using assms(5) g Some a False by (auto simp: PersistTransaction_def bindM_eq_Inr tx_deref_def tx_assign_def split: if_splits)
      ultimately show ?thesis using ptr(3) b by (auto simp: records_id_def list_ex_iff)
    next
      case True
      let ?nd1 = "nd1 \<lparr> nd_txheap := (nd_txheap nd1)[ptr := ?tx \<lparr> t_BlockchainIDs := bids \<rparr>] \<rparr>"
      obtain nd2 where u: "UpdateTransaction_blockchainids E ns i bids ?nd1 = (Inr (), nd2)" "updateTransactionsCache E ptr nd2 = (Inr (), nd')"
        using assms(5) g Some a True ptr(1,2)
        by (auto simp: PersistTransaction_def bindM_eq_Inr tx_deref_def tx_assign_def split: if_splits)
      have "records_id ns i (canon bid) nd2" using update_records [OF _ b u(1)] row by simp
      then show ?thesis using u(2) by simp
    qed
  qed
qed

section \<open>Concrete submissions\<close>

definition db_tx0 :: ffdb where
  "db_tx0 = \<lparr> db_pins = [], db_pinseq = 1, db_nextpins = [], db_npseq = 1, db_nonces = [], db_events = [],
     db_evseq = 1, db_messages = [], db_msgseq = 1, db_batches = [], db_data = [], db_blobs = [],
     db_transfers = [], db_approvals = [], db_groups = [], db_members = [], db_identities = [],
     db_verifiers = [], db_datatypes = [],
     db_txs = [\<lparr> t_ID = 5, t_Namespace = ''ns1'', t_Type = TT_BatchPin, t_Created = 0, t_IdempotencyKey = ''k'',
       t_BlockchainIDs = [] \<rparr>], db_ops = [], db_bcevents = [], db_apis = [], db_ffis = [], db_pools = [] \<rparr>"

definition node_tx0 :: node where
  "node_tx0 = \<lparr> nd_db = db_tx0, nd_calls = 0, nd_draws = 0, nd_msgcache = [], nd_batchcache = [], nd_valcache = [],
     nd_idcache = [], nd_offset = 0, nd_offsetCommitted = None, nd_didrewinds = [],
     nd_txheap = [], nd_txcache = [], nd_opheap = [], nd_opcache = [], nd_bccache = [] \<rparr>"


lemma batch_reports_key_owner_witness:
  "\<exists>r \<in> set (db_txs (nd_db (snd (SubmitNewTransactionBatch env0 True ''ns1'' [(TT_ContractInvoke, ''j''), (TT_ContractInvoke, ''k'')] node_tx0)))).
     t_IdempotencyKey r = ''k'' \<and> t_ID r = 5"
proof -
  let ?inp = "[(TT_ContractInvoke, ''j''), (TT_ContractInvoke, ''k'')]"
  let ?r = "SubmitNewTransactionBatch env0 True ''ns1'' ?inp node_tx0"
  have 1: "keys_unique (db_txs (nd_db node_tx0))" by code_simp
  have 2: "\<not> isl (fst ?r)" "reported (projr (fst ?r) ! 1) = 5" by code_simp+
  from 2(1) have r: "?r = (Inr (projr (fst ?r)), snd ?r)" by (cases ?r) auto
  have "snd (?inp ! 1) = ''k''" "snd (?inp ! 1) \<noteq> ''''" "snd (?inp ! 1) \<notin> set (map snd (take 1 ?inp))" "1 < length ?inp" by simp_all
  with batch_reports_key_owner [OF 1 r, of 1] 2(2) show ?thesis by (metis (lifting))
qed

lemma persist_records_blockchain_id_witness:
  "records_id ''ns1'' 5 ''0x1'' (snd (PersistTransaction env0 ''ns1'' 5 TT_BatchPin ''0x1'' node_tx0))"
proof -
  let ?r = "PersistTransaction env0 ''ns1'' 5 TT_BatchPin ''0x1'' node_tx0"
  have ins: "s \<in> set (insert_str s xs)" for s xs by (induction xs) auto
  have 1: "to_lower s \<in> set (fst (e_sorted_add env0 xs s))" for xs s using ins by (auto simp: env0_def Let_def)
  have 2: "\<not> snd (e_sorted_add env0 xs s) \<Longrightarrow> fst (e_sorted_add env0 xs s) = xs" for xs s
    by (auto simp: env0_def Let_def split: if_splits)
  have 3: "to_lower s \<in> set (e_string_array env0 (to_lower s))" for s by simp
  have 4: "tx_coherent env0 ''ns1'' 5 node_tx0" by (simp add: tx_coherent_def node_tx0_def)
  have "fst ?r = Inr True" by code_simp
  then have 5: "?r = (Inr True, snd ?r)" by (rule fst_pairI)
  have low: "to_lower ''0x1'' = ''0x1''" by code_simp
  have "records_id ''ns1'' 5 (to_lower ''0x1'') (snd ?r)"
    by (rule persist_records_blockchain_id [where canon = to_lower, OF 1 2 3 4 5])
  then show ?thesis unfolding low .
qed

text \<open>An idempotency key that occurs twice in one batch and already belongs to an earlier transaction: the
  second occurrence is told the transaction of the first one, which was never inserted.\<close>

theorem duplicate_key_reports_missing_transaction:
  "let r = SubmitNewTransactionBatch env0 True ''ns1'' [(TT_ContractInvoke, ''k''), (TT_ContractInvoke, ''k'')] node_tx0
   in map reported (projr (fst r)) = [5, 1000] \<and> map t_ID (db_txs (nd_db (snd r))) = [5]"
  by code_simp

text \<open>A database error in \<open>PersistTransaction\<close> is not repaired by a retry: the blockchain transaction is added to
  the cached object before the row is written, so the second call finds nothing changed, reports
  success, and the row never holds the blockchain transaction.\<close>

theorem persist_retry_loses_blockchain_id:
  "let E = env0 \<lparr> e_flt := (\<lambda>n. n = 1) \<rparr>;
       r1 = PersistTransaction E ''ns1'' 5 TT_BatchPin ''0x1'' node_tx0;
       r2 = PersistTransaction E ''ns1'' 5 TT_BatchPin ''0x1'' (snd r1)
   in fst r1 = Inl (DBErr 1) \<and> fst r2 = Inr True \<and> map t_BlockchainIDs (db_txs (nd_db (snd r2))) = [[]]"
  by code_simp

end
