(* ===== verification/Batch_Seal.thy ===== *)
theory Batch_Seal
  imports Batch_Assembly Transactions Batch_State Identity_Manager
begin

text \<open>
  internal/batch, second part: what a flush does with the work of a batch. The contexts and the
  masked pins of the messages with the nonces of this node (batch_manager.go), the sealing of
  the batch, its dispatch and the marking of the messages (batch_processor.go).
\<close>

section \<open>State\<close>

record nonce_state =
  ns_latest :: int
  ns_new :: bool

record dispatch_state =
  ds_msgPins :: "(uuid \<times> string list) list"
  ds_noncesAssigned :: "(bytes32 \<times> nonce_state) list"

record dispatch_payload =
  dp_Batch :: batch_persisted
  dp_Messages :: "message list"
  dp_Data :: "ffdata list"
  dp_Pins :: "bytes32 list"

text \<open>What the processor takes from its manager: the namespace, the identity manager, and the dispatch handler.\<close>

record batch_mgr =
  bg_namespace :: string
  bg_identity :: identity_manager
  bg_dispatch :: "dispatch_payload \<Rightarrow> unit nact"

type_synonym 'a dact = "(node \<times> dispatch_state, 'a) act"

definition onDNode :: "'a nact \<Rightarrow> 'a dact" where
  "onDNode m = (\<lambda>(nd, ds). case m nd of (r, nd') \<Rightarrow> (r, (nd', ds)))"

definition modifyDS :: "(dispatch_state \<Rightarrow> dispatch_state) \<Rightarrow> unit dact" where
  "modifyDS f = modifyM (\<lambda>(nd, ds). (nd, f ds))"

definition newDispatchState :: dispatch_state where
  "newDispatchState = \<lparr> ds_msgPins = [], ds_noncesAssigned = [] \<rparr>"

section \<open>Nonces and pins\<close>

definition set_nonce :: "bytes32 \<Rightarrow> nonce_state \<Rightarrow> unit dact" where
  "set_nonce key s = modifyDS (\<lambda>ds. ds \<lparr> ds_noncesAssigned := assoc_put key s (ds_noncesAssigned ds) \<rparr>)"

definition getNextNonce :: "env \<Rightarrow> bytes32 \<Rightarrow> bytes32 \<Rightarrow> int dact" where
  "getNextNonce E nonceKeyHash contextHash =
     bindM (getsM (\<lambda>(nd, ds). map_of (ds_noncesAssigned ds) nonceKeyHash)) (\<lambda>cached.
     case cached of
       Some c \<Rightarrow>
         bindM (set_nonce nonceKeyHash (c \<lparr> ns_latest := ns_latest c + 1 \<rparr>)) (\<lambda>_. retM (ns_latest c + 1))
     | None \<Rightarrow>
         bindM (onDNode (GetNonce E nonceKeyHash)) (\<lambda>dbNonce.
         bindM (case dbNonce of None \<Rightarrow> onDNode (GetNonce E contextHash) | Some r \<Rightarrow> retM (Some r)) (\<lambda>dbNonce.
         let s = (case dbNonce of
                    None \<Rightarrow> \<lparr> ns_latest = 0, ns_new = True \<rparr>
                  | Some r \<Rightarrow> \<lparr> ns_latest = no_Nonce r + 1, ns_new = False \<rparr>)
         in bindM (set_nonce nonceKeyHash s) (\<lambda>_. retM (ns_latest s)))))"

text \<open>The nonces of a node are kept under the hash of topic, group and author.\<close>

definition nonceKey :: "env \<Rightarrow> string \<Rightarrow> bytes32 \<Rightarrow> string \<Rightarrow> bytes32" where
  "nonceKey E topic grp author = e_sha256 E (bytes_of topic @ grp @ bytes_of author)"

text \<open>The decimal digits of \<open>%.16d\<close>: at least 16, after a sign.\<close>

fun nat_digits :: "nat \<Rightarrow> string" where
  "nat_digits n = (if n < 10 then [char_of (48 + n)] else nat_digits (n div 10) @ [char_of (48 + n mod 10)])"

declare nat_digits.simps [simp del]

definition dec16 :: "int \<Rightarrow> string" where
  "dec16 n = (let ds = nat_digits (nat \<bar>n\<bar>)
     in (if n < 0 then ''-'' else '''') @ replicate (16 - length ds) (CHR ''0'') @ ds)"

definition maskContext :: "env \<Rightarrow> message \<Rightarrow> string \<Rightarrow> (string \<times> bytes32) dact" where
  "maskContext E msg topic =
     (case mh_Group (m_Header msg) of
        None \<Rightarrow> retM ('''', e_sha256 E (bytes_of topic))
      | Some g \<Rightarrow>
          let contextHash = e_sha256 E (bytes_of topic @ g);
              author = sr_Author (mh_Signer (m_Header msg))
          in bindM (getNextNonce E (nonceKey E topic g author) contextHash) (\<lambda>nonce.
             let pin = e_sha256 E (bytes_of topic @ g @ bytes_of author @ be64 nonce)
             in retM (e_hex E pin @ '':'' @ dec16 nonce, pin)))"

fun mask_topics :: "env \<Rightarrow> message \<Rightarrow> string list \<Rightarrow> (string \<times> bytes32) list dact" where
  "mask_topics E msg [] = retM []"
| "mask_topics E msg (topic # topics) =
     bindM (maskContext E msg topic) (\<lambda>p. bindM (mask_topics E msg topics) (\<lambda>ps. retM (p # ps)))"

definition put_msg_pins :: "uuid \<Rightarrow> string list \<Rightarrow> unit dact" where
  "put_msg_pins i pins = modifyDS (\<lambda>ds. ds \<lparr> ds_msgPins := assoc_put i pins (ds_msgPins ds) \<rparr>)"

definition isPrivate :: "message \<Rightarrow> bool" where
  "isPrivate msg \<longleftrightarrow> mh_Group (m_Header msg) \<noteq> None"

fun calculateContexts :: "env \<Rightarrow> message list \<Rightarrow> bytes32 list dact" where
  "calculateContexts E [] = retM []"
| "calculateContexts E (msg # msgs) =
     (if isPrivate msg \<and> m_Pins msg \<noteq> [] then calculateContexts E msgs
      else case (isPrivate msg, mh_ID (m_Header msg)) of
        (True, None) \<Rightarrow> throwM (GoPanic ''nil message ID'')
      | (private, i) \<Rightarrow>
          bindM (mask_topics E msg (mh_Topics (m_Header msg))) (\<lambda>ps.
          bindM (if private then put_msg_pins (the i) (map fst ps) else retM ()) (\<lambda>_.
          bindM (calculateContexts E msgs) (\<lambda>pins. retM (map snd ps @ pins)))))"

definition write_nonce :: "env \<Rightarrow> bytes32 \<times> nonce_state \<Rightarrow> unit nact" where
  "write_nonce E = (\<lambda>(h, s). let dbNonce = \<lparr> no_Hash = h, no_Nonce = ns_latest s \<rparr>
     in if ns_new s then InsertNonce E dbNonce else UpdateNonce E dbNonce)"

definition flushNonceState :: "env \<Rightarrow> unit dact" where
  "flushNonceState E = (\<lambda>(nd, ds). onDNode (forM (ds_noncesAssigned ds) (write_nonce E)) (nd, ds))"

definition UpdateMessage_pins :: "env \<Rightarrow> string \<Rightarrow> uuid \<Rightarrow> string list \<Rightarrow> unit nact" where
  "UpdateMessage_pins E ns i pins =
     UpdateMessages E ns (\<lambda>m. mh_ID (m_Header m) = Some i) (\<lambda>m. m \<lparr> m_Pins := pins \<rparr>)"

definition updateMessagePins :: "env \<Rightarrow> string \<Rightarrow> message list \<Rightarrow> unit dact" where
  "updateMessagePins E ns msgs = forM msgs (\<lambda>msg.
     case mh_ID (m_Header msg) of
       None \<Rightarrow> throwM (GoPanic ''nil message ID'')
     | Some i \<Rightarrow> bindM (getsM (\<lambda>(nd, ds). map_of (ds_msgPins ds) i)) (\<lambda>pins.
         case pins of None \<Rightarrow> retM () | Some ps \<Rightarrow> onDNode (UpdateMessage_pins E ns i ps)))"

section \<open>A flush\<close>

definition initPayload :: "env \<Rightarrow> batch_mgr \<Rightarrow> processor_conf \<Rightarrow> uuid \<Rightarrow> batch_work list \<Rightarrow> dispatch_payload nact" where
  "initPayload E bg conf i flushWork =
     bindM (nowM E) (\<lambda>now.
     bindM (attemptM (GetLocalNode E (bg_identity bg))) (\<lambda>localNode.
     case localNode of Inl (GoPanic p) \<Rightarrow> throwM (GoPanic p) | _ \<Rightarrow>
     retM \<lparr> dp_Batch = \<lparr> bpd_Header = \<lparr> bh_ID = Some i, bh_Type = bc_BatchType conf, bh_Namespace = bg_namespace bg,
              bh_Node = (case localNode of Inr (Some nid) \<Rightarrow> ib_ID (id_Base nid) | _ \<Rightarrow> None), bh_Group = bc_group conf,
              bh_Created = Some now,
              bh_Signer = \<lparr> sr_Author = bc_author conf, sr_Key = work_key (hd flushWork) \<rparr> \<rparr>,
              bpd_Hash = None, bpd_Manifest = '''', bpd_TX = \<lparr> tr_Type = TT_Unset, tr_ID = None \<rparr>, bpd_Confirmed = None \<rparr>,
            dp_Messages = map (\<lambda>w. BatchMessage (bw_msg w)) flushWork,
            dp_Data = concat (map (\<lambda>w. map (BatchData (bc_BatchType conf)) (bw_data w)) flushWork),
            dp_Pins = [] \<rparr>))"

text \<open>
  One attempt at sealing: contexts, nonces and pins of pinned messages, the transaction, the
  manifest with its hash, and the row of the batch.
\<close>

definition seal_pins :: "env \<Rightarrow> batch_mgr \<Rightarrow> processor_conf \<Rightarrow> dispatch_payload \<Rightarrow> bytes32 list dact" where
  "seal_pins E bg conf payload =
     (if IsPinned (bc_txType conf)
      then bindM (calculateContexts E (dp_Messages payload)) (\<lambda>pins.
           bindM (flushNonceState E) (\<lambda>_.
           bindM (updateMessagePins E (bg_namespace bg) (dp_Messages payload)) (\<lambda>_. retM pins)))
      else retM (dp_Pins payload))"

definition seal_tx :: "env \<Rightarrow> batch_mgr \<Rightarrow> processor_conf \<Rightarrow> dispatch_payload \<Rightarrow> uuid option nact" where
  "seal_tx E bg conf payload =
     (if batchOfOne conf \<and> m_TransactionID (hd (dp_Messages payload)) \<noteq> None
      then retM (m_TransactionID (hd (dp_Messages payload)))
      else bindM (SubmitNewTransaction E (bg_namespace bg) (bc_txType conf) '''') (\<lambda>i. retM (Some i)))"

definition seal_manifest :: "env \<Rightarrow> processor_conf \<Rightarrow> uuid option \<Rightarrow> dispatch_payload \<Rightarrow> dispatch_payload" where
  "seal_manifest E conf tx payload =
     (let b = (dp_Batch payload) \<lparr> bpd_TX := \<lparr> tr_Type = bc_txType conf, tr_ID = tx \<rparr> \<rparr>;
          manifestString = BatchManifest_String E (GenManifest b (map Some (dp_Messages payload)) (map Some (dp_Data payload)))
      in payload \<lparr> dp_Batch := b \<lparr> bpd_Manifest := manifestString, bpd_Hash := Some (e_sha256 E (bytes_of manifestString)) \<rparr> \<rparr>)"

definition seal_attempt :: "env \<Rightarrow> batch_mgr \<Rightarrow> processor_conf \<Rightarrow> dispatch_payload
    \<Rightarrow> (dispatch_payload \<times> dispatch_state) nact" where
  "seal_attempt E bg conf payload = run_as_group E (\<lambda>nd.
     case bindM (seal_pins E bg conf payload) (\<lambda>pins.
          bindM (onDNode (seal_tx E bg conf payload)) (\<lambda>tx.
          let payload = seal_manifest E conf tx (payload \<lparr> dp_Pins := pins \<rparr>) in
          bindM (onDNode (InsertOrGetBatch E (dp_Batch payload))) (\<lambda>_. retM payload))) (nd, newDispatchState) of
       (Inl err, (nd', ds)) \<Rightarrow> (Inl err, nd')
     | (Inr payload, (nd', ds)) \<Rightarrow> (Inr (payload, ds), nd'))"

fun set_pins :: "env \<Rightarrow> string \<Rightarrow> dispatch_state \<Rightarrow> message list \<Rightarrow> message list nact" where
  "set_pins E ns ds [] = retM []"
| "set_pins E ns ds (msg # msgs) =
     (case mh_ID (m_Header msg) of
        None \<Rightarrow> throwM (GoPanic ''nil message ID'')
      | Some i \<Rightarrow>
          (case map_of (ds_msgPins ds) i of
             None \<Rightarrow> bindM (set_pins E ns ds msgs) (\<lambda>msgs. retM (msg # msgs))
           | Some pins \<Rightarrow>
               let msg = msg \<lparr> m_Pins := pins \<rparr> in
               bindM (UpdateMessageIfCached E ns msg) (\<lambda>_.
               bindM (set_pins E ns ds msgs) (\<lambda>msgs. retM (msg # msgs)))))"

definition sealBatch :: "env \<Rightarrow> batch_mgr \<Rightarrow> processor_conf \<Rightarrow> nat \<Rightarrow> dispatch_payload \<Rightarrow> dispatch_payload nact" where
  "sealBatch E bg conf n payload =
     bindM (retryM n (seal_attempt E bg conf payload)) (\<lambda>(payload, ds).
     if IsPinned (bc_txType conf)
     then bindM (set_pins E (bg_namespace bg) ds (dp_Messages payload)) (\<lambda>msgs. retM (payload \<lparr> dp_Messages := msgs \<rparr>))
     else retM payload)"

definition dispatchBatch :: "batch_mgr \<Rightarrow> nat \<Rightarrow> dispatch_payload \<Rightarrow> unit nact" where
  "dispatchBatch bg n payload = retryM n (bg_dispatch bg payload)"

definition mark_message :: "processor_conf \<Rightarrow> batch_persisted \<Rightarrow> fftime \<Rightarrow> message \<Rightarrow> message" where
  "mark_message conf b confirmTime msg =
     (let msg = msg \<lparr> m_BatchID := bh_ID (bpd_Header b), m_TransactionID := tr_ID (bpd_TX b) \<rparr>
      in if IsPinned (bc_txType conf) then msg \<lparr> m_State := MS_Sent \<rparr>
         else msg \<lparr> m_State := MS_Confirmed, m_Confirmed := Some confirmTime \<rparr>)"

definition confirmed_event :: "env \<Rightarrow> batch_persisted \<Rightarrow> message \<Rightarrow> string \<Rightarrow> unit nact" where
  "confirmed_event E b msg topic =
     bindM (newUUID E) (\<lambda>evid. bindM (nowM E) (\<lambda>now.
     InsertEvent E ((NewEvent evid now ET_MessageConfirmed (bh_Namespace (bpd_Header b)) (mh_ID (m_Header msg))
       (tr_ID (bpd_TX b)) topic) \<lparr> ev_Correlator := mh_CID (m_Header msg) \<rparr>)))"

definition mark_attempt :: "env \<Rightarrow> batch_mgr \<Rightarrow> processor_conf \<Rightarrow> dispatch_payload \<Rightarrow> unit nact" where
  "mark_attempt E bg conf payload = run_as_group E (
     bindM (nowM E) (\<lambda>confirmTime.
     let msgs = map (mark_message conf (dp_Batch payload) confirmTime) (dp_Messages payload) in
     bindM (forM msgs (UpdateMessageIfCached E (bg_namespace bg))) (\<lambda>_.
     bindM (UpdateMessages E (bg_namespace bg)
              (\<lambda>m. mh_ID (m_Header m) \<in> set (map (\<lambda>x. mh_ID (m_Header x)) msgs) \<and> m_State m = MS_Ready)
              (mark_message conf (dp_Batch payload) confirmTime)) (\<lambda>_.
     if IsPinned (bc_txType conf) then retM ()
     else forM msgs (\<lambda>msg. forM (mh_Topics (m_Header msg)) (confirmed_event E (dp_Batch payload) msg))))))"

definition markPayloadDispatched :: "env \<Rightarrow> batch_mgr \<Rightarrow> processor_conf \<Rightarrow> nat \<Rightarrow> dispatch_payload \<Rightarrow> unit nact" where
  "markPayloadDispatched E bg conf n payload = retryM n (mark_attempt E bg conf payload)"

text \<open>The flush of a batch; the result is the payload, whose work is then reported to the manager.\<close>

definition flush_batch :: "env \<Rightarrow> batch_mgr \<Rightarrow> processor_conf \<Rightarrow> nat \<Rightarrow> flushed \<Rightarrow> dispatch_payload nact" where
  "flush_batch E bg conf n fl =
     bindM (initPayload E bg conf (fl_ID fl) (fl_work fl)) (\<lambda>payload.
     bindM (sealBatch E bg conf n payload) (\<lambda>payload.
     bindM (dispatchBatch bg n payload) (\<lambda>_.
     bindM (markPayloadDispatched E bg conf n payload) (\<lambda>_. retM payload))))"

section \<open>Contexts of a sealed batch\<close>

definition loadContext :: "env \<Rightarrow> message \<Rightarrow> fferr + bytes32 list" where
  "loadContext E msg =
     (if isPrivate msg then
        if m_Pins msg = [] then Inl (I18n ''MsgPinsNotAssigned'')
        else if list_ex (\<lambda>p. e_unhex E p = None) (m_Pins msg) then Inl (I18n ''MsgInvalidHex'')
        else Inr (map (\<lambda>p. the (e_unhex E p)) (m_Pins msg))
      else Inr (map (\<lambda>topic. e_sha256 E (bytes_of topic)) (mh_Topics (m_Header msg))))"

fun LoadContexts :: "env \<Rightarrow> message list \<Rightarrow> fferr + bytes32 list" where
  "LoadContexts E [] = Inr []"
| "LoadContexts E (msg # msgs) =
     (case loadContext E msg of
        Inl err \<Rightarrow> Inl err
      | Inr pins \<Rightarrow> (case LoadContexts E msgs of Inl err \<Rightarrow> Inl err | Inr rest \<Rightarrow> Inr (pins @ rest)))"

section \<open>The counters behind the pins\<close>

text \<open>
  The specification: one counter per nonce key; a topic of a private message without pins takes
  the next value of its counter, a broadcast topic takes none.
\<close>

fun spec_topics :: "env \<Rightarrow> message \<Rightarrow> string list \<Rightarrow> (bytes32 \<Rightarrow> int) \<Rightarrow> bytes32 list \<times> (bytes32 \<Rightarrow> int)" where
  "spec_topics E msg [] c = ([], c)"
| "spec_topics E msg (topic # topics) c =
     (case mh_Group (m_Header msg) of
        None \<Rightarrow> (let (ps, c') = spec_topics E msg topics c in (broadcastContext E topic # ps, c'))
      | Some g \<Rightarrow>
          let author = sr_Author (mh_Signer (m_Header msg));
              k = nonceKey E topic g author;
              (ps, c') = spec_topics E msg topics (c(k := c k + 1))
          in (privatePinHash E topic g author (c k) # ps, c'))"

fun spec_pins :: "env \<Rightarrow> message list \<Rightarrow> (bytes32 \<Rightarrow> int) \<Rightarrow> bytes32 list \<times> (bytes32 \<Rightarrow> int)" where
  "spec_pins E [] c = ([], c)"
| "spec_pins E (msg # msgs) c =
     (if isPrivate msg \<and> m_Pins msg \<noteq> [] then spec_pins E msgs c
      else let (ps, c') = spec_topics E msg (mh_Topics (m_Header msg)) c; (qs, c'') = spec_pins E msgs c'
           in (ps @ qs, c''))"

text \<open>The counters the tables and the state of a sealing hold.\<close>

definition next_nonce :: "ffdb \<Rightarrow> dispatch_state \<Rightarrow> bytes32 \<Rightarrow> int" where
  "next_nonce db ds k = (case map_of (ds_noncesAssigned ds) k of
     Some s \<Rightarrow> ns_latest s + 1
   | None \<Rightarrow> (case nonce_row k db of Some r \<Rightarrow> no_Nonce r + 1 | None \<Rightarrow> 0))"

definition counters :: "ffdb \<Rightarrow> bytes32 \<Rightarrow> int" where
  "counters db k = (case nonce_row k db of Some r \<Rightarrow> no_Nonce r + 1 | None \<Rightarrow> 0)"

text \<open>No row of an old release stands in for the first nonce of a message: it is kept under the context.\<close>

definition no_legacy :: "env \<Rightarrow> ffdb \<Rightarrow> message \<Rightarrow> bool" where
  "no_legacy E db msg \<longleftrightarrow> (case mh_Group (m_Header msg) of
     None \<Rightarrow> True
   | Some g \<Rightarrow> list_all (\<lambda>topic. nonce_row (nonceKey E topic g (sr_Author (mh_Signer (m_Header msg)))) db \<noteq> None \<or>
       nonce_row (privateContext E topic g) db = None) (mh_Topics (m_Header msg)))"

definition ds_ok :: "ffdb \<Rightarrow> dispatch_state \<Rightarrow> bool" where
  "ds_ok db ds \<longleftrightarrow> distinct (map fst (ds_noncesAssigned ds)) \<and>
     list_all (\<lambda>(h, s). ns_new s \<longleftrightarrow> nonce_row h db = None) (ds_noncesAssigned ds)"

lemma map_of_assoc_put' [simp]: "map_of (assoc_put k v kvs) x = (if x = k then Some v else map_of kvs x)"
  by simp

lemma ds_ok_put:
  assumes "ds_ok db ds" "ns_new s \<longleftrightarrow> nonce_row k db = None"
  shows "ds_ok db (ds \<lparr> ds_noncesAssigned := assoc_put k s (ds_noncesAssigned ds) \<rparr>)"
proof -
  have "list_all P (assoc_put k v kvs)" if "list_all P kvs" "P (k, v)" for P kvs and v :: nonce_state
    using that by (induction kvs) auto
  then show ?thesis using assms by (auto simp: ds_ok_def distinct_assoc_put)
qed

lemma ds_ok_get: "ds_ok db ds \<Longrightarrow> map_of (ds_noncesAssigned ds) k = Some s \<Longrightarrow> ns_new s \<longleftrightarrow> nonce_row k db = None"
  by (auto simp: ds_ok_def list_all_iff dest: map_of_SomeD)

lemma onDNode_eq: "onDNode m (nd, ds) = (r, (nd', ds')) \<longleftrightarrow> m nd = (r, nd') \<and> ds' = ds"
  by (auto simp: onDNode_def split: prod.splits)

lemma modifyDS_eq: "modifyDS f (nd, ds) = (r, (nd', ds')) \<longleftrightarrow> r = Inr () \<and> nd' = nd \<and> ds' = f ds"
  by (auto simp: modifyDS_def)

lemma getNextNonce_spec:
  assumes "getNextNonce E k ctx (nd, ds) = (Inr n, (nd', ds'))" "ds_ok (nd_db nd) ds"
    "nonce_row k (nd_db nd) \<noteq> None \<or> nonce_row ctx (nd_db nd) = None"
  shows "n = next_nonce (nd_db nd) ds k" "next_nonce (nd_db nd) ds' = (next_nonce (nd_db nd) ds)(k := n + 1)"
    "ds_ok (nd_db nd) ds'" "nd_db nd' = nd_db nd"
proof -
  have "n = next_nonce (nd_db nd) ds k \<and> nd_db nd' = nd_db nd \<and>
    (\<exists>s. ds' = ds \<lparr> ds_noncesAssigned := assoc_put k s (ds_noncesAssigned ds) \<rparr> \<and> ns_latest s = n \<and>
       (ns_new s \<longleftrightarrow> nonce_row k (nd_db nd) = None))"
  proof (cases "map_of (ds_noncesAssigned ds) k")
    case (Some c)
    then show ?thesis using assms ds_ok_get [OF assms(2) Some]
      by (auto simp: getNextNonce_def bindM_eq_Inr set_nonce_def modifyDS_eq next_nonce_def)
  next
    case None
    obtain r1 nd1 where r1: "GetNonce E k nd = (Inr r1, nd1)"
      "bindM (case r1 of None \<Rightarrow> onDNode (GetNonce E ctx) | Some r \<Rightarrow> retM (Some r)) (\<lambda>dbNonce.
         let s = (case dbNonce of None \<Rightarrow> \<lparr> ns_latest = 0, ns_new = True \<rparr>
                  | Some r \<Rightarrow> \<lparr> ns_latest = no_Nonce r + 1, ns_new = False \<rparr>)
         in bindM (set_nonce k s) (\<lambda>_. retM (ns_latest s))) (nd1, ds) = (Inr n, (nd', ds'))"
      using assms(1) None by (auto simp: getNextNonce_def bindM_eq_Inr onDNode_eq)
    then have row: "r1 = nonce_row k (nd_db nd)" "nd_db nd1 = nd_db nd" by (auto simp: GetNonce_def db_read_Inr)
    show ?thesis
    proof (cases r1)
      case (Some r)
      then show ?thesis using r1(2) row None
        by (auto simp: bindM_eq_Inr set_nonce_def modifyDS_eq next_nonce_def Let_def)
    next
      case rn: None
      obtain r2 nd2 where g: "GetNonce E ctx nd1 = (Inr r2, nd2)"
          "(let s = (case r2 of None \<Rightarrow> \<lparr> ns_latest = 0, ns_new = True \<rparr>
                  | Some r \<Rightarrow> \<lparr> ns_latest = no_Nonce r + 1, ns_new = False \<rparr>)
            in bindM (set_nonce k s) (\<lambda>_. retM (ns_latest s))) (nd2, ds) = (Inr n, (nd', ds'))"
        using r1(2) rn by (auto simp: bindM_eq_Inr onDNode_eq)
      have nr: "nonce_row k (nd_db nd) = None" using row(1) rn by metis
      have cr: "nonce_row ctx (nd_db nd1) = None" using assms(3) nr row(2) by simp
      have r2: "r2 = None" "nd_db nd2 = nd_db nd" using g(1) cr row(2) by (simp_all add: GetNonce_def db_read_Inr)
      let ?s = "\<lparr> ns_latest = 0, ns_new = True \<rparr>"
      have res: "n = 0" "nd' = nd2" "ds' = ds \<lparr> ds_noncesAssigned := assoc_put k ?s (ds_noncesAssigned ds) \<rparr>"
        using g(2) unfolding r2(1) Let_def option.case bindM_eq_Inr set_nonce_def by (auto simp: modifyDS_eq)
      show ?thesis
      proof (intro conjI exI)
        show "n = next_nonce (nd_db nd) ds k" unfolding next_nonce_def nr None res(1) by simp
        show "nd_db nd' = nd_db nd" unfolding res(2) by (rule r2(2))
        show "ds' = ds \<lparr> ds_noncesAssigned := assoc_put k ?s (ds_noncesAssigned ds) \<rparr>" by (rule res(3))
        show "ns_latest ?s = n" unfolding res(1) by simp
        show "ns_new ?s \<longleftrightarrow> nonce_row k (nd_db nd) = None" unfolding nr by simp
      qed
    qed
  qed
  then obtain s where s: "n = next_nonce (nd_db nd) ds k" "nd_db nd' = nd_db nd" "ns_latest s = n"
      "ds' = ds \<lparr> ds_noncesAssigned := assoc_put k s (ds_noncesAssigned ds) \<rparr>" "ns_new s \<longleftrightarrow> nonce_row k (nd_db nd) = None"
    by (elim conjE exE) (rule that)
  show "n = next_nonce (nd_db nd) ds k" "nd_db nd' = nd_db nd" by (fact s)+
  show "ds_ok (nd_db nd) ds'" using ds_ok_put [OF assms(2) s(5)] s(4) by simp
  show "next_nonce (nd_db nd) ds' = (next_nonce (nd_db nd) ds)(k := n + 1)"
    using s(3,4) by (auto simp: next_nonce_def)
qed

lemma maskContext_pin: "maskContext E msg topic s = (Inr (str, pin), s') \<Longrightarrow> mh_Group (m_Header msg) = Some g \<Longrightarrow>
    \<exists>n. getNextNonce E (nonceKey E topic g (sr_Author (mh_Signer (m_Header msg)))) (privateContext E topic g) s = (Inr n, s') \<and>
      pin = privatePinHash E topic g (sr_Author (mh_Signer (m_Header msg))) n \<and> str = e_hex E pin @ '':'' @ dec16 n"
  by (auto simp: maskContext_def bindM_eq_Inr Let_def privateContext_def privatePinHash_def)

lemma mask_topics_spec:
  assumes "mask_topics E msg topics (nd, ds) = (Inr ps, (nd', ds'))" "ds_ok (nd_db nd) ds"
    "\<And>g topic. mh_Group (m_Header msg) = Some g \<Longrightarrow> topic \<in> set topics \<Longrightarrow>
       nonce_row (nonceKey E topic g (sr_Author (mh_Signer (m_Header msg)))) (nd_db nd) \<noteq> None \<or>
       nonce_row (privateContext E topic g) (nd_db nd) = None"
  shows "spec_topics E msg topics (next_nonce (nd_db nd) ds) = (map snd ps, next_nonce (nd_db nd) ds') \<and>
    ds_ok (nd_db nd) ds' \<and> nd_db nd' = nd_db nd"
  using assms
proof (induction topics arbitrary: nd ds ps)
  case (Cons topic topics)
  obtain str pin nd1 ds1 ps1 where m: "maskContext E msg topic (nd, ds) = (Inr (str, pin), (nd1, ds1))"
      "mask_topics E msg topics (nd1, ds1) = (Inr ps1, (nd', ds'))" "ps = (str, pin) # ps1"
    using Cons.prems(1) by (auto simp: bindM_eq_Inr)
  show ?case
  proof (cases "mh_Group (m_Header msg)")
    case None
    then have "nd1 = nd" "ds1 = ds" "pin = broadcastContext E topic" using m(1) by (auto simp: maskContext_def broadcastContext_def)
    then show ?thesis using Cons.IH [OF m(2)] Cons.prems(2,3) m(3) None by (simp add: Let_def)
  next
    case (Some g)
    let ?k = "nonceKey E topic g (sr_Author (mh_Signer (m_Header msg)))"
    obtain n where n: "getNextNonce E ?k (privateContext E topic g) (nd, ds) = (Inr n, (nd1, ds1))"
        "pin = privatePinHash E topic g (sr_Author (mh_Signer (m_Header msg))) n"
      using maskContext_pin [OF m(1) Some] by blast
    note sp = getNextNonce_spec [OF n(1) Cons.prems(2)]
    have leg: "nonce_row ?k (nd_db nd) \<noteq> None \<or> nonce_row (privateContext E topic g) (nd_db nd) = None"
      using Cons.prems(3) [OF Some] by simp
    have db1: "nd_db nd1 = nd_db nd" and ok1: "ds_ok (nd_db nd1) ds1" using sp leg by simp_all
    have "spec_topics E msg topics (next_nonce (nd_db nd1) ds1) = (map snd ps1, next_nonce (nd_db nd1) ds') \<and>
        ds_ok (nd_db nd1) ds' \<and> nd_db nd' = nd_db nd1"
      by (rule Cons.IH [OF m(2) ok1]) (use Cons.prems(3) db1 in simp)
    then show ?thesis using sp [OF leg] n(2) m(3) Some db1 by (simp add: Let_def)
  qed
qed simp

lemma put_msg_pins_nonce [simp]: "next_nonce db (ds \<lparr> ds_msgPins := x \<rparr>) = next_nonce db ds" "ds_ok db (ds \<lparr> ds_msgPins := x \<rparr>) = ds_ok db ds"
  by (auto simp: next_nonce_def ds_ok_def)

lemma calculateContexts_spec:
  assumes "calculateContexts E msgs (nd, ds) = (Inr pins, (nd', ds'))" "ds_ok (nd_db nd) ds" "list_all (no_legacy E (nd_db nd)) msgs"
  shows "spec_pins E msgs (next_nonce (nd_db nd) ds) = (pins, next_nonce (nd_db nd) ds') \<and>
    ds_ok (nd_db nd) ds' \<and> nd_db nd' = nd_db nd"
  using assms
proof (induction msgs arbitrary: nd ds pins)
  case (Cons msg msgs)
  show ?case
  proof (cases "isPrivate msg \<and> m_Pins msg \<noteq> []")
    case True
    then show ?thesis using Cons by simp
  next
    case False
    obtain ps nd1 ds1 ds2 pins1 where m: "mask_topics E msg (mh_Topics (m_Header msg)) (nd, ds) = (Inr ps, (nd1, ds1))"
        "next_nonce (nd_db nd) ds2 = next_nonce (nd_db nd) ds1" "ds_ok (nd_db nd) ds2 = ds_ok (nd_db nd) ds1"
        "calculateContexts E msgs (nd1, ds2) = (Inr pins1, (nd', ds'))" "pins = map snd ps @ pins1"
      using Cons.prems(1) False
      by (auto simp: bindM_eq_Inr put_msg_pins_def modifyDS_eq split: bool.splits option.splits)
        (metis put_msg_pins_nonce)+
    have leg: "nonce_row (nonceKey E topic g (sr_Author (mh_Signer (m_Header msg)))) (nd_db nd) \<noteq> None \<or>
       nonce_row (privateContext E topic g) (nd_db nd) = None"
      if "mh_Group (m_Header msg) = Some g" "topic \<in> set (mh_Topics (m_Header msg))" for g topic
      using Cons.prems(3) that by (auto simp: no_legacy_def list_all_iff)
    note t = mask_topics_spec [OF m(1) Cons.prems(2) leg]
    have "spec_pins E msgs (next_nonce (nd_db nd1) ds2) = (pins1, next_nonce (nd_db nd1) ds') \<and>
        ds_ok (nd_db nd1) ds' \<and> nd_db nd' = nd_db nd1"
      using Cons.IH [OF m(4)] t m(3) Cons.prems(3) by simp
    then show ?thesis using t m False by (auto simp: Let_def)
  qed
qed simp

lemma nonce_row_insert: "nonce_row h (insert_nonce_row n db) =
    (case nonce_row h db of Some r \<Rightarrow> Some r | None \<Rightarrow> if no_Hash n = h then Some n else None)"
proof -
  have "find P (xs @ [x]) = (case find P xs of Some r \<Rightarrow> Some r | None \<Rightarrow> if P x then Some x else None)" for P xs and x :: nonce
    by (induction xs) auto
  then show ?thesis by (simp add: nonce_row_def insert_nonce_row_def)
qed

lemma nonce_row_update: "nonce_row h (update_nonce_rows n db) =
    map_option (\<lambda>r. if no_Hash r = no_Hash n then r \<lparr> no_Nonce := no_Nonce n \<rparr> else r) (nonce_row h db)"
proof -
  have "find (\<lambda>r. no_Hash r = h) (map (\<lambda>r. if no_Hash r = no_Hash n then r \<lparr> no_Nonce := no_Nonce n \<rparr> else r) xs) =
      map_option (\<lambda>r. if no_Hash r = no_Hash n then r \<lparr> no_Nonce := no_Nonce n \<rparr> else r) (find (\<lambda>r. no_Hash r = h) xs)" for xs
    by (induction xs) auto
  then show ?thesis by (simp add: nonce_row_def update_nonce_rows_def)
qed

lemma nonce_row_hash: "nonce_row h db = Some r \<Longrightarrow> no_Hash r = h"
  unfolding nonce_row_def by (drule find_Some_in) simp

lemma write_nonce_row:
  assumes "write_nonce E (h, s) nd = (Inr (), nd')" "ns_new s \<longleftrightarrow> nonce_row h (nd_db nd) = None"
  shows "nonce_row k (nd_db nd') = (if k = h then Some \<lparr> no_Hash = h, no_Nonce = ns_latest s \<rparr> else nonce_row k (nd_db nd))"
proof (cases "ns_new s")
  case True
  then show ?thesis using assms
    by (auto simp: write_nonce_def Let_def InsertNonce_def db_write_Inr nonce_row_insert split: option.splits)
next
  case False
  then obtain r where r: "nonce_row h (nd_db nd) = Some r" using assms(2) by auto
  then have "r \<lparr> no_Nonce := ns_latest s \<rparr> = \<lparr> no_Hash = h, no_Nonce = ns_latest s \<rparr>"
    using nonce_row_hash [OF r] by (cases r) simp
  moreover have db: "nd_db nd' = update_nonce_rows \<lparr> no_Hash = h, no_Nonce = ns_latest s \<rparr> (nd_db nd)"
    using assms(1) False by (simp add: write_nonce_def Let_def UpdateNonce_def db_write_Inr)
  moreover have "nonce_row k (nd_db nd') = nonce_row k (nd_db nd)" if "k \<noteq> h"
    using that nonce_row_hash [of k "nd_db nd"] unfolding db nonce_row_update
    by (cases "nonce_row k (nd_db nd)") auto
  ultimately show ?thesis using r nonce_row_hash [OF r] by (simp add: nonce_row_update)
qed

lemma flush_nonces_rows:
  assumes "forM kvs (write_nonce E) nd = (Inr (), nd')" "distinct (map fst kvs)"
    "list_all (\<lambda>(h, s). ns_new s \<longleftrightarrow> nonce_row h (nd_db nd) = None) kvs"
  shows "nonce_row k (nd_db nd') = (case map_of kvs k of
    Some s \<Rightarrow> Some \<lparr> no_Hash = k, no_Nonce = ns_latest s \<rparr> | None \<Rightarrow> nonce_row k (nd_db nd))"
  using assms
proof (induction kvs arbitrary: nd)
  case (Cons kv kvs)
  obtain h s where kv: "kv = (h, s)" by (cases kv)
  obtain nd1 where w: "write_nonce E (h, s) nd = (Inr (), nd1)" "forM kvs (write_nonce E) nd1 = (Inr (), nd')"
    using Cons.prems(1) kv by (auto simp: bindM_eq_Inr)
  have row: "nonce_row k (nd_db nd1) = (if k = h then Some \<lparr> no_Hash = h, no_Nonce = ns_latest s \<rparr> else nonce_row k (nd_db nd))" for k
    using write_nonce_row [OF w(1)] Cons.prems(3) kv by simp
  have "list_all (\<lambda>(h, s). ns_new s \<longleftrightarrow> nonce_row h (nd_db nd1) = None) kvs"
    unfolding list_all_iff
  proof (clarify)
    fix h' s' assume "(h', s') \<in> set kvs"
    moreover from this have "h' \<noteq> h" using Cons.prems(2) kv by (metis distinct.simps(2) fst_conv image_eqI list.set_map list.simps(9))
    ultimately show "ns_new s' = (nonce_row h' (nd_db nd1) = None)"
      using Cons.prems(3) row by (auto simp: list_all_iff)
  qed
  from Cons.IH [OF w(2) _ this] Cons.prems(2) kv have ih: "nonce_row k (nd_db nd') = (case map_of kvs k of
      Some s \<Rightarrow> Some \<lparr> no_Hash = k, no_Nonce = ns_latest s \<rparr> | None \<Rightarrow> nonce_row k (nd_db nd1))" by simp
  have "k = h \<Longrightarrow> map_of kvs k = None" using Cons.prems(2) kv by (auto simp: map_of_eq_None_iff)
  with ih row show ?case using kv by (auto split: option.splits)
qed simp

lemma flushNonceState_counters:
  assumes "flushNonceState E (nd, ds) = (Inr (), (nd', ds'))" "ds_ok (nd_db nd) ds"
  shows "counters (nd_db nd') = next_nonce (nd_db nd) ds"
proof
  fix k
  have f: "forM (ds_noncesAssigned ds) (write_nonce E) nd = (Inr (), nd')"
    using assms(1) by (simp add: flushNonceState_def onDNode_eq)
  show "counters (nd_db nd') k = next_nonce (nd_db nd) ds k"
    using flush_nonces_rows [OF f, of k] assms(2)
    by (simp add: counters_def next_nonce_def ds_ok_def split: option.splits)
qed

section \<open>Sealing\<close>

lemma counters_cong: "db_nonces db = db_nonces db' \<Longrightarrow> counters db = counters db'"
  by (simp add: counters_def nonce_row_def fun_eq_iff)

lemma keeps_tx_heap [keeps_intros]:
  "keeps (\<lambda>nd. f (nd_db nd)) (tx_alloc tx)" "keeps (\<lambda>nd. f (nd_db nd)) (updateTransactionsCache E ptr)"
  unfolding updateTransactionsCache_def tx_deref_def
  by (intro keeps_intros keeps_modify | simp add: keeps_def tx_alloc_def)+

lemma keeps_nonces_SubmitNewTransaction [keeps_intros]: "keeps (\<lambda>nd. db_nonces (nd_db nd)) (SubmitNewTransaction E ns ty key)"
  unfolding SubmitNewTransaction_def InsertTransaction_def attemptInsertTxn_def insert_failure_def GetTransactions_def
    insert_submitted_event_def InsertEvent_def cache_transaction_def
  by (intro keeps_intros keeps_db_op_db keeps_db_write)
    (auto simp: insert_tx_row_def insert_event_row_def split: if_splits)

lemma keeps_nonces_InsertOrGetBatch [keeps_intros]: "keeps (\<lambda>nd. db_nonces (nd_db nd)) (InsertOrGetBatch E b)"
  unfolding InsertOrGetBatch_def by (intro keeps_db_op_db) (auto split: option.splits)

lemma keeps_onDNode [keeps_intros]: "keeps (\<lambda>nd. f (nd_db nd)) m \<Longrightarrow> keeps (\<lambda>s. f (nd_db (fst s))) (onDNode m)"
  by (auto simp: keeps_def onDNode_def split: prod.splits) (metis snd_conv)

lemma keeps_nonces_updateMessagePins [keeps_intros]: "keeps (\<lambda>s. db_nonces (nd_db (fst s))) (updateMessagePins E ns msgs)"
  unfolding updateMessagePins_def UpdateMessage_pins_def UpdateMessages_def
  by (intro keeps_intros keeps_onDNode [where f = db_nonces] keeps_db_write) simp

lemma keeps_db_UpdateMessageIfCached [keeps_intros]: "keeps (\<lambda>nd. f (nd_db nd)) (UpdateMessageIfCached E ns msg)"
  unfolding UpdateMessageIfCached_def by (intro keeps_intros)

lemma keeps_db_set_pins [keeps_intros]: "keeps (\<lambda>nd. f (nd_db nd)) (set_pins E ns ds msgs)"
proof (induction msgs)
  case (Cons msg msgs)
  show ?case unfolding set_pins.simps by (intro keeps_intros Cons.IH)
qed (simp add: keeps_ret)

text \<open>Attempts that fail and leave an observation as it was come down to the one that succeeds.\<close>

lemma retryM_Inr:
  assumes "retryM n m s = (Inr x, s')" "\<And>t e t'. m t = (Inl e, t') \<Longrightarrow> f t' = f t"
  shows "\<exists>t. f t = f s \<and> m t = (Inr x, s')"
  using assms(1)
proof (induction n arbitrary: s)
  case (Suc n)
  obtain r t where m: "m s = (r, t)" by (cases "m s")
  show ?case
  proof (cases r)
    case (Inl e)
    then have "retryM n m t = (Inr x, s')" using Suc.prems m by (auto split: fferr.splits)
    from Suc.IH [OF this] assms(2) m Inl show ?thesis by metis
  next
    case (Inr y)
    then show ?thesis using Suc.prems m by auto
  qed
qed simp

lemma seal_attempt_Inr:
  assumes "seal_attempt E bg conf payload nd = (Inr (payload', ds), nd')"
  obtains pins nd1 nd2 nd3 tx r where
    "seal_pins E bg conf payload (nd, newDispatchState) = (Inr pins, (nd1, ds))"
    "seal_tx E bg conf payload nd1 = (Inr tx, nd2)"
    "payload' = seal_manifest E conf tx (payload \<lparr> dp_Pins := pins \<rparr>)"
    "InsertOrGetBatch E (dp_Batch payload') nd2 = (Inr r, nd3)" "nd_db nd' = nd_db nd3"
  using assms unfolding seal_attempt_def
  by (elim run_as_group_Inr)
    (auto simp: bindM_eq_Inr onDNode_eq Let_def split: prod.splits sum.splits)


lemma seal_manifest_simps [simp]:
  "dp_Messages (seal_manifest E conf tx p) = dp_Messages p" "dp_Pins (seal_manifest E conf tx p) = dp_Pins p"
  "dp_Data (seal_manifest E conf tx p) = dp_Data p"
  by (simp_all add: seal_manifest_def Let_def)

lemma seal_manifest_batch:
  "bpd_Manifest (dp_Batch (seal_manifest E conf tx p)) = BatchManifest_String E
     (GenManifest (dp_Batch (seal_manifest E conf tx p)) (map Some (dp_Messages p)) (map Some (dp_Data p)))"
  "bpd_Hash (dp_Batch (seal_manifest E conf tx p)) =
     Some (e_sha256 E (bytes_of (bpd_Manifest (dp_Batch (seal_manifest E conf tx p)))))"
  "bpd_Header (dp_Batch (seal_manifest E conf tx p)) = bpd_Header (dp_Batch p)"
  by (simp_all add: seal_manifest_def Let_def GenManifest_def)

text \<open>The pins that are set on the messages after the database group are not part of the manifest.\<close>

lemma set_pins_headers:
  "set_pins E ns ds msgs nd = (Inr msgs', nd') \<Longrightarrow> map m_Header msgs' = map m_Header msgs \<and> map m_Hash msgs' = map m_Hash msgs"
proof (induction msgs arbitrary: msgs' nd)
  case (Cons msg msgs)
  from Cons.prems Cons.IH show ?case by (fastforce simp: bindM_eq_Inr Let_def split: option.splits)
qed simp

lemma sealBatch_attempt:
  assumes "sealBatch E bg conf n payload nd = (Inr payload', nd')" "e_atomic E"
  obtains p1 ds t nd1 where "nd_db t = nd_db nd" "seal_attempt E bg conf payload t = (Inr (p1, ds), nd1)"
    "dp_Batch payload' = dp_Batch p1" "dp_Data payload' = dp_Data p1" "dp_Pins payload' = dp_Pins p1"
    "map m_Header (dp_Messages payload') = map m_Header (dp_Messages p1)"
    "map m_Hash (dp_Messages payload') = map m_Hash (dp_Messages p1)" "nd_db nd' = nd_db nd1"
proof -
  obtain p1 ds nd1 where a: "retryM n (seal_attempt E bg conf payload) nd = (Inr (p1, ds), nd1)"
    and s: "(if IsPinned (bc_txType conf)
       then bindM (set_pins E (bg_namespace bg) ds (dp_Messages p1)) (\<lambda>msgs. retM (p1 \<lparr> dp_Messages := msgs \<rparr>))
       else retM p1) nd1 = (Inr payload', nd')"
    using assms(1) by (auto simp: sealBatch_def bindM_eq_Inr)
  have roll: "nd_db t' = nd_db t" if "seal_attempt E bg conf payload t = (Inl e, t')" for t e t'
    using run_as_group_rollback [OF assms(2)] that by (simp add: seal_attempt_def)
  obtain t where t: "nd_db t = nd_db nd" "seal_attempt E bg conf payload t = (Inr (p1, ds), nd1)"
    using retryM_Inr [where f = nd_db, OF a] roll by blast
  have "nd_db nd' = nd_db nd1"
    using s keepsD [OF keeps_db_set_pins [where f = "\<lambda>x. x"]] by (auto simp: bindM_eq_Inr split: if_splits)
  moreover have "map m_Header (dp_Messages payload') = map m_Header (dp_Messages p1)
      \<and> map m_Hash (dp_Messages payload') = map m_Hash (dp_Messages p1)"
    using s by (auto simp: bindM_eq_Inr split: if_splits dest: set_pins_headers)
  moreover have "dp_Batch payload' = dp_Batch p1" "dp_Data payload' = dp_Data p1" "dp_Pins payload' = dp_Pins p1"
    using s by (auto simp: bindM_eq_Inr split: if_splits)
  ultimately show ?thesis using that t by blast
qed

lemma GenManifest_cong:
  assumes "map m_Header msgs = map m_Header msgs'" "map m_Hash msgs = map m_Hash msgs'"
  shows "GenManifest b (map Some msgs) data = GenManifest b (map Some msgs') data"
proof -
  have "manifest_entries (map Some msgs) = manifest_entries (map Some msgs')"
    using assms
  proof (induction msgs arbitrary: msgs')
    case (Cons m msgs)
    then show ?case by (cases msgs') (auto simp: manifest_entries_def)
  qed simp
  then show ?thesis by (simp add: GenManifest_def Manifest_def)
qed

lemma keeps_SubmitNewTransaction [keeps_intros]:
  assumes "\<And>db x. f (db \<lparr> db_txs := x \<rparr>) = f db" "\<And>db x y. f (db \<lparr> db_events := x, db_evseq := y \<rparr>) = f db"
  shows "keeps (\<lambda>nd. f (nd_db nd)) (SubmitNewTransaction E ns ty key)"
  unfolding SubmitNewTransaction_def InsertTransaction_def attemptInsertTxn_def insert_failure_def GetTransactions_def
    insert_submitted_event_def InsertEvent_def cache_transaction_def
  by (intro keeps_intros keeps_db_op_db keeps_db_write)
    (auto simp: insert_tx_row_def insert_event_row_def assms split: if_splits)

lemma keeps_seal_tx:
  assumes "\<And>db x. f (db \<lparr> db_txs := x \<rparr>) = f db" "\<And>db x y. f (db \<lparr> db_events := x, db_evseq := y \<rparr>) = f db"
  shows "keeps (\<lambda>nd. f (nd_db nd)) (seal_tx E bg conf payload)"
  unfolding seal_tx_def by (intro keeps_intros keeps_SubmitNewTransaction assms)

lemma keeps_modifyDS [keeps_intros]: "keeps (\<lambda>s. f (nd_db (fst s))) (modifyDS g)"
  by (auto simp: keeps_def modifyDS_def modifyM_def)

lemma keeps_GetNonce [keeps_intros]: "keeps (\<lambda>nd. f (nd_db nd)) (GetNonce E h)"
  unfolding GetNonce_def by (rule keeps_db_read)

lemma keeps_maskContext [keeps_intros]: "keeps (\<lambda>s. f (nd_db (fst s))) (maskContext E msg topic)"
  unfolding maskContext_def getNextNonce_def set_nonce_def Let_def by (intro keeps_intros)

lemma keeps_mask_topics [keeps_intros]: "keeps (\<lambda>s. f (nd_db (fst s))) (mask_topics E msg topics)"
  by (induction topics) (auto intro!: keeps_intros)

lemma keeps_calculateContexts [keeps_intros]: "keeps (\<lambda>s. f (nd_db (fst s))) (calculateContexts E msgs)"
proof (induction msgs)
  case (Cons msg msgs)
  then show ?case unfolding calculateContexts.simps put_msg_pins_def by (intro keeps_intros)
qed (simp add: keeps_ret)

lemma keeps_flushNonceState:
  assumes "\<And>db x. f (db \<lparr> db_nonces := x \<rparr>) = f db"
  shows "keeps (\<lambda>s. f (nd_db (fst s))) (flushNonceState E)"
proof -
  have "keeps (\<lambda>nd. f (nd_db nd)) (write_nonce E hs)" for hs
    unfolding write_nonce_def InsertNonce_def UpdateNonce_def Let_def
    by (cases hs) (auto intro!: keeps_intros keeps_db_write simp: assms insert_nonce_row_def update_nonce_rows_def split: option.splits)
  then have "keeps (\<lambda>nd. f (nd_db nd)) (forM kvs (write_nonce E))" for kvs by (intro keeps_intros)
  then show ?thesis
    by (auto simp: flushNonceState_def onDNode_def keeps_def split: prod.splits) (metis snd_conv)
qed

lemma keeps_seal_pins:
  assumes "\<And>db x. f (db \<lparr> db_nonces := x \<rparr>) = f db" "\<And>db x. f (db \<lparr> db_messages := x \<rparr>) = f db"
  shows "keeps (\<lambda>s. f (nd_db (fst s))) (seal_pins E bg conf payload)"
  unfolding seal_pins_def updateMessagePins_def UpdateMessage_pins_def UpdateMessages_def
  by (intro keeps_intros keeps_onDNode [where f = f] keeps_flushNonceState keeps_db_write assms)

lemma InsertOrGetBatch_row:
  assumes "InsertOrGetBatch E b nd = (Inr r, nd')" "batch_row (bh_Namespace (bpd_Header b)) (bh_ID (bpd_Header b)) (nd_db nd) = None"
  shows "batch_row (bh_Namespace (bpd_Header b)) (bh_ID (bpd_Header b)) (nd_db nd') = Some b"
proof -
  have "find P (xs @ [x]) = Some x" if "find P xs = None" "P x" for P xs and x :: batch_persisted
    using that by (induction xs) (auto split: if_splits)
  then show ?thesis using assms by (auto simp: InsertOrGetBatch_def db_op_Inr batch_row_def)
qed

text \<open>C24: A sealed batch is stored as it is sent: unless a batch with its identifier was there before, the row of the
  batch is the batch of the payload, its manifest is the manifest of the messages and the data in the payload
  that is dispatched, and its hash is the hash of that manifest.\<close>

theorem sealed_batch_stored:
  assumes "e_atomic E" "sealBatch E bg conf n payload nd = (Inr payload', nd')"
    and "hdr = bpd_Header (dp_Batch payload)" "batch_row (bh_Namespace hdr) (bh_ID hdr) (nd_db nd) = None"
  shows "let b = dp_Batch payload'; manifest = GenManifest b (map Some (dp_Messages payload')) (map Some (dp_Data payload')) in
    batch_row (bh_Namespace hdr) (bh_ID hdr) (nd_db nd') = Some b \<and> bpd_Header b = hdr \<and>
    bpd_Manifest b = BatchManifest_String E manifest \<and>
    bpd_Hash b = Some (e_sha256 E (bytes_of (BatchManifest_String E manifest)))"
proof -
  from sealBatch_attempt [OF assms(2,1)] obtain p1 ds t nd1 where
    t: "nd_db t = nd_db nd" "seal_attempt E bg conf payload t = (Inr (p1, ds), nd1)"
    and p: "dp_Batch payload' = dp_Batch p1" "dp_Data payload' = dp_Data p1"
      "map m_Header (dp_Messages payload') = map m_Header (dp_Messages p1)"
      "map m_Hash (dp_Messages payload') = map m_Hash (dp_Messages p1)" "nd_db nd' = nd_db nd1" by metis
  from seal_attempt_Inr [OF t(2)] obtain pins nd2 nd3 nd4 tx r where
    sp: "seal_pins E bg conf payload (t, newDispatchState) = (Inr pins, (nd2, ds))"
    and tx: "seal_tx E bg conf payload nd2 = (Inr tx, nd3)" and p1: "p1 = seal_manifest E conf tx (payload \<lparr> dp_Pins := pins \<rparr>)"
    and ib: "InsertOrGetBatch E (dp_Batch p1) nd3 = (Inr r, nd4)" "nd_db nd1 = nd_db nd4" by metis
  have hdr: "bpd_Header (dp_Batch p1) = hdr" using seal_manifest_batch(3) p1 assms(3) by simp
  have "db_batches (nd_db nd2) = db_batches (nd_db t)"
    using keepsD [OF keeps_seal_pins [where f = db_batches] sp] by simp
  moreover have "db_batches (nd_db nd3) = db_batches (nd_db nd2)"
    using keepsD [OF keeps_seal_tx [where f = db_batches] tx] by simp
  ultimately have "batch_row (bh_Namespace hdr) (bh_ID hdr) (nd_db nd3) = None"
    using assms(4) t(1) by (simp add: batch_row_def)
  with InsertOrGetBatch_row [OF ib(1)] hdr p(1,5) ib(2)
  have "batch_row (bh_Namespace hdr) (bh_ID hdr) (nd_db nd') = Some (dp_Batch payload')" by simp
  moreover have "bpd_Manifest (dp_Batch p1) = BatchManifest_String E
      (GenManifest (dp_Batch p1) (map Some (dp_Messages payload')) (map Some (dp_Data payload')))"
    using seal_manifest_batch(1) [of E conf tx "payload \<lparr> dp_Pins := pins \<rparr>"] GenManifest_cong [OF p(3,4)] p(2) p1 by simp
  moreover have "bpd_Hash (dp_Batch p1) = Some (e_sha256 E (bytes_of (bpd_Manifest (dp_Batch p1))))"
    using seal_manifest_batch(2) p1 by simp
  ultimately show ?thesis using hdr p(1) by (simp add: Let_def)
qed

section \<open>Marking\<close>

lemma forM_events:
  assumes "forM xs g nd = (Inr (), nd')"
    and "\<And>x nd nd'. x \<in> set xs \<Longrightarrow> g x nd = (Inr (), nd') \<Longrightarrow> \<exists>evs. db_events (nd_db nd') = db_events (nd_db nd) @ evs \<and> map k evs = ks x"
  shows "\<exists>evs. db_events (nd_db nd') = db_events (nd_db nd) @ evs \<and> map k evs = concat (map ks xs)"
  using assms
proof (induction xs arbitrary: nd)
  case (Cons x xs)
  obtain nd1 where g: "g x nd = (Inr (), nd1)" "forM xs g nd1 = (Inr (), nd')"
    using Cons.prems(1) by (auto simp: bindM_eq_Inr)
  from Cons.prems(2) [OF _ g(1)] obtain e1 where "db_events (nd_db nd1) = db_events (nd_db nd) @ e1" "map k e1 = ks x" by auto
  moreover from Cons.IH [OF g(2) Cons.prems(2)] obtain e2 where
    "db_events (nd_db nd') = db_events (nd_db nd1) @ e2" "map k e2 = concat (map ks xs)" by auto
  ultimately show ?case by (intro exI [of _ "e1 @ e2"]) simp
qed simp

definition event_key :: "event \<Rightarrow> event_type \<times> uuid option \<times> uuid option \<times> string" where
  "event_key e = (ev_Type e, ev_Reference e, ev_Correlator e, ev_Topic e)"

definition confirmed_keys :: "message \<Rightarrow> (event_type \<times> uuid option \<times> uuid option \<times> string) list" where
  "confirmed_keys msg = map (\<lambda>topic. (ET_MessageConfirmed, mh_ID (m_Header msg), mh_CID (m_Header msg), topic)) (mh_Topics (m_Header msg))"

lemma confirmed_event_row:
  assumes "confirmed_event E b msg topic nd = (Inr (), nd')"
  shows "\<exists>evs. db_events (nd_db nd') = db_events (nd_db nd) @ evs \<and>
    map event_key evs = [(ET_MessageConfirmed, mh_ID (m_Header msg), mh_CID (m_Header msg), topic)]"
proof -
  obtain i nd1 t nd2 ev where d: "newUUID E nd = (Inr i, nd1)" "nowM E nd1 = (Inr t, nd2)" "InsertEvent E ev nd2 = (Inr (), nd')"
      "ev = (NewEvent i t ET_MessageConfirmed (bh_Namespace (bpd_Header b)) (mh_ID (m_Header msg)) (tr_ID (bpd_TX b)) topic)
         \<lparr> ev_Correlator := mh_CID (m_Header msg) \<rparr>"
    using assms by (auto simp: confirmed_event_def bindM_eq_Inr)
  have "nd_db nd2 = nd_db nd"
    using keepsD [OF keeps_newUUID [where f = "\<lambda>x. x"] d(1)] keepsD [OF keeps_nowM [where f = "\<lambda>x. x"] d(2)] by simp
  with d(3,4) show ?thesis
    by (auto simp: InsertEvent_def db_write_Inr insert_event_row_def event_key_def NewEvent_def)
qed

lemma keeps_confirmed_event [keeps_intros]: "keeps (\<lambda>nd. db_messages (nd_db nd)) (confirmed_event E b msg topic)"
  unfolding confirmed_event_def InsertEvent_def by (intro keeps_intros keeps_db_write) (simp add: insert_event_row_def)

lemma mark_message_simps [simp]: "m_Header (mark_message conf b t m) = m_Header m"
  "m_LocalNamespace (mark_message conf b t m) = m_LocalNamespace m" "m_Sequence (mark_message conf b t m) = m_Sequence m"
  by (simp_all add: mark_message_def Let_def)

lemma marked_not_ready [simp]: "m_State (mark_message conf b t m) \<noteq> MS_Ready"
  by (simp add: mark_message_def Let_def)

lemma confirmed_keys_mark [simp]: "confirmed_keys (mark_message conf b t m) = confirmed_keys m"
  by (simp add: confirmed_keys_def)

lemma mark_attempt_Inr:
  assumes "mark_attempt E bg conf payload nd = (Inr (), nd')"
  shows "\<exists>now. db_messages (nd_db nd') = map (\<lambda>m.
       if m_LocalNamespace m = bg_namespace bg \<and> mh_ID (m_Header m) \<in> (\<lambda>x. mh_ID (m_Header x)) ` set (dp_Messages payload) \<and> m_State m = MS_Ready
       then mark_message conf (dp_Batch payload) now m else m) (db_messages (nd_db nd))"
    "\<exists>evs. db_events (nd_db nd') = db_events (nd_db nd) @ evs \<and>
       map event_key evs = (if IsPinned (bc_txType conf) then [] else concat (map confirmed_keys (dp_Messages payload)))"
proof -
  let ?msgs = "\<lambda>now. map (mark_message conf (dp_Batch payload) now) (dp_Messages payload)"
  obtain now nd0 nd1 nd2 nd3 where m: "nowM E nd = (Inr now, nd0)"
      "forM (?msgs now) (UpdateMessageIfCached E (bg_namespace bg)) nd0 = (Inr (), nd1)"
      "UpdateMessages E (bg_namespace bg)
              (\<lambda>m. mh_ID (m_Header m) \<in> set (map (\<lambda>x. mh_ID (m_Header x)) (?msgs now)) \<and> m_State m = MS_Ready)
              (mark_message conf (dp_Batch payload) now) nd1 = (Inr (), nd2)"
      "(if IsPinned (bc_txType conf) then retM ()
     else forM (?msgs now) (\<lambda>msg. forM (mh_Topics (m_Header msg)) (confirmed_event E (dp_Batch payload) msg))) nd2 = (Inr (), nd3)"
      "nd_db nd' = nd_db nd3"
    using assms unfolding mark_attempt_def by (elim run_as_group_Inr) (auto simp: bindM_eq_Inr Let_def image_image)
  have db1: "nd_db nd1 = nd_db nd"
    using keepsD [OF keeps_nowM [where f = "\<lambda>x. x"] m(1)]
      keepsD [OF keeps_forM [OF keeps_db_UpdateMessageIfCached [where f = "\<lambda>x. x"]] m(2)] by simp
  have db2: "nd_db nd2 = nd_db nd \<lparr> db_messages := map (\<lambda>m.
       if m_LocalNamespace m = bg_namespace bg \<and> mh_ID (m_Header m) \<in> (\<lambda>x. mh_ID (m_Header x)) ` set (dp_Messages payload) \<and> m_State m = MS_Ready
       then mark_message conf (dp_Batch payload) now m else m) (db_messages (nd_db nd)) \<rparr>"
    using m(3) db1 by (simp add: UpdateMessages_def db_write_Inr image_image)
  have "db_messages (nd_db nd3) = db_messages (nd_db nd2)"
  proof (cases "IsPinned (bc_txType conf)")
    case False
    have "keeps (\<lambda>nd. db_messages (nd_db nd)) (forM (?msgs now) (\<lambda>msg. forM (mh_Topics (m_Header msg)) (confirmed_event E (dp_Batch payload) msg)))"
      by (intro keeps_intros)
    from keepsD [OF this] show ?thesis using m(4) False by simp
  qed (use m(4) in simp)
  with db2 m(5) show "\<exists>now. db_messages (nd_db nd') = map (\<lambda>m.
       if m_LocalNamespace m = bg_namespace bg \<and> mh_ID (m_Header m) \<in> (\<lambda>x. mh_ID (m_Header x)) ` set (dp_Messages payload) \<and> m_State m = MS_Ready
       then mark_message conf (dp_Batch payload) now m else m) (db_messages (nd_db nd))" by auto
  show "\<exists>evs. db_events (nd_db nd') = db_events (nd_db nd) @ evs \<and>
       map event_key evs = (if IsPinned (bc_txType conf) then [] else concat (map confirmed_keys (dp_Messages payload)))"
  proof (cases "IsPinned (bc_txType conf)")
    case True
    then show ?thesis using m(4,5) db2 by simp
  next
    case False
    then have f: "forM (?msgs now) (\<lambda>msg. forM (mh_Topics (m_Header msg)) (confirmed_event E (dp_Batch payload) msg)) nd2 = (Inr (), nd3)"
      using m(4) by simp
    have g: "\<exists>evs. db_events (nd_db t') = db_events (nd_db t) @ evs \<and> map event_key evs = confirmed_keys x"
      if "forM (mh_Topics (m_Header x)) (confirmed_event E (dp_Batch payload) x) t = (Inr (), t')" for x t t'
      using forM_events [OF that confirmed_event_row] by (simp add: confirmed_keys_def concat_map_singleton)
    from forM_events [where k = event_key and ks = confirmed_keys, OF f g] False m(5) db2 show ?thesis
      by (simp add: comp_def)
  qed
qed

lemma markPayloadDispatched_effect:
  assumes "e_atomic E" "markPayloadDispatched E bg conf n payload nd = (Inr (), nd')"
  shows "(\<exists>now. db_messages (nd_db nd') = map (\<lambda>m.
       if m_LocalNamespace m = bg_namespace bg \<and> mh_ID (m_Header m) \<in> (\<lambda>x. mh_ID (m_Header x)) ` set (dp_Messages payload) \<and> m_State m = MS_Ready
       then mark_message conf (dp_Batch payload) now m else m) (db_messages (nd_db nd))) \<and>
    (\<exists>evs. db_events (nd_db nd') = db_events (nd_db nd) @ evs \<and>
       map event_key evs = (if IsPinned (bc_txType conf) then [] else concat (map confirmed_keys (dp_Messages payload))))"
proof -
  have roll: "nd_db t' = nd_db t" if "mark_attempt E bg conf payload t = (Inl e, t')" for t e t'
    using run_as_group_rollback [OF assms(1)] that by (simp add: mark_attempt_def)
  obtain t where t: "nd_db t = nd_db nd" "mark_attempt E bg conf payload t = (Inr (), nd')"
    using retryM_Inr [where f = nd_db, OF assms(2) [unfolded markPayloadDispatched_def]] roll by blast
  from mark_attempt_Inr [OF t(2)] t(1) show ?thesis by simp
qed

text \<open>C25: The end of a flush marks exactly the messages of the batch that are still ready: they get the batch, its
  transaction and the state sent (confirmed when the transaction type has no pins), every other row stays as it is, and
  a batch without pins leads to one confirmation event per message and topic, in order, however many attempts failed.\<close>

theorem flush_marks_ready_messages:
  assumes "e_atomic E" "markPayloadDispatched E bg conf n payload nd = (Inr (), nd')"
  shows "(\<exists>now. db_messages (nd_db nd') = map (\<lambda>m.
       if m_LocalNamespace m = bg_namespace bg \<and> mh_ID (m_Header m) \<in> (\<lambda>x. mh_ID (m_Header x)) ` set (dp_Messages payload) \<and> m_State m = MS_Ready
       then mark_message conf (dp_Batch payload) now m else m) (db_messages (nd_db nd))) \<and>
    (\<exists>evs. db_events (nd_db nd') = db_events (nd_db nd) @ evs \<and>
       map event_key evs = (if IsPinned (bc_txType conf) then [] else concat (map confirmed_keys (dp_Messages payload))))"
  by (rule markPayloadDispatched_effect [OF assms])

section \<open>Contexts of a sealed batch\<close>

lemma mask_topics_broadcast:
  "mh_Group (m_Header msg) = None \<Longrightarrow> mask_topics E msg topics s = (r, s') \<Longrightarrow>
     s' = s \<and> r = Inr (map (\<lambda>t. ('''', e_sha256 E (bytes_of t))) topics)"
proof (induction topics arbitrary: r s')
  case (Cons topic topics)
  then show ?case by (auto simp: maskContext_def bindM_def retM_def split: sum.splits prod.splits)
qed simp

lemma calculateContexts_broadcast:
  "list_all (\<lambda>m. \<not> isPrivate m) msgs \<Longrightarrow> calculateContexts E msgs s = (Inr pins, s') \<Longrightarrow>
     LoadContexts E msgs = Inr pins \<and> ds_msgPins (snd s') = ds_msgPins (snd s)"
proof (induction msgs arbitrary: pins s)
  case (Cons msg msgs)
  then have b: "mh_Group (m_Header msg) = None" "\<not> isPrivate msg" by (simp_all add: isPrivate_def)
  obtain ps s1 pins1 where c: "mask_topics E msg (mh_Topics (m_Header msg)) s = (Inr ps, s1)"
      "calculateContexts E msgs s1 = (Inr pins1, s')" "pins = map snd ps @ pins1"
    using Cons.prems(2) b by (auto simp: bindM_eq_Inr split: option.splits)
  from mask_topics_broadcast [OF b(1) c(1)] c Cons b show ?case by (auto simp: loadContext_def)
qed simp

lemma set_pins_none: "ds_msgPins ds = [] \<Longrightarrow> set_pins E ns ds msgs nd = (Inr msgs', nd') \<Longrightarrow> msgs' = msgs"
proof (induction msgs arbitrary: msgs' nd)
  case (Cons msg msgs)
  from Cons.prems Cons.IH [OF Cons.prems(1)] show ?case
    by (auto simp: bindM_eq_Inr split: option.splits)
qed simp

lemma keeps_msgPins_onDNode [keeps_intros]: "keeps (\<lambda>s. ds_msgPins (snd s)) (onDNode m)"
  by (auto simp: keeps_def onDNode_def split: prod.splits)

lemma keeps_msgPins_set_nonce [keeps_intros]: "keeps (\<lambda>s. ds_msgPins (snd s)) (set_nonce k v)"
  by (auto simp: keeps_def set_nonce_def modifyDS_def modifyM_def)

lemma keeps_msgPins_flush [keeps_intros]: "keeps (\<lambda>s. ds_msgPins (snd s)) (flushNonceState E)"
  by (auto simp: keeps_def flushNonceState_def onDNode_def split: prod.splits)

lemma keeps_msgPins_update [keeps_intros]: "keeps (\<lambda>s. ds_msgPins (snd s)) (updateMessagePins E ns msgs)"
  unfolding updateMessagePins_def by (intro keeps_intros)

text \<open>The sealing of a pinned batch, down to the contexts of its last attempt and the pins set on the messages.\<close>

lemma sealBatch_pinned:
  assumes "sealBatch E bg conf n payload nd = (Inr payload', nd')" "IsPinned (bc_txType conf)"
  obtains t s1 ds nd1 nd2 where "calculateContexts E (dp_Messages payload) (t, newDispatchState) = (Inr (dp_Pins payload'), s1)"
    "ds_msgPins ds = ds_msgPins (snd s1)"
    "set_pins E (bg_namespace bg) ds (dp_Messages payload) nd1 = (Inr (dp_Messages payload'), nd2)"
proof -
  obtain p1 ds nd1 nd2 msgs' where s: "retryM n (seal_attempt E bg conf payload) nd = (Inr (p1, ds), nd1)"
      "set_pins E (bg_namespace bg) ds (dp_Messages p1) nd1 = (Inr msgs', nd2)" "payload' = p1 \<lparr> dp_Messages := msgs' \<rparr>"
    using assms by (auto simp: sealBatch_def bindM_eq_Inr)
  obtain t where "seal_attempt E bg conf payload t = (Inr (p1, ds), nd1)"
    using retryM_Inr [where f = "\<lambda>_. ()", OF s(1)] by auto
  from seal_attempt_Inr [OF this] obtain pins nd3 tx where
    sp: "seal_pins E bg conf payload (t, newDispatchState) = (Inr pins, (nd3, ds))"
    and p1: "p1 = seal_manifest E conf tx (payload \<lparr> dp_Pins := pins \<rparr>)" by metis
  obtain s1 s2 where c: "calculateContexts E (dp_Messages payload) (t, newDispatchState) = (Inr pins, s1)"
      "flushNonceState E s1 = (Inr (), s2)" "updateMessagePins E (bg_namespace bg) (dp_Messages payload) s2 = (Inr (), (nd3, ds))"
    using sp assms(2) by (auto simp: seal_pins_def bindM_eq_Inr)
  show ?thesis
    by (rule that [of t s1 ds nd1 nd2])
      (use c(1) s(2,3) p1 keepsD [OF keeps_msgPins_flush c(2)] keepsD [OF keeps_msgPins_update c(3)] in simp_all)
qed

text \<open>C26: The contexts of a sealed broadcast batch can be reconstructed from its messages: \<open>LoadContexts\<close> on the
  messages of the payload gives the pins that were sealed into it.\<close>

theorem broadcast_contexts_reload:
  assumes "IsPinned (bc_txType conf)" "list_all (\<lambda>m. \<not> isPrivate m) (dp_Messages payload)"
    and "sealBatch E bg conf n payload nd = (Inr payload', nd')"
  shows "LoadContexts E (dp_Messages payload') = Inr (dp_Pins payload')"
proof -
  from sealBatch_pinned [OF assms(3,1)] obtain t s1 ds nd1 nd2 where
    c: "calculateContexts E (dp_Messages payload) (t, newDispatchState) = (Inr (dp_Pins payload'), s1)"
    and ds: "ds_msgPins ds = ds_msgPins (snd s1)"
    and set: "set_pins E (bg_namespace bg) ds (dp_Messages payload) nd1 = (Inr (dp_Messages payload'), nd2)" .
  note l = calculateContexts_broadcast [OF assms(2) c]
  then have "ds_msgPins ds = []" using ds by (simp add: newDispatchState_def)
  from set_pins_none [OF this set] l show ?thesis by simp
qed

text \<open>The pin strings a sealing gives to a message hold a colon.\<close>

definition colon_pins :: "dispatch_state \<Rightarrow> bool" where
  "colon_pins ds \<longleftrightarrow> list_all (\<lambda>(i, ps). list_all (\<lambda>p. CHR '':'' \<in> set p) ps) (ds_msgPins ds)"

lemma mask_topics_colon:
  "mask_topics E msg topics s = (Inr ps, s') \<Longrightarrow> mh_Group (m_Header msg) = Some g \<Longrightarrow>
     list_all (\<lambda>p. CHR '':'' \<in> set p) (map fst ps) \<and> ds_msgPins (snd s') = ds_msgPins (snd s)"
proof (induction topics arbitrary: ps s)
  case (Cons topic topics)
  have k: "keeps (\<lambda>s. ds_msgPins (snd s)) (getNextNonce E h c)" for h c
    unfolding getNextNonce_def Let_def by (intro keeps_intros)
  obtain str pin s1 ps1 where m: "maskContext E msg topic s = (Inr (str, pin), s1)"
      "mask_topics E msg topics s1 = (Inr ps1, s')" "ps = (str, pin) # ps1"
    using Cons.prems(1) by (auto simp: bindM_eq_Inr)
  obtain n where "getNextNonce E (nonceKey E topic g (sr_Author (mh_Signer (m_Header msg)))) (privateContext E topic g) s = (Inr n, s1)"
      "str = e_hex E pin @ '':'' @ dec16 n"
    using maskContext_pin [OF m(1) Cons.prems(2)] by blast
  with keepsD [OF k] Cons.IH [OF m(2) Cons.prems(2)] m(3) show ?case by auto
qed simp

lemma calculateContexts_colon:
  "calculateContexts E msgs s = (Inr pins, s') \<Longrightarrow> colon_pins (snd s) \<Longrightarrow> colon_pins (snd s')"
proof (induction msgs arbitrary: pins s)
  case (Cons msg msgs)
  show ?case
  proof (cases "isPrivate msg \<and> m_Pins msg \<noteq> []")
    case False
    obtain ps s1 s2 pins1 where c: "mask_topics E msg (mh_Topics (m_Header msg)) s = (Inr ps, s1)"
        "(if isPrivate msg then put_msg_pins (the (mh_ID (m_Header msg))) (map fst ps) else retM ()) s1 = (Inr (), s2)"
        "calculateContexts E msgs s2 = (Inr pins1, s')"
      using Cons.prems(1) False by (auto simp: bindM_eq_Inr split: option.splits bool.splits)
    have "colon_pins (snd s2)"
    proof (cases "mh_Group (m_Header msg)")
      case None
      then show ?thesis using c(2) mask_topics_broadcast [OF None c(1)] Cons.prems(2) by (simp add: isPrivate_def)
    next
      case (Some g)
      from mask_topics_colon [OF c(1) Some] have m: "list_all (\<lambda>p. CHR '':'' \<in> set p) (map fst ps)"
          "ds_msgPins (snd s1) = ds_msgPins (snd s)" by simp_all
      obtain nd1 ds1 where s1: "s1 = (nd1, ds1)" by (cases s1)
      have put: "list_all P (assoc_put k v kvs)" if "list_all P kvs" "P (k, v)" for P kvs and k :: uuid and v :: "string list"
        using that by (induction kvs) auto
      have "ds_msgPins (snd s2) = assoc_put (the (mh_ID (m_Header msg))) (map fst ps) (ds_msgPins ds1)"
        using c(2) Some s1 by (cases s2) (auto simp: isPrivate_def put_msg_pins_def modifyDS_eq)
      then show ?thesis using m Cons.prems(2) s1 put unfolding colon_pins_def by auto
    qed
    then show ?thesis using Cons.IH [OF c(3)] by simp
  qed (use Cons in simp)
qed simp

lemma set_pins_colon:
  assumes "colon_pins ds" "set_pins E ns ds msgs nd = (Inr msgs', nd')" "list_all (\<lambda>m. m_Pins m = []) msgs"
  shows "list_all (\<lambda>m. list_all (\<lambda>p. CHR '':'' \<in> set p) (m_Pins m)) msgs'"
  using assms(2,3)
proof (induction msgs arbitrary: msgs' nd)
  case (Cons msg msgs)
  obtain i nd1 ms where i: "mh_ID (m_Header msg) = Some i" "set_pins E ns ds msgs nd1 = (Inr ms, nd')"
      "msgs' = (case map_of (ds_msgPins ds) i of None \<Rightarrow> msg | Some ps \<Rightarrow> msg \<lparr> m_Pins := ps \<rparr>) # ms"
    using Cons.prems(1) by (auto simp: bindM_eq_Inr Let_def split: option.splits)
  have "list_all (\<lambda>p. CHR '':'' \<in> set p) ps" if "map_of (ds_msgPins ds) i = Some ps" for ps
    using assms(1) map_of_SomeD [OF that] by (auto simp: colon_pins_def list_all_iff)
  with i Cons.IH [OF i(2)] Cons.prems(2) show ?case by (auto split: option.splits)
qed simp

text \<open>C27: The pins of a private batch cannot be reconstructed: a parser of 32-byte hashes refuses the colon that
  separates pin and nonce, so \<open>LoadContexts\<close> on the messages of a sealed batch with a private message is an
  error, where the caller (the preparation of a contract invocation for another attempt) needs the pins.\<close>

theorem private_pins_not_loadable:
  assumes "\<And>s. CHR '':'' \<in> set s \<Longrightarrow> e_unhex E s = None" "IsPinned (bc_txType conf)"
    and "list_all (\<lambda>m. m_Pins m = []) (dp_Messages payload)"
    and "list_ex isPrivate (dp_Messages payload)" "sealBatch E bg conf n payload nd = (Inr payload', nd')"
  shows "\<exists>err. LoadContexts E (dp_Messages payload') = Inl err"
proof -
  from sealBatch_pinned [OF assms(5,2)] obtain t s1 ds nd1 nd2 where
    c: "calculateContexts E (dp_Messages payload) (t, newDispatchState) = (Inr (dp_Pins payload'), s1)"
    and ds: "ds_msgPins ds = ds_msgPins (snd s1)"
    and set: "set_pins E (bg_namespace bg) ds (dp_Messages payload) nd1 = (Inr (dp_Messages payload'), nd2)" .
  have "map isPrivate (dp_Messages payload') = map isPrivate (dp_Messages payload)"
    using arg_cong [OF conjunct1 [OF set_pins_headers [OF set]], of "map (\<lambda>h. mh_Group h \<noteq> None)"]
    by (simp add: isPrivate_def [abs_def] comp_def)
  moreover have "list_ex isPrivate xs \<longleftrightarrow> True \<in> set (map isPrivate xs)" for xs by (auto simp: list_ex_iff)
  ultimately have "list_ex isPrivate (dp_Messages payload')" using assms(4) by metis
  then obtain msg where msg: "msg \<in> set (dp_Messages payload')" "isPrivate msg" by (auto simp: list_ex_iff)
  have "colon_pins (snd s1)"
    by (rule calculateContexts_colon [OF c]) (simp add: colon_pins_def newDispatchState_def)
  then have "colon_pins ds" using ds by (simp add: colon_pins_def)
  then have colon: "list_all (\<lambda>p. CHR '':'' \<in> set p) (m_Pins msg)"
    using set_pins_colon [OF _ set assms(3)] msg(1) by (auto simp: list_all_iff)
  have l: "\<exists>err. loadContext E msg = Inl err"
  proof (cases "m_Pins msg")
    case (Cons p ps)
    then show ?thesis using colon assms(1) msg(2) by (auto simp: loadContext_def)
  qed (use msg(2) in \<open>simp add: loadContext_def\<close>)
  have "\<exists>err. LoadContexts E msgs = Inl err" if "msg \<in> set msgs" for msgs
    using that l by (induction msgs) (auto split: sum.splits)
  then show ?thesis using msg(1) by blast
qed

section \<open>Concrete batches\<close>

definition im_s :: identity_manager where
  "im_s = \<lparr> im_blockchain = None, im_multiparty = None, im_namespace = ''ns1'', im_defaultKey = '''' \<rparr>"

definition bg_s :: batch_mgr where
  "bg_s = \<lparr> bg_namespace = ''ns1'', bg_identity = im_s, bg_dispatch = (\<lambda>_. retM ()) \<rparr>"

definition conf_s :: processor_conf where
  "conf_s = \<lparr> bc_BatchType = BT_Private, bc_BatchMaxSize = 10, bc_BatchMaxBytes = 4000, bc_txType = TT_BatchPin,
     bc_author = ''did:firefly:org/a'', bc_group = Some [3] \<rparr>"

definition msg_s :: "bytes32 option \<Rightarrow> uuid \<Rightarrow> message" where
  "msg_s g i = message0 \<lparr> m_Header := header0 \<lparr> mh_ID := Some i, mh_Group := g \<rparr>, m_State := MS_Ready \<rparr>"

definition payload_s :: "message list \<Rightarrow> dispatch_payload" where
  "payload_s msgs = \<lparr> dp_Batch = \<lparr> bpd_Header = \<lparr> bh_ID = Some 50, bh_Type = BT_Private, bh_Namespace = ''ns1'',
       bh_Node = None, bh_Group = Some [3], bh_Created = None, bh_Signer = no_signer \<rparr>,
       bpd_Hash = None, bpd_Manifest = '''', bpd_TX = \<lparr> tr_Type = TT_Unset, tr_ID = None \<rparr>, bpd_Confirmed = None \<rparr>,
     dp_Messages = msgs, dp_Data = [], dp_Pins = [] \<rparr>"

definition seal_s :: "env \<Rightarrow> bytes32 option \<Rightarrow> (fferr + dispatch_payload) \<times> node" where
  "seal_s E g = sealBatch E bg_s conf_s 1 (payload_s [msg_s g 1, msg_s g 2]) node_tx0"

lemma result_Inr: "\<not> isl (fst r) \<Longrightarrow> r = (Inr (projr (fst r)), snd r)"
  by (cases r) auto

text \<open>A parser of hashes that refuses a colon, and the two batches.\<close>

definition env_s :: env where
  "env_s = env0 \<lparr> e_unhex := (\<lambda>s. if CHR '':'' \<in> set s then None else e_unhex env0 s) \<rparr>"

lemma seal_s_private: "sealBatch env_s bg_s conf_s 1 (payload_s [msg_s (Some [3]) 1, msg_s (Some [3]) 2]) node_tx0 =
    (Inr (projr (fst (seal_s env_s (Some [3])))), snd (seal_s env_s (Some [3])))"
proof -
  have "\<not> isl (fst (seal_s env_s (Some [3])))" by code_simp
  from result_Inr [OF this] show ?thesis by (simp only: seal_s_def)
qed

lemma seal_s_broadcast: "sealBatch env0 bg_s conf_s 1 (payload_s [msg_s None 1, msg_s None 2]) node_tx0 =
    (Inr (projr (fst (seal_s env0 None))), snd (seal_s env0 None))"
proof -
  have "\<not> isl (fst (seal_s env0 None))" by code_simp
  from result_Inr [OF this] show ?thesis by (simp only: seal_s_def)
qed

lemma conf_s_pinned: "IsPinned (bc_txType conf_s)"
  by (simp add: conf_s_def IsPinned_def)

lemma msg_s_simps [simp]:
  "isPrivate (msg_s g i) \<longleftrightarrow> g \<noteq> None" "m_Pins (msg_s g i) = []" "dp_Messages (payload_s ms) = ms"
  by (simp_all add: msg_s_def isPrivate_def payload_s_def message0_def)


lemma sealed_batch_stored_witness:
  "batch_row ''ns1'' (Some 50) (nd_db (snd (seal_s env0 None))) = Some (dp_Batch (projr (fst (seal_s env0 None))))"
proof -
  have "batch_row (bh_Namespace (bpd_Header (dp_Batch (payload_s [msg_s None 1, msg_s None 2]))))
      (bh_ID (bpd_Header (dp_Batch (payload_s [msg_s None 1, msg_s None 2])))) (nd_db node_tx0) = None"
    by (simp add: batch_row_def node_tx0_def db_tx0_def)
  from sealed_batch_stored [OF _ seal_s_broadcast refl this] show ?thesis
    by (simp add: Let_def payload_s_def)
qed

lemma broadcast_contexts_reload_witness:
  "LoadContexts env0 (dp_Messages (projr (fst (seal_s env0 None)))) = Inr (dp_Pins (projr (fst (seal_s env0 None))))"
  by (rule broadcast_contexts_reload [OF conf_s_pinned _ seal_s_broadcast]) simp

lemma private_pins_not_loadable_witness:
  "isl (LoadContexts env_s (dp_Messages (projr (fst (seal_s env_s (Some [3]))))))"
proof -
  have 0: "e_unhex env_s s = None" if "CHR '':'' \<in> set s" for s using that by (simp add: env_s_def)
  from private_pins_not_loadable [OF 0 conf_s_pinned _ _ seal_s_private] show ?thesis by auto
qed

definition db_ready :: ffdb where
  "db_ready = db_tx0 \<lparr> db_messages := [msg_s None 1, msg_s None 2, msg_s None 3] \<rparr>"

lemma flush_marks_ready_messages_witness:
  "let nd = node_tx0 \<lparr> nd_db := db_ready \<rparr>; p = projr (fst (seal_s env0 None));
       nd' = snd (markPayloadDispatched env0 bg_s conf_s 1 p nd)
   in \<exists>now. db_messages (nd_db nd') = map (\<lambda>m.
       if m_LocalNamespace m = ''ns1'' \<and> mh_ID (m_Header m) \<in> (\<lambda>x. mh_ID (m_Header x)) ` set (dp_Messages p) \<and> m_State m = MS_Ready
       then mark_message conf_s (dp_Batch p) now m else m) (db_messages db_ready)"
proof -
  let ?r = "markPayloadDispatched env0 bg_s conf_s 1 (projr (fst (seal_s env0 None))) (node_tx0 \<lparr> nd_db := db_ready \<rparr>)"
  have "\<not> isl (fst ?r)" by code_simp
  from unit_result [OF this] have r: "?r = (Inr (), snd ?r)" .
  have "bg_namespace bg_s = ''ns1''" by (simp add: bg_s_def)
  with flush_marks_ready_messages [OF _ r] show ?thesis by (simp add: Let_def)
qed

text \<open>
  A private message that was sealed before a restart comes back to a new batch with its pins: they
  are not allocated again, and they are also left out of the pins of the new batch, whose
  transaction then never carries them.
\<close>

lemma resealed_pins_left_out:
  "let pinned = msg_s (Some [3]) 1 \<lparr> m_Pins := [''#:0''] \<rparr>
   in fst (calculateContexts env0 [pinned, msg_s (Some [3]) 9] (node_tx0, newDispatchState)) =
      Inr [privatePinHash env0 ''t'' [3] ''did:firefly:org/a'' 0]"
  by code_simp

text \<open>
  A nonce of a release before the author was part of its key: the nonce is read from the row
  under the context, but the update goes to the row under the new key, which does not exist,
  so that the next batch is given the same nonce and the same pin again.
\<close>

definition node_legacy :: node where
  "node_legacy = node_tx0 \<lparr> nd_db := db_tx0 \<lparr> db_nonces := [\<lparr> no_Hash = privateContext env0 ''t'' [3], no_Nonce = 4 \<rparr>] \<rparr> \<rparr>"

definition pins_of :: "uuid \<Rightarrow> node \<Rightarrow> (fferr + bytes32 list) \<times> node \<times> dispatch_state" where
  "pins_of i nd = bindM (calculateContexts env0 [msg_s (Some [3]) i]) (\<lambda>pins. bindM (flushNonceState env0) (\<lambda>_. retM pins))
     (nd, newDispatchState)"

lemma legacy_nonce_assigned_twice:
  "fst (pins_of 1 node_legacy) = Inr [privatePinHash env0 ''t'' [3] ''did:firefly:org/a'' 5] \<and>
   fst (pins_of 2 (fst (snd (pins_of 1 node_legacy)))) = fst (pins_of 1 node_legacy)"
  by (intro conjI; code_simp)

end
