(* ===== verification/Batch_Manager.thy ===== *)
theory Batch_Manager
  imports Batch_Seal
begin

text \<open>
  internal/batch/batch_manager.go: the sequencer that reads the messages that are ready to be sent,
  the rewinds of its cursor, and the batch processors it hands the messages to. The
  goroutines are interleaved by the relation \<open>seq_step\<close>; a step is what one of them does between two points
  where another one can get in: a lock, a channel operation or a database call.
\<close>

section \<open>State\<close>

record id_and_sequence =
  is_ID :: uuid
  is_Sequence :: int

record dispatcher =
  di_name :: string
  di_handler :: "dispatch_payload \<Rightarrow> unit nact"
  di_BatchType :: batch_type
  di_BatchMaxSize :: nat
  di_BatchMaxBytes :: int
  di_processors :: "(string \<times> nat) list"

text \<open>How far the flush of a processor is.\<close>

datatype flush_phase = Flush_idle
  | Flush_started flushed
  | Flush_sealed flushed dispatch_payload
  | Flush_dispatched flushed dispatch_payload
  | Flush_marked flushed

text \<open>A running processor: its configuration, the channel of new work and the state of its loop.\<close>

record batch_processor =
  bp_conf :: processor_conf
  bp_handler :: "dispatch_payload \<Rightarrow> unit nact"
  bp_chan :: "batch_work list"
  bp_closed :: bool
  bp_loop :: processor
  bp_flush :: flush_phase
  bp_failed :: bool

text \<open>
  The manager. Processors are pointers into \<open>bm_procs\<close>; \<open>bm_new\<close> holds the notifications of new messages
  that wait for the notifier, \<open>bm_tap\<close> is the shoulder tap.
\<close>

record batch_manager =
  bm_node :: node
  bm_readOffset :: int
  bm_rewindOffset :: int
  bm_inflight :: "(int \<times> nat) list"
  bm_flushed :: "int list"
  bm_tap :: bool
  bm_new :: "int list"
  bm_dispatcherMap :: "(string \<times> nat) list"
  bm_dispatchers :: "dispatcher list"
  bm_procs :: "batch_processor list"

record seq_conf =
  sc_namespace :: string
  sc_identity :: identity_manager
  sc_readPageSize :: nat
  sc_retries :: nat

section \<open>Dispatchers and processors\<close>

definition NewBatchManager :: "node \<Rightarrow> batch_manager" where
  "NewBatchManager nd = \<lparr> bm_node = nd, bm_readOffset = -1, bm_rewindOffset = -1, bm_inflight = [], bm_flushed = [],
     bm_tap = False, bm_new = [], bm_dispatcherMap = [], bm_dispatchers = [], bm_procs = [] \<rparr>"

definition getProcessorKey :: "env \<Rightarrow> string \<Rightarrow> bytes32 option \<Rightarrow> string" where
  "getProcessorKey E author groupID = author @ ''|'' @ (case groupID of None \<Rightarrow> '''' | Some g \<Rightarrow> e_hex E g)"

definition getDispatcherKey :: "tx_type \<Rightarrow> message_type \<Rightarrow> string" where
  "getDispatcherKey txType msgType = ''tx:'' @ txtype_str txType @ ''/'' @ msgtype_str msgType"

definition RegisterDispatcher :: "string \<Rightarrow> tx_type \<Rightarrow> message_type list \<Rightarrow> (dispatch_payload \<Rightarrow> unit nact)
    \<Rightarrow> batch_type \<Rightarrow> nat \<Rightarrow> int \<Rightarrow> batch_manager \<Rightarrow> batch_manager" where
  "RegisterDispatcher name txType msgTypes handler batchType maxSize maxBytes w =
     (let n = length (bm_dispatchers w)
      in w \<lparr> bm_dispatchers := bm_dispatchers w @ [\<lparr> di_name = name, di_handler = handler, di_BatchType = batchType,
               di_BatchMaxSize = maxSize, di_BatchMaxBytes = maxBytes, di_processors = [] \<rparr>],
             bm_dispatcherMap := fold (\<lambda>t m. assoc_put (getDispatcherKey txType t) n m) msgTypes (bm_dispatcherMap w) \<rparr>)"

definition newBatchProcessor :: "uuid \<Rightarrow> dispatcher \<Rightarrow> tx_type \<Rightarrow> string \<Rightarrow> bytes32 option \<Rightarrow> batch_processor" where
  "newBatchProcessor newid d txType author groupID =
     \<lparr> bp_conf = \<lparr> bc_BatchType = di_BatchType d, bc_BatchMaxSize = di_BatchMaxSize d, bc_BatchMaxBytes = di_BatchMaxBytes d,
         bc_txType = txType, bc_author = author, bc_group = groupID \<rparr>,
       bp_handler = di_handler d, bp_chan = [], bp_closed = False, bp_loop = processor_start newid,
       bp_flush = Flush_idle, bp_failed = False \<rparr>"

text \<open>The error is that of a type no dispatcher is registered for.\<close>

definition getProcessor :: "env \<Rightarrow> uuid \<Rightarrow> tx_type \<Rightarrow> message_type \<Rightarrow> bytes32 option \<Rightarrow> string \<Rightarrow> batch_manager
    \<Rightarrow> nat option \<times> batch_manager" where
  "getProcessor E newid txType msgType groupID author w =
     (case map_of (bm_dispatcherMap w) (getDispatcherKey txType msgType) of
        None \<Rightarrow> (None, w)
      | Some i \<Rightarrow>
          let d = bm_dispatchers w ! i; name = getProcessorKey E author groupID
          in case map_of (di_processors d) name of
               Some p \<Rightarrow> (Some p, w)
             | None \<Rightarrow>
                 let p = length (bm_procs w)
                 in (Some p, w \<lparr> bm_procs := bm_procs w @ [newBatchProcessor newid d txType author groupID],
                       bm_dispatchers := (bm_dispatchers w)[i := d \<lparr> di_processors := assoc_put name p (di_processors d) \<rparr>] \<rparr>))"

definition quiescing :: "batch_manager \<Rightarrow> nat \<Rightarrow> bool" where
  "quiescing w p \<longleftrightarrow> pr_quiescing (bp_loop (bm_procs w ! p))"

definition close_processor :: "nat \<Rightarrow> batch_processor list \<Rightarrow> batch_processor list" where
  "close_processor p procs = procs[p := (procs ! p) \<lparr> bp_closed := True,
     bp_loop := (bp_loop (procs ! p)) \<lparr> pr_quiescing := False \<rparr> \<rparr>]"

text \<open>The processors that asked for it are taken out of the dispatchers and closed; the result are those to wait for.\<close>

definition reapQuiescing :: "batch_manager \<Rightarrow> nat list \<times> batch_manager" where
  "reapQuiescing w =
     (let reaped = concat (map (\<lambda>d. filter (quiescing w) (map snd (di_processors d))) (bm_dispatchers w))
      in (reaped, w \<lparr> bm_dispatchers := map (\<lambda>d. d \<lparr> di_processors := filter (\<lambda>(k, p). \<not> quiescing w p) (di_processors d) \<rparr>) (bm_dispatchers w),
            bm_procs := fold close_processor reaped (bm_procs w) \<rparr>))"

definition proc_exited :: "batch_processor \<Rightarrow> bool" where
  "proc_exited bp \<longleftrightarrow> bp_failed bp \<or> pr_done (bp_loop bp) \<and> bp_flush bp = Flush_idle"

section \<open>Reading a page\<close>

definition popRewind :: "batch_manager \<Rightarrow> batch_manager" where
  "popRewind w =
     (let w' = (if bm_rewindOffset w \<ge> 0 \<and> bm_rewindOffset w < bm_readOffset w
                then w \<lparr> bm_readOffset := bm_rewindOffset w \<rparr> else w)
      in w' \<lparr> bm_rewindOffset := -1 \<rparr>)"

text \<open>\<open>GetMessageIDs\<close> with the filter of the sequencer; a row without an identifier does not exist.\<close>

definition ready_rows :: "string \<Rightarrow> int \<Rightarrow> nat \<Rightarrow> ffdb \<Rightarrow> id_and_sequence list" where
  "ready_rows ns offset lim db = map (\<lambda>m. \<lparr> is_ID = the (mh_ID (m_Header m)), is_Sequence = m_Sequence m \<rparr>)
     (take lim (sort_key m_Sequence
       (filter (\<lambda>m. m_LocalNamespace m = ns \<and> m_Sequence m > offset \<and> m_State m = MS_Ready) (db_messages db))))"

definition GetMessageIDs_ready :: "env \<Rightarrow> string \<Rightarrow> int \<Rightarrow> nat \<Rightarrow> id_and_sequence list nact" where
  "GetMessageIDs_ready E ns offset lim = db_read E (ready_rows ns offset lim)"

definition filterFlushed :: "id_and_sequence list \<Rightarrow> batch_manager \<Rightarrow> id_and_sequence list \<times> batch_manager" where
  "filterFlushed entries w =
     (filter (\<lambda>e. map_of (bm_inflight w) (is_Sequence e) = None) entries,
      w \<lparr> bm_inflight := filter (\<lambda>(s, p). s \<notin> set (bm_flushed w)) (bm_inflight w), bm_flushed := [] \<rparr>)"

definition notifyFlushed :: "int list \<Rightarrow> batch_manager \<Rightarrow> batch_manager" where
  "notifyFlushed sequences w = w \<lparr> bm_flushed := bm_flushed w @ sequences \<rparr>"

definition assembleMessageData :: "env \<Rightarrow> seq_conf \<Rightarrow> uuid \<Rightarrow> (message \<times> ffdata list) nact" where
  "assembleMessageData E sc i =
     bindM (retryM (sc_retries sc) (GetMessageWithDataCached E (sc_namespace sc) (Some i) [])) (\<lambda>(msg, data, foundAll).
     if \<not> foundAll then throwM (I18n ''MsgDataNotFound'')
     else case msg of None \<Rightarrow> throwM (GoPanic ''nil message'') | Some m \<Rightarrow> retM (m, data))"

text \<open>The message is shared with the cache, which sees the sequence too.\<close>

definition set_sequence :: "env \<Rightarrow> uuid \<Rightarrow> int \<Rightarrow> unit nact" where
  "set_sequence E i sq = modifyM (\<lambda>nd.
     case map_of (nd_msgcache nd) (msg_key E (Some i)) of
       None \<Rightarrow> nd
     | Some e \<Rightarrow> nd \<lparr> nd_msgcache := assoc_put (msg_key E (Some i))
         (e \<lparr> mce_msg := (mce_msg e) \<lparr> m_Sequence := sq \<rparr> \<rparr>) (nd_msgcache nd) \<rparr>)"

definition entry_work :: "env \<Rightarrow> seq_conf \<Rightarrow> id_and_sequence \<Rightarrow> batch_work nact" where
  "entry_work E sc entry =
     bindM (assembleMessageData E sc (is_ID entry)) (\<lambda>(msg, data).
     bindM (set_sequence E (is_ID entry) (is_Sequence entry)) (\<lambda>_.
     retM \<lparr> bw_msg = msg \<lparr> m_Sequence := is_Sequence entry \<rparr>, bw_data = data \<rparr>))"

text \<open>
  One entry of a page, up to the send on the channel of its processor, which can block: the
  processor and the work, or nothing when the entry is passed over with an error in the log.
\<close>

definition sequence_entry :: "env \<Rightarrow> seq_conf \<Rightarrow> uuid \<Rightarrow> id_and_sequence \<Rightarrow> batch_manager
    \<Rightarrow> (nat \<times> batch_work) option \<times> batch_manager" where
  "sequence_entry E sc newid entry w =
     (case entry_work E sc entry (bm_node w) of
        (Inl err, nd) \<Rightarrow> (None, w \<lparr> bm_node := nd \<rparr>)
      | (Inr work, nd) \<Rightarrow>
          let h = m_Header (bw_msg work)
          in case getProcessor E newid (mh_TxType h) (mh_Type h) (mh_Group h) (sr_Author (mh_Signer h)) (w \<lparr> bm_node := nd \<rparr>) of
               (None, w) \<Rightarrow> (None, w)
             | (Some p, w) \<Rightarrow> (Some (p, work), w \<lparr> bm_inflight := assoc_put (is_Sequence entry) p (bm_inflight w) \<rparr>))"

definition send_work :: "nat \<Rightarrow> batch_work \<Rightarrow> batch_manager \<Rightarrow> batch_manager" where
  "send_work p work w = w \<lparr> bm_procs := (bm_procs w)[p := (bm_procs w ! p) \<lparr> bp_chan := bp_chan (bm_procs w ! p) @ [work] \<rparr>] \<rparr>"

definition newMessageNotification :: "int \<Rightarrow> batch_manager \<Rightarrow> batch_manager" where
  "newMessageNotification sq w =
     (let lastSequenceBeforeMsg = sq - 1
      in if bm_rewindOffset w = -1 \<or> lastSequenceBeforeMsg < bm_rewindOffset w
         then w \<lparr> bm_rewindOffset := lastSequenceBeforeMsg, bm_tap := (lastSequenceBeforeMsg \<ge> 0 \<or> bm_tap w) \<rparr>
         else w)"

section \<open>The goroutines\<close>

text \<open>Where the sequencer is; the flag is whether the last page was full.\<close>

datatype seq_pc = SqReap bool
  | SqReaping "nat list" bool
  | SqPop bool
  | SqQuery
  | SqFilter "id_and_sequence list"
  | SqEntries "id_and_sequence list" int bool
  | SqSend nat batch_work "id_and_sequence list" int bool
  | SqWait
  | SqDone

definition full_page :: "seq_conf \<Rightarrow> id_and_sequence list \<Rightarrow> bool" where
  "full_page sc page \<longleftrightarrow> length page = sc_readPageSize sc"

definition page_done :: "bool \<Rightarrow> seq_pc" where
  "page_done fullPage = (if fullPage then SqReap True else SqWait)"

text \<open>What a step shows: the messages of a batch that a processor starts to flush, or an entry that is passed over.\<close>

datatype seq_label = Quiet | Batch "(int \<times> uuid option) list" | Passed int

definition work_tag :: "batch_work \<Rightarrow> int \<times> uuid option" where
  "work_tag bw = (work_seq bw, mh_ID (m_Header (bw_msg bw)))"

definition set_proc :: "nat \<Rightarrow> batch_processor \<Rightarrow> batch_manager \<Rightarrow> batch_manager" where
  "set_proc p bp w = w \<lparr> bm_procs := (bm_procs w)[p := bp] \<rparr>"

text \<open>The step of a processor's loop on an event, with the batch that it starts to flush.\<close>

definition loop_event :: "uuid \<Rightarrow> assembly_event \<Rightarrow> batch_processor \<Rightarrow> batch_processor \<times> seq_label" where
  "loop_event newid ev bp =
     (case assembly_step (bp_conf bp) newid ev (bp_loop bp) of
        (None, p) \<Rightarrow> (bp \<lparr> bp_loop := p \<rparr>, Quiet)
      | (Some fl, p) \<Rightarrow> (bp \<lparr> bp_loop := p, bp_flush := Flush_started fl \<rparr>, Batch (map work_tag (fl_work fl))))"

definition proc_waits :: "batch_processor \<Rightarrow> bool" where
  "proc_waits bp \<longleftrightarrow> bp_flush bp = Flush_idle \<and> \<not> bp_failed bp \<and> \<not> pr_done (bp_loop bp)"

definition proc_mgr :: "seq_conf \<Rightarrow> batch_processor \<Rightarrow> batch_mgr" where
  "proc_mgr sc bp = \<lparr> bg_namespace = sc_namespace sc, bg_identity = sc_identity sc, bg_dispatch = bp_handler bp \<rparr>"

text \<open>The next phase of a flush with the node it leaves, or the end of the processor.\<close>

definition flush_step :: "env \<Rightarrow> seq_conf \<Rightarrow> batch_processor \<Rightarrow> (fferr + flush_phase) \<times> node \<Rightarrow> batch_processor" where
  "flush_step E sc bp r = (case fst r of Inl err \<Rightarrow> bp \<lparr> bp_failed := True \<rparr> | Inr ph \<Rightarrow> bp \<lparr> bp_flush := ph \<rparr>)"

definition flush_phase_act :: "env \<Rightarrow> seq_conf \<Rightarrow> batch_processor \<Rightarrow> flush_phase nact" where
  "flush_phase_act E sc bp =
     (let bg = proc_mgr sc bp; conf = bp_conf bp; n = sc_retries sc in
      case bp_flush bp of
        Flush_started fl \<Rightarrow>
          bindM (initPayload E bg conf (fl_ID fl) (fl_work fl)) (\<lambda>payload.
          bindM (sealBatch E bg conf n payload) (\<lambda>payload. retM (Flush_sealed fl payload)))
      | Flush_sealed fl payload \<Rightarrow> bindM (dispatchBatch bg n payload) (\<lambda>_. retM (Flush_dispatched fl payload))
      | Flush_dispatched fl payload \<Rightarrow> bindM (markPayloadDispatched E bg conf n payload) (\<lambda>_. retM (Flush_marked fl))
      | ph \<Rightarrow> retM ph)"

text \<open>
  The rest of the node may change the tables too: rows stay with their
  identifier and sequence unless they are staged, none becomes ready or staged that was not, and the message
  cache stays keyed by identifier.
\<close>

definition msg_rows :: "string \<Rightarrow> ffdb \<Rightarrow> (uuid option \<times> int \<times> message_state) list" where
  "msg_rows ns db = map (\<lambda>m. (mh_ID (m_Header m), m_Sequence m, m_State m))
     (filter (\<lambda>m. m_LocalNamespace m = ns) (db_messages db))"

definition bm_rows :: "seq_conf \<Rightarrow> batch_manager \<Rightarrow> (uuid option \<times> int \<times> message_state) list" where
  "bm_rows sc w = msg_rows (sc_namespace sc) (nd_db (bm_node w))"

definition cache_keyed :: "env \<Rightarrow> node \<Rightarrow> bool" where
  "cache_keyed E nd \<longleftrightarrow> list_all (\<lambda>(k, e). k = msg_key E (mh_ID (m_Header (mce_msg e)))) (nd_msgcache nd)"

definition rows_evolve :: "(uuid option \<times> int \<times> message_state) list \<Rightarrow> (uuid option \<times> int \<times> message_state) list \<Rightarrow> bool" where
  "rows_evolve rs rs' \<longleftrightarrow>
     (\<forall>(i, s, st') \<in> set rs'. \<exists>st. (i, s, st) \<in> set rs \<and> (st' = st \<or> st' \<noteq> MS_Ready \<and> st' \<noteq> MS_Staged)) \<and>
     (\<forall>(i, s, st) \<in> set rs. st \<noteq> MS_Staged \<longrightarrow> (\<exists>st'. (i, s, st') \<in> set rs')) \<and>
     distinct (map fst rs') \<and> distinct (map (fst \<circ> snd) rs')"

section \<open>The interleaving\<close>

text \<open>
  One step of the sequencer (\<open>messageSequencer\<close>), of the notifier, of a processor, or of the
  rest of the node: a new row is committed and its sequence notified, or other changes.
\<close>

inductive seq_step :: "env \<Rightarrow> seq_conf \<Rightarrow> batch_manager \<times> seq_pc \<Rightarrow> seq_label \<Rightarrow> batch_manager \<times> seq_pc \<Rightarrow> bool"
  for E sc where
  reap: "reapQuiescing w = (reaped, w') \<Longrightarrow> seq_step E sc (w, SqReap lastFull) Quiet (w', SqReaping reaped lastFull)"
| reaped: "list_all (\<lambda>p. proc_exited (bm_procs w ! p)) ps \<Longrightarrow> seq_step E sc (w, SqReaping ps lastFull) Quiet (w, SqPop lastFull)"
| pop: "seq_step E sc (w, SqPop lastFull) Quiet ((if lastFull then w else popRewind w), SqQuery)"
| query: "retryM (sc_retries sc) (GetMessageIDs_ready E (sc_namespace sc) (bm_readOffset w) (sc_readPageSize sc)) (bm_node w) = (Inr page, nd) \<Longrightarrow>
    seq_step E sc (w, SqQuery) Quiet (w \<lparr> bm_node := nd \<rparr>, SqFilter page)"
| query_fails: "retryM (sc_retries sc) (GetMessageIDs_ready E (sc_namespace sc) (bm_readOffset w) (sc_readPageSize sc)) (bm_node w) = (Inl err, nd) \<Longrightarrow>
    seq_step E sc (w, SqQuery) Quiet (w \<lparr> bm_node := nd \<rparr>, SqDone)"
| filter: "filterFlushed page w = (entries, w') \<Longrightarrow> seq_step E sc (w, SqFilter page) Quiet
    (w', if entries = [] then page_done (full_page sc page) else SqEntries entries (is_Sequence (last entries)) (full_page sc page))"
| entry: "sequence_entry E sc newid e w = (Some (p, work), w') \<Longrightarrow>
    seq_step E sc (w, SqEntries (e # es) lst full) Quiet (w', SqSend p work es lst full)"
| passed: "sequence_entry E sc newid e w = (None, w') \<Longrightarrow>
    seq_step E sc (w, SqEntries (e # es) lst full) (Passed (is_Sequence e)) (w', SqEntries es lst full)"
| send: "length (bp_chan (bm_procs w ! p)) < bc_BatchMaxSize (bp_conf (bm_procs w ! p)) \<Longrightarrow>
    seq_step E sc (w, SqSend p work es lst full) Quiet (send_work p work w, SqEntries es lst full)"
| page_end: "seq_step E sc (w, SqEntries [] lst full) Quiet (w \<lparr> bm_readOffset := lst \<rparr>, page_done full)"
| tapped: "bm_tap w \<Longrightarrow> seq_step E sc (w, SqWait) Quiet (w \<lparr> bm_tap := False \<rparr>, SqReap False)"
| timeout: "seq_step E sc (w, SqWait) Quiet (w, SqReap False)"
| notify: "bm_new w = sq # rest \<Longrightarrow> seq_step E sc (w, pc) Quiet (newMessageNotification sq (w \<lparr> bm_new := rest \<rparr>), pc)"
| timer: "p < length (bm_procs w) \<Longrightarrow> bm_procs w ! p = bp \<Longrightarrow> proc_waits bp \<Longrightarrow> pr_timer (bp_loop bp) \<noteq> NoTimer \<Longrightarrow>
    loop_event newid EvTimer bp = (bp', l) \<Longrightarrow> seq_step E sc (w, pc) l (set_proc p bp' w, pc)"
| receive: "p < length (bm_procs w) \<Longrightarrow> bm_procs w ! p = bp \<Longrightarrow> proc_waits bp \<Longrightarrow> bp_chan bp = work # chan \<Longrightarrow>
    loop_event newid (EvWork work) (bp \<lparr> bp_chan := chan \<rparr>) = (bp', l) \<Longrightarrow> seq_step E sc (w, pc) l (set_proc p bp' w, pc)"
| closed: "p < length (bm_procs w) \<Longrightarrow> bm_procs w ! p = bp \<Longrightarrow> proc_waits bp \<Longrightarrow> bp_chan bp = [] \<Longrightarrow> bp_closed bp \<Longrightarrow>
    loop_event newid EvClosed bp = (bp', l) \<Longrightarrow> seq_step E sc (w, pc) l (set_proc p bp' w, pc)"
| flush: "p < length (bm_procs w) \<Longrightarrow> bm_procs w ! p = bp \<Longrightarrow> \<not> bp_failed bp \<Longrightarrow>
    flush_phase_act E sc bp (bm_node w) = r \<Longrightarrow>
    seq_step E sc (w, pc) Quiet ((set_proc p (flush_step E sc bp r) w) \<lparr> bm_node := snd r \<rparr>, pc)"
| flushed: "p < length (bm_procs w) \<Longrightarrow> bm_procs w ! p = bp \<Longrightarrow> \<not> bp_failed bp \<Longrightarrow> bp_flush bp = Flush_marked fl \<Longrightarrow>
    seq_step E sc (w, pc) Quiet (notifyFlushed (map work_seq (fl_work fl)) (set_proc p (bp \<lparr> bp_flush := Flush_idle \<rparr>) w), pc)"
| new_row: "msg_rows (sc_namespace sc) (nd_db nd) = bm_rows sc w @ [(Some i, sq, st)] \<Longrightarrow> 1 \<le> sq \<Longrightarrow>
    Some i \<notin> fst ` set (bm_rows sc w) \<Longrightarrow>
    sq \<notin> (fst \<circ> snd) ` set (bm_rows sc w) \<Longrightarrow> cache_keyed E nd \<Longrightarrow>
    seq_step E sc (w, pc) Quiet (w \<lparr> bm_node := nd, bm_new := bm_new w @ [sq] \<rparr>, pc)"
| other: "rows_evolve (bm_rows sc w) (msg_rows (sc_namespace sc) (nd_db nd)) \<Longrightarrow> cache_keyed E nd \<Longrightarrow>
    seq_step E sc (w, pc) Quiet (w \<lparr> bm_node := nd \<rparr>, pc)"

inductive seq_run :: "env \<Rightarrow> seq_conf \<Rightarrow> batch_manager \<times> seq_pc \<Rightarrow> seq_label list \<Rightarrow> batch_manager \<times> seq_pc \<Rightarrow> bool"
  for E sc where
  run_start: "seq_run E sc s [] s"
| run_step: "seq_run E sc s ls t \<Longrightarrow> seq_step E sc t l u \<Longrightarrow> seq_run E sc s (ls @ [l]) u"

end
