(* ===== verification/Batch_Rows.thy ===== *)
theory Batch_Rows
  imports Batch_Manager
begin

text \<open>
  What the actions of \<open>Batch_Manager\<close> do to the message rows and to the message cache: which of them
  leave the rows alone, that the cache stays keyed by identifier, and how a flush moves its rows on.
\<close>

section \<open>What the actions do to the rows and the cache\<close>

lemma rows_evolve_refl: "distinct (map fst rs) \<Longrightarrow> distinct (map (fst \<circ> snd) rs) \<Longrightarrow> rows_evolve rs rs"
  by (fastforce simp: rows_evolve_def)

lemma cache_keyed_cong: "nd_msgcache nd = nd_msgcache nd' \<Longrightarrow> cache_keyed E nd = cache_keyed E nd'"
  by (simp add: cache_keyed_def)

lemma keeps_cache_db_op [keeps_intros]: "keeps nd_msgcache (db_op E g)"
  by (rule keeps_db_op) auto

lemma keeps_cache_simple [keeps_intros]: "keeps nd_msgcache (db_read E h)" "keeps nd_msgcache (db_write E k)"
  "keeps nd_msgcache (newUUID E)" "keeps nd_msgcache (nowM E)"
  unfolding db_read_def db_write_def by (rule keeps_cache_db_op)+ (simp_all add: newUUID_def nowM_def keeps_def)

lemma keeps_cache_group [keeps_intros]: "keeps nd_msgcache m \<Longrightarrow> keeps nd_msgcache (run_as_group E m)"
  by (auto simp: keeps_def run_as_group_def Let_def split: prod.splits sum.splits) (metis snd_conv)+

lemma keeps_cache_onDNode [keeps_intros]: "keeps nd_msgcache m \<Longrightarrow> keeps (\<lambda>s. nd_msgcache (fst s)) (onDNode m)"
  by (auto simp: keeps_def onDNode_def split: prod.splits) (metis snd_conv)

lemma keeps_cache_modifyDS [keeps_intros]: "keeps (\<lambda>s. nd_msgcache (fst s)) (modifyDS g)"
  by (auto simp: keeps_def modifyDS_def modifyM_def)

lemma keeps_cache_tx [keeps_intros]:
  "keeps nd_msgcache (tx_alloc tx)" "keeps nd_msgcache (updateTransactionsCache E ptr)"
  unfolding updateTransactionsCache_def tx_deref_def
  by (intro keeps_intros keeps_modify | simp add: keeps_def tx_alloc_def)+

lemma keeps_cache_seal [keeps_intros]:
  "keeps (\<lambda>s. nd_msgcache (fst s)) (seal_pins E bg conf payload)" "keeps nd_msgcache (seal_tx E bg conf payload)"
  "keeps nd_msgcache (InsertOrGetBatch E b)"
proof -
  have mt: "keeps (\<lambda>s. nd_msgcache (fst s)) (mask_topics E msg topics)" for msg topics
  proof (induction topics)
    case (Cons topic topics)
    then show ?case
      unfolding mask_topics.simps maskContext_def getNextNonce_def set_nonce_def GetNonce_def Let_def by (intro keeps_intros)
  qed (simp add: keeps_ret)
  have "keeps (\<lambda>s. nd_msgcache (fst s)) (calculateContexts E msgs)" for msgs
  proof (induction msgs)
    case (Cons msg msgs)
    then show ?case unfolding calculateContexts.simps put_msg_pins_def by (intro keeps_intros mt)
  qed (simp add: keeps_ret)
  moreover have "keeps (\<lambda>s. nd_msgcache (fst s)) (flushNonceState E)"
  proof -
    have "keeps nd_msgcache (write_nonce E hs)" for hs
      unfolding write_nonce_def InsertNonce_def UpdateNonce_def Let_def by (cases hs) (auto intro!: keeps_intros)
    then have "keeps nd_msgcache (forM kvs (write_nonce E))" for kvs by (intro keeps_intros)
    then show ?thesis
      by (auto simp: flushNonceState_def onDNode_def keeps_def split: prod.splits) (metis snd_conv)
  qed
  ultimately show "keeps (\<lambda>s. nd_msgcache (fst s)) (seal_pins E bg conf payload)"
    unfolding seal_pins_def updateMessagePins_def UpdateMessage_pins_def UpdateMessages_def by (intro keeps_intros)
  show "keeps nd_msgcache (seal_tx E bg conf payload)"
    unfolding seal_tx_def SubmitNewTransaction_def InsertTransaction_def attemptInsertTxn_def insert_failure_def GetTransactions_def
      insert_submitted_event_def InsertEvent_def cache_transaction_def Let_def by (intro keeps_intros)
  show "keeps nd_msgcache (InsertOrGetBatch E b)" unfolding InsertOrGetBatch_def by (rule keeps_cache_db_op)
qed

lemma keeps_seal_attempt:
  assumes "keeps (\<lambda>s. f (fst s)) (seal_pins E bg conf payload)" "keeps f (seal_tx E bg conf payload)"
    "\<And>b. keeps f (InsertOrGetBatch E b)"
    and onD: "\<And>m :: uuid option nact. keeps f m \<Longrightarrow> keeps (\<lambda>s. f (fst s)) (onDNode m)"
      "\<And>m :: batch_persisted option nact. keeps f m \<Longrightarrow> keeps (\<lambda>s. f (fst s)) (onDNode m)"
    and grp: "\<And>m :: (dispatch_payload \<times> dispatch_state) nact. keeps f m \<Longrightarrow> keeps f (run_as_group E m)"
  shows "keeps f (seal_attempt E bg conf payload)"
proof -
  obtain body where b: "body = bindM (seal_pins E bg conf payload) (\<lambda>pins.
          bindM (onDNode (seal_tx E bg conf payload)) (\<lambda>tx.
          let payload = seal_manifest E conf tx (payload \<lparr> dp_Pins := pins \<rparr>) in
          bindM (onDNode (InsertOrGetBatch E (dp_Batch payload))) (\<lambda>_. retM payload)))" by blast
  have "keeps (\<lambda>s. f (fst s)) body"
    unfolding b by (intro keeps_intros assms(1-3) onD)
  then have k: "f (fst (snd (body s))) = f (fst s)" for s unfolding keeps_def by blast
  have "keeps f (\<lambda>nd. case body (nd, newDispatchState) of
       (Inl err, (nd', ds)) \<Rightarrow> (Inl err, nd') | (Inr payload, (nd', ds)) \<Rightarrow> (Inr (payload, ds), nd'))"
  proof (rule keepsI)
    fix nd
    obtain r nd' ds where r: "body (nd, newDispatchState) = (r, (nd', ds))" by (metis prod.collapse)
    then show "f (snd (case body (nd, newDispatchState) of
       (Inl err, (nd', ds)) \<Rightarrow> (Inl err, nd') | (Inr payload, (nd', ds)) \<Rightarrow> (Inr (payload, ds), nd'))) = f nd"
      using k [of "(nd, newDispatchState)"] by (cases r) auto
  qed
  then show ?thesis unfolding seal_attempt_def b by (rule grp)
qed

lemma keeps_cache_seal_attempt [keeps_intros]: "keeps nd_msgcache (seal_attempt E bg conf payload)"
  by (intro keeps_seal_attempt keeps_cache_seal keeps_cache_onDNode keeps_cache_group)

lemma keeps_GetLocalNode:
  assumes "\<And>nd r. f (nd \<lparr> nd_calls := r \<rparr>) = f nd" "\<And>nd c. f (nd \<lparr> nd_idcache := c \<rparr>) = f nd"
  shows "keeps f (GetLocalNode E im)"
proof -
  have r: "keeps f (db_read E g)" for g :: "ffdb \<Rightarrow> 'x"
    unfolding db_read_def by (rule keeps_db_op) (auto simp: assms)
  have l: "keeps f (lookupDID_in E ns did m)" if "keeps f m" for ns did m
    unfolding lookupDID_in_def retryable_def lookupDID_db_def db_reads idcache_get_def idcache_set_def
    by (intro keeps_intros keeps_modify that r) (simp_all add: assms)
  show ?thesis
    unfolding GetLocalNode_def CachedIdentityLookupNilOK_def cachedIdentityLookup_def by (intro keeps_intros l)
qed

lemma keeps_initPayload:
  assumes "\<And>nd r. f (nd \<lparr> nd_calls := r \<rparr>) = f nd" "\<And>nd c. f (nd \<lparr> nd_idcache := c \<rparr>) = f nd"
    "\<And>nd c. f (nd \<lparr> nd_draws := c \<rparr>) = f nd"
  shows "keeps f (initPayload E bg conf i ws)"
proof -
  have "keeps f (nowM E)" by (simp add: keeps_def nowM_def assms(3))
  moreover have "keeps f (case e of GoPanic p \<Rightarrow> throwM (GoPanic p) | _ \<Rightarrow> retM x)" for e x
    by (cases e) (simp_all add: keeps_ret keeps_throw)
  ultimately show ?thesis
    unfolding initPayload_def by (intro keeps_intros keeps_GetLocalNode assms)
qed

section \<open>The cache\<close>

lemma stable_cache: "keeps nd_msgcache m \<Longrightarrow> stable (cache_keyed E) m"
  using stable_keeps [of nd_msgcache m "\<lambda>c. list_all (\<lambda>(k, e). k = msg_key E (mh_ID (m_Header (mce_msg e)))) c"]
  by (simp add: cache_keyed_def [abs_def])

lemma cache_keyed_put:
  assumes "cache_keyed E nd" "k = msg_key E (mh_ID (m_Header (mce_msg e)))"
  shows "cache_keyed E (nd \<lparr> nd_msgcache := assoc_put k e (nd_msgcache nd) \<rparr>)"
proof -
  have "list_all P (assoc_put k e kvs)" if "list_all P kvs" "P (k, e)" for P and kvs :: "(string \<times> msg_cache_entry) list"
    using that by (induction kvs) auto
  then show ?thesis using assms by (simp add: cache_keyed_def)
qed

lemma cache_keyed_get: "cache_keyed E nd \<Longrightarrow> map_of (nd_msgcache nd) k = Some e \<Longrightarrow> k = msg_key E (mh_ID (m_Header (mce_msg e)))"
  by (auto simp: cache_keyed_def list_all_iff dest: map_of_SomeD)

lemma stable_queryMessageCache [stable_intros]: "stable (cache_keyed E) (queryMessageCache E ns i opts)"
  by (rule stableI) (auto simp: queryMessageCache_def Let_def split: option.splits intro!: cache_keyed_put dest: cache_keyed_get)

lemma stable_UpdateMessageCache [stable_intros]: "stable (cache_keyed E) (UpdateMessageCache E msg data)"
  unfolding UpdateMessageCache_def by (rule stable_modify) (rule cache_keyed_put; simp)

lemma stable_UpdateMessageIfCached [stable_intros]: "stable (cache_keyed E) (UpdateMessageIfCached E ns msg)"
  unfolding UpdateMessageIfCached_def by (intro stable_intros)

lemma stable_set_sequence [stable_intros]: "stable (cache_keyed E) (set_sequence E i sq)"
  unfolding set_sequence_def
  by (rule stable_modify) (auto split: option.splits intro!: cache_keyed_put dest: cache_keyed_get)

lemma stable_run_as_group:
  assumes "stable (cache_keyed E') m"
  shows "stable (cache_keyed E') (run_as_group E m)"
proof (rule stableI)
  fix nd assume "cache_keyed E' nd"
  obtain r t where m: "m nd = (r, t)" by (cases "m nd")
  then have "cache_keyed E' t" using stableD [OF assms m \<open>cache_keyed E' nd\<close>] by simp
  then show "cache_keyed E' (snd (run_as_group E m nd))"
    by (auto simp: run_as_group_def m Let_def cache_keyed_def split: sum.splits)
qed

lemma stable_GetMessageWithData: "stable (cache_keyed E) (GetMessageWithDataCached E ns i opts)"
proof -
  have "stable (cache_keyed E) (getMessageData_loop E ns rs)" for ns rs
  proof (induction rs)
    case (Cons r rs)
    have "keeps nd_msgcache (resolveRef E ns r)" unfolding resolveRef_def db_reads by (intro keeps_intros)
    then show ?case unfolding getMessageData_loop.simps by (intro stable_intros Cons.IH stable_cache)
  qed (simp add: stable_ret)
  moreover have "stable (cache_keyed E) (GetMessageByID E ns i)" for ns i
    unfolding db_reads by (intro stable_cache keeps_intros)
  ultimately show ?thesis
    unfolding GetMessageWithDataCached_def dataLookupAndCache_def getMessageData_def by (intro stable_intros)
qed

lemma stable_entry_work: "stable (cache_keyed E) (entry_work E sc e)"
  unfolding entry_work_def assembleMessageData_def by (intro stable_intros stable_retryM stable_GetMessageWithData)

lemma stable_sealBatch: "stable (cache_keyed E) (sealBatch E bg conf n payload)"
proof -
  have "stable (cache_keyed E) (set_pins E ns ds msgs)" for ns ds msgs
  proof (induction msgs)
    case (Cons msg msgs)
    then show ?case unfolding set_pins.simps by (intro stable_intros)
  qed (simp add: stable_ret)
  then show ?thesis unfolding sealBatch_def
    by (intro stable_intros stable_retryM stable_cache [OF keeps_cache_seal_attempt])
qed

lemma stable_mark: "stable (cache_keyed E) (markPayloadDispatched E bg conf n payload)"
  unfolding markPayloadDispatched_def mark_attempt_def UpdateMessages_def confirmed_event_def InsertEvent_def Let_def
  by (intro stable_retryM stable_run_as_group stable_intros stable_cache [OF keeps_cache_simple(2)]
      stable_cache [OF keeps_cache_simple(3)] stable_cache [OF keeps_cache_simple(4)])

text \<open>The work of an entry is tagged with the sequence and the identifier of its row.\<close>

definition ids_distinct :: "env \<Rightarrow> bool" where
  "ids_distinct E \<longleftrightarrow> inj (e_uuid_str E) \<and> (\<forall>i. e_uuid_str E i \<noteq> '''')"

lemma msg_key_inj: "ids_distinct E \<Longrightarrow> msg_key E i = msg_key E j \<Longrightarrow> i = j"
  by (cases i; cases j) (simp_all add: ids_distinct_def msg_key_def inj_eq eq_commute [of "''''"])

lemma retryM_last:
  assumes "retryM n m s = (Inr x, s')" "stable I m" "I s"
  shows "\<exists>t. I t \<and> m t = (Inr x, s')"
  using assms(1,3)
proof (induction n arbitrary: s)
  case (Suc n)
  obtain r t where m: "m s = (r, t)" by (cases "m s")
  have "I t" using stableD [OF assms(2) m Suc.prems(2)] .
  with Suc m show ?case by (cases r) (auto split: fferr.splits)
qed simp

lemma entry_work_tag:
  assumes "entry_work E sc e nd = (Inr work, nd')" "cache_keyed E nd" "ids_distinct E"
  shows "work_tag work = (is_Sequence e, Some (is_ID e))"
proof -
  obtain msg data nd1 where a: "assembleMessageData E sc (is_ID e) nd = (Inr (msg, data), nd1)"
      "bw_msg work = msg \<lparr> m_Sequence := is_Sequence e \<rparr>"
    using assms(1) by (auto simp: entry_work_def bindM_eq_Inr)
  obtain nd2 where r: "retryM (sc_retries sc) (GetMessageWithDataCached E (sc_namespace sc) (Some (is_ID e)) []) nd =
      (Inr (Some msg, data, True), nd2)"
    using a(1) by (auto simp: assembleMessageData_def bindM_eq_Inr split: if_splits option.splits)
  have st: "stable (cache_keyed E) (GetMessageWithDataCached E (sc_namespace sc) (Some (is_ID e)) [])" by (rule stable_GetMessageWithData)
  from retryM_last [OF r st assms(2)] obtain t where
    t: "cache_keyed E t" "GetMessageWithDataCached E (sc_namespace sc) (Some (is_ID e)) [] t = (Inr (Some msg, data, True), nd2)" by blast
  have "mh_ID (m_Header msg) = Some (is_ID e)"
  proof (cases "map_of (nd_msgcache t) (msg_key E (Some (is_ID e)))")
    case None
    then show ?thesis using t(2)
      by (auto simp: GetMessageWithDataCached_def queryMessageCache_def bindM_eq_Inr GetMessageByID_def db_read_Inr message_row_def
          is_msg_def dest!: find_Some_in split: option.splits)
  next
    case (Some mce)
    from cache_keyed_get [OF t(1) Some] have "mh_ID (m_Header (mce_msg mce)) = Some (is_ID e)"
      using msg_key_inj [OF assms(3)] by metis
    then show ?thesis using t(2) Some
      by (auto simp: GetMessageWithDataCached_def queryMessageCache_def bindM_eq_Inr Let_def)
  qed
  then show ?thesis using a(2) by (simp add: work_tag_def work_seq_def)
qed

lemma keeps_entry_work: "keeps (\<lambda>nd. f (nd_db nd)) (entry_work E sc e)"
  unfolding entry_work_def assembleMessageData_def set_sequence_def
  by (intro keeps_intros keeps_modify) (auto split: option.splits)

section \<open>The rows under a flush\<close>

lemma msg_rows_pins: "keeps (\<lambda>nd. msg_rows ns (nd_db nd)) (UpdateMessage_pins E ns' i ps)"
  unfolding UpdateMessage_pins_def UpdateMessages_def
  by (rule keeps_db_write) (auto simp: msg_rows_def filter_map comp_def if_distrib cong: if_cong intro!: arg_cong2 [where f = map] filter_cong)

lemma msg_rows_seal_pins: "keeps (\<lambda>s. msg_rows ns (nd_db (fst s))) (seal_pins E bg conf payload)"
  unfolding seal_pins_def updateMessagePins_def
  by (intro keeps_intros keeps_onDNode [where f = "msg_rows ns"] msg_rows_pins keeps_flushNonceState) (simp add: msg_rows_def)

lemma msg_rows_sealBatch: "keeps (\<lambda>nd. msg_rows ns (nd_db nd)) (sealBatch E bg conf n payload)"
proof -
  have "keeps (\<lambda>nd. msg_rows ns (nd_db nd)) (InsertOrGetBatch E b)" for b
    unfolding InsertOrGetBatch_def by (intro keeps_db_op_db) (auto simp: msg_rows_def split: option.splits)
  moreover have "keeps (\<lambda>nd. msg_rows ns (nd_db nd)) (seal_tx E bg conf payload)"
    by (rule keeps_seal_tx) (simp_all add: msg_rows_def)
  ultimately have "keeps (\<lambda>nd. msg_rows ns (nd_db nd)) (seal_attempt E bg conf payload)"
    by (intro keeps_seal_attempt msg_rows_seal_pins keeps_run_as_group keeps_onDNode)
  then show ?thesis unfolding sealBatch_def by (intro keeps_intros)
qed

lemma retryM_Inl:
  assumes "retryM n m s = (Inl e, s')" "\<And>t e t'. m t = (Inl e, t') \<Longrightarrow> f t' = f t"
  shows "f s' = f s"
  using assms(1)
proof (induction n arbitrary: s)
  case (Suc n)
  obtain r t where m: "m s = (r, t)" by (cases "m s")
  then show ?case
  proof (cases r)
    case (Inl e')
    then have "f t = f s" using assms(2) m by simp
    with Suc m Inl show ?thesis by (auto split: fferr.splits)
  qed (use Suc.prems m in auto)
qed simp

text \<open>A row that is neither ready nor staged: a flush is over with it, or somebody else moved it on.\<close>

definition gone :: "(uuid option \<times> int \<times> message_state) list \<Rightarrow> int \<Rightarrow> bool" where
  "gone rs s \<longleftrightarrow> (\<exists>(i, s', st) \<in> set rs. s' = s \<and> st \<noteq> MS_Ready \<and> st \<noteq> MS_Staged)"

lemma mark_rows:
  assumes "e_atomic E" "markPayloadDispatched E bg conf n payload nd = (r, nd')"
    "distinct (map fst (msg_rows ns (nd_db nd)))" "distinct (map (fst \<circ> snd) (msg_rows ns (nd_db nd)))"
  shows "rows_evolve (msg_rows ns (nd_db nd)) (msg_rows ns (nd_db nd'))"
    "r = Inr () \<Longrightarrow> bg_namespace bg = ns \<Longrightarrow> (i, s, st) \<in> set (msg_rows ns (nd_db nd)) \<Longrightarrow> st \<noteq> MS_Staged \<Longrightarrow>
       i \<in> (\<lambda>x. mh_ID (m_Header x)) ` set (dp_Messages payload) \<Longrightarrow> gone (msg_rows ns (nd_db nd')) s"
proof -
  let ?hit = "\<lambda>m. m_LocalNamespace m = bg_namespace bg \<and> mh_ID (m_Header m) \<in> (\<lambda>x. mh_ID (m_Header x)) ` set (dp_Messages payload) \<and> m_State m = MS_Ready"
  have same: "msg_rows ns (nd_db nd') = msg_rows ns (nd_db nd)" if "r = Inl e" for e
  proof -
    have "nd_db t' = nd_db t" if "mark_attempt E bg conf payload t = (Inl e, t')" for t e t'
      using run_as_group_rollback [OF assms(1)] that by (simp add: mark_attempt_def)
    then have "nd_db nd' = nd_db nd"
      using retryM_Inl [where f = nd_db, OF assms(2) [unfolded markPayloadDispatched_def that]] by blast
    then show ?thesis by simp
  qed
  have eff: "\<exists>now. msg_rows ns (nd_db nd') = map (\<lambda>m. (mh_ID (m_Header m), m_Sequence m,
      m_State (if ?hit m then mark_message conf (dp_Batch payload) now m else m))) (filter (\<lambda>m. m_LocalNamespace m = ns) (db_messages (nd_db nd)))"
    if ok: "r = Inr ()"
  proof -
    obtain now where "db_messages (nd_db nd') = map (\<lambda>m. if ?hit m then mark_message conf (dp_Batch payload) now m else m) (db_messages (nd_db nd))"
      using markPayloadDispatched_effect [OF assms(1) assms(2) [unfolded ok]] by blast
    then show ?thesis
      by (intro exI [of _ now])
        (auto simp: msg_rows_def filter_map comp_def if_distrib cong: if_cong intro!: arg_cong2 [where f = map] filter_cong)
  qed
  show "rows_evolve (msg_rows ns (nd_db nd)) (msg_rows ns (nd_db nd'))"
  proof (cases r)
    case (Inl e)
    with same rows_evolve_refl [OF assms(3,4)] show ?thesis by simp
  next
    case (Inr u)
    then obtain now where e: "msg_rows ns (nd_db nd') = map (\<lambda>m. (mh_ID (m_Header m), m_Sequence m,
      m_State (if ?hit m then mark_message conf (dp_Batch payload) now m else m))) (filter (\<lambda>m. m_LocalNamespace m = ns) (db_messages (nd_db nd)))"
      using eff by auto
    have "m_State (mark_message conf b now m) \<noteq> MS_Staged" for b m by (simp add: mark_message_def Let_def)
    then show ?thesis using assms(3,4) unfolding rows_evolve_def e
      by (auto simp: msg_rows_def comp_def)
  qed
  show "gone (msg_rows ns (nd_db nd')) s" if h: "r = Inr ()" "bg_namespace bg = ns" "(i, s, st) \<in> set (msg_rows ns (nd_db nd))"
    "st \<noteq> MS_Staged" "i \<in> (\<lambda>x. mh_ID (m_Header x)) ` set (dp_Messages payload)"
  proof -
    obtain now where e: "msg_rows ns (nd_db nd') = map (\<lambda>m. (mh_ID (m_Header m), m_Sequence m,
      m_State (if ?hit m then mark_message conf (dp_Batch payload) now m else m))) (filter (\<lambda>m. m_LocalNamespace m = ns) (db_messages (nd_db nd)))"
      using eff [OF h(1)] by auto
    obtain m where m: "m \<in> set (db_messages (nd_db nd))" "m_LocalNamespace m = ns" "mh_ID (m_Header m) = i" "m_Sequence m = s" "m_State m = st"
      using h(3) by (auto simp: msg_rows_def)
    let ?st = "m_State (if ?hit m then mark_message conf (dp_Batch payload) now m else m)"
    have "(i, s, ?st) \<in> set (msg_rows ns (nd_db nd'))" unfolding e using m by force
    moreover have "?st \<noteq> MS_Ready \<and> ?st \<noteq> MS_Staged"
      using m h by (auto simp: mark_message_def Let_def)
    ultimately show ?thesis unfolding gone_def by blast
  qed
qed

end
