(* ===== verification/FF_Flow.thy ===== *)
theory FF_Flow
  imports FF_Prelude "HOL-Library.Multiset"
begin

text \<open>
  The contracts of a component that is handed work and hands it on: nothing is lost and nothing
  is made up (\<open>conserving\<close>), and the work leaves in the order it came (\<open>fifo_flow\<close>). The
  assembly of batches keeps the first, the batches of operation updates the second.
\<close>

fun run_steps :: "('e \<Rightarrow> 's \<Rightarrow> 'o \<times> 's) \<Rightarrow> 'e list \<Rightarrow> 's \<Rightarrow> 'o list \<times> 's" where
  "run_steps step [] s = ([], s)"
| "run_steps step (e # es) s = (case step e s of (out, s') \<Rightarrow> case run_steps step es s' of (outs, s'') \<Rightarrow> (out # outs, s''))"

locale conserving =
  fixes step :: "'e \<Rightarrow> 's \<Rightarrow> 'o \<times> 's" and held :: "'s \<Rightarrow> 'w multiset"
    and given :: "'e \<Rightarrow> 'w multiset" and handed :: "'o \<Rightarrow> 'w multiset"
  assumes conserves: "step e s = (out, s') \<Longrightarrow> handed out + held s' = held s + given e"
begin

lemma handed_was_held: "step e s = (out, s') \<Longrightarrow> x \<in># handed out \<Longrightarrow> x \<in># held s + given e"
  using conserves by (metis union_iff)

lemma run_conserves: "run_steps step es s = (outs, s') \<Longrightarrow>
    sum_list (map handed outs) + held s' = held s + sum_list (map given es)"
proof (induction es arbitrary: s outs)
  case (Cons e es)
  obtain out s1 outs' where 1: "step e s = (out, s1)" "run_steps step es s1 = (outs', s')" "outs = out # outs'"
    using Cons.prems by (auto split: prod.splits)
  have "sum_list (map handed outs) + held s' = handed out + (sum_list (map handed outs') + held s')" by (simp add: 1(3))
  also have "\<dots> = (handed out + held s1) + sum_list (map given es)" unfolding Cons.IH [OF 1(2)] by simp
  also have "\<dots> = held s + sum_list (map given (e # es))" unfolding conserves [OF 1(1)] by simp
  finally show ?case .
qed simp

end

locale fifo_flow =
  fixes step :: "'e \<Rightarrow> 's \<Rightarrow> 'o \<times> 's" and held :: "'s \<Rightarrow> 'w list"
    and given :: "'e \<Rightarrow> 'w list" and handed :: "'o \<Rightarrow> 'w list"
  assumes in_order: "step e s = (out, s') \<Longrightarrow> handed out @ held s' = held s @ given e"
begin

lemma run_in_order: "run_steps step es s = (outs, s') \<Longrightarrow>
    concat (map handed outs) @ held s' = held s @ concat (map given es)"
proof (induction es arbitrary: s outs)
  case (Cons e es)
  obtain out s1 outs' where 1: "step e s = (out, s1)" "run_steps step es s1 = (outs', s')" "outs = out # outs'"
    using Cons.prems by (auto split: prod.splits)
  have "concat (map handed outs) @ held s' = handed out @ held s1 @ concat (map given es)"
    using Cons.IH [OF 1(2)] by (simp add: 1(3))
  also have "\<dots> = held s @ concat (map given (e # es))" using in_order [OF 1(1)] by simp
  finally show ?case .
qed simp

lemma multiset_conserved: "step e s = (out, s') \<Longrightarrow> mset (handed out) + mset (held s') = mset (held s) + mset (given e)"
  using in_order by (metis mset_append)

end

sublocale fifo_flow \<subseteq> flow: conserving step "\<lambda>s. mset (held s)" "\<lambda>e. mset (given e)" "\<lambda>out. mset (handed out)"
  by unfold_locales (rule multiset_conserved)

end
