(* ===== verification/Batch_Sequencer.thy ===== *)
theory Batch_Sequencer
  imports Batch_Rows FF_Flow
begin

text \<open>
  What the interleaving of \<open>Batch_Manager\<close> promises: a message is put into one batch only, and
  the sequencer does not go to sleep on a message that is ready.
\<close>


section \<open>The work of a processor\<close>

definition tags :: "batch_work list \<Rightarrow> (int \<times> uuid option) multiset" where
  "tags ws = mset (map work_tag ws)"

lemma tags_simps [simp]: "tags [] = {#}" "tags (w # ws) = add_mset (work_tag w) (tags ws)" "tags (ws @ vs) = tags ws + tags vs"
  by (simp_all add: tags_def)

lemma tags_msgs: "tags ws = image_mset (\<lambda>m. (m_Sequence m, mh_ID (m_Header m))) (work_msgs ws)"
  by (simp add: tags_def work_msgs_def work_tag_def [abs_def] work_seq_def comp_def flip: mset_map)

definition event_tags :: "assembly_event \<Rightarrow> (int \<times> uuid option) multiset" where
  "event_tags ev = (case ev of EvWork w \<Rightarrow> {# work_tag w #} | _ \<Rightarrow> {#})"

lemma assembly_step_msgs:
  assumes "assembly_step conf i ev p = (fl, p')"
  shows "work_msgs (flushed_works fl) + work_msgs (as_queue (pr_assembly p')) = work_msgs (as_queue (pr_assembly p)) + event_msgs ev"
proof -
  obtain timedout full overflow p1 where w: "assembly_wake conf ev p = ((timedout, full, overflow), p1)"
    by (metis prod.collapse)
  have 1: "work_msgs (as_queue (pr_assembly p1)) = work_msgs (as_queue (pr_assembly p)) + event_msgs ev"
    using w addWork_msgs [of conf _ "pr_assembly p"]
    by (cases ev) (auto simp: assembly_wake_def Let_def event_msgs_def split: if_splits prod.splits)
  show ?thesis
  proof (cases "(full \<or> timedout \<or> pr_done p1) \<and> as_queue (pr_assembly p1) \<noteq> []")
    case True
    obtain f a where s: "startFlush overflow i (pr_assembly p1) = (f, a)" by (cases "startFlush overflow i (pr_assembly p1)")
    then have "fl = Some f" "pr_assembly p' = a" using assms w True by (auto simp: assembly_step_def Let_def split: if_splits)
    then show ?thesis using startFlush_msgs [OF _ s] True 1 by (simp add: flushed_works_def)
  next
    case False
    then show ?thesis using assms w 1 by (auto simp: assembly_step_def Let_def flushed_works_def work_msgs_def)
  qed
qed

interpretation asm: conserving "\<lambda>(i, ev). assembly_step conf i ev" "\<lambda>p. tags (as_queue (pr_assembly p))"
  "\<lambda>(i, ev). event_tags ev" "\<lambda>fl. tags (flushed_works fl)" for conf
proof
  fix e :: "uuid \<times> assembly_event" and p fl p'
  obtain i ev where e: "e = (i, ev)" by (cases e)
  assume "(case e of (i, ev) \<Rightarrow> assembly_step conf i ev) p = (fl, p')"
  from assembly_step_msgs [of conf i ev p fl p'] this e
  show "tags (flushed_works fl) + tags (as_queue (pr_assembly p')) = tags (as_queue (pr_assembly p)) + (case e of (i, ev) \<Rightarrow> event_tags ev)"
    by (auto simp: tags_msgs event_tags_def event_msgs_def work_tag_def work_seq_def simp flip: image_mset_union split: assembly_event.splits)
qed

section \<open>The invariant\<close>

definition uniq :: "'a multiset \<Rightarrow> bool" where
  "uniq M \<longleftrightarrow> (\<forall>x. count M x \<le> 1)"

lemma uniq_empty [simp]: "uniq {#}"
  by (simp add: uniq_def)

lemma uniq_add [simp]: "uniq (add_mset x M) \<longleftrightarrow> uniq M \<and> x \<notin># M"
proof
  assume u: "uniq (add_mset x M)"
  have "count M y \<le> 1" for y using u [unfolded uniq_def, rule_format, of y] by (simp split: if_splits)
  moreover have "count M x = 0" using u [unfolded uniq_def, rule_format, of x] by simp
  ultimately show "uniq M \<and> x \<notin># M" by (simp add: uniq_def not_in_iff)
qed (auto simp: uniq_def not_in_iff)

lemma uniq_unionD:
  assumes "uniq (A + B)"
  shows "uniq A" "uniq B" "x \<in># A \<Longrightarrow> x \<notin># B"
proof -
  have c: "count A y + count B y \<le> 1" for y using assms by (simp add: uniq_def)
  show "uniq A" unfolding uniq_def using c add_leD1 by blast
  show "uniq B" unfolding uniq_def using c add_leD2 by blast
  show "x \<notin># B" if "x \<in># A"
  proof
    assume "x \<in># B"
    with that have "0 < count A x" "0 < count B x" by simp_all
    with c [of x] show False by linarith
  qed
qed

lemma uniq_mset: "uniq (mset xs) \<longleftrightarrow> distinct xs"
  by (induction xs) auto


text \<open>Rows: identifiers and sequences are unique, a sequence is at least 1.\<close>

definition wf_rows :: "(uuid option \<times> int \<times> message_state) list \<Rightarrow> bool" where
  "wf_rows rs \<longleftrightarrow> distinct (map fst rs) \<and> distinct (map (fst \<circ> snd) rs) \<and> (\<forall>(i, s, st) \<in> set rs. i \<noteq> None \<and> 1 \<le> s)"

definition live_row :: "(uuid option \<times> int \<times> message_state) list \<Rightarrow> int \<times> uuid option \<Rightarrow> bool" where
  "live_row rs t \<longleftrightarrow> (\<exists>(i, s, st) \<in> set rs. s = fst t \<and> i = snd t \<and> st \<noteq> MS_Staged)"

lemma live_rowI: "(i, s, st) \<in> set rs \<Longrightarrow> st \<noteq> MS_Staged \<Longrightarrow> live_row rs (s, i)"
  by (force simp: live_row_def)

lemma wf_rows_id: "wf_rows rs \<Longrightarrow> (i, x) \<in> set rs \<Longrightarrow> (i, y) \<in> set rs \<Longrightarrow> x = y"
  unfolding wf_rows_def by (metis eq_key_imp_eq_value)

lemma wf_rows_seq:
  assumes "wf_rows rs" "(i, s, st) \<in> set rs" "(j, s, st') \<in> set rs"
  shows "i = j \<and> st = st'"
proof -
  have "inj_on (fst \<circ> snd) (set rs)" using assms(1) by (simp add: wf_rows_def distinct_map)
  from inj_onD [OF this _ assms(2,3)] show ?thesis by simp
qed

lemma rows_evolve_wf: "rows_evolve rs rs' \<Longrightarrow> wf_rows rs \<Longrightarrow> wf_rows rs'"
  unfolding rows_evolve_def wf_rows_def by fastforce

lemma rows_evolve_back: "rows_evolve rs rs' \<Longrightarrow> (i, s, st') \<in> set rs' \<Longrightarrow>
    \<exists>st. (i, s, st) \<in> set rs \<and> (st' = st \<or> st' \<noteq> MS_Ready \<and> st' \<noteq> MS_Staged)"
  unfolding rows_evolve_def by fast

lemma rows_evolve_keep:
  assumes "rows_evolve rs rs'" "wf_rows rs" "(i, s, st) \<in> set rs" "st \<noteq> MS_Staged"
  shows "\<exists>st'. (i, s, st') \<in> set rs' \<and> (st' = st \<or> st' \<noteq> MS_Ready \<and> st' \<noteq> MS_Staged)"
proof -
  obtain st' where "(i, s, st') \<in> set rs'" using assms(1,3,4) unfolding rows_evolve_def by fast
  moreover from this obtain st0 where "(i, s, st0) \<in> set rs" "st' = st0 \<or> st' \<noteq> MS_Ready \<and> st' \<noteq> MS_Staged"
    using assms(1) unfolding rows_evolve_def by fast
  moreover from this have "st0 = st" using wf_rows_id [OF assms(2,3)] by fastforce
  ultimately show ?thesis by blast
qed

lemma rows_evolve_live: "rows_evolve rs rs' \<Longrightarrow> wf_rows rs \<Longrightarrow> live_row rs t \<Longrightarrow> live_row rs' t"
  unfolding live_row_def using rows_evolve_keep by fastforce

lemma rows_evolve_gone: "rows_evolve rs rs' \<Longrightarrow> wf_rows rs \<Longrightarrow> gone rs s \<Longrightarrow> gone rs' s"
  unfolding gone_def using rows_evolve_keep by fastforce

lemma rows_evolve_trans:
  assumes "rows_evolve rs rs'" "rows_evolve rs' rs''" "wf_rows rs"
  shows "rows_evolve rs rs''"
proof -
  have wf': "wf_rows rs'" by (rule rows_evolve_wf [OF assms(1,3)])
  have "\<exists>st. (i, s, st) \<in> set rs \<and> (st'' = st \<or> st'' \<noteq> MS_Ready \<and> st'' \<noteq> MS_Staged)" if "(i, s, st'') \<in> set rs''" for i s st''
  proof -
    from rows_evolve_back [OF assms(2) that] obtain st' where
      1: "(i, s, st') \<in> set rs'" "st'' = st' \<or> st'' \<noteq> MS_Ready \<and> st'' \<noteq> MS_Staged" by blast
    from rows_evolve_back [OF assms(1) 1(1)] 1(2) show ?thesis by blast
  qed
  moreover have "\<exists>st''. (i, s, st'') \<in> set rs''" if "(i, s, st) \<in> set rs" "st \<noteq> MS_Staged" for i s st
    using rows_evolve_keep [OF assms(1,3) that] rows_evolve_keep [OF assms(2) wf'] that(2) by blast
  ultimately show ?thesis using assms(2) unfolding rows_evolve_def by fast
qed

lemma gone_not_ready: "wf_rows rs \<Longrightarrow> gone rs s \<Longrightarrow> (i, s, MS_Ready) \<notin> set rs"
  unfolding gone_def using wf_rows_seq by fastforce

text \<open>The messages that are not in a batch yet, and those in the batch a processor flushes.\<close>

definition sending :: "seq_pc \<Rightarrow> (int \<times> uuid option) multiset" where
  "sending pc = (case pc of SqSend p work es lst full \<Rightarrow> {# work_tag work #} | _ \<Rightarrow> {#})"

lemma sending_simps [simp]:
  "sending (SqReap b) = {#}" "sending (SqReaping ps b) = {#}" "sending (SqPop b) = {#}" "sending SqQuery = {#}"
  "sending (SqFilter page) = {#}" "sending (SqEntries es lst full) = {#}" "sending (SqSend p work es lst full) = {# work_tag work #}"
  "sending SqWait = {#}" "sending SqDone = {#}" "sending (page_done b) = {#}"
  by (simp_all add: sending_def page_done_def)

definition flush_works :: "flush_phase \<Rightarrow> batch_work list" where
  "flush_works ph = (case ph of Flush_idle \<Rightarrow> [] | Flush_started fl \<Rightarrow> fl_work fl | Flush_sealed fl p \<Rightarrow> fl_work fl
     | Flush_dispatched fl p \<Rightarrow> fl_work fl | Flush_marked fl \<Rightarrow> fl_work fl)"

definition proc_todo :: "batch_processor \<Rightarrow> (int \<times> uuid option) multiset" where
  "proc_todo bp = tags (bp_chan bp) + tags (as_queue (pr_assembly (bp_loop bp)))"

definition proc_flushing :: "batch_processor \<Rightarrow> (int \<times> uuid option) multiset" where
  "proc_flushing bp = tags (flush_works (bp_flush bp))"

definition todo :: "batch_manager \<Rightarrow> (int \<times> uuid option) multiset" where
  "todo w = sum_list (map proc_todo (bm_procs w))"

definition flushing :: "batch_manager \<Rightarrow> (int \<times> uuid option) multiset" where
  "flushing w = sum_list (map proc_flushing (bm_procs w))"

definition inhand :: "batch_manager \<Rightarrow> seq_pc \<Rightarrow> (int \<times> uuid option) multiset" where
  "inhand w pc = sending pc + todo w + flushing w"

lemma sum_list_set_proc:
  fixes g :: "batch_processor \<Rightarrow> (int \<times> uuid option) multiset"
  assumes "p < length procs"
  shows "sum_list (map g (procs[p := bp])) + g (procs ! p) = sum_list (map g procs) + g bp"
  using assms
proof (induction procs arbitrary: p)
  case (Cons x xs)
  then show ?case by (cases p) (auto simp: ac_simps)
qed simp

lemma proc_in_sum:
  fixes g :: "batch_processor \<Rightarrow> (int \<times> uuid option) multiset"
  shows "bp \<in> set procs \<Longrightarrow> x \<in># g bp \<Longrightarrow> x \<in># sum_list (map g procs)"
  by (induction procs) auto

text \<open>The messages in hand, and the batches so far: each row is in one place.\<close>

definition held_ok :: "(uuid option \<times> int \<times> message_state) list \<Rightarrow> int set \<Rightarrow> (int \<times> uuid option) multiset \<Rightarrow> (int \<times> uuid option) multiset
    \<Rightarrow> (int \<times> uuid option) list \<Rightarrow> bool" where
  "held_ok rs F U Fl B \<longleftrightarrow> uniq (image_mset fst (U + Fl)) \<and> (\<forall>t \<in># U + Fl. live_row rs t \<and> fst t \<in> F) \<and>
     distinct (map fst B) \<and> (\<forall>t \<in> set B. t \<in># Fl \<or> gone rs (fst t)) \<and> (\<forall>t \<in># U. fst t \<notin> fst ` set B)"

lemma held_okD:
  assumes "held_ok rs F U Fl B"
  shows "uniq (image_mset fst (U + Fl))" "t \<in># U + Fl \<Longrightarrow> live_row rs t" "t \<in># U + Fl \<Longrightarrow> fst t \<in> F"
    "distinct (map fst B)" "t \<in> set B \<Longrightarrow> t \<in># Fl \<or> gone rs (fst t)" "t \<in># U \<Longrightarrow> fst t \<notin> fst ` set B"
  using assms unfolding held_ok_def by blast+

lemma held_okI:
  assumes "uniq (image_mset fst (U + Fl))" "\<And>t. t \<in># U + Fl \<Longrightarrow> live_row rs t" "\<And>t. t \<in># U + Fl \<Longrightarrow> fst t \<in> F"
    "distinct (map fst B)" "\<And>t. t \<in> set B \<Longrightarrow> t \<in># Fl \<or> gone rs (fst t)" "\<And>t. t \<in># U \<Longrightarrow> fst t \<notin> fst ` set B"
  shows "held_ok rs F U Fl B"
  using assms unfolding held_ok_def by blast

definition entry_tag :: "id_and_sequence \<Rightarrow> int \<times> uuid option" where
  "entry_tag e = (is_Sequence e, Some (is_ID e))"

definition entries_ok :: "(uuid option \<times> int \<times> message_state) list \<Rightarrow> int set \<Rightarrow> (int \<times> uuid option) list \<Rightarrow> id_and_sequence list \<Rightarrow> bool" where
  "entries_ok rs F B es \<longleftrightarrow> distinct (map is_Sequence es) \<and>
     (\<forall>e \<in> set es. live_row rs (entry_tag e) \<and> is_Sequence e \<notin> F \<and> is_Sequence e \<notin> fst ` set B)"

definition page_ok :: "(uuid option \<times> int \<times> message_state) list \<Rightarrow> int set \<Rightarrow> (int \<times> uuid option) list \<Rightarrow> id_and_sequence list \<Rightarrow> bool" where
  "page_ok rs F B es \<longleftrightarrow> distinct (map is_Sequence es) \<and>
     (\<forall>e \<in> set es. live_row rs (entry_tag e) \<and> (is_Sequence e \<in> F \<or> is_Sequence e \<notin> fst ` set B))"

definition pc_ok :: "(uuid option \<times> int \<times> message_state) list \<Rightarrow> int set \<Rightarrow> (int \<times> uuid option) list \<Rightarrow> nat \<Rightarrow> seq_pc \<Rightarrow> bool" where
  "pc_ok rs F B n pc \<longleftrightarrow> (case pc of
       SqFilter page \<Rightarrow> page_ok rs F B page
     | SqEntries es lst full \<Rightarrow> entries_ok rs F B es
     | SqSend p work es lst full \<Rightarrow> entries_ok rs F B es \<and> p < n
     | _ \<Rightarrow> True)"

lemma pc_ok_simps [simp]:
  "pc_ok rs F B n (SqReap b)" "pc_ok rs F B n (SqReaping ps b)" "pc_ok rs F B n (SqPop b)" "pc_ok rs F B n SqQuery"
  "pc_ok rs F B n (SqFilter page) = page_ok rs F B page" "pc_ok rs F B n (SqEntries es lst full) = entries_ok rs F B es"
  "pc_ok rs F B n (SqSend p work es lst full) \<longleftrightarrow> entries_ok rs F B es \<and> p < n"
  "pc_ok rs F B n SqWait" "pc_ok rs F B n SqDone" "pc_ok rs F B n (page_done b)"
  by (simp_all add: pc_ok_def page_done_def)

text \<open>A payload holds the messages of its batch; behind the mark their rows have moved on.\<close>

definition phase_ok :: "(uuid option \<times> int \<times> message_state) list \<Rightarrow> flush_phase \<Rightarrow> bool" where
  "phase_ok rs ph \<longleftrightarrow> (case ph of
       Flush_sealed fl p \<Rightarrow> (\<lambda>m. mh_ID (m_Header m)) ` set (dp_Messages p) = snd ` set (map work_tag (fl_work fl))
     | Flush_dispatched fl p \<Rightarrow> (\<lambda>m. mh_ID (m_Header m)) ` set (dp_Messages p) = snd ` set (map work_tag (fl_work fl))
     | Flush_marked fl \<Rightarrow> (\<forall>t \<in> set (map work_tag (fl_work fl)). gone rs (fst t))
     | _ \<Rightarrow> True)"

definition handler_ok :: "env \<Rightarrow> seq_conf \<Rightarrow> (dispatch_payload \<Rightarrow> unit nact) \<Rightarrow> bool" where
  "handler_ok E sc h \<longleftrightarrow> (\<forall>p nd r nd'. h p nd = (r, nd') \<longrightarrow> wf_rows (msg_rows (sc_namespace sc) (nd_db nd)) \<longrightarrow> cache_keyed E nd \<longrightarrow>
     rows_evolve (msg_rows (sc_namespace sc) (nd_db nd)) (msg_rows (sc_namespace sc) (nd_db nd')) \<and> cache_keyed E nd')"

definition static_ok :: "env \<Rightarrow> seq_conf \<Rightarrow> batch_manager \<Rightarrow> bool" where
  "static_ok E sc w \<longleftrightarrow>
     list_all (\<lambda>d. handler_ok E sc (di_handler d) \<and> list_all (\<lambda>(k, p). p < length (bm_procs w)) (di_processors d)) (bm_dispatchers w) \<and>
     list_all (\<lambda>(k, i). i < length (bm_dispatchers w)) (bm_dispatcherMap w) \<and> list_all (\<lambda>bp. handler_ok E sc (bp_handler bp)) (bm_procs w)"

definition inflight :: "batch_manager \<Rightarrow> int set" where
  "inflight w = fst ` set (bm_inflight w)"

text \<open>A sequence in the list of the flushed ones is in flight, its row has moved on, and nothing holds it.\<close>

definition flushed_ok :: "(uuid option \<times> int \<times> message_state) list \<Rightarrow> int set \<Rightarrow> (int \<times> uuid option) multiset \<Rightarrow> int list \<Rightarrow> bool" where
  "flushed_ok rs F X fs \<longleftrightarrow> (\<forall>s \<in> set fs. gone rs s \<and> s \<in> F \<and> s \<notin> fst ` set_mset X)"

definition safe :: "env \<Rightarrow> seq_conf \<Rightarrow> (int \<times> uuid option) list \<Rightarrow> batch_manager \<Rightarrow> seq_pc \<Rightarrow> bool" where
  "safe E sc B w pc \<longleftrightarrow> wf_rows (bm_rows sc w) \<and> cache_keyed E (bm_node w) \<and>
     held_ok (bm_rows sc w) (inflight w) (sending pc + todo w) (flushing w) B \<and>
     flushed_ok (bm_rows sc w) (inflight w) (sending pc + todo w + flushing w) (bm_flushed w) \<and>
     inflight w \<subseteq> fst ` set_mset (sending pc + todo w + flushing w) \<union> set (bm_flushed w) \<and>
     pc_ok (bm_rows sc w) (inflight w) B (length (bm_procs w)) pc \<and>
     list_all (\<lambda>bp. phase_ok (bm_rows sc w) (bp_flush bp)) (bm_procs w) \<and> static_ok E sc w"

lemma safeD:
  assumes "safe E sc B w pc"
  shows "wf_rows (bm_rows sc w)" "cache_keyed E (bm_node w)"
    "held_ok (bm_rows sc w) (inflight w) (sending pc + todo w) (flushing w) B"
    "flushed_ok (bm_rows sc w) (inflight w) (sending pc + todo w + flushing w) (bm_flushed w)"
    "inflight w \<subseteq> fst ` set_mset (sending pc + todo w + flushing w) \<union> set (bm_flushed w)"
    "pc_ok (bm_rows sc w) (inflight w) B (length (bm_procs w)) pc"
    "list_all (\<lambda>bp. phase_ok (bm_rows sc w) (bp_flush bp)) (bm_procs w)" "static_ok E sc w"
  using assms unfolding safe_def by blast+

lemma safeI:
  assumes "wf_rows (bm_rows sc w)" "cache_keyed E (bm_node w)"
    "held_ok (bm_rows sc w) (inflight w) (sending pc + todo w) (flushing w) B"
    "flushed_ok (bm_rows sc w) (inflight w) (sending pc + todo w + flushing w) (bm_flushed w)"
    "inflight w \<subseteq> fst ` set_mset (sending pc + todo w + flushing w) \<union> set (bm_flushed w)"
    "pc_ok (bm_rows sc w) (inflight w) B (length (bm_procs w)) pc"
    "list_all (\<lambda>bp. phase_ok (bm_rows sc w) (bp_flush bp)) (bm_procs w)" "static_ok E sc w"
  shows "safe E sc B w pc"
  using assms unfolding safe_def by blast


section \<open>Preservation\<close>

text \<open>The rows a change of the tables keeps: live ones stay live, and those that are gone stay gone.\<close>

definition rows_keep :: "(uuid option \<times> int \<times> message_state) list \<Rightarrow> (uuid option \<times> int \<times> message_state) list \<Rightarrow> bool" where
  "rows_keep rs rs' \<longleftrightarrow> wf_rows rs' \<and> (\<forall>t. live_row rs t \<longrightarrow> live_row rs' t) \<and> (\<forall>s. gone rs s \<longrightarrow> gone rs' s)"

lemma rows_keep_evolve: "rows_evolve rs rs' \<Longrightarrow> wf_rows rs \<Longrightarrow> rows_keep rs rs'"
  unfolding rows_keep_def using rows_evolve_live rows_evolve_gone rows_evolve_wf by blast

lemma rows_keep_append:
  assumes "wf_rows rs" "1 \<le> s" "Some i \<notin> fst ` set rs" "s \<notin> (fst \<circ> snd) ` set rs"
  shows "rows_keep rs (rs @ [(Some i, s, st)])"
  using assms by (force simp: rows_keep_def wf_rows_def live_row_def gone_def)

lemma held_ok_keep: "held_ok rs F U Fl B \<Longrightarrow> rows_keep rs rs' \<Longrightarrow> held_ok rs' F U Fl B"
  unfolding held_ok_def rows_keep_def by blast

lemma flushed_ok_keep: "flushed_ok rs F X fs \<Longrightarrow> rows_keep rs rs' \<Longrightarrow> flushed_ok rs' F X fs"
  unfolding flushed_ok_def rows_keep_def by blast

lemma pc_ok_keep: "pc_ok rs F B n pc \<Longrightarrow> rows_keep rs rs' \<Longrightarrow> pc_ok rs' F B n pc"
  by (cases pc) (auto simp: page_ok_def entries_ok_def rows_keep_def simp del: split_paired_All)

lemma phase_ok_keep: "phase_ok rs ph \<Longrightarrow> rows_keep rs rs' \<Longrightarrow> phase_ok rs' ph"
  by (cases ph) (auto simp: phase_ok_def rows_keep_def)

lemma todo_node [simp]: "todo (w \<lparr> bm_node := nd \<rparr>) = todo w" "flushing (w \<lparr> bm_node := nd \<rparr>) = flushing w"
  "inflight (w \<lparr> bm_node := nd \<rparr>) = inflight w" "static_ok E sc (w \<lparr> bm_node := nd \<rparr>) = static_ok E sc w"
  by (simp_all add: todo_def flushing_def inflight_def static_ok_def)

lemma bm_rows_simps [simp]:
  "bm_rows sc (w \<lparr> bm_node := nd \<rparr>) = msg_rows (sc_namespace sc) (nd_db nd)"
  "bm_rows sc (w \<lparr> bm_procs := ps \<rparr>) = bm_rows sc w" "bm_rows sc (w \<lparr> bm_new := ns \<rparr>) = bm_rows sc w"
  "bm_rows sc (w \<lparr> bm_readOffset := ro \<rparr>) = bm_rows sc w" "bm_rows sc (w \<lparr> bm_rewindOffset := rw \<rparr>) = bm_rows sc w"
  "bm_rows sc (w \<lparr> bm_tap := t \<rparr>) = bm_rows sc w" "bm_rows sc (w \<lparr> bm_inflight := fl \<rparr>) = bm_rows sc w"
  "bm_rows sc (w \<lparr> bm_flushed := fs \<rparr>) = bm_rows sc w" "bm_rows sc (w \<lparr> bm_dispatchers := ds \<rparr>) = bm_rows sc w"
  by (simp_all add: bm_rows_def)

lemma safe_keep:
  assumes "safe E sc B w pc" "rows_keep (bm_rows sc w) (msg_rows (sc_namespace sc) (nd_db nd))" "cache_keyed E nd"
  shows "safe E sc B (w \<lparr> bm_node := nd \<rparr>) pc"
proof -
  note s = safeD [OF assms(1)]
  have "list_all (\<lambda>bp. phase_ok (msg_rows (sc_namespace sc) (nd_db nd)) (bp_flush bp)) (bm_procs w)"
    using s(7) by (auto simp: list_all_iff intro: phase_ok_keep [OF _ assms(2)])
  moreover have "wf_rows (msg_rows (sc_namespace sc) (nd_db nd))" using assms(2) by (simp add: rows_keep_def)
  ultimately show ?thesis
    using s(5,8) assms(3) held_ok_keep [OF s(3) assms(2)] pc_ok_keep [OF s(6) assms(2)] flushed_ok_keep [OF s(4) assms(2)]
    unfolding safe_def todo_node bm_rows_simps by simp
qed

lemmas safe_evolve = safe_keep [OF _ rows_keep_evolve]

text \<open>A processor moves a message from its channel or queue into a batch.\<close>

lemma held_ok_batch:
  assumes "held_ok rs F (U + mset D) Fl B"
  shows "held_ok rs F U (Fl + mset D) (B @ D)"
proof (rule held_okI)
  note h = held_okD [OF assms]
  have u: "uniq (image_mset fst Fl + image_mset fst U + mset (map fst D))" using h(1) by (simp add: ac_simps)
  show "uniq (image_mset fst (U + (Fl + mset D)))" using h(1) by (simp add: ac_simps)
  have "distinct (map fst D)" using uniq_unionD(2) [OF u] by (simp only: uniq_mset)
  moreover have "fst ` set B \<inter> fst ` set D = {}"
  proof -
    have out: "fst t \<notin> fst ` set B" if "t \<in> set D" for t
    proof -
      have "t \<in># U + mset D" using that by simp
      from h(6) [OF this] show ?thesis .
    qed
    show ?thesis
    proof (rule equals0I)
      fix x assume "x \<in> fst ` set B \<inter> fst ` set D"
      then have b: "x \<in> fst ` set B" and d: "x \<in> fst ` set D" by (rule IntD1, rule IntD2)
      from d obtain t where "x = fst t" "t \<in> set D" by (rule imageE)
      with b out [of t] show False by (simp only:)
    qed
  qed
  ultimately show "distinct (map fst (B @ D))" using h(4) by simp
  show "live_row rs t" "fst t \<in> F" if "t \<in># U + (Fl + mset D)" for t
  proof -
    have "t \<in># U + mset D + Fl" using that by auto
    from h(2) [OF this] h(3) [OF this] show "live_row rs t" "fst t \<in> F" .
  qed
  show "t \<in># Fl + mset D \<or> gone rs (fst t)" if "t \<in> set (B @ D)" for t
    using h(5) [of t] that by auto
  show "fst t \<notin> fst ` set (B @ D)" if "t \<in># U" for t
  proof -
    have "fst t \<in># image_mset fst Fl + image_mset fst U" using that by simp
    from uniq_unionD(3) [OF u this] have "fst t \<notin># mset (map fst D)" .
    moreover have "t \<in># U + mset D" using that by simp
    from h(6) [OF this] have "fst t \<notin> fst ` set B" .
    ultimately show ?thesis by (simp add: image_Un)
  qed
qed

lemma pc_ok_batch:
  assumes "pc_ok rs F B n pc" "fst ` set D \<subseteq> F"
  shows "pc_ok rs F (B @ D) n pc"
  using assms by (cases pc) (auto simp: entries_ok_def page_ok_def)

lemma proc_sums:
  assumes "p < length (bm_procs w)"
  shows "todo (set_proc p bp w) + proc_todo (bm_procs w ! p) = todo w + proc_todo bp"
    "flushing (set_proc p bp w) + proc_flushing (bm_procs w ! p) = flushing w + proc_flushing bp"
  using sum_list_set_proc [OF assms] by (simp_all add: todo_def flushing_def set_proc_def)

lemma set_proc_simps [simp]: "bm_rows sc (set_proc p bp w) = bm_rows sc w" "inflight (set_proc p bp w) = inflight w"
  "bm_flushed (set_proc p bp w) = bm_flushed w" "bm_node (set_proc p bp w) = bm_node w" "length (bm_procs (set_proc p bp w)) = length (bm_procs w)"
  "bm_rewindOffset (set_proc p bp w) = bm_rewindOffset w" "bm_new (set_proc p bp w) = bm_new w" "bm_tap (set_proc p bp w) = bm_tap w"
  "bm_readOffset (set_proc p bp w) = bm_readOffset w"
  by (simp_all add: set_proc_def inflight_def)

lemma static_ok_set_proc:
  "static_ok E sc w \<Longrightarrow> p < length (bm_procs w) \<Longrightarrow> bp_handler bp = bp_handler (bm_procs w ! p) \<Longrightarrow> static_ok E sc (set_proc p bp w)"
  by (auto simp: static_ok_def set_proc_def list_all_iff dest!: set_update_subset_insert [THEN subsetD])

lemma phases_set_proc:
  "list_all (\<lambda>bp. phase_ok rs (bp_flush bp)) (bm_procs w) \<Longrightarrow> phase_ok rs (bp_flush bp) \<Longrightarrow>
     list_all (\<lambda>bp. phase_ok rs (bp_flush bp)) (bm_procs (set_proc p bp w))"
  by (auto simp: set_proc_def list_all_iff dest!: set_update_subset_insert [THEN subsetD])

definition label_tags :: "seq_label \<Rightarrow> (int \<times> uuid option) list" where
  "label_tags l = (case l of Batch ts \<Rightarrow> ts | _ \<Rightarrow> [])"

lemma label_tags_simps [simp]: "label_tags Quiet = []" "label_tags (Batch ts) = ts" "label_tags (Passed s) = []"
  by (simp_all add: label_tags_def)

lemma loop_event_tags:
  assumes "loop_event newid ev bp = (bp', l)" "bp_flush bp = Flush_idle"
  shows "proc_todo bp' + mset (label_tags l) = proc_todo bp + event_tags ev"
    "proc_flushing bp' = mset (label_tags l)" "bp_handler bp' = bp_handler bp"
    "phase_ok rs (bp_flush bp')"
proof -
  obtain fl p' where s: "assembly_step (bp_conf bp) newid ev (bp_loop bp) = (fl, p')" by fastforce
  have c: "tags (flushed_works fl) + tags (as_queue (pr_assembly p')) = tags (as_queue (pr_assembly (bp_loop bp))) + event_tags ev"
    using asm.conserves [of "bp_conf bp" "(newid, ev)" "bp_loop bp" fl p'] s by simp
  show "proc_todo bp' + mset (label_tags l) = proc_todo bp + event_tags ev"
    "proc_flushing bp' = mset (label_tags l)" "bp_handler bp' = bp_handler bp" "phase_ok rs (bp_flush bp')"
    using assms s c by (auto simp: loop_event_def proc_todo_def proc_flushing_def flush_works_def flushed_works_def phase_ok_def tags_def
        ac_simps split: option.splits)
qed

lemma safe_loop:
  assumes "safe E sc B w pc" "p < length (bm_procs w)" "proc_waits (bm_procs w ! p)"
    and "proc_todo bp + event_tags ev = proc_todo (bm_procs w ! p)" "bp_flush bp = bp_flush (bm_procs w ! p)"
    and "bp_handler bp = bp_handler (bm_procs w ! p)" "loop_event newid ev bp = (bp', l)"
  shows "safe E sc (B @ label_tags l) (set_proc p bp' w) pc" "inhand (set_proc p bp' w) pc = inhand w pc"
proof -
  have idle: "bp_flush bp = Flush_idle" using assms(3,5) by (simp add: proc_waits_def)
  note t = loop_event_tags [OF assms(7) idle]
  have "todo (set_proc p bp' w) + mset (label_tags l) + proc_todo (bm_procs w ! p) = todo w + (proc_todo bp' + mset (label_tags l))"
    using proc_sums(1) [OF assms(2), of bp'] by (simp add: ac_simps)
  then have td: "todo w = todo (set_proc p bp' w) + mset (label_tags l)" using t(1) assms(4) by simp
  have "proc_flushing (bm_procs w ! p) = {#}" using idle assms(5) by (simp add: proc_flushing_def flush_works_def)
  then have fl: "flushing (set_proc p bp' w) = flushing w + mset (label_tags l)"
    using proc_sums(2) [OF assms(2), of bp'] t(2) by simp
  have all: "sending pc + todo (set_proc p bp' w) + flushing (set_proc p bp' w) = sending pc + todo w + flushing w"
    by (simp add: td fl ac_simps)
  then show "inhand (set_proc p bp' w) pc = inhand w pc" by (simp add: inhand_def)
  note s = safeD [OF assms(1)]
  have "held_ok (bm_rows sc w) (inflight w) ((sending pc + todo (set_proc p bp' w)) + mset (label_tags l)) (flushing w) B"
    using s(3) td by (simp add: ac_simps)
  from held_ok_batch [OF this] have h: "held_ok (bm_rows sc w) (inflight w) (sending pc + todo (set_proc p bp' w))
      (flushing (set_proc p bp' w)) (B @ label_tags l)" by (simp only: fl)
  have "fst ` set (label_tags l) \<subseteq> inflight w" using s(3) td by (auto simp: held_ok_def)
  from pc_ok_batch [OF s(6) this] show "safe E sc (B @ label_tags l) (set_proc p bp' w) pc"
    using s(1,2,4,5) h phases_set_proc [OF s(7) t(4)] static_ok_set_proc [OF s(8) assms(2)] t(3) assms(6)
    unfolding safe_def all by simp
qed


lemma safe_frame:
  assumes "safe E sc B w pc" "bm_node w' = bm_node w" "bm_inflight w' = bm_inflight w" "bm_flushed w' = bm_flushed w"
    "bm_procs w' = bm_procs w" "bm_dispatchers w' = bm_dispatchers w" "bm_dispatcherMap w' = bm_dispatcherMap w"
    "sending pc' = sending pc" "pc_ok (bm_rows sc w) (inflight w) B (length (bm_procs w)) pc'"
  shows "safe E sc B w' pc'"
proof -
  have "bm_rows sc w' = bm_rows sc w" "todo w' = todo w" "flushing w' = flushing w" "inflight w' = inflight w"
      "static_ok E sc w' = static_ok E sc w"
    using assms(2-7) by (simp_all add: bm_rows_def todo_def flushing_def inflight_def static_ok_def)
  with assms show ?thesis by (simp add: safe_def)
qed

lemma close_processor_works:
  "p < length procs \<Longrightarrow> map proc_todo (close_processor p procs) = map proc_todo procs"
  "p < length procs \<Longrightarrow> map bp_flush (close_processor p procs) = map bp_flush procs"
  "p < length procs \<Longrightarrow> map bp_handler (close_processor p procs) = map bp_handler procs"
  by (simp_all add: close_processor_def map_update proc_todo_def list_update_same_conv)

lemma fold_close:
  assumes "\<forall>p \<in> set ps. p < length procs"
  shows "map proc_todo (fold close_processor ps procs) = map proc_todo procs \<and>
    map bp_flush (fold close_processor ps procs) = map bp_flush procs \<and>
    map bp_handler (fold close_processor ps procs) = map bp_handler procs"
  using assms
proof (induction ps arbitrary: procs)
  case (Cons p ps)
  have l: "length (close_processor p procs) = length procs" by (simp add: close_processor_def)
  show ?case using Cons.IH [of "close_processor p procs"] Cons.prems close_processor_works [of p procs] l by simp
qed simp

lemma safe_reap:
  assumes "safe E sc B w (SqReap b)" "reapQuiescing w = (reaped, w')"
  shows "safe E sc B w' (SqReaping reaped b)" "inhand w' (SqReaping reaped b) = inhand w (SqReap b)"
    "bm_node w' = bm_node w" "bm_new w' = bm_new w" "bm_rewindOffset w' = bm_rewindOffset w" "bm_readOffset w' = bm_readOffset w" "bm_tap w' = bm_tap w"
proof -
  have st: "static_ok E sc w" using assms(1) by (simp add: safe_def)
  then have "\<forall>p \<in> set reaped. p < length (bm_procs w)"
    using assms(2) by (fastforce simp: reapQuiescing_def Let_def static_ok_def list_all_iff)
  from fold_close [OF this] assms(2) have m: "map proc_todo (bm_procs w') = map proc_todo (bm_procs w)"
      "map bp_flush (bm_procs w') = map bp_flush (bm_procs w)" "map bp_handler (bm_procs w') = map bp_handler (bm_procs w)"
    by (auto simp: reapQuiescing_def Let_def)
  have "proc_flushing = (\<lambda>ph. tags (flush_works ph)) \<circ> bp_flush" by (simp add: fun_eq_iff proc_flushing_def)
  then have "flushing w' = flushing w" unfolding flushing_def by (metis m(2) list.map_comp)
  moreover have "list_all (\<lambda>bp. phase_ok rs (bp_flush bp)) (bm_procs w') = list_all (\<lambda>bp. phase_ok rs (bp_flush bp)) (bm_procs w)" for rs
  proof -
    have "list_all (\<lambda>bp. phase_ok rs (bp_flush bp)) xs = list_all (phase_ok rs) (map bp_flush xs)" for xs by (simp add: list_all_iff)
    from this [of "bm_procs w'"] this [of "bm_procs w"] m(2) show ?thesis by simp
  qed
  moreover have "list_all (\<lambda>bp. handler_ok E sc (bp_handler bp)) (bm_procs w') = list_all (\<lambda>bp. handler_ok E sc (bp_handler bp)) (bm_procs w)"
  proof -
    have "list_all (\<lambda>bp. handler_ok E sc (bp_handler bp)) xs = list_all (handler_ok E sc) (map bp_handler xs)" for xs by (simp add: list_all_iff)
    from this [of "bm_procs w'"] this [of "bm_procs w"] m(3) show ?thesis by simp
  qed
  moreover have "length (bm_procs w') = length (bm_procs w)" using m(3) by (metis length_map)
  moreover have "bm_dispatchers w' = map (\<lambda>d. d \<lparr> di_processors := filter (\<lambda>(k, p). \<not> quiescing w p) (di_processors d) \<rparr>) (bm_dispatchers w)"
      "bm_node w' = bm_node w" "bm_inflight w' = bm_inflight w" "bm_flushed w' = bm_flushed w" "bm_dispatcherMap w' = bm_dispatcherMap w"
    using assms(2) by (auto simp: reapQuiescing_def Let_def)
  ultimately show "safe E sc B w' (SqReaping reaped b)" "inhand w' (SqReaping reaped b) = inhand w (SqReap b)"
    using assms(1) m(1)
    by (auto simp: safe_def inhand_def bm_rows_def todo_def inflight_def static_ok_def list_all_iff)
  show "bm_node w' = bm_node w" "bm_new w' = bm_new w" "bm_rewindOffset w' = bm_rewindOffset w" "bm_readOffset w' = bm_readOffset w"
    "bm_tap w' = bm_tap w" using assms(2) by (auto simp: reapQuiescing_def Let_def)
qed

lemma safe_query:
  assumes "safe E sc B w SqQuery"
    "retryM n (GetMessageIDs_ready E (sc_namespace sc) off lim) (bm_node w) = (r, nd)"
  shows "safe E sc B (w \<lparr> bm_node := nd \<rparr>) SqDone"
    "r = Inr page \<Longrightarrow> page = ready_rows (sc_namespace sc) off lim (nd_db (bm_node w)) \<and> nd_db nd = nd_db (bm_node w) \<and>
       safe E sc B (w \<lparr> bm_node := nd \<rparr>) (SqFilter page)"
proof -
  let ?ns = "sc_namespace sc" and ?rs = "bm_rows sc w"
  have db: "nd_db nd = nd_db (bm_node w)"
    using keepsD [OF keeps_retryM [OF keeps_db_read [where f = "\<lambda>x. x"]] assms(2) [unfolded GetMessageIDs_ready_def]] .
  have mc: "nd_msgcache nd = nd_msgcache (bm_node w)"
    using keepsD [OF keeps_retryM [OF keeps_cache_simple(1)] assms(2) [unfolded GetMessageIDs_ready_def]] .
  have wf: "wf_rows ?rs" using assms(1) by (simp add: safe_def)
  then have "rows_evolve ?rs (msg_rows ?ns (nd_db nd))"
    using db by (auto simp: wf_rows_def bm_rows_def intro: rows_evolve_refl)
  from safe_evolve [OF assms(1) this wf] mc have s: "safe E sc B (w \<lparr> bm_node := nd \<rparr>) SqQuery"
    using assms(1) by (simp add: safe_def cache_keyed_def)
  then show "safe E sc B (w \<lparr> bm_node := nd \<rparr>) SqDone" by (rule safe_frame) simp_all
  assume r: "r = Inr page"
  from retryM_Inr [where f = nd_db, OF assms(2) [unfolded r]] obtain t where
    t: "nd_db t = nd_db (bm_node w)" "GetMessageIDs_ready E ?ns off lim t = (Inr page, nd)"
    using keepsD [OF keeps_db_read [where f = "\<lambda>x. x"]] unfolding GetMessageIDs_ready_def by metis
  then have page: "page = ready_rows ?ns off lim (nd_db (bm_node w))"
    by (simp add: GetMessageIDs_ready_def db_read_Inr)
  have mem: "(Some (is_ID e), is_Sequence e, MS_Ready) \<in> set ?rs" if e: "e \<in> set page" for e
  proof -
    obtain m where m: "m \<in> set (db_messages (nd_db (bm_node w)))" "m_LocalNamespace m = ?ns" "m_State m = MS_Ready"
        "e = \<lparr> is_ID = the (mh_ID (m_Header m)), is_Sequence = m_Sequence m \<rparr>"
      using e page by (auto simp: ready_rows_def dest!: in_set_takeD)
    then have "(mh_ID (m_Header m), m_Sequence m, MS_Ready) \<in> set ?rs" by (force simp: bm_rows_def msg_rows_def)
    moreover from this wf have "mh_ID (m_Header m) \<noteq> None" by (fastforce simp: wf_rows_def)
    ultimately show ?thesis using m(4) by auto
  qed
  have "distinct (map is_Sequence page)"
  proof -
    have "distinct (map m_Sequence (filter (\<lambda>m. m_LocalNamespace m = ?ns) (db_messages (nd_db (bm_node w)))))"
      using wf by (simp add: wf_rows_def bm_rows_def msg_rows_def comp_def)
    then have "distinct (map m_Sequence (filter (\<lambda>m. m_Sequence m > off \<and> m_State m = MS_Ready)
        (filter (\<lambda>m. m_LocalNamespace m = ?ns) (db_messages (nd_db (bm_node w))))))"
      by (rule distinct_map_filter)
    then have "distinct (map m_Sequence (sort_key m_Sequence (filter (\<lambda>m. m_LocalNamespace m = ?ns \<and> m_Sequence m > off \<and> m_State m = MS_Ready)
        (db_messages (nd_db (bm_node w))))))"
      by (simp add: distinct_map conj_commute conj_left_commute)
    then show ?thesis unfolding page ready_rows_def by (simp add: comp_def distinct_take flip: take_map)
  qed
  moreover have "is_Sequence e \<in> inflight w" if e: "e \<in> set page" and b: "is_Sequence e \<in> fst ` set B" for e
  proof -
    have "\<not> gone ?rs (is_Sequence e)" using gone_not_ready [OF wf] mem [OF e] by blast
    then obtain t where "t \<in># flushing w" "fst t = is_Sequence e"
      using b held_okD(5) [OF safeD(3) [OF assms(1)]] by force
    then show ?thesis using held_okD(3) [OF safeD(3) [OF assms(1)], of t] by simp
  qed
  moreover have "live_row ?rs (entry_tag e)" if "e \<in> set page" for e
    using live_rowI [OF mem [OF that]] by (simp add: entry_tag_def)
  ultimately have "page_ok ?rs (inflight w) B page" unfolding page_ok_def by blast
  then have "safe E sc B (w \<lparr> bm_node := nd \<rparr>) (SqFilter page)"
    using safe_frame [OF s, of "w \<lparr> bm_node := nd \<rparr>" "SqFilter page"] db by (simp add: bm_rows_def)
  with page db show "page = ready_rows ?ns off lim (nd_db (bm_node w)) \<and> nd_db nd = nd_db (bm_node w) \<and>
      safe E sc B (w \<lparr> bm_node := nd \<rparr>) (SqFilter page)" by blast
qed

text \<open>An entry of a page goes in flight with its processor.\<close>

lemma getProcessor_same:
  assumes "getProcessor E newid ty mt g a w = (r, w')" "static_ok E sc w"
  shows "bm_rows sc w' = bm_rows sc w" "bm_node w' = bm_node w" "bm_inflight w' = bm_inflight w" "bm_flushed w' = bm_flushed w"
    "bm_new w' = bm_new w" "bm_rewindOffset w' = bm_rewindOffset w" "bm_readOffset w' = bm_readOffset w" "bm_tap w' = bm_tap w"
    "todo w' = todo w" "flushing w' = flushing w" "static_ok E sc w'" "r = Some p \<Longrightarrow> p < length (bm_procs w')"
    "list_all (\<lambda>bp. phase_ok rs (bp_flush bp)) (bm_procs w) \<Longrightarrow> list_all (\<lambda>bp. phase_ok rs (bp_flush bp)) (bm_procs w')"
proof -
  let ?name = "getProcessorKey E a g"
  have "w' = w \<and> (\<forall>p. r = Some p \<longrightarrow> p < length (bm_procs w)) \<or> (\<exists>i d. i < length (bm_dispatchers w) \<and> d = bm_dispatchers w ! i \<and>
      r = Some (length (bm_procs w)) \<and> w' = w \<lparr> bm_procs := bm_procs w @ [newBatchProcessor newid d ty a g],
        bm_dispatchers := (bm_dispatchers w)[i := d \<lparr> di_processors := assoc_put ?name (length (bm_procs w)) (di_processors d) \<rparr>] \<rparr>)"
  proof (cases "map_of (bm_dispatcherMap w) (getDispatcherKey ty mt)")
    case None
    then show ?thesis using assms(1) by (simp add: getProcessor_def)
  next
    case (Some i)
    then have i: "i < length (bm_dispatchers w)"
      using assms(2) by (fastforce simp: static_ok_def list_all_iff dest: map_of_SomeD)
    show ?thesis
    proof (cases "map_of (di_processors (bm_dispatchers w ! i)) ?name")
      case None
      then show ?thesis using assms(1) Some i by (auto simp: getProcessor_def Let_def)
    next
      case old: (Some p)
      have "bm_dispatchers w ! i \<in> set (bm_dispatchers w)" using i by simp
      then have "p < length (bm_procs w)"
        using assms(2) map_of_SomeD [OF old] by (fastforce simp: static_ok_def list_all_iff)
      then show ?thesis using assms(1) Some old by (auto simp: getProcessor_def Let_def)
    qed
  qed
  then consider "w' = w" "\<forall>p. r = Some p \<longrightarrow> p < length (bm_procs w)" | i d where "i < length (bm_dispatchers w)" "d = bm_dispatchers w ! i"
    "r = Some (length (bm_procs w))" "w' = w \<lparr> bm_procs := bm_procs w @ [newBatchProcessor newid d ty a g],
       bm_dispatchers := (bm_dispatchers w)[i := d \<lparr> di_processors := assoc_put ?name (length (bm_procs w)) (di_processors d) \<rparr>] \<rparr>" by blast
  then have "bm_rows sc w' = bm_rows sc w \<and> bm_node w' = bm_node w \<and> bm_inflight w' = bm_inflight w \<and> bm_flushed w' = bm_flushed w \<and>
    bm_new w' = bm_new w \<and> bm_rewindOffset w' = bm_rewindOffset w \<and> bm_readOffset w' = bm_readOffset w \<and> bm_tap w' = bm_tap w \<and>
    todo w' = todo w \<and> flushing w' = flushing w \<and> static_ok E sc w' \<and> (r = Some p \<longrightarrow> p < length (bm_procs w')) \<and>
    (list_all (\<lambda>bp. phase_ok rs (bp_flush bp)) (bm_procs w) \<longrightarrow> list_all (\<lambda>bp. phase_ok rs (bp_flush bp)) (bm_procs w'))"
  proof cases
    case 1
    then show ?thesis using assms(2) by simp
  next
    case (2 i d)
    have new: "proc_todo (newBatchProcessor newid d ty a g) = {#}" "proc_flushing (newBatchProcessor newid d ty a g) = {#}"
        "phase_ok rs (bp_flush (newBatchProcessor newid d ty a g))" "bp_handler (newBatchProcessor newid d ty a g) = di_handler d"
      by (simp_all add: newBatchProcessor_def proc_todo_def proc_flushing_def phase_ok_def flush_works_def processor_start_def newAssembly_def)
    have d: "d \<in> set (bm_dispatchers w)" using 2 by simp
    have put: "list_all P (assoc_put k v kvs)" if "list_all P kvs" "P (k, v)" for P k v and kvs :: "(string \<times> nat) list"
      using that by (induction kvs) auto
    have "list_all (\<lambda>(k, q). q < Suc (length (bm_procs w))) (di_processors d')" if "d' \<in> set (bm_dispatchers w)" for d'
      using assms(2) that by (fastforce simp: static_ok_def list_all_iff)
    note q = this
    have pu: "list_all (\<lambda>(k, q). q < Suc (length (bm_procs w))) (assoc_put ?name (length (bm_procs w)) (di_processors d))"
      by (rule put) (use q [OF d] in simp_all)
    have "handler_ok E sc (di_handler d') \<and> list_all (\<lambda>(k, p). p < Suc (length (bm_procs w))) (di_processors d')"
      if "d' \<in> set (bm_dispatchers w')" for d'
    proof -
      from that have "d' = d \<lparr> di_processors := assoc_put ?name (length (bm_procs w)) (di_processors d) \<rparr> \<or> d' \<in> set (bm_dispatchers w)"
        by (auto simp: 2(4) dest!: set_update_subset_insert [THEN subsetD])
      moreover have h: "handler_ok E sc (di_handler d0)" if "d0 \<in> set (bm_dispatchers w)" for d0
        using assms(2) that by (simp add: static_ok_def list_all_iff)
      ultimately show ?thesis using pu q h [OF d] by fastforce
    qed
    then have hp: "list_all (\<lambda>d. handler_ok E sc (di_handler d) \<and> list_all (\<lambda>(k, p). p < Suc (length (bm_procs w))) (di_processors d)) (bm_dispatchers w')"
      unfolding list_all_iff [of _ "bm_dispatchers w'"] by blast
    have "static_ok E sc w'"
      using hp
      using assms(2) d new(4) by (simp add: 2(4) static_ok_def) (simp add: list_all_iff)
    then show ?thesis by (simp add: 2 bm_rows_def todo_def flushing_def new [unfolded 2(2)])
  qed
  then show "bm_rows sc w' = bm_rows sc w" "bm_node w' = bm_node w" "bm_inflight w' = bm_inflight w" "bm_flushed w' = bm_flushed w"
    "bm_new w' = bm_new w" "bm_rewindOffset w' = bm_rewindOffset w" "bm_readOffset w' = bm_readOffset w" "bm_tap w' = bm_tap w"
    "todo w' = todo w" "flushing w' = flushing w" "static_ok E sc w'" "r = Some p \<Longrightarrow> p < length (bm_procs w')"
    "list_all (\<lambda>bp. phase_ok rs (bp_flush bp)) (bm_procs w) \<Longrightarrow> list_all (\<lambda>bp. phase_ok rs (bp_flush bp)) (bm_procs w')" by blast+
qed

lemma held_ok_add:
  assumes "held_ok rs F U Fl B" "live_row rs t" "fst t \<notin> F" "fst t \<notin> fst ` set B"
  shows "held_ok rs (insert (fst t) F) (add_mset t U) Fl B"
proof (rule held_okI)
  note h = held_okD [OF assms(1)]
  have "fst t \<notin># image_mset fst (U + Fl)" using h(3) assms(3) by (metis (no_types, lifting) imageE set_image_mset)
  then show "uniq (image_mset fst (add_mset t U + Fl))" using h(1) by simp
  show "live_row rs t'" if "t' \<in># add_mset t U + Fl" for t'
    using that h(2) [of t'] assms(2) by auto
  show "fst t' \<in> insert (fst t) F" if "t' \<in># add_mset t U + Fl" for t'
    using that h(3) [of t'] by auto
  show "fst t' \<notin> fst ` set B" if "t' \<in># add_mset t U" for t'
    using that h(6) [of t'] assms(4) by (cases "t' = t") simp_all
qed (use held_okD [OF assms(1)] in blast)+

lemma set_inflight [simp]: "set (map fst (assoc_put k v kvs)) = insert k (set (map fst kvs))"
  by (induction kvs) auto

lemma safe_entry:
  assumes "safe E sc B w (SqEntries (e # es) lst full)" "sequence_entry E sc newid e w = (r, w')" "ids_distinct E"
  shows "r = None \<Longrightarrow> safe E sc B w' (SqEntries es lst full) \<and> inhand w' (SqEntries es lst full) = inhand w (SqEntries (e # es) lst full)"
    "r = Some (p, work) \<Longrightarrow> safe E sc B w' (SqSend p work es lst full) \<and>
       inhand w' (SqSend p work es lst full) = add_mset (entry_tag e) (inhand w (SqEntries (e # es) lst full))"
    "bm_rows sc w' = bm_rows sc w" "bm_new w' = bm_new w" "bm_rewindOffset w' = bm_rewindOffset w" "bm_readOffset w' = bm_readOffset w"
    "bm_tap w' = bm_tap w"
proof -
  obtain x nd where x: "entry_work E sc e (bm_node w) = (x, nd)" by (cases "entry_work E sc e (bm_node w)")
  let ?w1 = "w \<lparr> bm_node := nd \<rparr>"
  have db: "nd_db nd = nd_db (bm_node w)"
    using keepsD [OF keeps_entry_work [where f = "\<lambda>x. x"] x] .
  have ck: "cache_keyed E (bm_node w)" "wf_rows (bm_rows sc w)" using safeD(2,1) [OF assms(1)] .
  have ck': "cache_keyed E nd" using stableD [OF stable_entry_work x ck(1)] .
  have "rows_evolve (bm_rows sc w) (msg_rows (sc_namespace sc) (nd_db nd))"
    using db ck(2) by (auto simp: wf_rows_def bm_rows_def intro: rows_evolve_refl)
  from safe_evolve [OF assms(1) this ck(2) ck'] have s1: "safe E sc B ?w1 (SqEntries (e # es) lst full)" .
  then have es: "entries_ok (bm_rows sc ?w1) (inflight ?w1) B (e # es)" using safeD(6) by fastforce
  then have "entries_ok (bm_rows sc ?w1) (inflight ?w1) B es" by (auto simp: entries_ok_def)
  then have s2: "safe E sc B ?w1 (SqEntries es lst full)" by (intro safe_frame [OF s1]) simp_all
  note st = safeD(8) [OF s1]
  show r1: "safe E sc B w' (SqEntries es lst full) \<and> inhand w' (SqEntries es lst full) = inhand w (SqEntries (e # es) lst full)" if r: "r = None"
  proof (cases x)
    case (Inl err)
    then show ?thesis using assms(2) x s2 by (auto simp: sequence_entry_def inhand_def)
  next
    case (Inr work)
    let ?h = "m_Header (bw_msg work)"
    obtain q w2 where g: "getProcessor E newid (mh_TxType ?h) (mh_Type ?h) (mh_Group ?h) (sr_Author (mh_Signer ?h)) ?w1 = (q, w2)" by fastforce
    then have "q = None" "w' = w2" using assms(2) x Inr r by (auto simp: sequence_entry_def Let_def split: option.splits)
    moreover from this g have "w2 = ?w1" by (auto simp: getProcessor_def Let_def split: option.splits)
    ultimately show ?thesis using s2 by (simp add: inhand_def)
  qed
  have "bm_rows sc w' = bm_rows sc ?w1 \<and> bm_new w' = bm_new ?w1 \<and> bm_rewindOffset w' = bm_rewindOffset ?w1 \<and>
      bm_readOffset w' = bm_readOffset ?w1 \<and> bm_tap w' = bm_tap ?w1"
  proof (cases x)
    case (Inl err)
    then show ?thesis using assms(2) x by (auto simp: sequence_entry_def)
  next
    case (Inr work)
    let ?h = "m_Header (bw_msg work)"
    obtain q w2 where g: "getProcessor E newid (mh_TxType ?h) (mh_Type ?h) (mh_Group ?h) (sr_Author (mh_Signer ?h)) ?w1 = (q, w2)" by fastforce
    have "w' = w2 \<or> (\<exists>p. w' = w2 \<lparr> bm_inflight := assoc_put (is_Sequence e) p (bm_inflight w2) \<rparr>)"
      using assms(2) x Inr g by (auto simp: sequence_entry_def Let_def split: option.splits)
    then show ?thesis using getProcessor_same(1,5-8) [OF g st] by auto
  qed
  then show "bm_rows sc w' = bm_rows sc w" "bm_new w' = bm_new w" "bm_rewindOffset w' = bm_rewindOffset w" "bm_readOffset w' = bm_readOffset w"
    "bm_tap w' = bm_tap w" by (simp_all add: db bm_rows_def)
  show "safe E sc B w' (SqSend p work es lst full) \<and>
      inhand w' (SqSend p work es lst full) = add_mset (entry_tag e) (inhand w (SqEntries (e # es) lst full))" if r: "r = Some (p, work)"
  proof -
    let ?h = "m_Header (bw_msg work)"
    obtain w2 where xw: "x = Inr work" and
      g: "getProcessor E newid (mh_TxType ?h) (mh_Type ?h) (mh_Group ?h) (sr_Author (mh_Signer ?h)) ?w1 = (Some p, w2)" and
      w': "w' = w2 \<lparr> bm_inflight := assoc_put (is_Sequence e) p (bm_inflight w2) \<rparr>"
      using assms(2) x r by (auto simp: sequence_entry_def Let_def split: sum.splits option.splits prod.splits)
    note same = getProcessor_same [OF g st]
    have tag: "work_tag work = entry_tag e"
      using entry_work_tag [OF x [unfolded xw] ck(1) assms(3)] by (simp add: entry_tag_def)
    note s = safeD [OF s1]
    have f: "inflight w' = insert (is_Sequence e) (inflight ?w1)"
      using set_inflight [of "is_Sequence e" p "bm_inflight w2"] same(3) by (simp add: inflight_def w')
    have e: "live_row (bm_rows sc ?w1) (entry_tag e)" "fst (entry_tag e) \<notin> inflight ?w1" "fst (entry_tag e) \<notin> fst ` set B"
      using es by (auto simp: entries_ok_def entry_tag_def)
    have "held_ok (bm_rows sc ?w1) (insert (fst (entry_tag e)) (inflight ?w1)) (add_mset (entry_tag e) (todo ?w1)) (flushing ?w1) B"
      using held_ok_add [OF s(3) e] by simp
    then have h: "held_ok (bm_rows sc w') (inflight w') (sending (SqSend p work es lst full) + todo w') (flushing w') B"
      using f same(1,9,10) by (simp add: w' tag entry_tag_def todo_def flushing_def)
    have fl: "flushed_ok (bm_rows sc w') (inflight w') (sending (SqSend p work es lst full) + todo w' + flushing w') (bm_flushed w')"
      using s(4) e(2) f same(1,4,9,10) by (auto simp: flushed_ok_def w' tag entry_tag_def todo_def flushing_def)
    have inf: "inflight w' \<subseteq> fst ` set_mset (sending (SqSend p work es lst full) + todo w' + flushing w') \<union> set (bm_flushed w')"
      using s(5) f same(4,9,10) by (auto simp: w' tag entry_tag_def todo_def flushing_def)
    have pc: "pc_ok (bm_rows sc w') (inflight w') B (length (bm_procs w')) (SqSend p work es lst full)"
    proof -
      have "is_Sequence e' \<noteq> is_Sequence e" if "e' \<in> set es" for e'
        using es imageI [OF that, of is_Sequence] by (auto simp: entries_ok_def)
      then show ?thesis using es f same(1) same(12) by (auto simp: entries_ok_def w')
    qed
    have "safe E sc B w' (SqSend p work es lst full)"
    proof (rule safeI [OF _ _ h fl inf pc])
      show "list_all (\<lambda>bp. phase_ok (bm_rows sc w') (bp_flush bp)) (bm_procs w')"
        using same(13) [OF s(7)] same(1) by (simp add: w')
    qed (use s(1,2) same(1,2,11) in \<open>simp_all add: w' static_ok_def\<close>)
    moreover have "inhand w' (SqSend p work es lst full) = add_mset (entry_tag e) (inhand w (SqEntries (e # es) lst full))"
      using same(9,10) by (simp add: inhand_def w' tag todo_def flushing_def)
    ultimately show ?thesis by blast
  qed
qed

lemma safe_send:
  assumes "safe E sc B w (SqSend p work es lst full)"
  shows "safe E sc B (send_work p work w) (SqEntries es lst full)"
    "inhand (send_work p work w) (SqEntries es lst full) = inhand w (SqSend p work es lst full)"
proof -
  note s = safeD [OF assms]
  have p: "p < length (bm_procs w)" using s(6) by simp
  obtain bp where bp: "bp = (bm_procs w ! p) \<lparr> bp_chan := bp_chan (bm_procs w ! p) @ [work] \<rparr>" by blast
  have w': "send_work p work w = set_proc p bp w" by (simp add: send_work_def set_proc_def bp)
  have td: "todo (set_proc p bp w) = add_mset (work_tag work) (todo w)"
    using proc_sums(1) [OF p, of bp] by (simp add: bp proc_todo_def)
  have fl: "flushing (set_proc p bp w) = flushing w"
    using proc_sums(2) [OF p, of bp] by (simp add: bp proc_flushing_def)
  have ph: "phase_ok (bm_rows sc w) (bp_flush bp)" using s(7) p by (simp add: bp list_all_length)
  show "inhand (send_work p work w) (SqEntries es lst full) = inhand w (SqSend p work es lst full)"
    by (simp add: w' inhand_def td fl)
  show "safe E sc B (send_work p work w) (SqEntries es lst full)"
    using s(1-6) phases_set_proc [OF s(7) ph] static_ok_set_proc [OF s(8) p, of bp]
    unfolding safe_def w' td fl by (simp add: bp)
qed

lemma safe_filter:
  assumes "safe E sc B w (SqFilter page)" "filterFlushed page w = (entries, w')"
  shows "safe E sc B w' (SqEntries entries lst full)" "safe E sc B w' (page_done full)"
proof -
  note s = safeD [OF assms(1)]
  have w': "w' = w \<lparr> bm_inflight := filter (\<lambda>(k, p). k \<notin> set (bm_flushed w)) (bm_inflight w), bm_flushed := [] \<rparr>"
    and en: "entries = filter (\<lambda>e. map_of (bm_inflight w) (is_Sequence e) = None) page"
    using assms(2) by (simp_all add: filterFlushed_def)
  have f: "inflight w' = inflight w - set (bm_flushed w)" by (force simp: inflight_def w')
  have same: "todo w' = todo w" "flushing w' = flushing w" "bm_rows sc w' = bm_rows sc w" "bm_procs w' = bm_procs w"
      "static_ok E sc w' = static_ok E sc w" "bm_node w' = bm_node w" "bm_flushed w' = []"
    by (simp_all add: w' todo_def flushing_def static_ok_def)
  have notfl: "fst t \<notin> set (bm_flushed w)" if "t \<in># todo w + flushing w" for t
    using s(4) imageI [OF that, of fst] by (auto simp: flushed_ok_def)
  have h: "held_ok (bm_rows sc w) (inflight w') (todo w) (flushing w) B"
  proof (rule held_okI)
    show "fst t \<in> inflight w'" if "t \<in># todo w + flushing w" for t
      using notfl [OF that] held_okD(3) [OF s(3), of t] that f by simp
  qed (use held_okD [OF s(3)] in \<open>simp_all del: split_paired_All\<close>)
  have inf: "inflight w' \<subseteq> fst ` set_mset (todo w + flushing w)" using s(5) f by auto
  have "entries_ok (bm_rows sc w) (inflight w') B entries"
  proof -
    have k: "is_Sequence e \<notin> inflight w" if "e \<in> set entries" for e
      using that by (auto simp: en inflight_def map_of_eq_None_iff)
    have pg: "distinct (map is_Sequence page)" "e \<in> set page \<Longrightarrow> live_row (bm_rows sc w) (entry_tag e)"
      "e \<in> set page \<Longrightarrow> is_Sequence e \<notin> inflight w \<Longrightarrow> is_Sequence e \<notin> fst ` set B" for e
      using s(6) by (auto simp: page_ok_def)
    have "e \<in> set page" if "e \<in> set entries" for e using that by (simp add: en)
    moreover have "distinct (map is_Sequence entries)" using distinct_map_filter [OF pg(1)] by (simp add: en)
    ultimately show ?thesis using k pg(2,3) f unfolding entries_ok_def by blast
  qed
  then show "safe E sc B w' (SqEntries entries lst full)" "safe E sc B w' (page_done full)"
    using s(1,2,7,8) h inf unfolding safe_def by (simp_all add: same flushed_ok_def)
qed

lemma safe_new_row:
  assumes "safe E sc B w pc" "msg_rows (sc_namespace sc) (nd_db nd) = bm_rows sc w @ [(Some i, sq, st)]" "1 \<le> sq"
    "Some i \<notin> fst ` set (bm_rows sc w)" "sq \<notin> (fst \<circ> snd) ` set (bm_rows sc w)" "cache_keyed E nd"
  shows "safe E sc B (w \<lparr> bm_node := nd, bm_new := ns \<rparr>) pc"
proof -
  have "rows_keep (bm_rows sc w) (msg_rows (sc_namespace sc) (nd_db nd))"
    unfolding assms(2) by (rule rows_keep_append [OF safeD(1) [OF assms(1)] assms(3-5)])
  from safe_keep [OF assms(1) this assms(6)] have s: "safe E sc B (w \<lparr> bm_node := nd \<rparr>) pc" .
  show ?thesis by (rule safe_frame [OF s]) (use safeD(6) [OF s] in simp_all)
qed

text \<open>A phase of a flush.\<close>

lemma retryM_rows:
  assumes "handler_ok E sc h" "retryM n (h p) nd = (r, nd')" "wf_rows (msg_rows (sc_namespace sc) (nd_db nd))" "cache_keyed E nd"
  shows "rows_evolve (msg_rows (sc_namespace sc) (nd_db nd)) (msg_rows (sc_namespace sc) (nd_db nd')) \<and> cache_keyed E nd'"
  using assms(2-4)
proof (induction n arbitrary: nd)
  case 0
  then show ?case by (auto simp: wf_rows_def throwM_def intro: rows_evolve_refl)
next
  case (Suc n)
  let ?rs = "\<lambda>nd. msg_rows (sc_namespace sc) (nd_db nd)"
  obtain x t where m: "h p nd = (x, t)" by (cases "h p nd")
  then have t: "rows_evolve (?rs nd) (?rs t)" "cache_keyed E t" using assms(1) Suc.prems(2,3) by (auto simp: handler_ok_def)
  then have wf: "wf_rows (?rs t)" using rows_evolve_wf Suc.prems(2) by blast
  show ?case
  proof (cases "nd' = t")
    case False
    then have "retryM n (h p) t = (r, nd')" using Suc.prems(1) m by (auto split: sum.splits fferr.splits)
    from Suc.IH [OF this wf t(2)] rows_evolve_trans [OF t(1) _ Suc.prems(2)] show ?thesis by blast
  qed (use t in simp)
qed

lemma payload_ids:
  assumes "initPayload E bg conf i ws nd = (Inr p0, nd1)" "sealBatch E bg conf n p0 nd1 = (Inr p, nd2)" "e_atomic E"
  shows "(\<lambda>m. mh_ID (m_Header m)) ` set (dp_Messages p) = snd ` set (map work_tag ws)"
proof -
  have m0: "dp_Messages p0 = map (\<lambda>w. BatchMessage (bw_msg w)) ws"
    using assms(1) by (auto simp: initPayload_def bindM_eq_Inr split: sum.splits fferr.splits)
  from sealBatch_attempt [OF assms(2,3)] obtain p1 ds t nd3 where
    a: "seal_attempt E bg conf p0 t = (Inr (p1, ds), nd3)" "map m_Header (dp_Messages p) = map m_Header (dp_Messages p1)" by metis
  from seal_attempt_Inr [OF a(1)] obtain pins tx where "p1 = seal_manifest E conf tx (p0 \<lparr> dp_Pins := pins \<rparr>)" by metis
  then have "map m_Header (dp_Messages p) = map m_Header (dp_Messages p0)" using a(2) by simp
  then have h: "map m_Header (dp_Messages p) = map (\<lambda>w. m_Header (bw_msg w)) ws" by (simp add: m0 comp_def)
  have "(\<lambda>m. mh_ID (m_Header m)) ` set (dp_Messages p) = mh_ID ` set (map m_Header (dp_Messages p))" by (simp add: image_image)
  also have "\<dots> = snd ` set (map work_tag ws)" unfolding h by (simp add: image_image work_tag_def)
  finally show ?thesis .
qed

lemma flush_phase_ok:
  assumes "flush_phase_act E sc bp nd = (r, nd')" "wf_rows (msg_rows (sc_namespace sc) (nd_db nd))" "cache_keyed E nd" "e_atomic E"
    "handler_ok E sc (bp_handler bp)" "phase_ok (msg_rows (sc_namespace sc) (nd_db nd)) (bp_flush bp)"
    "\<And>t. t \<in># proc_flushing bp \<Longrightarrow> live_row (msg_rows (sc_namespace sc) (nd_db nd)) t"
  shows "rows_evolve (msg_rows (sc_namespace sc) (nd_db nd)) (msg_rows (sc_namespace sc) (nd_db nd'))" "cache_keyed E nd'"
    "r = Inr ph \<Longrightarrow> flush_works ph = flush_works (bp_flush bp) \<and> phase_ok (msg_rows (sc_namespace sc) (nd_db nd')) ph"
proof -
  let ?rs = "\<lambda>nd. msg_rows (sc_namespace sc) (nd_db nd)"
  have d: "distinct (map fst (?rs nd))" "distinct (map (fst \<circ> snd) (?rs nd))" using assms(2) by (simp_all add: wf_rows_def)
  note refl = rows_evolve_refl [OF d]
  have ns: "bg_namespace (proc_mgr sc bp) = sc_namespace sc" "bg_dispatch (proc_mgr sc bp) = bp_handler bp" by (simp_all add: proc_mgr_def)
  have "rows_evolve (?rs nd) (?rs nd') \<and> cache_keyed E nd' \<and> (\<forall>ph. r = Inr ph \<longrightarrow> flush_works ph = flush_works (bp_flush bp) \<and> phase_ok (?rs nd') ph)"
  proof (cases "bp_flush bp")
    case Flush_idle
    then show ?thesis using assms(1-3) refl by (auto simp: flush_phase_act_def phase_ok_def)
  next
    case (Flush_marked fl)
    then show ?thesis using assms(1-3,6) refl by (auto simp: flush_phase_act_def)
  next
    case (Flush_started fl)
    let ?m = "bindM (initPayload E (proc_mgr sc bp) (bp_conf bp) (fl_ID fl) (fl_work fl))
       (\<lambda>payload. bindM (sealBatch E (proc_mgr sc bp) (bp_conf bp) (sc_retries sc) payload) (\<lambda>payload. retM (Flush_sealed fl payload)))"
    have m: "?m nd = (r, nd')" using assms(1) Flush_started by (simp add: flush_phase_act_def Let_def)
    have "keeps (\<lambda>nd. ?rs nd) ?m" by (intro keeps_intros keeps_initPayload msg_rows_sealBatch) simp_all
    from keepsD [OF this m] have rs: "?rs nd' = ?rs nd" .
    have "stable (cache_keyed E) ?m"
      by (intro stable_intros stable_sealBatch stable_cache keeps_initPayload) simp_all
    from stableD [OF this m assms(3)] have ck: "cache_keyed E nd'" .
    have "flush_works ph = fl_work fl \<and> phase_ok (?rs nd') ph" if "r = Inr ph" for ph
    proof -
      from m [unfolded that] obtain p0 nd1 p where i: "initPayload E (proc_mgr sc bp) (bp_conf bp) (fl_ID fl) (fl_work fl) nd = (Inr p0, nd1)"
        "sealBatch E (proc_mgr sc bp) (bp_conf bp) (sc_retries sc) p0 nd1 = (Inr p, nd')" "ph = Flush_sealed fl p"
        by (auto simp: bindM_eq_Inr)
      from payload_ids [OF i(1,2) assms(4)] show ?thesis by (simp add: i(3) flush_works_def phase_ok_def)
    qed
    then show ?thesis using rs ck refl Flush_started by (simp add: flush_works_def)
  next
    case (Flush_sealed fl p)
    then have m: "bindM (retryM (sc_retries sc) (bp_handler bp p)) (\<lambda>_. retM (Flush_dispatched fl p)) nd = (r, nd')"
      using assms(1) by (simp add: flush_phase_act_def Let_def dispatchBatch_def ns)
    obtain x where x: "retryM (sc_retries sc) (bp_handler bp p) nd = (x, nd')" and r: "r = Inr ph \<Longrightarrow> ph = Flush_dispatched fl p" for ph
      using m by (cases "retryM (sc_retries sc) (bp_handler bp p) nd") (auto simp: bindM_def retM_def split: sum.splits)
    from retryM_rows [OF assms(5) x assms(2,3)] assms(6) Flush_sealed r show ?thesis
      by (auto simp: flush_works_def phase_ok_def)
  next
    case (Flush_dispatched fl p)
    then have m: "bindM (markPayloadDispatched E (proc_mgr sc bp) (bp_conf bp) (sc_retries sc) p) (\<lambda>_. retM (Flush_marked fl)) nd = (r, nd')"
      using assms(1) by (simp add: flush_phase_act_def Let_def)
    obtain x where x: "markPayloadDispatched E (proc_mgr sc bp) (bp_conf bp) (sc_retries sc) p nd = (x, nd')"
        and r: "r = Inr ph \<Longrightarrow> x = Inr () \<and> ph = Flush_marked fl" for ph
      using m by (cases "markPayloadDispatched E (proc_mgr sc bp) (bp_conf bp) (sc_retries sc) p nd") (auto simp: bindM_def retM_def split: sum.splits)
    from stableD [OF stable_mark x assms(3)] have ck: "cache_keyed E nd'" .
    have ids: "(\<lambda>m. mh_ID (m_Header m)) ` set (dp_Messages p) = snd ` set (map work_tag (fl_work fl))"
      using assms(6) Flush_dispatched by (simp add: phase_ok_def)
    have "gone (?rs nd') (fst t)" if "r = Inr ph" "t \<in> set (map work_tag (fl_work fl))" for ph t
    proof -
      have "t \<in># proc_flushing bp" using that(2) by (simp add: proc_flushing_def Flush_dispatched flush_works_def tags_def)
      from assms(7) [OF this] obtain i s st where row: "(i, s, st) \<in> set (?rs nd)" "s = fst t" "i = snd t" "st \<noteq> MS_Staged"
        by (auto simp: live_row_def)
      have "i \<in> (\<lambda>x. mh_ID (m_Header x)) ` set (dp_Messages p)" using ids that(2) row(3) by auto
      from mark_rows(2) [OF assms(4) x d _ ns(1) row(1,4) this] r [OF that(1)] row(2) show ?thesis by simp
    qed
    then have "phase_ok (?rs nd') ph" "flush_works ph = fl_work fl" if "r = Inr ph" for ph
      using that r [OF that] by (simp_all add: phase_ok_def flush_works_def)
    then show ?thesis using mark_rows(1) [OF assms(4) x d] ck Flush_dispatched by (simp add: flush_works_def)
  qed
  then show "rows_evolve (?rs nd) (?rs nd')" "cache_keyed E nd'"
    "r = Inr ph \<Longrightarrow> flush_works ph = flush_works (bp_flush bp) \<and> phase_ok (?rs nd') ph" by blast+
qed

lemma safe_set_proc:
  assumes "safe E sc B w pc" "p < length (bm_procs w)" "proc_todo bp = proc_todo (bm_procs w ! p)"
    "proc_flushing bp = proc_flushing (bm_procs w ! p)" "bp_handler bp = bp_handler (bm_procs w ! p)" "phase_ok (bm_rows sc w) (bp_flush bp)"
  shows "safe E sc B (set_proc p bp w) pc" "inhand (set_proc p bp w) pc = inhand w pc"
proof -
  have td: "todo (set_proc p bp w) = todo w" using proc_sums(1) [OF assms(2), of bp] assms(3) by simp
  have fl: "flushing (set_proc p bp w) = flushing w" using proc_sums(2) [OF assms(2), of bp] assms(4) by simp
  note s = safeD [OF assms(1)]
  show "inhand (set_proc p bp w) pc = inhand w pc" by (simp add: inhand_def td fl)
  show "safe E sc B (set_proc p bp w) pc"
    using s(1-6) phases_set_proc [OF s(7) assms(6)] static_ok_set_proc [OF s(8) assms(2,5)]
    unfolding safe_def td fl by simp
qed

lemma safe_flush:
  assumes "safe E sc B w pc" "p < length (bm_procs w)" "bm_procs w ! p = bp" "flush_phase_act E sc bp (bm_node w) = r" "e_atomic E"
  shows "safe E sc B ((set_proc p (flush_step E sc bp r) w) \<lparr> bm_node := snd r \<rparr>) pc"
    "inhand ((set_proc p (flush_step E sc bp r) w) \<lparr> bm_node := snd r \<rparr>) pc = inhand w pc"
    "rows_evolve (bm_rows sc w) (msg_rows (sc_namespace sc) (nd_db (snd r)))"
proof -
  obtain x nd where r: "r = (x, nd)" by fastforce
  let ?w1 = "w \<lparr> bm_node := nd \<rparr>" and ?bp = "flush_step E sc bp r"
  note s = safeD [OF assms(1)]
  have bp: "bp \<in> set (bm_procs w)" using assms(2,3) by auto
  have ph: "phase_ok (bm_rows sc w) (bp_flush bp)" "handler_ok E sc (bp_handler bp)"
    using s(7,8) bp by (auto simp: list_all_iff static_ok_def)
  have live: "live_row (bm_rows sc w) t" if "t \<in># proc_flushing bp" for t
    using held_okD(2) [OF s(3), of t] proc_in_sum [OF bp, of t proc_flushing] that by (simp add: flushing_def)
  note f = flush_phase_ok [OF assms(4) [unfolded r] s(1) [unfolded bm_rows_def] s(2) assms(5) ph(2) ph(1) [unfolded bm_rows_def]
      live [unfolded bm_rows_def]]
  show ev: "rows_evolve (bm_rows sc w) (msg_rows (sc_namespace sc) (nd_db (snd r)))" using f(1) by (simp add: r bm_rows_def)
  then have ev': "rows_evolve (bm_rows sc w) (msg_rows (sc_namespace sc) (nd_db nd))" by (simp add: r)
  have s1: "safe E sc B ?w1 pc" by (rule safe_evolve [OF assms(1) ev' s(1) f(2)])
  have bp': "proc_todo ?bp = proc_todo bp" "proc_flushing ?bp = proc_flushing bp" "bp_handler ?bp = bp_handler bp"
    "phase_ok (bm_rows sc ?w1) (bp_flush ?bp)"
    using f(3) phase_ok_keep [OF ph(1) rows_keep_evolve [OF ev' s(1)]]
    by (auto simp: r flush_step_def proc_todo_def proc_flushing_def split: sum.splits)
  have eq: "(set_proc p ?bp w) \<lparr> bm_node := snd r \<rparr> = set_proc p ?bp ?w1" by (simp add: set_proc_def r)
  have "p < length (bm_procs ?w1)" "bm_procs ?w1 ! p = bp" using assms(2,3) by simp_all
  from safe_set_proc [OF s1 this(1), of ?bp] bp' this(2)
  show "safe E sc B ((set_proc p ?bp w) \<lparr> bm_node := snd r \<rparr>) pc" "inhand ((set_proc p ?bp w) \<lparr> bm_node := snd r \<rparr>) pc = inhand w pc"
    unfolding eq by (simp_all add: inhand_def)
qed

lemma held_ok_drop:
  assumes "held_ok rs F U (Fl + mset D) B" "\<And>t. t \<in> set D \<Longrightarrow> gone rs (fst t)"
  shows "held_ok rs F U Fl B"
proof (rule held_okI)
  note h = held_okD [OF assms(1)]
  have "uniq (image_mset fst (U + Fl) + image_mset fst (mset D))" using h(1) by (simp add: ac_simps)
  then show "uniq (image_mset fst (U + Fl))" by (rule uniq_unionD)
  show "live_row rs t" "fst t \<in> F" if "t \<in># U + Fl" for t using h(2,3) [of t] that by auto
  show "t \<in># Fl \<or> gone rs (fst t)" if "t \<in> set B" for t
    using h(5) [OF that] assms(2) [of t] by auto
  show "fst t \<notin> fst ` set B" if "t \<in># U" for t by (rule h(6) [OF that])
qed (rule held_okD(4) [OF assms(1)])

lemma safe_flushed:
  assumes "safe E sc B w pc" "p < length (bm_procs w)" "bm_procs w ! p = bp" "bp_flush bp = Flush_marked fl"
    and w': "w' = notifyFlushed (map work_seq (fl_work fl)) (set_proc p (bp \<lparr> bp_flush := Flush_idle \<rparr>) w)"
  shows "safe E sc B w' pc" "inhand w pc = inhand w' pc + tags (fl_work fl)"
    "t \<in># tags (fl_work fl) \<Longrightarrow> gone (bm_rows sc w') (fst t)"
proof -
  let ?bp = "bp \<lparr> bp_flush := Flush_idle \<rparr>" and ?D = "map work_tag (fl_work fl)"
  note s = safeD [OF assms(1)]
  have same: "todo w' = todo (set_proc p ?bp w)" "flushing w' = flushing (set_proc p ?bp w)" "bm_rows sc w' = bm_rows sc w"
    "inflight w' = inflight w" "bm_procs w' = bm_procs (set_proc p ?bp w)" "static_ok E sc w' = static_ok E sc (set_proc p ?bp w)"
    "bm_node w' = bm_node w" "bm_flushed w' = bm_flushed w @ map fst ?D"
    by (simp_all add: w' notifyFlushed_def todo_def flushing_def inflight_def static_ok_def bm_rows_def set_proc_def work_tag_def comp_def)
  have td: "todo w' = todo w"
    using proc_sums(1) [OF assms(2), of ?bp] assms(3) unfolding same by (simp add: proc_todo_def)
  have fl: "flushing w = flushing w' + mset ?D"
    using proc_sums(2) [OF assms(2), of ?bp] assms(3,4) unfolding same by (simp add: proc_flushing_def flush_works_def tags_def)
  have bp: "bp \<in> set (bm_procs w)" using assms(2,3) by auto
  have g: "gone (bm_rows sc w) (fst t)" if "t \<in> set ?D" for t
    using s(7) bp that by (auto simp: list_all_iff phase_ok_def assms(4))
  then show "t \<in># tags (fl_work fl) \<Longrightarrow> gone (bm_rows sc w') (fst t)" by (simp add: tags_def same(3))
  show "inhand w pc = inhand w' pc + tags (fl_work fl)" by (simp add: inhand_def td fl tags_def)
  have h: "held_ok (bm_rows sc w) (inflight w) (sending pc + todo w') (flushing w') B"
  proof (rule held_ok_drop)
    show "held_ok (bm_rows sc w) (inflight w) (sending pc + todo w') (flushing w' + mset ?D) B" using s(3) unfolding td fl .
  qed (rule g)
  have u: "uniq (image_mset fst (mset ?D) + image_mset fst (sending pc + todo w' + flushing w'))"
    using held_okD(1) [OF s(3)] td fl by (simp add: ac_simps)
  have flk: "flushed_ok (bm_rows sc w) (inflight w) (sending pc + todo w' + flushing w') (bm_flushed w @ map fst ?D)"
    unfolding flushed_ok_def
  proof
    fix sq assume "sq \<in> set (bm_flushed w @ map fst ?D)"
    then have "sq \<in> set (bm_flushed w) \<or> sq \<in> fst ` set ?D" by (simp add: image_image)
    then consider "sq \<in> set (bm_flushed w)" | t where "t \<in> set ?D" "sq = fst t" by blast
    then show "gone (bm_rows sc w) sq \<and> sq \<in> inflight w \<and> sq \<notin> fst ` set_mset (sending pc + todo w' + flushing w')"
    proof cases
      case 1
      then show ?thesis using s(4) td fl by (auto simp: flushed_ok_def)
    next
      case (2 t)
      have "t \<in># sending pc + todo w + flushing w" using 2(1) fl by simp
      then have i: "sq \<in> inflight w" using held_okD(3) [OF s(3)] 2(2) by (metis add.assoc)
      have "sq \<in># image_mset fst (mset ?D)" using 2 by simp
      from uniq_unionD(3) [OF u this] have "sq \<notin> fst ` set_mset (sending pc + todo w' + flushing w')"
        unfolding set_image_mset .
      with i g [OF 2(1)] 2(2) show ?thesis by blast
    qed
  qed
  have inf: "inflight w \<subseteq> fst ` set_mset (sending pc + todo w' + flushing w') \<union> set (bm_flushed w @ map fst ?D)"
    using s(5) td fl by auto
  have ph: "list_all (\<lambda>bp. phase_ok (bm_rows sc w) (bp_flush bp)) (bm_procs w')"
    unfolding same by (rule phases_set_proc [OF s(7)]) (simp add: phase_ok_def)
  have "static_ok E sc w'" unfolding same using static_ok_set_proc [OF s(8) assms(2), of ?bp] assms(3) by simp
  then show "safe E sc B w' pc"
    using s(1,2,6) h flk inf ph unfolding safe_def same(3,4,7,8) by (simp add: same(5))
qed

section \<open>Asleep and caught up\<close>

text \<open>
  The rows the sequencer will still read: those behind its offset, those of the page it has in hand
  and, when the page was full, those behind it.
\<close>

definition covered :: "seq_conf \<Rightarrow> int \<Rightarrow> seq_pc \<Rightarrow> int \<Rightarrow> bool" where
  "covered sc off pc s \<longleftrightarrow> (case pc of
       SqFilter page \<Rightarrow> off < s \<and> (s \<in> is_Sequence ` set page \<or> full_page sc page \<and> (\<forall>e \<in> set page. is_Sequence e < s))
     | SqEntries es lst full \<Rightarrow> s \<in> is_Sequence ` set es \<or> full \<and> lst < s
     | SqSend p work es lst full \<Rightarrow> s \<in> is_Sequence ` set es \<or> full \<and> lst < s
     | SqWait \<Rightarrow> False
     | SqDone \<Rightarrow> True
     | _ \<Rightarrow> off < s)"

lemma covered_simps [simp]:
  "covered sc off (SqReap b) s \<longleftrightarrow> off < s" "covered sc off (SqReaping ps b) s \<longleftrightarrow> off < s" "covered sc off (SqPop b) s \<longleftrightarrow> off < s"
  "covered sc off SqQuery s \<longleftrightarrow> off < s" "covered sc off SqWait s \<longleftrightarrow> False" "covered sc off SqDone s \<longleftrightarrow> True"
  "covered sc off (SqEntries es lst full) s \<longleftrightarrow> s \<in> is_Sequence ` set es \<or> full \<and> lst < s"
  "covered sc off (SqSend p work es lst full) s \<longleftrightarrow> s \<in> is_Sequence ` set es \<or> full \<and> lst < s"
  "covered sc off (page_done full) s \<longleftrightarrow> full \<and> off < s"
  "covered sc off (SqFilter page) s \<longleftrightarrow> off < s \<and> (s \<in> is_Sequence ` set page \<or> full_page sc page \<and> (\<forall>e \<in> set page. is_Sequence e < s))"
  by (simp_all add: covered_def page_done_def)

text \<open>A sequence the manager has not forgotten; \<open>P\<close> holds those that were passed over.\<close>

definition known :: "seq_conf \<Rightarrow> int set \<Rightarrow> batch_manager \<Rightarrow> seq_pc \<Rightarrow> int \<Rightarrow> bool" where
  "known sc P w pc s \<longleftrightarrow> s \<in> P \<or> s \<in> fst ` set_mset (inhand w pc) \<or> s \<in> set (bm_new w) \<or>
     (0 \<le> bm_rewindOffset w \<and> bm_rewindOffset w < s) \<or> covered sc (bm_readOffset w) pc s"

definition popping :: "seq_pc \<Rightarrow> bool" where
  "popping pc \<longleftrightarrow> (case pc of SqReap b \<Rightarrow> \<not> b | SqReaping ps b \<Rightarrow> \<not> b | SqPop b \<Rightarrow> \<not> b | _ \<Rightarrow> False)"

lemma popping_simps [simp]: "popping (SqReap b) \<longleftrightarrow> \<not> b" "popping (SqReaping ps b) \<longleftrightarrow> \<not> b" "popping (SqPop b) \<longleftrightarrow> \<not> b"
  "\<not> popping SqQuery" "\<not> popping (SqFilter page)" "\<not> popping (SqEntries es lst full)" "\<not> popping (SqSend p work es lst full)"
  "\<not> popping SqWait" "\<not> popping SqDone" "\<not> popping (page_done b)"
  by (simp_all add: popping_def page_done_def)

definition rewind_ok :: "batch_manager \<Rightarrow> seq_pc \<Rightarrow> bool" where
  "rewind_ok w pc \<longleftrightarrow> -1 \<le> bm_rewindOffset w \<and> (0 \<le> bm_rewindOffset w \<longrightarrow> bm_tap w \<or> popping pc) \<and> (\<forall>s \<in> set (bm_new w). 1 \<le> s)"

definition caught_up :: "seq_conf \<Rightarrow> int set \<Rightarrow> batch_manager \<Rightarrow> seq_pc \<Rightarrow> bool" where
  "caught_up sc P w pc \<longleftrightarrow> (\<forall>i s. (i, s, MS_Ready) \<in> set (bm_rows sc w) \<longrightarrow> known sc P w pc s) \<and> rewind_ok w pc"

lemma caught_upI:
  assumes "\<And>i s. (i, s, MS_Ready) \<in> set (bm_rows sc w) \<Longrightarrow> known sc P w pc s" "rewind_ok w pc"
  shows "caught_up sc P w pc"
  using assms unfolding caught_up_def by blast

lemma caught_upD:
  assumes "caught_up sc P w pc"
  shows "(i, s, MS_Ready) \<in> set (bm_rows sc w) \<Longrightarrow> known sc P w pc s" "rewind_ok w pc"
  using assms unfolding caught_up_def by blast+

lemma caught_up_frame:
  assumes "caught_up sc P w pc" "P \<subseteq> P'"
    "\<And>i s. (i, s, MS_Ready) \<in> set (bm_rows sc w') \<Longrightarrow> (i, s, MS_Ready) \<in> set (bm_rows sc w) \<or> s \<in> set (bm_new w')"
    "\<And>i s. (i, s, MS_Ready) \<in> set (bm_rows sc w') \<Longrightarrow> s \<in> fst ` set_mset (inhand w pc) \<Longrightarrow> s \<in> fst ` set_mset (inhand w' pc')"
    "\<And>i s. (i, s, MS_Ready) \<in> set (bm_rows sc w') \<Longrightarrow> covered sc (bm_readOffset w) pc s \<Longrightarrow>
       s \<in> P' \<or> s \<in> fst ` set_mset (inhand w' pc') \<or> covered sc (bm_readOffset w') pc' s"
    "set (bm_new w) \<subseteq> set (bm_new w')" "\<forall>s \<in> set (bm_new w'). 1 \<le> s" "bm_rewindOffset w' = bm_rewindOffset w" "bm_tap w' = bm_tap w"
    "popping pc \<longrightarrow> popping pc'"
  shows "caught_up sc P' w' pc'"
proof (rule caught_upI)
  note c = caught_upD [OF assms(1)]
  show "rewind_ok w' pc'" using c(2) assms(7-10) by (auto simp: rewind_ok_def)
  fix i s assume row: "(i, s, MS_Ready) \<in> set (bm_rows sc w')"
  from assms(3) [OF row] show "known sc P' w' pc' s"
  proof
    assume "(i, s, MS_Ready) \<in> set (bm_rows sc w)"
    from c(1) [OF this] assms(4,5) [OF row] assms(2,6,8) show ?thesis unfolding known_def by auto
  qed (simp add: known_def)
qed

lemma evolve_ready: "rows_evolve rs rs' \<Longrightarrow> (i, s, MS_Ready) \<in> set rs' \<Longrightarrow> (i, s, MS_Ready) \<in> set rs"
  using rows_evolve_back by fastforce

lemma rewind_new: "rewind_ok w pc \<Longrightarrow> s \<in> set (bm_new w) \<Longrightarrow> 1 \<le> s"
  by (simp add: rewind_ok_def)

text \<open>Steps that keep the offsets, the notifications and what is in hand.\<close>

lemma caught_up_quiet:
  assumes "caught_up sc P w pc" "rows_evolve (bm_rows sc w) (bm_rows sc w')" "inhand w' pc' = inhand w pc"
    "bm_new w' = bm_new w" "bm_rewindOffset w' = bm_rewindOffset w" "bm_tap w' = bm_tap w"
    "\<And>s. covered sc (bm_readOffset w) pc s \<Longrightarrow> covered sc (bm_readOffset w') pc' s" "popping pc \<longrightarrow> popping pc'" "P \<subseteq> P'"
  shows "caught_up sc P' w' pc'"
  by (rule caught_up_frame [OF assms(1,9)])
    (use assms(3-8) evolve_ready [OF assms(2)] caught_upD(2) [OF assms(1)] in \<open>auto simp: rewind_ok_def\<close>)

lemma caught_up_pop:
  assumes "caught_up sc P w (SqPop b)"
  shows "caught_up sc P (if b then w else popRewind w) SqQuery"
proof (cases b)
  case True
  have "caught_up sc P w SqQuery"
    by (rule caught_up_frame [OF assms order_refl]) (use True caught_upD(2) [OF assms] in \<open>auto simp: rewind_ok_def inhand_def\<close>)
  with True show ?thesis by simp
next
  case False
  have same: "inhand (popRewind w) SqQuery = inhand w (SqPop b)" "bm_rows sc (popRewind w) = bm_rows sc w" "bm_new (popRewind w) = bm_new w"
    by (simp_all add: popRewind_def Let_def inhand_def todo_def flushing_def bm_rows_def)
  have off: "bm_readOffset (popRewind w) \<le> bm_readOffset w" "0 \<le> bm_rewindOffset w \<Longrightarrow> bm_readOffset (popRewind w) \<le> bm_rewindOffset w"
    by (simp_all add: popRewind_def Let_def)
  note c = caught_upD [OF assms]
  have "caught_up sc P (popRewind w) SqQuery"
  proof (rule caught_upI)
    show "rewind_ok (popRewind w) SqQuery" using c(2) same(3) by (simp add: rewind_ok_def popRewind_def Let_def)
    fix i s assume "(i, s, MS_Ready) \<in> set (bm_rows sc (popRewind w))"
    then have "(i, s, MS_Ready) \<in> set (bm_rows sc w)" by (simp add: same)
    from c(1) [OF this] off show "known sc P (popRewind w) SqQuery s"
      unfolding known_def same by auto
  qed
  with False show ?thesis by simp
qed

lemma newMessageNotification_rewind:
  assumes "-1 \<le> bm_rewindOffset w" "1 \<le> sq"
  shows "0 \<le> bm_rewindOffset (newMessageNotification sq w)" "bm_rewindOffset (newMessageNotification sq w) < sq"
    "0 \<le> bm_rewindOffset w \<Longrightarrow> bm_rewindOffset (newMessageNotification sq w) \<le> bm_rewindOffset w"
    "bm_tap (newMessageNotification sq w) \<or> bm_rewindOffset (newMessageNotification sq w) = bm_rewindOffset w"
    "bm_tap w \<Longrightarrow> bm_tap (newMessageNotification sq w)"
  using assms by (auto simp: newMessageNotification_def Let_def)

lemma newMessageNotification_simps [simp]:
  "bm_node (newMessageNotification sq w) = bm_node w" "bm_readOffset (newMessageNotification sq w) = bm_readOffset w"
  "bm_new (newMessageNotification sq w) = bm_new w" "bm_procs (newMessageNotification sq w) = bm_procs w"
  "bm_inflight (newMessageNotification sq w) = bm_inflight w" "bm_flushed (newMessageNotification sq w) = bm_flushed w"
  "bm_dispatchers (newMessageNotification sq w) = bm_dispatchers w" "bm_dispatcherMap (newMessageNotification sq w) = bm_dispatcherMap w"
  by (simp_all add: newMessageNotification_def Let_def)

lemma caught_up_notify:
  assumes "caught_up sc P w pc" "bm_new w = sq # rest"
  shows "caught_up sc P (newMessageNotification sq (w \<lparr> bm_new := rest \<rparr>)) pc"
proof (rule caught_upI)
  let ?w = "w \<lparr> bm_new := rest \<rparr>"
  note c = caught_upD [OF assms(1)]
  have r: "-1 \<le> bm_rewindOffset ?w" "1 \<le> sq" using c(2) assms(2) by (simp_all add: rewind_ok_def)
  note n = newMessageNotification_rewind [OF r]
  show "rewind_ok (newMessageNotification sq ?w) pc" using c(2) n assms(2) by (auto simp: rewind_ok_def)
  have same: "inhand (newMessageNotification sq ?w) pc = inhand w pc" "bm_rows sc (newMessageNotification sq ?w) = bm_rows sc w"
    by (simp_all add: inhand_def todo_def flushing_def bm_rows_def)
  fix i s assume "(i, s, MS_Ready) \<in> set (bm_rows sc (newMessageNotification sq ?w))"
  then have "(i, s, MS_Ready) \<in> set (bm_rows sc w)" by (simp add: same)
  from c(1) [OF this] assms(2) n(1-3) show "known sc P (newMessageNotification sq ?w) pc s"
    unfolding known_def same by auto
qed

lemma take_sorted_covers:
  assumes "sorted (map f L)" "distinct (map f L)" "x \<in> set L" "x \<notin> set (take n L)"
  shows "length (take n L) = n \<and> (\<forall>y \<in> set (take n L). f y < f x)"
proof
  have L: "L = take n L @ drop n L" by simp
  have d: "x \<in> set (drop n L)" using assms(3,4) L by (metis UnE set_append)
  then show "length (take n L) = n" by (metis drop_eq_Nil2 empty_iff empty_set length_take less_le_not_le linorder_linear min.absorb2 min_def)
  show "\<forall>y \<in> set (take n L). f y < f x"
  proof
    fix y assume y: "y \<in> set (take n L)"
    have "sorted (map f (take n L) @ map f (drop n L))" using assms(1) L by (metis map_append)
    then have "f y \<le> f x" using y d by (auto simp: sorted_append)
    moreover have "f y \<noteq> f x"
    proof -
      have "distinct (map f (take n L) @ map f (drop n L))" using assms(2) L by (metis map_append)
      then show ?thesis using y d by (auto simp: disjoint_iff)
    qed
    ultimately show "f y < f x" by simp
  qed
qed

lemma ready_rows_cover:
  assumes "wf_rows (msg_rows ns db)" "(i, s, MS_Ready) \<in> set (msg_rows ns db)" "off < s" "page = ready_rows ns off lim db"
  shows "s \<in> is_Sequence ` set page \<or> length page = lim \<and> (\<forall>e \<in> set page. is_Sequence e < s)"
proof -
  let ?P = "\<lambda>m. m_LocalNamespace m = ns \<and> m_Sequence m > off \<and> m_State m = MS_Ready"
  let ?L = "sort_key m_Sequence (filter ?P (db_messages db))"
  let ?f = "\<lambda>m. \<lparr> is_ID = the (mh_ID (m_Header m)), is_Sequence = m_Sequence m \<rparr>"
  have page: "page = map ?f (take lim ?L)" by (simp add: assms(4) ready_rows_def)
  obtain m where m: "m \<in> set (db_messages db)" "m_LocalNamespace m = ns" "m_Sequence m = s" "m_State m = MS_Ready"
    using assms(2) by (auto simp: msg_rows_def)
  then have mL: "m \<in> set ?L" using assms(3) by simp
  show ?thesis
  proof (cases "m \<in> set (take lim ?L)")
    case True
    then show ?thesis using m(3) unfolding page by force
  next
    case False
    have "distinct (map m_Sequence (filter (\<lambda>m. m_LocalNamespace m = ns) (db_messages db)))"
      using assms(1) by (simp add: wf_rows_def msg_rows_def comp_def)
    then have "distinct (map m_Sequence (filter (\<lambda>m. m_Sequence m > off \<and> m_State m = MS_Ready) (filter (\<lambda>m. m_LocalNamespace m = ns) (db_messages db))))"
      by (rule distinct_map_filter)
    then have "distinct (map m_Sequence ?L)" by (simp add: distinct_map conj_commute conj_left_commute)
    from take_sorted_covers [OF sorted_sort_key this mL False] m(3) show ?thesis unfolding page by auto
  qed
qed

section \<open>Every step keeps the invariants\<close>

lemma safe_evolve_refl: "safe E sc B w pc \<Longrightarrow> bm_rows sc w' = bm_rows sc w \<Longrightarrow> rows_evolve (bm_rows sc w) (bm_rows sc w')"
  using safeD(1) [of E sc B w pc] by (auto simp: wf_rows_def intro: rows_evolve_refl)

lemma caught_up_filter:
  assumes "safe E sc B w (SqFilter page)" "caught_up sc P w (SqFilter page)" "filterFlushed page w = (entries, w')"
    "pc' = (if entries = [] then page_done (full_page sc page) else SqEntries entries (is_Sequence (last entries)) (full_page sc page))"
  shows "caught_up sc P w' pc'"
proof (rule caught_up_frame [OF assms(2) order_refl])
  have w': "w' = w \<lparr> bm_inflight := filter (\<lambda>(k, p). k \<notin> set (bm_flushed w)) (bm_inflight w), bm_flushed := [] \<rparr>"
    and en: "entries = filter (\<lambda>e. map_of (bm_inflight w) (is_Sequence e) = None) page"
    using assms(3) by (simp_all add: filterFlushed_def)
  have same: "bm_rows sc w' = bm_rows sc w" "bm_new w' = bm_new w" "bm_readOffset w' = bm_readOffset w"
    "inhand w' pc' = inhand w (SqFilter page)"
    by (simp_all add: w' bm_rows_def assms(4) inhand_def todo_def flushing_def)
  note s = safeD [OF assms(1)]
  show "bm_rewindOffset w' = bm_rewindOffset w" "bm_tap w' = bm_tap w" "popping (SqFilter page) \<longrightarrow> popping pc'" by (simp_all add: w')
  show "\<forall>s \<in> set (bm_new w'). 1 \<le> s" using caught_upD(2) [OF assms(2)] by (simp add: w' rewind_ok_def)
  show "set (bm_new w) \<subseteq> set (bm_new w')" by (simp add: same)
  fix i sq assume row: "(i, sq, MS_Ready) \<in> set (bm_rows sc w')"
  then show "(i, sq, MS_Ready) \<in> set (bm_rows sc w) \<or> sq \<in> set (bm_new w')" by (simp add: same)
  show "sq \<in> fst ` set_mset (inhand w (SqFilter page)) \<Longrightarrow> sq \<in> fst ` set_mset (inhand w' pc')" by (simp only: same)
  assume c: "covered sc (bm_readOffset w) (SqFilter page) sq"
  show "sq \<in> P \<or> sq \<in> fst ` set_mset (inhand w' pc') \<or> covered sc (bm_readOffset w') pc' sq"
  proof (cases "sq \<in> is_Sequence ` set page")
    case True
    then obtain e where e: "e \<in> set page" "sq = is_Sequence e" by blast
    show ?thesis
    proof (cases "e \<in> set entries")
      case True
      then show ?thesis using e(2) by (auto simp: assms(4))
    next
      case False
      then have "sq \<in> inflight w" using e by (auto simp: en inflight_def map_of_eq_None_iff)
      moreover have "sq \<notin> set (bm_flushed w)"
        using s(4) gone_not_ready [OF s(1)] row by (auto simp: flushed_ok_def same)
      ultimately have "sq \<in> fst ` set_mset (inhand w (SqFilter page))" using subsetD [OF s(5), of sq] by (simp add: inhand_def)
      then show ?thesis unfolding same by (rule disjI2 [OF disjI1])
    qed
  next
    case False
    then have f: "full_page sc page" "\<forall>e \<in> set page. is_Sequence e < sq" "bm_readOffset w < sq" using c by auto
    show ?thesis
    proof (cases "entries = []")
      case True
      then show ?thesis using f by (simp add: assms(4) same)
    next
      case nonempty: False
      then have "last entries \<in> set entries" by simp
      then have "last entries \<in> set page" by (simp add: en)
      then show ?thesis using f nonempty by (simp add: assms(4))
    qed
  qed
qed

definition label_passed :: "seq_label \<Rightarrow> int set" where
  "label_passed l = (case l of Passed s \<Rightarrow> {s} | _ \<Rightarrow> {})"

lemma label_passed_simps [simp]: "label_passed Quiet = {}" "label_passed (Passed s) = {s}"
  by (simp_all add: label_passed_def)

lemma loop_step_inv:
  assumes "safe E sc B w pc" "caught_up sc P w pc" "p < length (bm_procs w)" "bm_procs w ! p = bp" "proc_waits bp"
    "proc_todo bp0 + event_tags ev = proc_todo bp" "bp_flush bp0 = bp_flush bp" "bp_handler bp0 = bp_handler bp"
    "loop_event newid ev bp0 = (bp', l)"
  shows "safe E sc (B @ label_tags l) (set_proc p bp' w) pc \<and> caught_up sc (P \<union> label_passed l) (set_proc p bp' w) pc"
proof
  have a: "proc_waits (bm_procs w ! p)" "proc_todo bp0 + event_tags ev = proc_todo (bm_procs w ! p)"
    "bp_flush bp0 = bp_flush (bm_procs w ! p)" "bp_handler bp0 = bp_handler (bm_procs w ! p)" using assms(4-8) by simp_all
  note s = safe_loop [OF assms(1,3) a assms(9)]
  show "safe E sc (B @ label_tags l) (set_proc p bp' w) pc" by (rule s)
  show "caught_up sc (P \<union> label_passed l) (set_proc p bp' w) pc"
    by (rule caught_up_quiet [OF assms(2) safe_evolve_refl [OF assms(1)] s(2)]) simp_all
qed

lemma seq_step_inv:
  assumes "seq_step E sc (w, pc) l (w', pc')" "safe E sc B w pc" "caught_up sc P w pc" "ids_distinct E" "e_atomic E"
  shows "safe E sc (B @ label_tags l) w' pc' \<and> caught_up sc (P \<union> label_passed l) w' pc'"
  using assms(1)
proof cases
  case (reap reaped lastFull)
  note s = assms(2) [unfolded reap] and r = safe_reap [OF assms(2) [unfolded reap(1)] reap(4)]
  have "caught_up sc P w' (SqReaping reaped lastFull)"
    by (rule caught_up_quiet [OF assms(3) [unfolded reap(1)] safe_evolve_refl [OF s] r(2)]) (simp_all add: r bm_rows_def)
  then show ?thesis using r(1) reap by simp
next
  case (reaped ps lastFull)
  have "safe E sc B w (SqPop lastFull)" by (rule safe_frame [OF assms(2)]) (simp_all add: reaped)
  moreover have "caught_up sc P w (SqPop lastFull)"
    by (rule caught_up_quiet [OF assms(3) safe_evolve_refl [OF assms(2)]]) (simp_all add: reaped inhand_def)
  ultimately show ?thesis using reaped by simp
next
  case (pop lastFull)
  have "safe E sc B (if lastFull then w else popRewind w) SqQuery"
    by (rule safe_frame [OF assms(2)]) (simp_all add: pop popRewind_def Let_def)
  then show ?thesis using caught_up_pop [OF assms(3) [unfolded pop(1)]] pop by simp
next
  case (query page nd)
  note q = safe_query(2) [OF assms(2) [unfolded query(1)] query(5) refl]
  have rows: "bm_rows sc (w \<lparr> bm_node := nd \<rparr>) = bm_rows sc w" using q by (simp add: bm_rows_def)
  have "caught_up sc P (w \<lparr> bm_node := nd \<rparr>) (SqFilter page)"
  proof (rule caught_up_frame [OF assms(3) order_refl])
    fix i s assume "(i, s, MS_Ready) \<in> set (bm_rows sc (w \<lparr> bm_node := nd \<rparr>))"
    then have r: "(i, s, MS_Ready) \<in> set (msg_rows (sc_namespace sc) (nd_db (bm_node w)))" using rows by (simp add: bm_rows_def)
    then show "(i, s, MS_Ready) \<in> set (bm_rows sc w) \<or> s \<in> set (bm_new (w \<lparr> bm_node := nd \<rparr>))" by (simp add: bm_rows_def)
    assume "covered sc (bm_readOffset w) pc s"
    then have off: "bm_readOffset w < s" by (simp add: query)
    from ready_rows_cover [OF safeD(1) [OF assms(2), unfolded bm_rows_def] r off conjunct1 [OF q]] off
    show "s \<in> P \<or> s \<in> fst ` set_mset (inhand (w \<lparr> bm_node := nd \<rparr>) (SqFilter page)) \<or>
        covered sc (bm_readOffset (w \<lparr> bm_node := nd \<rparr>)) (SqFilter page) s" by (simp add: full_page_def)
  qed (use caught_upD(2) [OF assms(3)] in \<open>auto simp: query inhand_def rewind_ok_def\<close>)
  then show ?thesis using conjunct2 [OF conjunct2 [OF q]] query(2-4) by simp
next
  case (query_fails err nd)
  have q: "safe E sc B (w \<lparr> bm_node := nd \<rparr>) SqDone" by (rule safe_query(1) [OF assms(2) [unfolded query_fails(1)] query_fails(5)])
  have "nd_db nd = nd_db (bm_node w)"
    using keepsD [OF keeps_retryM [OF keeps_db_read [where f = "\<lambda>x. x"]] query_fails(5) [unfolded GetMessageIDs_ready_def]] .
  then have "bm_rows sc (w \<lparr> bm_node := nd \<rparr>) = bm_rows sc w" by (simp add: bm_rows_def)
  then have "caught_up sc P (w \<lparr> bm_node := nd \<rparr>) SqDone"
    by (intro caught_up_quiet [OF assms(3) safe_evolve_refl [OF assms(2)]]) (simp_all add: query_fails inhand_def)
  then show ?thesis using q query_fails by simp
next
  case (filter page entries)
  have "caught_up sc P w' pc'" by (rule caught_up_filter [OF assms(2) [unfolded filter(1)] assms(3) [unfolded filter(1)] filter(4) filter(3)])
  then show ?thesis using safe_filter [OF assms(2) [unfolded filter(1)] filter(4)] filter by simp
next
  case (entry newid e p work es lst full)
  note s = safe_entry [OF assms(2) [unfolded entry(1)] entry(4) assms(4)]
  have "caught_up sc P w' (SqSend p work es lst full)"
    by (rule caught_up_frame [OF assms(3) order_refl])
      (use s(2) [OF refl] s(3-7) caught_upD(2) [OF assms(3)] in \<open>auto simp: entry entry_tag_def rewind_ok_def\<close>)
  then show ?thesis using s(2) [OF refl] entry by simp
next
  case (passed newid e es lst full)
  note s = safe_entry [OF assms(2) [unfolded passed(1)] passed(4) assms(4)]
  have "caught_up sc (P \<union> {is_Sequence e}) w' (SqEntries es lst full)"
    by (rule caught_up_frame [OF assms(3)])
      (use s(1) [OF refl] s(3-7) caught_upD(2) [OF assms(3)] in \<open>auto simp: passed rewind_ok_def\<close>)
  then show ?thesis using s(1) [OF refl] passed by simp
next
  case (send p work es lst full)
  note s = safe_send [OF assms(2) [unfolded send(1)]]
  have "caught_up sc P (send_work p work w) (SqEntries es lst full)"
    by (rule caught_up_quiet [OF assms(3) [unfolded send(1)] safe_evolve_refl [OF assms(2)] s(2)]) (simp_all add: send_work_def)
  then show ?thesis using s(1) send by simp
next
  case (page_end lst full)
  have "safe E sc B (w \<lparr> bm_readOffset := lst \<rparr>) (page_done full)" by (rule safe_frame [OF assms(2)]) (simp_all add: page_end)
  moreover have "caught_up sc P (w \<lparr> bm_readOffset := lst \<rparr>) (page_done full)"
    by (rule caught_up_quiet [OF assms(3) safe_evolve_refl [OF assms(2)]]) (simp_all add: page_end inhand_def todo_def flushing_def)
  ultimately show ?thesis using page_end by simp
next
  case tapped
  have "safe E sc B (w \<lparr> bm_tap := False \<rparr>) (SqReap False)" by (rule safe_frame [OF assms(2)]) (simp_all add: tapped)
  moreover have "caught_up sc P (w \<lparr> bm_tap := False \<rparr>) (SqReap False)"
    using caught_upD [OF assms(3)] by (intro caught_upI) (auto simp: tapped rewind_ok_def known_def inhand_def todo_def flushing_def)
  ultimately show ?thesis using tapped by simp
next
  case timeout
  have "safe E sc B w (SqReap False)" by (rule safe_frame [OF assms(2)]) (simp_all add: timeout)
  moreover have "caught_up sc P w (SqReap False)"
    by (rule caught_up_quiet [OF assms(3) safe_evolve_refl [OF assms(2)]]) (simp_all add: timeout inhand_def)
  ultimately show ?thesis using timeout by simp
next
  case (notify sq rest)
  have "safe E sc B w' pc" by (rule safe_frame [OF assms(2)]) (simp_all add: notify safeD(6) [OF assms(2)])
  then show ?thesis using caught_up_notify [OF assms(3) notify(4)] notify by simp
next
  case (timer p bp newid bp')
  then show ?thesis using loop_step_inv [OF assms(2,3) timer(3-5) _ _ _ timer(7)] by (simp add: event_tags_def)
next
  case (receive p bp work chan newid bp')
  then show ?thesis using loop_step_inv [OF assms(2,3) receive(3-5) _ _ _ receive(7)] by (simp add: event_tags_def proc_todo_def)
next
  case (closed p bp newid bp')
  then show ?thesis using loop_step_inv [OF assms(2,3) closed(3-5) _ _ _ closed(8)] by (simp add: event_tags_def)
next
  case (flush p bp r)
  note s = safe_flush [OF assms(2) flush(4,5,7) assms(5)]
  have "caught_up sc P ((set_proc p (flush_step E sc bp r) w) \<lparr> bm_node := snd r \<rparr>) pc"
    by (rule caught_up_quiet [OF assms(3) _ s(2)]) (use s(3) in simp_all)
  then show ?thesis using s(1) flush(1-3) by simp
next
  case (flushed p bp fl)
  note s = safe_flushed [OF assms(2) flushed(4,5,7,2)]
  have rows: "bm_rows sc w' = bm_rows sc w" by (simp add: flushed(2) notifyFlushed_def)
  have "caught_up sc P w' pc"
  proof (rule caught_up_frame [OF assms(3) order_refl])
    fix i sq assume row: "(i, sq, MS_Ready) \<in> set (bm_rows sc w')"
    then show "(i, sq, MS_Ready) \<in> set (bm_rows sc w) \<or> sq \<in> set (bm_new w')" by (simp add: rows)
    have wf: "wf_rows (bm_rows sc w')" using safeD(1) [OF s(1)] .
    show "sq \<in> fst ` set_mset (inhand w' pc)" if "sq \<in> fst ` set_mset (inhand w pc)"
    proof -
      from that obtain t where t: "t \<in># inhand w pc" "sq = fst t" by blast
      moreover have "t \<notin># tags (fl_work fl)" using s(3) [of t] gone_not_ready [OF wf] row t(2) by metis
      ultimately show ?thesis unfolding s(2) by auto
    qed
  qed (use caught_upD(2) [OF assms(3)] in \<open>auto simp: flushed(2,3) notifyFlushed_def rewind_ok_def\<close>)
  then show ?thesis using s(1) flushed(1,3) by simp
next
  case (new_row nd i sq st)
  have "safe E sc B w' pc" unfolding new_row(2,3) by (rule safe_new_row [OF assms(2) new_row(4-8)])
  moreover have "caught_up sc P w' pc"
    by (rule caught_up_frame [OF assms(3) order_refl])
      (use caught_upD(2) [OF assms(3)] new_row(5) in \<open>auto simp: new_row(2-4) inhand_def todo_def flushing_def rewind_ok_def\<close>)
  ultimately show ?thesis using new_row(1,3) by simp
next
  case (other nd)
  have "safe E sc B w' pc" unfolding other(2,3) by (rule safe_evolve [OF assms(2) other(4) safeD(1) [OF assms(2)] other(5)])
  moreover have "caught_up sc P w' pc"
    by (rule caught_up_quiet [OF assms(3)]) (use other(4) in \<open>simp_all add: other(2,3) inhand_def\<close>)
  ultimately show ?thesis using other(1,3) by simp
qed

section \<open>From the start\<close>

text \<open>A manager with its dispatchers: name, transaction type, message types, handler, batch type and limits.\<close>

type_synonym registration = "string \<times> tx_type \<times> message_type list \<times> (dispatch_payload \<Rightarrow> unit nact) \<times> batch_type \<times> nat \<times> int"

definition started :: "registration list \<Rightarrow> node \<Rightarrow> batch_manager" where
  "started regs nd = fold (\<lambda>(name, tx, tys, h, bt, size, bytes). RegisterDispatcher name tx tys h bt size bytes) regs (NewBatchManager nd)"

definition reg_handler :: "registration \<Rightarrow> dispatch_payload \<Rightarrow> unit nact" where
  "reg_handler r = fst (snd (snd (snd r)))"

lemma registered_ok:
  assumes "\<forall>r \<in> set regs. handler_ok E sc (reg_handler r)" "static_ok E sc w" "bm_procs w = []"
  shows "static_ok E sc (fold (\<lambda>(name, tx, tys, h, bt, size, bytes). RegisterDispatcher name tx tys h bt size bytes) regs w) \<and>
    (\<exists>ds dm. fold (\<lambda>(name, tx, tys, h, bt, size, bytes). RegisterDispatcher name tx tys h bt size bytes) regs w =
       w \<lparr> bm_dispatchers := ds, bm_dispatcherMap := dm \<rparr>)"
  using assms
proof (induction regs arbitrary: w)
  case Nil
  have "w = w \<lparr> bm_dispatchers := bm_dispatchers w, bm_dispatcherMap := bm_dispatcherMap w \<rparr>" by simp
  then show ?case using Nil by (metis fold_simps(1))
next
  case (Cons r regs)
  obtain name tx tys h bt size bytes where r: "r = (name, tx, tys, h, bt, size, bytes)" by (metis prod.collapse)
  let ?w = "RegisterDispatcher name tx tys h bt size bytes w"
  have put: "list_all (\<lambda>(k, i). i < Suc n) (fold (\<lambda>t m. assoc_put (key t) n m) ts m)"
    if "list_all (\<lambda>(k, i). i < Suc n) m" for key :: "message_type \<Rightarrow> string" and ts m n
    using that
  proof (induction ts arbitrary: m)
    case (Cons t ts)
    have "list_all (\<lambda>(k, i). i < Suc n) (assoc_put (key t) n m)" using Cons.prems by (induction m) auto
    then show ?case using Cons.IH by simp
  qed simp
  have dm: "list_all (\<lambda>(k, i). i < Suc (length (bm_dispatchers w))) (bm_dispatcherMap w)"
    using Cons.prems(2) by (fastforce simp: static_ok_def list_all_iff)
  have "static_ok E sc ?w"
    using Cons.prems put [OF dm, of "getDispatcherKey tx" tys] by (simp add: RegisterDispatcher_def Let_def static_ok_def r reg_handler_def)
  moreover have "bm_procs ?w = []" using Cons.prems(3) by (simp add: RegisterDispatcher_def Let_def)
  moreover have "\<forall>r \<in> set regs. handler_ok E sc (reg_handler r)" using Cons.prems(1) by simp
  ultimately obtain ds dm where "static_ok E sc (fold (\<lambda>(name, tx, tys, h, bt, size, bytes). RegisterDispatcher name tx tys h bt size bytes) regs ?w)"
      "fold (\<lambda>(name, tx, tys, h, bt, size, bytes). RegisterDispatcher name tx tys h bt size bytes) regs ?w = ?w \<lparr> bm_dispatchers := ds, bm_dispatcherMap := dm \<rparr>"
    using Cons.IH [of ?w] by blast
  moreover from this(2) have "fold (\<lambda>(name, tx, tys, h, bt, size, bytes). RegisterDispatcher name tx tys h bt size bytes) regs ?w =
      w \<lparr> bm_dispatchers := ds, bm_dispatcherMap := dm \<rparr>" by (simp add: RegisterDispatcher_def Let_def)
  ultimately have "static_ok E sc (fold (\<lambda>(name, tx, tys, h, bt, size, bytes). RegisterDispatcher name tx tys h bt size bytes) regs ?w) \<and>
      (\<exists>ds dm. fold (\<lambda>(name, tx, tys, h, bt, size, bytes). RegisterDispatcher name tx tys h bt size bytes) regs ?w =
         w \<lparr> bm_dispatchers := ds, bm_dispatcherMap := dm \<rparr>)" by blast
  then show ?case unfolding r fold_simps prod.case .
qed

lemma started_inv:
  assumes "\<forall>r \<in> set regs. handler_ok E sc (reg_handler r)"
    "wf_rows (msg_rows (sc_namespace sc) (nd_db nd))" "cache_keyed E nd"
  shows "safe E sc [] (started regs nd) (SqReap False)" "caught_up sc {} (started regs nd) (SqReap False)"
proof -
  have "static_ok E sc (NewBatchManager nd)" "bm_procs (NewBatchManager nd) = []" by (simp_all add: static_ok_def NewBatchManager_def)
  from registered_ok [OF assms(1) this] obtain ds dm where
    st: "static_ok E sc (started regs nd)" and w: "started regs nd = (NewBatchManager nd) \<lparr> bm_dispatchers := ds, bm_dispatcherMap := dm \<rparr>"
    unfolding started_def by blast
  then have b: "bm_node (started regs nd) = nd" "bm_inflight (started regs nd) = []" "bm_flushed (started regs nd) = []"
    "bm_procs (started regs nd) = []" "bm_readOffset (started regs nd) = -1" "bm_rewindOffset (started regs nd) = -1" "bm_new (started regs nd) = []"
    by (simp_all add: NewBatchManager_def)
  show "safe E sc [] (started regs nd) (SqReap False)"
    using assms(2,3) st by (simp add: safe_def b bm_rows_def todo_def flushing_def inflight_def held_ok_def flushed_ok_def)
  show "caught_up sc {} (started regs nd) (SqReap False)"
  proof (rule caught_upI)
    fix i s assume "(i, s, MS_Ready) \<in> set (bm_rows sc (started regs nd))"
    then have "1 \<le> s" using assms(2) by (fastforce simp: wf_rows_def bm_rows_def b)
    then show "known sc {} (started regs nd) (SqReap False) s" by (simp add: known_def b)
  qed (simp add: rewind_ok_def b)
qed

lemma seq_run_inv:
  assumes "seq_run E sc s ls t" "ids_distinct E" "e_atomic E" "safe E sc [] (fst s) (snd s)" "caught_up sc {} (fst s) (snd s)"
  shows "safe E sc (concat (map label_tags ls)) (fst t) (snd t) \<and> caught_up sc (\<Union> (set (map label_passed ls))) (fst t) (snd t)"
  using assms
proof induction
  case (run_step s ls t l u)
  have "seq_step E sc (fst t, snd t) l (fst u, snd u)" using run_step.hyps(2) by simp
  from seq_step_inv [OF this _ _ run_step.prems(1,2)] run_step.IH [OF run_step.prems]
  have "safe E sc (concat (map label_tags ls) @ label_tags l) (fst u) (snd u) \<and>
      caught_up sc (\<Union> (set (map label_passed ls)) \<union> label_passed l) (fst u) (snd u)" by blast
  then show ?case by (simp add: Un_commute)
qed simp

text \<open>C29: However the sequencer, the notifier, the processors and the rest of the node interleave, from the start of the
  manager a message goes into at most one batch: no sequence is flushed twice. A message of a batch is still with the
  processor that flushes it, or its row has left the ready state.\<close>

theorem message_in_one_batch:
  assumes "seq_run E sc (started regs nd, SqReap False) ls (w, pc)" "\<forall>r \<in> set regs. handler_ok E sc (reg_handler r)"
    "wf_rows (msg_rows (sc_namespace sc) (nd_db nd))" "cache_keyed E nd" "ids_distinct E" "e_atomic E"
  shows "distinct (map fst (concat (map label_tags ls))) \<and>
    (\<forall>t \<in> set (concat (map label_tags ls)). t \<in># flushing w \<or> gone (bm_rows sc w) (fst t))"
proof -
  have "safe E sc (concat (map label_tags ls)) w pc"
    using seq_run_inv [OF assms(1,5,6)] started_inv [OF assms(2-4)] by simp
  from held_okD(4,5) [OF safeD(3) [OF this]] show ?thesis by blast
qed

text \<open>C30: The sequencer does not go to sleep on work: when it waits, no shoulder tap is pending and no notification is on its
  way, every message that is still ready was passed over with an error or is in the hands of a processor, whatever
  the order in which transactions committed their sequences.\<close>

theorem sequencer_sleeps_caught_up:
  assumes "seq_run E sc (started regs nd, SqReap False) ls (w, SqWait)" "\<forall>r \<in> set regs. handler_ok E sc (reg_handler r)"
    "wf_rows (msg_rows (sc_namespace sc) (nd_db nd))" "cache_keyed E nd" "ids_distinct E" "e_atomic E"
    "\<not> bm_tap w" "bm_new w = []" "(i, s, MS_Ready) \<in> set (bm_rows sc w)"
  shows "Passed s \<in> set ls \<or> s \<in> fst ` set_mset (todo w + flushing w)"
proof -
  have c: "caught_up sc (\<Union> (set (map label_passed ls))) w SqWait"
    using seq_run_inv [OF assms(1,5,6)] started_inv [OF assms(2-4)] by simp
  from caught_upD(2) [OF c] assms(7) have "bm_rewindOffset w < 0" by (auto simp: rewind_ok_def)
  with caught_upD(1) [OF c assms(9)] assms(8) have "s \<in> \<Union> (set (map label_passed ls)) \<or> s \<in> fst ` set_mset (todo w + flushing w)"
    by (auto simp: known_def inhand_def)
  moreover have "Passed s \<in> set ls" if "s \<in> \<Union> (set (map label_passed ls))"
  proof -
    from that obtain l where l: "l \<in> set ls" "s \<in> label_passed l" by auto
    from l(2) have "l = Passed s" by (simp add: label_passed_def split: seq_label.splits)
    with l(1) show ?thesis by simp
  qed
  ultimately show ?thesis by blast
qed

text \<open>
  A full page of messages that are all in flight is read again at once: the offset stays and no rewind is
  popped, until a flush takes one of them out.
\<close>

lemma inflight_page_read_again:
  assumes "full_page sc page" "\<forall>e \<in> set page. is_Sequence e \<in> inflight w"
  shows "\<exists>w'. seq_step E sc (w, SqFilter page) Quiet (w', SqReap True) \<and> bm_readOffset w' = bm_readOffset w \<and>
    (\<forall>l s. seq_step E sc (w', SqPop True) l (s, SqQuery) \<longrightarrow> bm_readOffset s = bm_readOffset w)"
proof -
  let ?w = "snd (filterFlushed page w)"
  have "filterFlushed page w = ([], ?w)"
    using assms(2) by (auto simp: filterFlushed_def filter_empty_conv inflight_def map_of_eq_None_iff)
  from seq_step.filter [OF this, of E sc] assms(1) have "seq_step E sc (w, SqFilter page) Quiet (?w, SqReap True)" by (simp add: page_done_def)
  moreover have "bm_readOffset ?w = bm_readOffset w" by (simp add: filterFlushed_def)
  moreover have "bm_readOffset s = bm_readOffset v" if "seq_step E sc (v, SqPop True) l (s, SqQuery)" for v l s
    using that by cases (auto simp: set_proc_def)
  ultimately show ?thesis by metis
qed

section \<open>A concrete run\<close>

text \<open>One message that is ready, one dispatcher with batches of one message, pages of ten.\<close>

definition env_q :: env where
  "env_q = env0 \<lparr> e_uuid_str := (\<lambda>n. CHR ''u'' # replicate n (CHR ''u'')) \<rparr>"

definition sc_q :: seq_conf where
  "sc_q = \<lparr> sc_namespace = ''ns1'', sc_identity = im_s, sc_readPageSize = 10, sc_retries = 2 \<rparr>"

definition nd_q :: node where
  "nd_q = node_tx0 \<lparr> nd_db := db_tx0 \<lparr> db_messages := [(msg_s None 1) \<lparr> m_Sequence := 1 \<rparr>] \<rparr> \<rparr>"

definition reg_q :: registration where
  "reg_q = (''pinned_broadcast'', TT_BatchPin, [MT_Broadcast], \<lambda>_. retM (), BT_Broadcast, 1, 1000)"

definition ent_q :: id_and_sequence where
  "ent_q = \<lparr> is_ID = 1, is_Sequence = 1 \<rparr>"

definition start_q :: batch_manager where
  "start_q = popRewind (snd (reapQuiescing (started [reg_q] nd_q)))"

definition query_q :: "(fferr + id_and_sequence list) \<times> node" where
  "query_q = retryM (sc_retries sc_q) (GetMessageIDs_ready env_q (sc_namespace sc_q) (bm_readOffset start_q) (sc_readPageSize sc_q)) (bm_node start_q)"

definition filter_q :: "id_and_sequence list \<times> batch_manager" where
  "filter_q = filterFlushed [ent_q] (start_q \<lparr> bm_node := snd query_q \<rparr>)"

definition entry_q :: "(nat \<times> batch_work) option \<times> batch_manager" where
  "entry_q = sequence_entry env_q sc_q 5 ent_q (snd filter_q)"

text \<open>Asleep, with the message in the channel of its processor; then the processor takes it.\<close>

definition asleep_q :: batch_manager where
  "asleep_q = (send_work 0 (snd (the (fst entry_q))) (snd entry_q)) \<lparr> bm_readOffset := 1 \<rparr>"

definition receive_q :: "batch_processor \<times> seq_label" where
  "receive_q = (let bp = bm_procs asleep_q ! 0 in loop_event 6 (EvWork (hd (bp_chan bp))) (bp \<lparr> bp_chan := tl (bp_chan bp) \<rparr>))"

lemma asleep_q_run: "seq_run env_q sc_q (started [reg_q] nd_q, SqReap False) (replicate 8 Quiet) (asleep_q, SqWait)"
proof -
  let ?step = "\<lambda>s t. seq_step env_q sc_q s Quiet t" and ?w0 = "started [reg_q] nd_q"
  have "fst (reapQuiescing ?w0) = []" by code_simp
  then have "reapQuiescing ?w0 = ([], snd (reapQuiescing ?w0))" by (metis prod.collapse)
  from seq_step.reap [OF this] have 1: "?step (?w0, SqReap False) (snd (reapQuiescing ?w0), SqReaping [] False)" .
  have 2: "?step (snd (reapQuiescing ?w0), SqReaping [] False) (snd (reapQuiescing ?w0), SqPop False)" by (rule seq_step.reaped) simp
  have 3: "?step (snd (reapQuiescing ?w0), SqPop False) (start_q, SqQuery)"
    using seq_step.pop [of env_q sc_q "snd (reapQuiescing ?w0)" False] by (simp add: start_q_def)
  have "fst query_q = Inr [ent_q]" by code_simp
  then have "query_q = (Inr [ent_q], snd query_q)" by (metis prod.collapse)
  from seq_step.query [OF this [unfolded query_q_def]] have 4: "?step (start_q, SqQuery) (start_q \<lparr> bm_node := snd query_q \<rparr>, SqFilter [ent_q])"
    by (simp add: query_q_def)
  have "fst filter_q = [ent_q]" by code_simp
  then have "filter_q = ([ent_q], snd filter_q)" by (metis prod.collapse)
  from seq_step.filter [OF this [unfolded filter_q_def], of env_q sc_q] have
    5: "?step (start_q \<lparr> bm_node := snd query_q \<rparr>, SqFilter [ent_q]) (snd filter_q, SqEntries [ent_q] 1 False)"
    by (simp add: filter_q_def full_page_def sc_q_def) (simp add: ent_q_def)
  have "\<not> Option.is_none (fst entry_q)" "fst (the (fst entry_q)) = 0" by code_simp+
  then have "fst entry_q = Some (0, snd (the (fst entry_q)))" by (metis Option.is_none_def option.collapse prod.collapse)
  then have "entry_q = (Some (0, snd (the (fst entry_q))), snd entry_q)" by (metis prod.collapse)
  from seq_step.entry [OF this [unfolded entry_q_def]] have
    6: "?step (snd filter_q, SqEntries [ent_q] 1 False) (snd entry_q, SqSend 0 (snd (the (fst entry_q))) [] 1 False)"
    by (simp add: entry_q_def)
  have "length (bp_chan (bm_procs (snd entry_q) ! 0)) < bc_BatchMaxSize (bp_conf (bm_procs (snd entry_q) ! 0))" by code_simp
  from seq_step.send [OF this] have
    7: "?step (snd entry_q, SqSend 0 (snd (the (fst entry_q))) [] 1 False) (send_work 0 (snd (the (fst entry_q))) (snd entry_q), SqEntries [] 1 False)" .
  have 8: "?step (send_work 0 (snd (the (fst entry_q))) (snd entry_q), SqEntries [] 1 False) (asleep_q, SqWait)"
    using seq_step.page_end [of env_q sc_q "send_work 0 (snd (the (fst entry_q))) (snd entry_q)" 1 False]
    by (simp add: asleep_q_def page_done_def)
  have "replicate 8 Quiet = (((((((([] @ [Quiet]) @ [Quiet]) @ [Quiet]) @ [Quiet]) @ [Quiet]) @ [Quiet]) @ [Quiet]) @ [Quiet])"
    by (simp add: numeral_eq_Suc)
  then show ?thesis
    by (simp only:) (rule seq_run.run_step [OF seq_run.run_step [OF seq_run.run_step [OF seq_run.run_step [OF seq_run.run_step
      [OF seq_run.run_step [OF seq_run.run_step [OF seq_run.run_step [OF seq_run.run_start 1] 2] 3] 4] 5] 6] 7] 8])
qed

lemma env_q_ok: "ids_distinct env_q" "e_atomic env_q"
proof -
  have "n = m" if "replicate n (CHR ''u'') = replicate m (CHR ''u'')" for n m
    using arg_cong [OF that, of size] by simp
  then show "ids_distinct env_q" by (auto simp: ids_distinct_def env_q_def inj_def)
qed (simp add: env_q_def env0_def)

lemma start_q_ok: "\<forall>r \<in> set [reg_q]. handler_ok env_q sc_q (reg_handler r)"
  "wf_rows (msg_rows (sc_namespace sc_q) (nd_db nd_q))" "cache_keyed env_q nd_q"
proof -
  show "\<forall>r \<in> set [reg_q]. handler_ok env_q sc_q (reg_handler r)"
    by (auto simp: handler_ok_def reg_q_def reg_handler_def retM_def wf_rows_def intro: rows_evolve_refl)
qed (simp_all add: msg_rows_def nd_q_def sc_q_def msg_s_def message0_def wf_rows_def cache_keyed_def node_tx0_def)

lemma message_in_one_batch_witness:
  "\<exists>w pc. seq_run env_q sc_q (started [reg_q] nd_q, SqReap False) (replicate 8 Quiet @ [Batch [(1, Some 1)]]) (w, pc) \<and>
     (1, Some 1) \<in># flushing w"
proof -
  let ?bp = "bm_procs asleep_q ! 0" and ?ls = "replicate 8 Quiet @ [Batch [(1, Some 1)]]"
  let ?w = "set_proc 0 (fst receive_q) asleep_q"
  have p: "0 < length (bm_procs asleep_q)" by code_simp
  have w: "proc_waits ?bp" by code_simp
  have "length (bp_chan ?bp) = 1" by code_simp
  then have c: "bp_chan ?bp = hd (bp_chan ?bp) # tl (bp_chan ?bp)" by (cases "bp_chan ?bp") simp_all
  have "snd receive_q = Batch [(1, Some 1)]" by code_simp
  then have l: "loop_event 6 (EvWork (hd (bp_chan ?bp))) (?bp \<lparr> bp_chan := tl (bp_chan ?bp) \<rparr>) = (fst receive_q, Batch [(1, Some 1)])"
    by (metis prod.collapse receive_q_def)
  have run: "seq_run env_q sc_q (started [reg_q] nd_q, SqReap False) ?ls (?w, SqWait)"
    by (rule seq_run.run_step [OF asleep_q_run seq_step.receive [OF p refl w c l]])
  have "\<not> gone (bm_rows sc_q ?w) 1" by code_simp
  with message_in_one_batch [OF run start_q_ok env_q_ok] run show ?thesis by auto
qed

lemma sequencer_sleeps_caught_up_witness: "1 \<in> fst ` set_mset (todo asleep_q + flushing asleep_q)"
proof -
  have "\<not> bm_tap asleep_q" "bm_new asleep_q = []" "(Some 1, 1, MS_Ready) \<in> set (bm_rows sc_q asleep_q)" by code_simp+
  from sequencer_sleeps_caught_up [OF asleep_q_run start_q_ok env_q_ok this] show ?thesis by simp
qed

end
