(* ===== verification/Operations.thy ===== *)
theory Operations
  imports Transactions FF_Flow
begin

text \<open>
  internal/operations: the operations manager (manager.go, context.go), the updater that applies the
  updates of the connectors in batches (operation_updater.go), and the operations table
  (operation_sql.go). The cache of operations holds pointers into a heap.
\<close>

section \<open>Structures\<close>

text \<open>An update from a connector; an empty status is \<open>None\<close>, \<open>ou_OnComplete\<close> names its callback.\<close>

record op_update =
  ou_Plugin :: string
  ou_NamespacedOpID :: string
  ou_Status :: "op_status option"
  ou_BlockchainTXID :: string
  ou_ErrorMessage :: string
  ou_Output :: "string option"
  ou_VerifyManifest :: bool
  ou_DXManifest :: string
  ou_DXHash :: string
  ou_OnComplete :: "nat option"

record prepared_op =
  po_ID :: uuid
  po_Namespace :: string
  po_Plugin :: string
  po_Type :: op_type
  po_Data :: string

text \<open>A handler; an error of \<open>RunOperation\<close> comes with whether it is a conflict error.\<close>

record op_handler =
  oh_name :: string
  oh_PrepareOperation :: "operation \<Rightarrow> prepared_op nact"
  oh_RunOperation :: "prepared_op \<Rightarrow> (string option \<times> op_phase \<times> (fferr \<times> bool) option) nact"
  oh_OnOperationUpdate :: "operation \<Rightarrow> op_update \<Rightarrow> unit nact"

text \<open>The manager and the configuration of its updater; \<open>om_bucket\<close> is \<open>UUID.HashBucket\<close>.\<close>

record ops_manager =
  om_namespace :: string
  om_handlers :: "(op_type \<times> op_handler) list"
  om_workerCount :: nat
  om_maxInserts :: nat
  om_bucket :: "uuid \<Rightarrow> nat \<Rightarrow> nat"
  om_retries :: nat

definition RegisterHandler :: "op_handler \<Rightarrow> op_type list \<Rightarrow> ops_manager \<Rightarrow> ops_manager" where
  "RegisterHandler h tys om = om \<lparr> om_handlers := fold (\<lambda>t hs. assoc_put t h hs) tys (om_handlers om) \<rparr>"

definition IsBlockchainOperation :: "op_type \<Rightarrow> bool" where
  "IsBlockchainOperation t \<longleftrightarrow> t = OT_Invoke \<or> t = OT_NetworkAction \<or> t = OT_PinBatch \<or> t = OT_ContractDeploy"

definition IsTokenOperation :: "op_type \<Rightarrow> bool" where
  "IsTokenOperation t \<longleftrightarrow> t = OT_ActivatePool \<or> t = OT_TokenApproval \<or> t = OT_CreatePool \<or> t = OT_TokenTransfer"

definition NewOperation :: "env \<Rightarrow> string \<Rightarrow> string \<Rightarrow> uuid option \<Rightarrow> op_type \<Rightarrow> operation nact" where
  "NewOperation E plugin ns tx opType =
     bindM (nowM E) (\<lambda>now. bindM (newUUID E) (\<lambda>i.
     retM \<lparr> op_ID = i, op_Namespace = ns, op_Transaction = tx, op_Type = opType, op_Status = OS_Initialized,
       op_Plugin = plugin, op_Input = '''', op_Output = None, op_Error = '''', op_Created = Some now,
       op_Updated = Some now, op_Retry = None \<rparr>))"

definition ErrTernary :: "bool \<Rightarrow> op_phase \<Rightarrow> op_phase \<Rightarrow> op_phase" where
  "ErrTernary err ifErr ifNoError = (if err then ifErr else ifNoError)"

section \<open>Identifiers with a namespace\<close>

fun split_colon :: "string \<Rightarrow> string list" where
  "split_colon [] = [[]]"
| "split_colon (c # cs) =
     (if c = CHR '':'' then [] # split_colon cs
      else case split_colon cs of [] \<Rightarrow> [[c]] | p # ps \<Rightarrow> (c # p) # ps)"

definition ParseNamespacedOpID :: "env \<Rightarrow> string \<Rightarrow> fferr + (string \<times> uuid)" where
  "ParseNamespacedOpID E s =
     (case split_colon s of
        [ns, u] \<Rightarrow>
          (case e_validate_name E ns ''namespace'' of
             Some err \<Rightarrow> Inl err
           | None \<Rightarrow> (case e_parse_uuid E u of None \<Rightarrow> Inl (I18n ''MsgInvalidUUID'') | Some i \<Rightarrow> Inr (ns, i)))
      | _ \<Rightarrow> Inl (I18n ''MsgInvalidNamespaceUUID''))"

definition NamespacedIDString :: "env \<Rightarrow> prepared_op \<Rightarrow> string" where
  "NamespacedIDString E po = po_Namespace po @ '':'' @ e_uuid_str E (po_ID po)"

section \<open>The operations table\<close>

definition insert_op_row :: "operation \<Rightarrow> ffdb \<Rightarrow> fferr + (unit \<times> ffdb)" where
  "insert_op_row op db = (if op_ID op \<in> op_ID ` set (db_ops db) then Inl (I18n ''MsgDBInsertFailed'')
     else Inr ((), db \<lparr> db_ops := db_ops db @ [op] \<rparr>))"

definition InsertOperation :: "env \<Rightarrow> operation \<Rightarrow> unit nact" where
  "InsertOperation E op = db_op E (insert_op_row op)"

definition InsertOperations :: "env \<Rightarrow> operation list \<Rightarrow> unit nact" where
  "InsertOperations E ops = db_op E (\<lambda>db.
     if distinct (map op_ID (db_ops db @ ops)) then Inr ((), db \<lparr> db_ops := db_ops db @ ops \<rparr>)
     else Inl (I18n ''MsgDBInsertFailed''))"

definition GetOperationByID :: "env \<Rightarrow> string \<Rightarrow> uuid \<Rightarrow> operation option nact" where
  "GetOperationByID E ns i = db_read E (\<lambda>db. find (\<lambda>op. op_ID op = i \<and> op_Namespace op = ns) (db_ops db))"

definition GetOperations :: "env \<Rightarrow> string \<Rightarrow> (operation \<Rightarrow> bool) \<Rightarrow> operation list nact" where
  "GetOperations E ns P = db_read E (\<lambda>db. filter (\<lambda>op. op_Namespace op = ns \<and> P op) (db_ops db))"

text \<open>Whether a row was updated.\<close>

definition UpdateOperation :: "env \<Rightarrow> string \<Rightarrow> uuid \<Rightarrow> (operation \<Rightarrow> bool) \<Rightarrow> (operation \<Rightarrow> operation) \<Rightarrow> bool nact" where
  "UpdateOperation E ns i P u =
     bindM (nowM E) (\<lambda>now. db_op E (\<lambda>db.
       let hit = (\<lambda>op. op_ID op = i \<and> op_Namespace op = ns \<and> P op)
       in Inr (list_ex hit (db_ops db),
            db \<lparr> db_ops := map (\<lambda>op. if hit op then (u op) \<lparr> op_Updated := Some now \<rparr> else op) (db_ops db) \<rparr>)))"

section \<open>The cache\<close>

definition op_alloc :: "operation \<Rightarrow> nat nact" where
  "op_alloc op = (\<lambda>nd. (Inr (length (nd_opheap nd)), nd \<lparr> nd_opheap := nd_opheap nd @ [op] \<rparr>))"

definition op_deref :: "nat \<Rightarrow> operation nact" where
  "op_deref ptr = getsM (\<lambda>nd. nd_opheap nd ! ptr)"

definition op_assign :: "nat \<Rightarrow> operation \<Rightarrow> unit nact" where
  "op_assign ptr op = modifyM (\<lambda>nd. nd \<lparr> nd_opheap := (nd_opheap nd)[ptr := op] \<rparr>)"

definition cacheOperation :: "env \<Rightarrow> nat \<Rightarrow> unit nact" where
  "cacheOperation E ptr = bindM (op_deref ptr) (\<lambda>op.
     modifyM (\<lambda>nd. nd \<lparr> nd_opcache := assoc_put (e_uuid_str E (op_ID op)) ptr (nd_opcache nd) \<rparr>))"

definition getCachedOperation :: "env \<Rightarrow> uuid \<Rightarrow> nat option nact" where
  "getCachedOperation E i = getsM (\<lambda>nd. map_of (nd_opcache nd) (e_uuid_str E i))"

definition patch_operation :: "op_status option \<Rightarrow> string option \<Rightarrow> string option \<Rightarrow> uuid option \<Rightarrow> operation \<Rightarrow> operation" where
  "patch_operation status errorMsg out retr op =
     op \<lparr> op_Status := (case status of Some s \<Rightarrow> s | None \<Rightarrow> op_Status op),
          op_Error := (case errorMsg of Some e \<Rightarrow> e | None \<Rightarrow> op_Error op),
          op_Output := (case out of Some j \<Rightarrow> Some j | None \<Rightarrow> op_Output op),
          op_Retry := (case retr of Some r \<Rightarrow> Some r | None \<Rightarrow> op_Retry op) \<rparr>"

definition updateCachedOperation :: "env \<Rightarrow> uuid \<Rightarrow> op_status option \<Rightarrow> string option \<Rightarrow> string option
    \<Rightarrow> uuid option \<Rightarrow> unit nact" where
  "updateCachedOperation E i status errorMsg out retr =
     bindM (getCachedOperation E i) (\<lambda>c.
     case c of
       None \<Rightarrow> retM ()
     | Some ptr \<Rightarrow>
         bindM (op_deref ptr) (\<lambda>op.
         bindM (op_assign ptr (patch_operation status errorMsg out retr op)) (\<lambda>_. cacheOperation E ptr)))"

definition GetOperationByIDCached :: "env \<Rightarrow> string \<Rightarrow> uuid \<Rightarrow> nat option nact" where
  "GetOperationByIDCached E ns i =
     bindM (getCachedOperation E i) (\<lambda>c.
     case c of
       Some ptr \<Rightarrow> retM (Some ptr)
     | None \<Rightarrow> bindM (GetOperationByID E ns i) (\<lambda>op.
         case op of
           None \<Rightarrow> retM None
         | Some op \<Rightarrow> bindM (op_alloc op) (\<lambda>ptr. bindM (cacheOperation E ptr) (\<lambda>_. retM (Some ptr)))))"

definition alloc_cached :: "env \<Rightarrow> operation \<Rightarrow> nat nact" where
  "alloc_cached E op = bindM (op_alloc op) (\<lambda>ptr. bindM (cacheOperation E ptr) (\<lambda>_. retM ptr))"

definition getOperationsCached :: "env \<Rightarrow> string \<Rightarrow> uuid list \<Rightarrow> nat list nact" where
  "getOperationsCached E ns ids =
     bindM (mapM (\<lambda>i. bindM (getCachedOperation E i) (\<lambda>c. retM (i, c))) ids) (\<lambda>found.
     let ops = [ptr. (i, Some ptr) \<leftarrow> found]; cacheMisses = [i. (i, None) \<leftarrow> found] in
     if cacheMisses = [] then retM ops
     else bindM (GetOperations E ns (\<lambda>op. op_ID op \<in> set cacheMisses)) (\<lambda>dbOps.
          bindM (mapM (alloc_cached E) dbOps) (\<lambda>ptrs. retM (ops @ ptrs))))"

section \<open>Adding operations\<close>

text \<open>
  The context of a retried function remembers the operations it added. The fields that are compared are those
  of \<open>getContextKey\<close>; the result is whether an operation was reused (its hooks run at once).
\<close>

definition getContextKey :: "env \<Rightarrow> operation \<Rightarrow> string" where
  "getContextKey E op = e_json_op E (op \<lparr> op_ID := 0, op_Status := OS_Initialized, op_Output := None, op_Error := '''',
     op_Created := None, op_Updated := None, op_Retry := None \<rparr>)"

type_synonym 'a octact = "(node \<times> (string \<times> nat) list option, 'a) act"

definition onCNode :: "'a nact \<Rightarrow> 'a octact" where
  "onCNode m = (\<lambda>(nd, ctx). case m nd of (r, nd') \<Rightarrow> (r, (nd', ctx)))"

definition insert_and_cache :: "env \<Rightarrow> nat \<Rightarrow> unit nact" where
  "insert_and_cache E ptr = bindM (op_deref ptr) (\<lambda>op. bindM (InsertOperation E op) (\<lambda>_. cacheOperation E ptr))"

definition AddOrReuseOperation :: "env \<Rightarrow> nat \<Rightarrow> bool octact" where
  "AddOrReuseOperation E ptr =
     bindM (getsM snd) (\<lambda>ctx.
     case ctx of
       None \<Rightarrow> bindM (onCNode (insert_and_cache E ptr)) (\<lambda>_. retM False)
     | Some ops \<Rightarrow>
         bindM (onCNode (op_deref ptr)) (\<lambda>op.
         case map_of ops (getContextKey E op) of
           Some cached \<Rightarrow>
             bindM (onCNode (bindM (op_deref cached) (op_assign ptr))) (\<lambda>_. retM True)
         | None \<Rightarrow>
             bindM (onCNode (bindM (op_deref ptr) (InsertOperation E))) (\<lambda>_.
             bindM (modifyM (\<lambda>(nd, ctx). (nd, Some (assoc_put (getContextKey E op) ptr ops)))) (\<lambda>_.
             bindM (onCNode (cacheOperation E ptr)) (\<lambda>_. retM False)))))"

definition BulkInsertOperations :: "env \<Rightarrow> nat list \<Rightarrow> unit nact" where
  "BulkInsertOperations E ptrs =
     bindM (mapM op_deref ptrs) (\<lambda>ops. bindM (InsertOperations E ops) (\<lambda>_. forM ptrs (cacheOperation E)))"

section \<open>Applying updates\<close>

definition not_final :: "operation \<Rightarrow> bool" where
  "not_final op \<longleftrightarrow> op_Status op \<noteq> OS_Succeeded \<and> op_Status op \<noteq> OS_Failed"

definition resolveOperation :: "env \<Rightarrow> string \<Rightarrow> uuid \<Rightarrow> op_status option \<Rightarrow> string option \<Rightarrow> string option \<Rightarrow> unit nact" where
  "resolveOperation E ns i status errorMsg out =
     bindM (UpdateOperation E ns i (\<lambda>op. status = Some OS_Pending \<longrightarrow> not_final op)
              (patch_operation status errorMsg out None)) (\<lambda>ok.
     if ok then updateCachedOperation E i status errorMsg out None else retM ())"

definition ResolveOperationByID :: "env \<Rightarrow> ops_manager \<Rightarrow> uuid \<Rightarrow> op_status option \<Rightarrow> string option \<Rightarrow> string option \<Rightarrow> unit nact" where
  "ResolveOperationByID E om i status errorMsg out = resolveOperation E (om_namespace om) i status errorMsg out"

text \<open>The updates are objects: a retry sees what \<open>verifyManifest\<close> made of them.\<close>

type_synonym 'a uact = "(node \<times> op_update list, 'a) act"

definition onUNode :: "'a nact \<Rightarrow> 'a uact" where
  "onUNode m = (\<lambda>(nd, us). case m nd of (r, nd') \<Rightarrow> (r, (nd', us)))"

definition get_update :: "nat \<Rightarrow> op_update uact" where
  "get_update k = getsM (\<lambda>(nd, us). us ! k)"

definition fail_update :: "nat \<Rightarrow> string \<Rightarrow> unit uact" where
  "fail_update k msg = modifyM (\<lambda>(nd, us). (nd, us[k := (us ! k) \<lparr> ou_ErrorMessage := msg, ou_Status := Some OS_Failed \<rparr>]))"

definition verify_batch :: "env \<Rightarrow> ops_manager \<Rightarrow> nat \<Rightarrow> operation \<Rightarrow> unit uact" where
  "verify_batch E om k op =
     bindM (get_update k) (\<lambda>u.
     if op_Type op = OT_SendBatch \<and> ou_Status u = Some OS_Succeeded
     then bindM (case e_parse_uuid E (e_json_getstr E (op_Input op) ''batch'') of
                   None \<Rightarrow> retM ''''
                 | Some i \<Rightarrow> bindM (onUNode (GetBatchByID E (om_namespace om) (Some i))) (\<lambda>b.
                     retM (case b of None \<Rightarrow> '''' | Some b \<Rightarrow> bpd_Manifest b))) (\<lambda>expectedManifest.
          if ou_DXManifest u \<noteq> expectedManifest
          then fail_update k (e_errtext E (I18n ''MsgManifestMismatch'')) else retM ())
     else retM ())"

definition verify_blob :: "env \<Rightarrow> nat \<Rightarrow> operation \<Rightarrow> unit uact" where
  "verify_blob E k op =
     bindM (get_update k) (\<lambda>u.
     if op_Type op = OT_SendBlob \<and> ou_Status u = Some OS_Succeeded \<and> ou_DXHash u \<noteq> e_json_getstr E (op_Input op) ''hash''
     then fail_update k (e_errtext E (I18n ''MsgBlobHashMismatch'')) else retM ())"

definition verifyManifest :: "env \<Rightarrow> ops_manager \<Rightarrow> nat \<Rightarrow> operation \<Rightarrow> unit uact" where
  "verifyManifest E om k op = bindM (verify_batch E om k op) (\<lambda>_. verify_blob E k op)"

text \<open>The operation of an update: the first with its identifier, if it is of the same plugin.\<close>

fun find_op :: "uuid \<Rightarrow> nat list \<Rightarrow> (nat \<times> operation) option nact" where
  "find_op i [] = retM None"
| "find_op i (ptr # ptrs) = bindM (op_deref ptr) (\<lambda>op. if op_ID op = i then retM (Some (ptr, op)) else find_op i ptrs)"

text \<open>A transaction that was not found is a nil in the list, which the search runs into.\<close>

fun find_tx :: "uuid \<Rightarrow> nat option list \<Rightarrow> nat option nact" where
  "find_tx i [] = retM None"
| "find_tx i (None # ptrs) = throwM (GoPanic ''nil transaction'')"
| "find_tx i (Some ptr # ptrs) = bindM (tx_deref ptr) (\<lambda>tx. if t_ID tx = i then retM (Some ptr) else find_tx i ptrs)"

definition add_blockchain_tx :: "env \<Rightarrow> ops_manager \<Rightarrow> operation \<Rightarrow> op_update \<Rightarrow> nat option list \<Rightarrow> unit nact" where
  "add_blockchain_tx E om op u txs =
     (case op_Transaction op of
        Some t \<Rightarrow>
          if ou_BlockchainTXID u = '''' then retM ()
          else bindM (find_tx t txs) (\<lambda>tx.
               case tx of None \<Rightarrow> retM () | Some ptr \<Rightarrow> AddBlockchainTX E (om_namespace om) ptr (ou_BlockchainTXID u))
      | None \<Rightarrow> retM ())"

definition doUpdate :: "env \<Rightarrow> ops_manager \<Rightarrow> nat list \<Rightarrow> nat option list \<Rightarrow> nat \<Rightarrow> unit uact" where
  "doUpdate E om ops txs k =
     bindM (get_update k) (\<lambda>u.
     case ParseNamespacedOpID E (ou_NamespacedOpID u) of
       Inl _ \<Rightarrow> retM ()
     | Inr (_, i) \<Rightarrow>
         bindM (onUNode (find_op i ops)) (\<lambda>found.
         case found of
           None \<Rightarrow> retM ()
         | Some (ptr, op) \<Rightarrow>
             if ou_Plugin u \<noteq> op_Plugin op then retM ()
             else
               bindM (onUNode (add_blockchain_tx E om op u txs)) (\<lambda>_.
               bindM (onUNode (op_deref ptr)) (\<lambda>op.
               bindM (case map_of (om_handlers om) (op_Type op) of
                        Some h \<Rightarrow> onUNode (oh_OnOperationUpdate h op u) | None \<Rightarrow> retM ()) (\<lambda>_.
               bindM (if ou_VerifyManifest u then verifyManifest E om k op else retM ()) (\<lambda>_.
               bindM (get_update k) (\<lambda>u.
               onUNode (resolveOperation E (op_Namespace op) (op_ID op) (ou_Status u) (Some (ou_ErrorMessage u)) (ou_Output u)))))))))"

definition op_transactions :: "env \<Rightarrow> ops_manager \<Rightarrow> nat list \<Rightarrow> nat option list nact" where
  "op_transactions E om ops =
     bindM (mapM op_deref ops) (\<lambda>os.
     mapM (GetTransactionByIDCached E (om_namespace om)) [t. Some t \<leftarrow> map op_Transaction os])"

definition doBatchUpdate :: "env \<Rightarrow> ops_manager \<Rightarrow> unit uact" where
  "doBatchUpdate E om =
     bindM (getsM snd) (\<lambda>us.
     let opIDs = [i. Inr (_, i) \<leftarrow> map (\<lambda>u. ParseNamespacedOpID E (ou_NamespacedOpID u)) us] in
     if opIDs = [] then retM ()
     else bindM (onUNode (getOperationsCached E (om_namespace om) opIDs)) (\<lambda>ops.
          bindM (onUNode (op_transactions E om ops)) (\<lambda>txs.
          forM [0..<length us] (doUpdate E om ops txs))))"

definition run_as_group_U :: "env \<Rightarrow> 'a uact \<Rightarrow> 'a uact" where
  "run_as_group_U E m = (\<lambda>(nd, us). case m (nd, us) of
     (r, (nd', us')) \<Rightarrow> (case run_as_group E (\<lambda>_. (r, nd')) nd of (r', nd'') \<Rightarrow> (r', (nd'', us'))))"

text \<open>The result are the callbacks that are called once the updates are stored.\<close>

definition doBatchUpdateWithRetry :: "env \<Rightarrow> ops_manager \<Rightarrow> op_update list \<Rightarrow> nat list nact" where
  "doBatchUpdateWithRetry E om us = (\<lambda>nd.
     case retryM (om_retries om) (run_as_group_U E (doBatchUpdate E om)) (nd, us) of
       (Inl err, (nd', us')) \<Rightarrow> (Inl err, nd')
     | (Inr _, (nd', us')) \<Rightarrow> (Inr [c. Some c \<leftarrow> map ou_OnComplete us'], nd'))"

section \<open>The workers of the updater\<close>

datatype updater_event = UpWork op_update | UpTimeout

text \<open>One turn of a worker on an update from its queue or the timeout: the batch it applies, and the one it keeps.\<close>

definition updater_step :: "nat \<Rightarrow> updater_event \<Rightarrow> op_update list option \<Rightarrow> op_update list option \<times> op_update list option" where
  "updater_step maxInserts ev batch =
     (let (timedOut, batch) = (case ev of
            UpWork u \<Rightarrow> (False, Some ((case batch of None \<Rightarrow> [] | Some us \<Rightarrow> us) @ [u]))
          | UpTimeout \<Rightarrow> (True, batch))
      in case batch of
           None \<Rightarrow> (None, None)
         | Some us \<Rightarrow> if timedOut \<or> length us \<ge> maxInserts then (Some us, None) else (None, Some us))"

record ops_world =
  ow_node :: node
  ow_queues :: "op_update list list"

type_synonym 'a oact = "(ops_world, 'a) act"

definition onONode :: "'a nact \<Rightarrow> 'a oact" where
  "onONode m = (\<lambda>w. case m (ow_node w) of (r, nd) \<Rightarrow> (r, w \<lparr> ow_node := nd \<rparr>))"

definition initQueues :: "ops_manager \<Rightarrow> op_update list list" where
  "initQueues om = replicate (om_workerCount om) []"

definition pickWorker :: "ops_manager \<Rightarrow> uuid \<Rightarrow> nat" where
  "pickWorker om i = om_bucket om i (om_workerCount om)"

definition enqueue_update :: "nat \<Rightarrow> op_update \<Rightarrow> unit oact" where
  "enqueue_update k u = modifyM (\<lambda>w. w \<lparr> ow_queues := (ow_queues w)[k := ow_queues w ! k @ [u]] \<rparr>)"

definition apply_inline :: "env \<Rightarrow> ops_manager \<Rightarrow> op_update \<Rightarrow> unit nact" where
  "apply_inline E om u = bindM (attemptM (doBatchUpdateWithRetry E om [u])) (\<lambda>r.
     case r of Inl (GoPanic p) \<Rightarrow> throwM (GoPanic p) | _ \<Rightarrow> retM ())"

definition SubmitOperationUpdate :: "env \<Rightarrow> ops_manager \<Rightarrow> op_update \<Rightarrow> unit oact" where
  "SubmitOperationUpdate E om u =
     (case ParseNamespacedOpID E (ou_NamespacedOpID u) of
        Inl _ \<Rightarrow> retM ()
      | Inr (ns, i) \<Rightarrow>
          if ns \<noteq> om_namespace om then retM ()
          else if 0 < om_workerCount om
          then bindM (if ou_Status u = Some OS_Failed
                      then onONode (updateCachedOperation E i (ou_Status u) (Some (ou_ErrorMessage u)) (ou_Output u) None)
                      else retM ()) (\<lambda>_. enqueue_update (pickWorker om i) u)
          else onONode (apply_inline E om u))"

section \<open>Running operations\<close>

definition PrepareOperation :: "env \<Rightarrow> ops_manager \<Rightarrow> operation \<Rightarrow> prepared_op nact" where
  "PrepareOperation E om op =
     (case map_of (om_handlers om) (op_Type op) of
        None \<Rightarrow> throwM (I18n ''MsgOperationNotSupported'')
      | Some h \<Rightarrow> oh_PrepareOperation h op)"

definition run_status :: "bool \<Rightarrow> op_phase \<Rightarrow> (fferr \<times> bool) option \<Rightarrow> op_status" where
  "run_status idempotentSubmit phase err =
     (case err of
        Some (_, conflict) \<Rightarrow>
          if conflict then OS_Pending
          else if phase = OpPhaseInitializing \<and> idempotentSubmit then OS_Initialized
          else if phase = OpPhasePending then OS_Pending else OS_Failed
      | None \<Rightarrow> if phase = OpPhaseComplete then OS_Succeeded else OS_Pending)"

definition run_update :: "env \<Rightarrow> prepared_op \<Rightarrow> bool \<Rightarrow> string option \<times> op_phase \<times> (fferr \<times> bool) option \<Rightarrow> op_update" where
  "run_update E po idempotentSubmit res = (case res of (outputs, phase, err) \<Rightarrow>
     \<lparr> ou_Plugin = po_Plugin po, ou_NamespacedOpID = NamespacedIDString E po,
       ou_Status = Some (run_status idempotentSubmit phase err), ou_BlockchainTXID = '''',
       ou_ErrorMessage = (case err of Some (e, _) \<Rightarrow> e_errtext E e | None \<Rightarrow> ''''), ou_Output = outputs,
       ou_VerifyManifest = False, ou_DXManifest = '''', ou_DXHash = '''', ou_OnComplete = None \<rparr>)"

definition RunOperation :: "env \<Rightarrow> ops_manager \<Rightarrow> prepared_op \<Rightarrow> bool \<Rightarrow> string option oact" where
  "RunOperation E om po idempotentSubmit =
     (case map_of (om_handlers om) (po_Type po) of
        None \<Rightarrow> throwM (I18n ''MsgOperationNotSupported'')
      | Some h \<Rightarrow>
          bindM (onONode (oh_RunOperation h po)) (\<lambda>res.
          bindM (SubmitOperationUpdate E om (run_update E po idempotentSubmit res)) (\<lambda>_.
          case res of (outputs, phase, Some (e, _)) \<Rightarrow> throwM e | (outputs, phase, None) \<Rightarrow> retM outputs)))"

text \<open>
  The operations of a transaction that are still initialized: how many operations the
  transaction has, those that were submitted again, and the error that stopped it.
\<close>

definition not_moved_on :: "nat option \<Rightarrow> bool nact" where
  "not_moved_on c = (case c of None \<Rightarrow> retM True
     | Some ptr \<Rightarrow> bindM (op_deref ptr) (\<lambda>op. retM (op_Status op = OS_Initialized)))"

fun resubmit_loop :: "env \<Rightarrow> ops_manager \<Rightarrow> operation list \<Rightarrow> (operation list \<times> fferr option) oact" where
  "resubmit_loop E om [] = retM ([], None)"
| "resubmit_loop E om (op # ops) =
     bindM (onONode (bindM (getCachedOperation E (op_ID op)) not_moved_on)) (\<lambda>ok.
     if \<not> ok then resubmit_loop E om ops
     else
       bindM (onONode (attemptM (PrepareOperation E om op))) (\<lambda>po.
       case po of
         Inl _ \<Rightarrow> throwM (GoPanic ''nil operation'')
       | Inr po \<Rightarrow>
           bindM (attemptM (RunOperation E om po True)) (\<lambda>r.
           case r of
             Inl (GoPanic p) \<Rightarrow> throwM (GoPanic p)
           | Inl err \<Rightarrow> retM ([], Some err)
           | Inr _ \<Rightarrow> bindM (resubmit_loop E om ops) (\<lambda>(done, err). retM (op # done, err)))))"

definition ResubmitOperations :: "env \<Rightarrow> ops_manager \<Rightarrow> uuid \<Rightarrow> (nat \<times> operation list \<times> fferr option) oact" where
  "ResubmitOperations E om txID =
     bindM (onONode (GetOperations E (om_namespace om) (\<lambda>op. op_Transaction op = Some txID))) (\<lambda>allOperations.
     bindM (resubmit_loop E om (filter (\<lambda>op. op_Status op = OS_Initialized) allOperations)) (\<lambda>(resubmitted, err).
     retM (length allOperations, resubmitted, err)))"

text \<open>
  The recursion follows the retries; \<open>depth\<close> is what the stack of the goroutine can hold. An operation that is
  not found is a nil.
\<close>

fun findLatestRetry :: "env \<Rightarrow> ops_manager \<Rightarrow> nat \<Rightarrow> uuid \<Rightarrow> nat nact" where
  "findLatestRetry E om 0 i = throwM (GoPanic ''stack overflow'')"
| "findLatestRetry E om (Suc depth) i =
     bindM (GetOperationByIDCached E (om_namespace om) i) (\<lambda>op.
     case op of
       None \<Rightarrow> throwM (GoPanic ''nil operation'')
     | Some ptr \<Rightarrow> bindM (op_deref ptr) (\<lambda>op.
         case op_Retry op of None \<Rightarrow> retM ptr | Some j \<Rightarrow> findLatestRetry E om depth j))"

definition retry_key :: "env \<Rightarrow> ops_manager \<Rightarrow> uuid option \<Rightarrow> string nact" where
  "retry_key E om txID =
     (case txID of
        None \<Rightarrow> bindM (db_read E (\<lambda>_. ())) (\<lambda>_. retM '''')
      | Some t \<Rightarrow> bindM (GetTransactionByIDCached E (om_namespace om) t) (\<lambda>tx.
          case tx of None \<Rightarrow> retM '''' | Some ptr \<Rightarrow> bindM (tx_deref ptr) (\<lambda>tx. retM (t_IdempotencyKey tx))))"

definition renew_operation :: "env \<Rightarrow> nat \<Rightarrow> uuid nact" where
  "renew_operation E ptr =
     bindM (newUUID E) (\<lambda>i. bindM (nowM E) (\<lambda>now. bindM (op_deref ptr) (\<lambda>op.
     bindM (op_assign ptr (op \<lparr> op_ID := i, op_Status := OS_Initialized, op_Error := '''', op_Output := None,
       op_Created := Some now, op_Updated := Some now \<rparr>)) (\<lambda>_. retM i))))"

definition retry_group :: "env \<Rightarrow> ops_manager \<Rightarrow> nat \<Rightarrow> uuid \<Rightarrow> (nat \<times> string \<times> prepared_op) nact" where
  "retry_group E om depth opID =
     bindM (findLatestRetry E om depth opID) (\<lambda>ptr.
     bindM (op_deref ptr) (\<lambda>op.
     bindM (retry_key E om (op_Transaction op)) (\<lambda>idempotencyKey.
     bindM (renew_operation E ptr) (\<lambda>i.
     bindM (insert_and_cache E ptr) (\<lambda>_.
     bindM (updateCachedOperation E opID None None None (Some i)) (\<lambda>_.
     bindM (UpdateOperation E (om_namespace om) opID (\<lambda>_. True) (\<lambda>op. op \<lparr> op_Retry := Some i \<rparr>)) (\<lambda>_.
     bindM (op_deref ptr) (\<lambda>op.
     bindM (PrepareOperation E om op) (\<lambda>po. retM (ptr, idempotencyKey, po))))))))))"

definition RetryOperation :: "env \<Rightarrow> ops_manager \<Rightarrow> nat \<Rightarrow> uuid \<Rightarrow> nat oact" where
  "RetryOperation E om depth opID =
     bindM (onONode (run_as_group E (retry_group E om depth opID))) (\<lambda>(ptr, idempotencyKey, po).
     bindM (RunOperation E om po (idempotencyKey \<noteq> '''')) (\<lambda>_. retM ptr))"

end
