(* ===== verification/Operations_Props.thy ===== *)
theory Operations_Props
  imports Operations
begin

text \<open>
  What the operations manager guarantees: updates of an operation are applied in the order they were
  submitted, a batch of updates is the updates one after the other, a resolved operation is not
  reopened; and what a retry leaves in the cache.
\<close>

section \<open>From the submission to the batches\<close>

definition kept_updates :: "op_update list option \<Rightarrow> op_update list" where
  "kept_updates b = (case b of None \<Rightarrow> [] | Some us \<Rightarrow> us)"

definition given_updates :: "updater_event \<Rightarrow> op_update list" where
  "given_updates ev = (case ev of UpWork u \<Rightarrow> [u] | UpTimeout \<Rightarrow> [])"

interpretation updater: fifo_flow "updater_step maxInserts" kept_updates given_updates kept_updates for maxInserts
  by unfold_locales (auto simp: updater_step_def kept_updates_def given_updates_def Let_def
      split: updater_event.splits option.splits if_splits)

lemma updater_step_sizes:
  assumes "updater_step n ev b = (out, b')" "b = None \<or> length (kept_updates b) < max 1 n" "b \<noteq> Some []"
  shows "(out = None \<or> out \<noteq> Some [] \<and> length (kept_updates out) \<le> max 1 n) \<and>
    (b' = None \<or> length (kept_updates b') < max 1 n) \<and> b' \<noteq> Some []"
  using assms by (auto simp: updater_step_def kept_updates_def Let_def split: updater_event.splits option.splits if_splits)

lemma updater_run_sizes:
  "run_steps (updater_step n) evs b = (outs, b') \<Longrightarrow> b = None \<or> length (kept_updates b) < max 1 n \<Longrightarrow> b \<noteq> Some [] \<Longrightarrow>
     (\<forall>us. Some us \<in> set outs \<longrightarrow> us \<noteq> [] \<and> length us \<le> max 1 n) \<and> length (kept_updates b') \<le> n"
proof (induction evs arbitrary: b outs)
  case Nil
  then show ?case by (auto simp: kept_updates_def)
next
  case (Cons ev evs)
  obtain out b1 outs1 where s: "updater_step n ev b = (out, b1)" "run_steps (updater_step n) evs b1 = (outs1, b')" "outs = out # outs1"
    using Cons.prems(1) by (auto split: prod.splits)
  note sz = updater_step_sizes [OF s(1) Cons.prems(2,3)]
  show ?case using Cons.IH [OF s(2)] sz s(3) by (auto simp: kept_updates_def)
qed

text \<open>The updates a worker is sent: those of the namespace whose identifier falls in its bucket.\<close>

definition goes_to :: "env \<Rightarrow> ops_manager \<Rightarrow> nat \<Rightarrow> op_update \<Rightarrow> bool" where
  "goes_to E om k u \<longleftrightarrow> (case ParseNamespacedOpID E (ou_NamespacedOpID u) of
     Inl _ \<Rightarrow> False | Inr (ns, i) \<Rightarrow> ns = om_namespace om \<and> pickWorker om i = k)"

text \<open>The update of the cache cannot fail.\<close>

lemma updateCachedOperation_ok:
  assumes "updateCachedOperation E i st er out rt nd = (r, nd')"
  shows "r = Inr ()"
  using assms
  by (auto simp: updateCachedOperation_def getCachedOperation_def cacheOperation_def op_deref_def op_assign_def
      bindM_def getsM_def modifyM_def split: option.splits)

lemma submit_queue:
  assumes "0 < om_workerCount om" "k < length (ow_queues w)"
  shows "\<exists>w'. SubmitOperationUpdate E om u w = (Inr (), w') \<and> length (ow_queues w') = length (ow_queues w) \<and>
    ow_queues w' ! k = ow_queues w ! k @ (if goes_to E om k u then [u] else [])"
proof -
  have upd: "\<exists>w1. onONode (updateCachedOperation E i st er out rt) w = (Inr (), w1) \<and> ow_queues w1 = ow_queues w" for i st er out rt
    using updateCachedOperation_ok by (fastforce simp: onONode_def split: prod.splits)
  show ?thesis
  proof (cases "\<exists>i. ParseNamespacedOpID E (ou_NamespacedOpID u) = Inr (om_namespace om, i)")
    case False
    then show ?thesis by (auto simp: SubmitOperationUpdate_def goes_to_def retM_def split: sum.splits)
  next
    case True
    then obtain i where p: "ParseNamespacedOpID E (ou_NamespacedOpID u) = Inr (om_namespace om, i)" by blast
    obtain w1 where w1: "onONode (updateCachedOperation E i (ou_Status u) (Some (ou_ErrorMessage u)) (ou_Output u) None) w = (Inr (), w1)"
      "ow_queues w1 = ow_queues w" using upd by blast
    show ?thesis using assms p w1
      by (auto simp: SubmitOperationUpdate_def goes_to_def enqueue_update_def bindM_def retM_def modifyM_def nth_list_update)
  qed
qed

lemma submits_queue:
  assumes "0 < om_workerCount om" "k < length (ow_queues w)" "forM us (SubmitOperationUpdate E om) w = (r, w')"
  shows "ow_queues w' ! k = ow_queues w ! k @ filter (goes_to E om k) us"
  using assms(2,3)
proof (induction us arbitrary: w)
  case (Cons u us)
  obtain w1 where w1: "SubmitOperationUpdate E om u w = (Inr (), w1)" "length (ow_queues w1) = length (ow_queues w)"
    "ow_queues w1 ! k = ow_queues w ! k @ (if goes_to E om k u then [u] else [])"
    using submit_queue [OF assms(1) Cons.prems(1)] by blast
  have "forM us (SubmitOperationUpdate E om) w1 = (r, w')" using Cons.prems(2) w1(1) by (simp add: bindM_def)
  from Cons.IH [OF _ this] show ?case using Cons.prems(1) w1 by simp
qed (simp add: retM_def)

text \<open>C33: Updates of one operation are applied in the order in which they were submitted: they all go to the queue of
  one worker, and the batches the worker applies, put one after the other with the one it still
  collects, are its queue in order. No batch is empty or larger than the configured size.\<close>

theorem updates_applied_in_order:
  assumes "0 < om_workerCount om" "k < om_workerCount om" "ow_queues w = initQueues om"
    and "forM us (SubmitOperationUpdate E om) w = (r, w')"
    and "concat (map given_updates evs) = ow_queues w' ! k" "run_steps (updater_step n) evs None = (outs, kept)"
  shows "concat (map kept_updates outs) @ kept_updates kept = filter (goes_to E om k) us \<and>
    (\<forall>b. Some b \<in> set outs \<longrightarrow> b \<noteq> [] \<and> length b \<le> max 1 n) \<and> length (kept_updates kept) \<le> n"
proof -
  have "ow_queues w' ! k = filter (goes_to E om k) us"
    using submits_queue [OF assms(1) _ assms(4), of k] assms(2,3) by (simp add: initQueues_def)
  moreover have "concat (map kept_updates outs) @ kept_updates kept = concat (map given_updates evs)"
    using updater.run_in_order [OF assms(6)] by (simp add: kept_updates_def)
  ultimately show ?thesis using updater_run_sizes [OF assms(6)] assms(5) by simp
qed

section \<open>A resolved operation is not reopened\<close>

lemma stable_op_heap [stable_intros]:
  "stable (\<lambda>nd. I (nd_db nd)) (op_alloc op)" "stable (\<lambda>nd. I (nd_db nd)) (op_deref ptr)"
  "stable (\<lambda>nd. I (nd_db nd)) (op_assign ptr op)"
  by (simp_all add: stable_def op_alloc_def op_deref_def op_assign_def monad_defs)

lemma stable_op_cache [stable_intros]:
  "stable (\<lambda>nd. I (nd_db nd)) (cacheOperation E ptr)" "stable (\<lambda>nd. I (nd_db nd)) (getCachedOperation E i)"
  unfolding cacheOperation_def getCachedOperation_def by (intro stable_intros stable_modify; simp)+

lemma stable_updateCached [stable_intros]: "stable (\<lambda>nd. I (nd_db nd)) (updateCachedOperation E i st er out rt)"
  unfolding updateCachedOperation_def by (intro stable_intros)

lemma stable_find_op [stable_intros]: "stable (\<lambda>nd. I (nd_db nd)) (find_op i ptrs)"
proof (induction ptrs)
  case (Cons p ptrs)
  show ?case unfolding find_op.simps by (intro stable_intros Cons.IH)
qed (simp add: stable_ret)

lemma stable_find_tx [stable_intros]: "stable (\<lambda>nd. I (nd_db nd)) (find_tx i ptrs)"
proof (induction i ptrs rule: find_tx.induct)
  case (3 i p ptrs)
  show ?case unfolding find_tx.simps by (intro stable_intros 3)
qed (simp_all add: stable_ret stable_throw)

lemma stable_cached_reads [stable_intros]:
  "stable (\<lambda>nd. I (nd_db nd)) (GetOperationByIDCached E ns i)" "stable (\<lambda>nd. I (nd_db nd)) (getOperationsCached E ns ids)"
  "stable (\<lambda>nd. I (nd_db nd)) (GetTransactionByIDCached E ns i)" "stable (\<lambda>nd. I (nd_db nd)) (op_transactions E om ptrs)"
  unfolding GetOperationByIDCached_def getOperationsCached_def GetTransactionByIDCached_def op_transactions_def alloc_cached_def
    GetOperationByID_def GetOperations_def GetTransactionByID_def
  by (intro stable_intros)+

text \<open>The operations table is not touched by the update of a transaction.\<close>

lemma stable_add_tx [stable_intros]: "stable (\<lambda>nd. J (db_ops (nd_db nd))) (add_blockchain_tx E om op u txs)"
  unfolding add_blockchain_tx_def AddBlockchainTX_def UpdateTransaction_blockchainids_def
  by (intro stable_intros stable_db_write) simp

definition final_ids :: "operation list \<Rightarrow> (uuid \<times> string) set" where
  "final_ids rows = {(op_ID op, op_Namespace op) | op. op \<in> set rows \<and> \<not> not_final op}"

text \<open>The updates of the connectors and of \<open>ResolveOperationByID\<close> do not name the initial status.\<close>

definition moves_on :: "op_status option \<Rightarrow> bool" where
  "moves_on st \<longleftrightarrow> st \<noteq> Some OS_Initialized"

lemma final_ids_map:
  assumes "\<And>op. op_ID (f op) = op_ID op \<and> op_Namespace (f op) = op_Namespace op" "\<And>op. not_final (f op) \<Longrightarrow> not_final op"
  shows "final_ids rows \<subseteq> final_ids (map f rows)"
proof
  fix k assume "k \<in> final_ids rows"
  then obtain op where op: "k = (op_ID op, op_Namespace op)" "op \<in> set rows" "\<not> not_final op" by (auto simp: final_ids_def)
  then have "f op \<in> set (map f rows)" "\<not> not_final (f op)" "k = (op_ID (f op), op_Namespace (f op))" using assms by auto
  then show "k \<in> final_ids (map f rows)" unfolding final_ids_def by blast
qed

lemma final_ids_update:
  assumes "moves_on st"
  shows "final_ids rows \<subseteq> final_ids (map (\<lambda>op. if op_ID op = i \<and> op_Namespace op = ns \<and> (st = Some OS_Pending \<longrightarrow> not_final op)
    then (patch_operation st er out None op) \<lparr> op_Updated := now \<rparr> else op) rows)"
  by (rule final_ids_map; use assms in \<open>cases st\<close>; cases "the st")
    (auto simp: patch_operation_def not_final_def moves_on_def split: if_splits)

lemma stable_resolve:
  assumes "moves_on st"
  shows "stable (\<lambda>nd. F \<subseteq> final_ids (db_ops (nd_db nd))) (resolveOperation E ns i st er out)"
  unfolding resolveOperation_def UpdateOperation_def
  by (intro stable_intros stable_db_op) (auto simp: Let_def dest: final_ids_update [OF assms, THEN subsetD])

definition ok_updates :: "nat \<Rightarrow> op_update list \<Rightarrow> bool" where
  "ok_updates n us \<longleftrightarrow> length us = n \<and> (\<forall>u \<in> set us. moves_on (ou_Status u))"

lemma stable_onUNode [stable_intros]:
  "stable J m \<Longrightarrow> stable (\<lambda>(nd, us). J nd \<and> K us) (onUNode m)"
  by (auto simp: stable_def onUNode_def split: prod.splits)

lemma stable_fail_update [stable_intros]:
  "stable (\<lambda>(nd, us). J nd \<and> ok_updates n us) (fail_update k msg)"
  unfolding fail_update_def by (rule stable_modify) (auto simp: ok_updates_def moves_on_def dest!: set_update_subset_insert [THEN subsetD])

lemma stable_get_update [stable_intros]: "stable (\<lambda>(nd, us). J nd \<and> K us) (get_update k)"
  unfolding get_update_def by (rule stable_gets)

lemma stable_gets_bind: "(\<And>s. I s \<Longrightarrow> stable I (f (g s))) \<Longrightarrow> stable I (bindM (getsM g) f)"
  by (simp add: stable_def bindM_def getsM_def)

lemma stable_with_update:
  assumes "k < n" "\<And>u. moves_on (ou_Status u) \<Longrightarrow> stable (\<lambda>(nd, us). J nd \<and> ok_updates n us) (f u)"
  shows "stable (\<lambda>(nd, us). J nd \<and> ok_updates n us) (bindM (get_update k) f)"
  unfolding get_update_def using assms by (intro stable_gets_bind assms(2)) (auto simp: ok_updates_def)

lemma stable_verifyManifest [stable_intros]:
  "stable (\<lambda>(nd, us). J (nd_db nd) \<and> ok_updates n us) (verifyManifest E om k op)"
proof -
  have "stable (\<lambda>(nd, us). J (nd_db nd) \<and> ok_updates n us) (verify_batch E om k op)"
    unfolding verify_batch_def GetBatchByID_def db_read_def by (intro stable_intros stable_db_op) auto
  moreover have "stable (\<lambda>(nd, us). J (nd_db nd) \<and> ok_updates n us) (verify_blob E k op)"
    unfolding verify_blob_def by (intro stable_intros)
  ultimately show ?thesis unfolding verifyManifest_def by (intro stable_intros)
qed

definition handlers_keep_ops :: "ops_manager \<Rightarrow> bool" where
  "handlers_keep_ops om \<longleftrightarrow> (\<forall>t h op u. map_of (om_handlers om) t = Some h \<longrightarrow> keeps (\<lambda>nd. db_ops (nd_db nd)) (oh_OnOperationUpdate h op u))"

lemma stable_handler:
  "handlers_keep_ops om \<Longrightarrow> map_of (om_handlers om) t = Some h \<Longrightarrow> stable (\<lambda>nd. J (db_ops (nd_db nd))) (oh_OnOperationUpdate h op u)"
  unfolding handlers_keep_ops_def by (rule stable_keeps [where f = "\<lambda>nd. db_ops (nd_db nd)"]) blast

lemma stable_doUpdate:
  assumes "handlers_keep_ops om" "k < n"
  shows "stable (\<lambda>(nd, us). F \<subseteq> final_ids (db_ops (nd_db nd)) \<and> ok_updates n us) (doUpdate E om ops txs k)"
  unfolding doUpdate_def
  by (intro stable_with_update [OF assms(2)] stable_intros stable_handler [OF assms(1)] stable_resolve; assumption)

lemma stable_doBatchUpdate:
  assumes "handlers_keep_ops om"
  shows "stable (\<lambda>(nd, us). F \<subseteq> final_ids (db_ops (nd_db nd)) \<and> ok_updates n us) (doBatchUpdate E om)"
  unfolding doBatchUpdate_def Let_def
  by (intro stable_gets_bind stable_intros stable_doUpdate assms) (auto simp: ok_updates_def)

lemma run_as_group_U_eq:
  "run_as_group_U E m (nd, us) = (case m (nd, us) of (r, (nd', us')) \<Rightarrow>
     let nd2 = (if e_atomic E then nd' \<lparr> nd_db := nd_db nd \<rparr> else nd') in
     case r of
       Inl err \<Rightarrow> (Inl err, (nd2, us'))
     | Inr x \<Rightarrow> if e_flt E (nd_calls nd')
         then (Inl (DBErr (nd_calls nd')), (nd2 \<lparr> nd_calls := Suc (nd_calls nd') \<rparr>, us'))
         else (Inr x, (nd' \<lparr> nd_calls := Suc (nd_calls nd') \<rparr>, us')))"
  by (auto simp: run_as_group_U_def run_as_group_def Let_def split: prod.splits sum.splits)

lemma stable_group_U [stable_intros]:
  assumes "stable (\<lambda>(nd, us). J (nd_db nd) \<and> K us) m"
  shows "stable (\<lambda>(nd, us). J (nd_db nd) \<and> K us) (run_as_group_U E m)"
proof (rule stableI)
  fix s :: "node \<times> op_update list" assume s: "case s of (nd, us) \<Rightarrow> J (nd_db nd) \<and> K us"
  obtain nd us where nd: "s = (nd, us)" by (cases s)
  obtain r nd' us' where m: "m (nd, us) = (r, (nd', us'))" by (metis prod.collapse)
  have "J (nd_db nd') \<and> K us'" using stableD [OF assms m] s nd by simp
  then show "case snd (run_as_group_U E m s) of (nd, us) \<Rightarrow> J (nd_db nd) \<and> K us"
    using s by (auto simp: nd m run_as_group_U_eq Let_def split: sum.splits)
qed


section \<open>What a retry leaves in the cache\<close>

text \<open>What \<open>findLatestRetry\<close> reads once the operation is cached.\<close>

abbreviation op_cache_view :: "node \<Rightarrow> operation list \<times> (string \<times> nat) list" where
  "op_cache_view nd \<equiv> (nd_opheap nd, nd_opcache nd)"

lemma keeps_view_db [keeps_intros]: "keeps op_cache_view (db_op E f)"
  by (rule keeps_db_op) auto

lemma keeps_view_draw [keeps_intros]: "keeps op_cache_view (newUUID E)" "keeps op_cache_view (nowM E)"
  by (simp_all add: keeps_def newUUID_def nowM_def)

lemma keeps_view_tx [keeps_intros]:
  "keeps op_cache_view (tx_alloc tx)" "keeps op_cache_view (tx_deref ptr)" "keeps op_cache_view (updateTransactionsCache E ptr)"
  by (simp_all add: keeps_def tx_alloc_def tx_deref_def updateTransactionsCache_def bindM_def getsM_def modifyM_def)

lemma keeps_view_retry_key [keeps_intros]: "keeps op_cache_view (retry_key E om t)"
  unfolding retry_key_def GetTransactionByIDCached_def GetTransactionByID_def db_read_def by (intro keeps_intros)

lemma keeps_view_update [keeps_intros]: "keeps op_cache_view (UpdateOperation E ns i P u)"
  unfolding UpdateOperation_def by (intro keeps_intros)

definition preparing_keeps_cache :: "ops_manager \<Rightarrow> bool" where
  "preparing_keeps_cache om \<longleftrightarrow> (\<forall>t h op. map_of (om_handlers om) t = Some h \<longrightarrow> keeps op_cache_view (oh_PrepareOperation h op))"

lemma keeps_view_prepare: "preparing_keeps_cache om \<Longrightarrow> keeps op_cache_view (PrepareOperation E om op)"
  unfolding PrepareOperation_def preparing_keeps_cache_def by (auto intro!: keeps_throw split: option.splits)

text \<open>A cached operation that is its own retry.\<close>

definition own_retry :: "env \<Rightarrow> uuid \<Rightarrow> node \<Rightarrow> bool" where
  "own_retry E i nd \<longleftrightarrow> (\<exists>p j. map_of (nd_opcache nd) (e_uuid_str E i) = Some p \<and> p < length (nd_opheap nd) \<and>
     op_Retry (nd_opheap nd ! p) = Some j \<and> map_of (nd_opcache nd) (e_uuid_str E j) = Some p)"

lemma own_retry_overflows:
  assumes "own_retry E i nd"
  shows "findLatestRetry E om depth i nd = (Inl (GoPanic ''stack overflow''), nd)"
proof -
  obtain p j where p: "map_of (nd_opcache nd) (e_uuid_str E i) = Some p" "op_Retry (nd_opheap nd ! p) = Some j"
    "map_of (nd_opcache nd) (e_uuid_str E j) = Some p" using assms by (auto simp: own_retry_def)
  have "map_of (nd_opcache nd) (e_uuid_str E k) = Some p \<Longrightarrow> findLatestRetry E om depth k nd = (Inl (GoPanic ''stack overflow''), nd)" for k
  proof (induction depth arbitrary: k)
    case (Suc d)
    have "findLatestRetry E om d j nd = (Inl (GoPanic ''stack overflow''), nd)" by (rule Suc.IH [OF p(3)])
    then show ?case using Suc.prems p(2)
      by (simp add: GetOperationByIDCached_def getCachedOperation_def op_deref_def bindM_def getsM_def retM_def)
  qed (simp add: throwM_def)
  then show ?thesis using p(1) by blast
qed

lemma own_retry_view: "op_cache_view nd = op_cache_view nd' \<Longrightarrow> own_retry E i nd = own_retry E i nd'"
  by (simp add: own_retry_def)

lemma findLatestRetry_cached:
  assumes "map_of (nd_opcache nd) (e_uuid_str E i) = Some p" "op_Retry (nd_opheap nd ! p) = None"
  shows "findLatestRetry E om (Suc depth) i nd = (Inr p, nd)"
  using assms by (simp add: GetOperationByIDCached_def getCachedOperation_def op_deref_def bindM_def getsM_def retM_def)

text \<open>C34: The first retry of a cached operation ruins its chain: \<open>RetryOperation\<close> gives the cached object
  the new identifier and then points the object cached under the old identifier, which is the same one, to its retry. From then on
  the operation is its own retry, and looking up its latest retry never comes back, whatever the depth of the stack.\<close>

theorem retry_twice_overflows:
  assumes "map_of (nd_opcache nd) (e_uuid_str E i) = Some p" "p < length (nd_opheap nd)" "op_Retry (nd_opheap nd ! p) = None"
    and "preparing_keeps_cache om" "run_as_group E (retry_group E om (Suc d) i) nd = (Inr r, nd')"
  shows "findLatestRetry E om depth i nd' = (Inl (GoPanic ''stack overflow''), nd')"
proof -
  obtain nd1 where g: "retry_group E om (Suc d) i nd = (Inr r, nd1)" "nd' = nd1 \<lparr> nd_calls := Suc (nd_calls nd1) \<rparr>"
    using run_as_group_Inr [OF assms(5)] by blast
  obtain key new nd2 nd3 nd4 nd5 nd6 b op prep where s:
      "retry_key E om (op_Transaction (nd_opheap nd ! p)) nd = (Inr key, nd2)" "renew_operation E p nd2 = (Inr new, nd3)"
      "insert_and_cache E p nd3 = (Inr (), nd4)" "updateCachedOperation E i None None None (Some new) nd4 = (Inr (), nd5)"
      "UpdateOperation E (om_namespace om) i (\<lambda>_. True) (\<lambda>op. op \<lparr> op_Retry := Some new \<rparr>) nd5 = (Inr b, nd6)"
      "PrepareOperation E om op nd6 = (Inr prep, nd1)"
    using g(1) findLatestRetry_cached [OF assms(1,3)]
    by (auto simp: retry_group_def bindM_eq_Inr op_deref_def simp del: findLatestRetry.simps)
  have v2: "op_cache_view nd2 = op_cache_view nd" by (rule keepsD [OF keeps_view_retry_key s(1)])
  have v3: "p < length (nd_opheap nd3)" "op_ID (nd_opheap nd3 ! p) = new" "nd_opcache nd3 = nd_opcache nd"
    using s(2) v2 assms(2) by (auto simp: renew_operation_def bindM_eq_Inr newUUID_def nowM_def op_deref_def op_assign_def)
  have v4: "op_cache_view nd4 = (nd_opheap nd3, assoc_put (e_uuid_str E new) p (nd_opcache nd))"
    using s(3) v3 by (auto simp: insert_and_cache_def bindM_eq_Inr op_deref_def InsertOperation_def db_op_Inr cacheOperation_def)
  have "own_retry E i nd5"
    using s(4) v3 v4 assms(1)
    by (auto simp: updateCachedOperation_def getCachedOperation_def op_deref_def op_assign_def cacheOperation_def bindM_eq_Inr
        own_retry_def patch_operation_def split: option.splits if_splits)
  moreover have "op_cache_view nd6 = op_cache_view nd5" by (rule keepsD [OF keeps_view_update s(5)])
  moreover have "op_cache_view nd1 = op_cache_view nd6"
    by (rule keepsD [OF keeps_view_prepare [OF assms(4)] s(6)])
  ultimately have "own_retry E i nd'" using own_retry_view [of nd' nd5 E i] g(2) by simp
  then show ?thesis by (rule own_retry_overflows)
qed

section \<open>Concrete runs\<close>

definition env_op :: env where
  "env_op = env0 \<lparr> e_parse_uuid := (\<lambda>s. Some (length s)) \<rparr>"

definition op_row0 :: operation where
  "op_row0 = \<lparr> op_ID = 5, op_Namespace = ''ns1'', op_Transaction = None, op_Type = OT_Invoke, op_Status = OS_Pending,
     op_Plugin = ''eth'', op_Input = '''', op_Output = None, op_Error = '''', op_Created = None, op_Updated = None, op_Retry = None \<rparr>"

definition handler_op0 :: op_handler where
  "handler_op0 = \<lparr> oh_name = ''h'', oh_PrepareOperation = (\<lambda>op. retM \<lparr> po_ID = op_ID op, po_Namespace = op_Namespace op,
       po_Plugin = op_Plugin op, po_Type = op_Type op, po_Data = '''' \<rparr>),
     oh_RunOperation = (\<lambda>_. retM (None, OpPhasePending, None)), oh_OnOperationUpdate = (\<lambda>_ _. retM ()) \<rparr>"

definition om_op0 :: ops_manager where
  "om_op0 = \<lparr> om_namespace = ''ns1'', om_handlers = [(OT_Invoke, handler_op0)], om_workerCount = 2, om_maxInserts = 2,
     om_bucket = (\<lambda>i n. i mod n), om_retries = 3 \<rparr>"

definition node_op0 :: node where
  "node_op0 = node_tx0 \<lparr> nd_db := db_tx0 \<lparr> db_ops := [op_row0, op_row0 \<lparr> op_ID := 6, op_Status := OS_Succeeded \<rparr>] \<rparr>,
     nd_opheap := [op_row0], nd_opcache := [(''uuuuu'', 0)] \<rparr>"

definition update_op0 :: "string \<Rightarrow> op_status option \<Rightarrow> op_update" where
  "update_op0 i st = \<lparr> ou_Plugin = ''eth'', ou_NamespacedOpID = i, ou_Status = st, ou_BlockchainTXID = '''', ou_ErrorMessage = '''',
     ou_Output = None, ou_VerifyManifest = False, ou_DXManifest = '''', ou_DXHash = '''', ou_OnComplete = None \<rparr>"

definition updates_op0 :: "op_update list" where
  "updates_op0 = [update_op0 ''ns1:uuuuu'' (Some OS_Succeeded), update_op0 ''ns1:uuuuuu'' (Some OS_Pending),
     update_op0 ''ns1:uuuuu'' (Some OS_Pending)]"

lemma om_op0_handlers: "map_of (om_handlers om_op0) t = Some h \<Longrightarrow> h = handler_op0"
  by (auto simp: om_op0_def split: if_splits)

lemma updates_applied_in_order_witness:
  "concat (map kept_updates (fst (run_steps (updater_step 2) (map UpWork [updates_op0 ! 0, updates_op0 ! 2]) None)))
     = [updates_op0 ! 0, updates_op0 ! 2]"
proof -
  let ?w = "\<lparr> ow_node = node_op0, ow_queues = initQueues om_op0 \<rparr>"
  let ?r = "forM updates_op0 (SubmitOperationUpdate env_op om_op0) ?w"
  let ?s = "run_steps (updater_step 2) (map UpWork [updates_op0 ! 0, updates_op0 ! 2]) None"
  have 1: "0 < om_workerCount om_op0" "1 < om_workerCount om_op0" by (simp_all add: om_op0_def)
  have q: "ow_queues (snd ?r) ! 1 = [updates_op0 ! 0, updates_op0 ! 2]" by code_simp
  have ev: "concat (map given_updates (map UpWork [updates_op0 ! 0, updates_op0 ! 2])) = ow_queues (snd ?r) ! 1"
    unfolding q by (simp add: given_updates_def)
  have f: "filter (goes_to env_op om_op0 1) updates_op0 = [updates_op0 ! 0, updates_op0 ! 2]" by code_simp
  have k: "kept_updates (snd ?s) = []" by code_simp
  have "concat (map kept_updates (fst ?s)) @ kept_updates (snd ?s) = filter (goes_to env_op om_op0 1) updates_op0"
    using updates_applied_in_order [OF 1 _ _ ev, where w = ?w and us = updates_op0 and r = "fst ?r" and E = env_op and n = 2
        and outs = "fst ?s" and kept = "snd ?s"] by simp
  then show ?thesis unfolding f k by simp
qed


lemma retry_twice_overflows_witness:
  "fst (findLatestRetry env_op om_op0 10 5 (snd (run_as_group env_op (retry_group env_op om_op0 (Suc 2) 5) node_op0))) =
     Inl (GoPanic ''stack overflow'')"
proof -
  let ?r = "run_as_group env_op (retry_group env_op om_op0 (Suc 2) 5) node_op0"
  have "\<not> isl (fst ?r)" by code_simp
  then have r: "?r = (Inr (projr (fst ?r)), snd ?r)" by (cases ?r) auto
  have "map_of (nd_opcache node_op0) (e_uuid_str env_op 5) = Some 0" "0 < length (nd_opheap node_op0)" "op_Retry (nd_opheap node_op0 ! 0) = None"
    by code_simp+
  moreover have "preparing_keeps_cache om_op0"
    unfolding preparing_keeps_cache_def by (auto dest!: om_op0_handlers simp: handler_op0_def keeps_ret)
  ultimately have "findLatestRetry env_op om_op0 10 5 (snd ?r) = (Inl (GoPanic ''stack overflow''), snd ?r)"
    by (rule retry_twice_overflows [OF _ _ _ _ r])
  then show ?thesis by (simp del: findLatestRetry.simps)
qed

end
