(* ===== verification/Operations_Batch.thy ===== *)
theory Operations_Batch
  imports Operations_Props
begin

text \<open>
  The contract of the operation updater: a batch of updates that is applied leaves every operation with the
  status it has after the updates addressed to it, one after the other. The abstract
  specification is a fold over the statuses; the batch goes through the cache of operations, the table, and the retries.
\<close>

section \<open>Specification\<close>

definition status_after :: "op_status \<Rightarrow> op_update \<Rightarrow> op_status" where
  "status_after s u = (case ou_Status u of
     None \<Rightarrow> s
   | Some t \<Rightarrow> if t = OS_Pending \<and> (s = OS_Succeeded \<or> s = OS_Failed) then s else t)"

definition addressed :: "env \<Rightarrow> ops_manager \<Rightarrow> operation \<Rightarrow> op_update \<Rightarrow> bool" where
  "addressed E om op u \<longleftrightarrow> op_Namespace op = om_namespace om \<and> ou_Plugin u = op_Plugin op \<and>
     (case ParseNamespacedOpID E (ou_NamespacedOpID u) of Inl _ \<Rightarrow> False | Inr (_, i) \<Rightarrow> i = op_ID op)"

definition final_status :: "env \<Rightarrow> ops_manager \<Rightarrow> op_update list \<Rightarrow> operation \<Rightarrow> op_status" where
  "final_status E om us op = foldl status_after (op_Status op) (filter (addressed E om op) us)"

section \<open>What the cache and the table keep\<close>

definition ident :: "operation \<Rightarrow> uuid \<times> string \<times> string" where
  "ident op = (op_ID op, op_Namespace op, op_Plugin op)"

type_synonym op_idents = "(uuid \<times> string \<times> string) list"

text \<open>The identities in the heap, the cache, the identities of the rows.\<close>

definition cview :: "op_idents \<Rightarrow> (string \<Rightarrow> nat option) \<Rightarrow> op_idents \<Rightarrow> node \<Rightarrow> bool" where
  "cview hs cs rs nd \<longleftrightarrow> map ident (nd_opheap nd) = hs \<and> map_of (nd_opcache nd) = cs \<and> map ident (db_ops (nd_db nd)) = rs"

text \<open>Every cached object is a row of the namespace, cached under its identifier.\<close>

definition good_cache :: "env \<Rightarrow> string \<Rightarrow> op_idents \<Rightarrow> (string \<Rightarrow> nat option) \<Rightarrow> op_idents \<Rightarrow> bool" where
  "good_cache E ns hs cs rs \<longleftrightarrow> (\<forall>k p. cs k = Some p \<longrightarrow> p < length hs \<and> e_uuid_str E (fst (hs ! p)) = k \<and>
     hs ! p \<in> set rs \<and> fst (snd (hs ! p)) = ns)"

definition ops_coherent :: "env \<Rightarrow> ops_manager \<Rightarrow> node \<Rightarrow> bool" where
  "ops_coherent E om nd \<longleftrightarrow> good_cache E (om_namespace om) (map ident (nd_opheap nd)) (map_of (nd_opcache nd)) (map ident (db_ops (nd_db nd)))"

abbreviation op_view :: "node \<Rightarrow> operation list \<times> operation list \<times> (string \<times> nat) list" where
  "op_view nd \<equiv> (db_ops (nd_db nd), nd_opheap nd, nd_opcache nd)"

lemma keeps_cview: "keeps op_view m \<Longrightarrow> stable (cview hs cs rs) m"
  by (simp add: keeps_def stable_def cview_def)

lemma keeps_op_view_db: "(\<And>db x db'. f db = Inr (x, db') \<Longrightarrow> db_ops db' = db_ops db) \<Longrightarrow> keeps op_view (db_op E f)"
  by (rule keeps_db_op) auto

lemma keeps_op_view_read [keeps_intros]: "keeps op_view (db_read E f)"
  unfolding db_read_def by (rule keeps_op_view_db) auto

lemma keeps_op_view_tx [keeps_intros]:
  "keeps op_view (tx_alloc tx)" "keeps op_view (tx_deref ptr)" "keeps op_view (tx_assign ptr tx)"
  "keeps op_view (updateTransactionsCache E ptr)" "keeps op_view (op_deref q)"
  by (simp_all add: keeps_def tx_alloc_def tx_deref_def tx_assign_def updateTransactionsCache_def op_deref_def bindM_def getsM_def modifyM_def)

lemma keeps_op_view_transactions [keeps_intros]: "keeps op_view (op_transactions E om ptrs)"
  unfolding op_transactions_def GetTransactionByIDCached_def GetTransactionByID_def by (intro keeps_intros)

lemma keeps_find_tx [keeps_intros]: "keeps op_view (find_tx i ptrs)"
proof (induction i ptrs rule: find_tx.induct)
  case (3 i p ptrs)
  show ?case unfolding find_tx.simps by (intro keeps_intros 3)
qed (simp_all add: keeps_ret keeps_throw)

lemma keeps_op_view_add_tx [keeps_intros]: "keeps op_view (add_blockchain_tx E om op u txs)"
  unfolding add_blockchain_tx_def AddBlockchainTX_def UpdateTransaction_blockchainids_def db_write_def
  by (intro keeps_intros keeps_op_view_db) auto

text \<open>The search in the list is a pure function of the heap.\<close>

lemma find_op_eq:
  "find_op i ptrs nd = (Inr (map_option (\<lambda>p. (p, nd_opheap nd ! p)) (find (\<lambda>p. op_ID (nd_opheap nd ! p) = i) ptrs)), nd)"
  by (induction ptrs) (auto simp: op_deref_def bindM_def getsM_def retM_def)

lemma keeps_find_op [keeps_intros]: "keeps op_view (find_op i ptrs)"
  by (simp add: keeps_def find_op_eq)

section \<open>One resolution\<close>

lemma ident_patch [simp]: "ident (patch_operation st er out rt op) = ident op"
  by (simp add: ident_def patch_operation_def)

lemma updateCached_cview:
  assumes "good_cache E ns hs cs rs"
  shows "stable (cview hs cs rs) (updateCachedOperation E i st er out rt)"
proof (rule stableI)
  fix nd assume nd: "cview hs cs rs nd"
  show "cview hs cs rs (snd (updateCachedOperation E i st er out rt nd))"
  proof (cases "cs (e_uuid_str E i)")
    case None
    then show ?thesis using nd
      by (simp add: cview_def updateCachedOperation_def getCachedOperation_def bindM_def getsM_def retM_def)
  next
    case (Some p)
    let ?op = "patch_operation st er out rt (nd_opheap nd ! p)"
    have p: "p < length hs" "e_uuid_str E (fst (hs ! p)) = e_uuid_str E i" using assms Some by (auto simp: good_cache_def)
    have len: "length (nd_opheap nd) = length hs" using nd by (metis cview_def length_map)
    have idp: "ident (nd_opheap nd ! p) = hs ! p" using nd p(1) len by (metis cview_def nth_map)
    have key: "e_uuid_str E (op_ID ?op) = e_uuid_str E i"
      using p(2) by (simp add: idp [symmetric] ident_def patch_operation_def)
    have "map ident ((nd_opheap nd)[p := ?op]) = hs"
      using nd idp p(1) by (simp add: map_update cview_def)
    moreover have "cs(e_uuid_str E i \<mapsto> p) = cs" using Some by auto
    ultimately show ?thesis
      using nd Some p(1) len key
      by (simp add: cview_def updateCachedOperation_def getCachedOperation_def op_deref_def op_assign_def cacheOperation_def
          bindM_def getsM_def modifyM_def)
  qed
qed

lemma ident_rows_update:
  "map ident (map (\<lambda>op. if hit op then (patch_operation st er out rt op) \<lparr> op_Updated := now \<rparr> else op) rows) = map ident rows"
  by (auto simp: ident_def patch_operation_def)

lemma UpdateOperation_cview: "stable (cview hs cs rs) (UpdateOperation E ns i P (patch_operation st er out rt))"
proof (rule stableI)
  fix nd assume nd: "cview hs cs rs nd"
  then show "cview hs cs rs (snd (UpdateOperation E ns i P (patch_operation st er out rt) nd))"
    by (auto simp: UpdateOperation_def nowM_def db_op_def bindM_def cview_def Let_def ident_rows_update simp del: map_map split: sum.splits)
qed

lemma resolve_cview:
  assumes "good_cache E ns' hs cs rs"
  shows "stable (cview hs cs rs) (resolveOperation E ns i st er out)"
  unfolding resolveOperation_def
  by (intro stable_intros UpdateOperation_cview updateCached_cview [OF assms])

lemma resolve_status:
  assumes "resolveOperation E ns i st er out nd = (Inr (), nd')"
  shows "map op_Status (db_ops (nd_db nd')) = map (\<lambda>op. if op_ID op = i \<and> op_Namespace op = ns
    then status_after (op_Status op) (u \<lparr> ou_Status := st \<rparr>) else op_Status op) (db_ops (nd_db nd))"
proof -
  obtain ok nd1 where u: "UpdateOperation E ns i (\<lambda>op. st = Some OS_Pending \<longrightarrow> not_final op) (patch_operation st er out None) nd = (Inr ok, nd1)"
    and c: "(if ok then updateCachedOperation E i st er out None else retM ()) nd1 = (Inr (), nd')"
    using assms by (auto simp: resolveOperation_def bindM_eq_Inr)
  have "stable (\<lambda>nd. nd_db nd = nd_db nd1) (if ok then updateCachedOperation E i st er out None else retM ())"
    by (intro stable_intros)
  from stableD [OF this c] have "nd_db nd' = nd_db nd1" by simp
  moreover have "map op_Status (db_ops (nd_db nd1)) = map (\<lambda>op. if op_ID op = i \<and> op_Namespace op = ns
    then status_after (op_Status op) (u \<lparr> ou_Status := st \<rparr>) else op_Status op) (db_ops (nd_db nd))"
    using u by (auto simp: UpdateOperation_def bindM_eq_Inr nowM_def db_op_Inr Let_def status_after_def patch_operation_def not_final_def
        split: option.splits)
  ultimately show ?thesis by simp
qed

section \<open>One update\<close>

definition handlers_keep_view :: "ops_manager \<Rightarrow> bool" where
  "handlers_keep_view om \<longleftrightarrow> (\<forall>t h op u. map_of (om_handlers om) t = Some h \<longrightarrow> keeps op_view (oh_OnOperationUpdate h op u))"

text \<open>The operations the batch found: valid pointers to rows of the namespace, one for each identifier that has a row.\<close>

definition ops_found :: "string \<Rightarrow> op_idents \<Rightarrow> op_idents \<Rightarrow> uuid list \<Rightarrow> nat list \<Rightarrow> bool" where
  "ops_found ns hs rs ids ops \<longleftrightarrow> (\<forall>p \<in> set ops. p < length hs \<and> hs ! p \<in> set rs \<and> fst (snd (hs ! p)) = ns) \<and>
     (\<forall>r \<in> set rs. fst (snd r) = ns \<and> fst r \<in> set ids \<longrightarrow> r \<in> (!) hs ` set ops)"

lemma doUpdate_cview:
  assumes "handlers_keep_view om" "good_cache E ns hs cs rs" "\<forall>u \<in> set us. \<not> ou_VerifyManifest u" "k < length us"
  shows "stable (\<lambda>(nd, us'). cview hs cs rs nd \<and> us' = us) (doUpdate E om ops txs k)"
proof -
  have h: "stable (cview hs cs rs) (oh_OnOperationUpdate h op u)" if "map_of (om_handlers om) t = Some h" for h op u t
    using assms(1) that by (auto simp: handlers_keep_view_def intro: keeps_cview)
  have U: "stable (\<lambda>(nd, us'). cview hs cs rs nd \<and> us' = us) (onUNode m)" if "stable (cview hs cs rs) m" for m :: "'a nact"
    using stable_onUNode [OF that, of "\<lambda>us'. us' = us"] by simp
  show ?thesis
    unfolding doUpdate_def get_update_def
    by (intro stable_gets_bind stable_intros U h keeps_cview [OF keeps_find_op] keeps_cview [OF keeps_op_view_add_tx]
        keeps_cview [OF keeps_op_view_tx(5)] resolve_cview [OF assms(2)]) (use assms(3,4) in auto)
qed

lemma keep_view_status: "keeps op_view m \<Longrightarrow> m nd = (r, nd') \<Longrightarrow> db_ops (nd_db nd') = db_ops (nd_db nd)"
  by (drule keepsD, assumption) simp

lemma map_if_none: "(\<And>x. x \<in> set xs \<Longrightarrow> \<not> P x) \<Longrightarrow> map (\<lambda>x. if P x then f x else g x) xs = map g xs"
  by simp

lemma onUNode_Inr: "onUNode m (nd, us) = (Inr x, s') \<longleftrightarrow> (\<exists>nd'. m nd = (Inr x, nd') \<and> s' = (nd', us))"
  by (auto simp: onUNode_def split: prod.splits)

lemma get_update_Inr: "get_update k (nd, us) = (Inr u, s') \<longleftrightarrow> u = us ! k \<and> s' = (nd, us)"
  by (auto simp: get_update_def getsM_def)

lemma handled_Inr:
  assumes "handlers_keep_view om"
    and "(case map_of (om_handlers om) t of Some h \<Rightarrow> onUNode (oh_OnOperationUpdate h op u) | None \<Rightarrow> retM ()) (nd, us) = (Inr x, s')"
  shows "\<exists>nd'. s' = (nd', us) \<and> op_view nd' = op_view nd"
proof (cases "map_of (om_handlers om) t")
  case None
  then show ?thesis using assms(2) by simp
next
  case (Some h)
  then obtain nd' where r: "oh_OnOperationUpdate h op u nd = (Inr x, nd')" "s' = (nd', us)" using assms(2) by (auto simp: onUNode_Inr)
  have "keeps op_view (oh_OnOperationUpdate h op u)" using assms(1) Some by (simp add: handlers_keep_view_def)
  from keepsD [OF this r(1)] show ?thesis by (intro exI conjI) (rule r(2))
qed

lemma doUpdate_status:
  assumes hk: "handlers_keep_view om" and g: "good_cache E ns' hs cs rs" and nv: "\<not> ou_VerifyManifest (us ! k)"
    and d: "distinct (map fst rs)" and f: "ops_found (om_namespace om) hs rs ids ops"
    and ids: "\<And>ns i. ParseNamespacedOpID E (ou_NamespacedOpID (us ! k)) = Inr (ns, i) \<Longrightarrow> i \<in> set ids"
    and cv: "cview hs cs rs nd" and run: "doUpdate E om ops txs k (nd, us) = (Inr (), (nd', us'))"
  shows "map op_Status (db_ops (nd_db nd')) = map (\<lambda>op. if addressed E om op (us ! k)
    then status_after (op_Status op) (us ! k) else op_Status op) (db_ops (nd_db nd))"
proof (cases "ParseNamespacedOpID E (ou_NamespacedOpID (us ! k))")
  case (Inl e)
  then show ?thesis using run by (auto simp: doUpdate_def get_update_def bindM_def getsM_def retM_def addressed_def)
next
  case (Inr x)
  then obtain ns i where x: "ParseNamespacedOpID E (ou_NamespacedOpID (us ! k)) = Inr (ns, i)" by (cases x) auto
  have len: "length (nd_opheap nd) = length hs" and hp: "p < length hs \<Longrightarrow> ident (nd_opheap nd ! p) = hs ! p" for p
    using cv unfolding cview_def by (metis length_map, metis length_map nth_map)
  have row: "ident op \<in> set rs" if "op \<in> set (db_ops (nd_db nd))" for op using cv that by (auto simp: cview_def)
  have uniq: "ident op = r" if "op \<in> set (db_ops (nd_db nd))" "r \<in> set rs" "fst r = op_ID op" for op r
  proof -
    have "fst (ident op) = fst r" using that by (simp add: ident_def)
    then show ?thesis using d row [OF that(1)] that(2) by (metis (no_types, lifting) distinct_map inj_onD)
  qed
  show ?thesis
  proof (cases "find (\<lambda>p. op_ID (nd_opheap nd ! p) = i) ops")
    case None
    then have "nd' = nd" using run x by (auto simp: doUpdate_def get_update_def onUNode_def find_op_eq bindM_def getsM_def retM_def)
    moreover have "\<not> addressed E om op (us ! k)" if "op \<in> set (db_ops (nd_db nd))" for op
    proof
      assume a: "addressed E om op (us ! k)"
      have "\<exists>p \<in> set ops. hs ! p = ident op"
        using f a row [OF that] ids [OF x] x unfolding ops_found_def by (force simp: addressed_def ident_def)
      then obtain p where p: "p \<in> set ops" "hs ! p = ident op" by blast
      then have "op_ID (nd_opheap nd ! p) = i" using f hp [of p] a x by (auto simp: ops_found_def ident_def addressed_def)
      then show False using find_None_notin [OF None p(1)] by simp
    qed
    ultimately show ?thesis by (simp add: map_if_none)
  next
    case (Some p)
    then have p: "p \<in> set ops" "op_ID (nd_opheap nd ! p) = i" by (auto dest: find_Some_in)
    let ?c = "nd_opheap nd ! p"
    have hsp: "p < length hs" "hs ! p \<in> set rs" "fst (snd (hs ! p)) = om_namespace om" using f p by (auto simp: ops_found_def)
    then have c: "ident ?c \<in> set rs" "op_Namespace ?c = om_namespace om" using hp [OF hsp(1)] by (simp, simp add: ident_def prod_eq_iff)
    have adr: "addressed E om op (us ! k) \<longleftrightarrow> ou_Plugin (us ! k) = op_Plugin ?c \<and> op_ID op = i \<and> op_Namespace op = om_namespace om"
      if "op \<in> set (db_ops (nd_db nd))" for op
      using uniq [OF that c(1)] p(2) c(2) x by (auto simp: addressed_def ident_def)
    show ?thesis
    proof (cases "ou_Plugin (us ! k) = op_Plugin ?c")
      case False
      then have "nd' = nd" using run x Some
        by (auto simp: doUpdate_def get_update_def onUNode_def find_op_eq bindM_def getsM_def retM_def)
      then show ?thesis using False adr by (simp add: map_if_none)
    next
      case True
      let ?H = "\<lambda>op. case map_of (om_handlers om) (op_Type op) of Some h \<Rightarrow> onUNode (oh_OnOperationUpdate h op (us ! k)) | None \<Rightarrow> retM ()"
      obtain nd1 op s2 where s: "add_blockchain_tx E om ?c (us ! k) txs nd = (Inr (), nd1)" "op = nd_opheap nd1 ! p"
          "?H op (nd1, us) = (Inr (), s2)"
          "resolveOperation E (op_Namespace op) (op_ID op) (ou_Status (snd s2 ! k)) (Some (ou_ErrorMessage (snd s2 ! k)))
             (ou_Output (snd s2 ! k)) (fst s2) = (Inr (), nd')"
        using run x Some True nv
        by (auto simp: doUpdate_def bindM_eq_Inr onUNode_Inr get_update_Inr find_op_eq op_deref_def)
      have v1: "op_view nd1 = op_view nd" by (rule keepsD [OF keeps_op_view_add_tx s(1)])
      obtain nd2 where nd2: "s2 = (nd2, us)" and v2: "op_view nd2 = op_view nd1" using handled_Inr [OF hk s(3)] by blast
      have rs: "resolveOperation E (op_Namespace op) (op_ID op) (ou_Status (us ! k)) (Some (ou_ErrorMessage (us ! k))) (ou_Output (us ! k)) nd2 = (Inr (), nd')"
        using s(4) nd2 by simp
      have op: "op_ID op = i" "op_Namespace op = om_namespace om" using s(2) v1 p(2) c(2) by auto
      have "(us ! k) \<lparr> ou_Status := ou_Status (us ! k) \<rparr> = us ! k" by simp
      with resolve_status [OF rs, of "us ! k"] show ?thesis
        unfolding op using v1 v2 adr True by (auto intro!: map_cong)
    qed
  qed
qed

section \<open>Loading the operations\<close>

lemma cached_reads:
  "mapM (\<lambda>i. bindM (getCachedOperation E i) (\<lambda>c. retM (i, c))) ids nd =
     (Inr (map (\<lambda>i. (i, map_of (nd_opcache nd) (e_uuid_str E i))) ids), nd)"
  by (induction ids) (simp_all add: getCachedOperation_def bindM_def getsM_def retM_def)

lemma getOperationsCached_eq:
  "getOperationsCached E ns ids nd = (let found = map (\<lambda>i. (i, map_of (nd_opcache nd) (e_uuid_str E i))) ids;
     ops = [ptr. (i, Some ptr) \<leftarrow> found]; cacheMisses = [i. (i, None) \<leftarrow> found] in
     (if cacheMisses = [] then retM ops
      else bindM (GetOperations E ns (\<lambda>op. op_ID op \<in> set cacheMisses)) (\<lambda>dbOps.
           bindM (mapM (alloc_cached E) dbOps) (\<lambda>ptrs. retM (ops @ ptrs)))) nd)"
  unfolding getOperationsCached_def by (subst bindM_def) (simp only: cached_reads prod.case sum.case Let_def)

lemma alloc_cached_eq:
  "alloc_cached E op nd = (Inr (length (nd_opheap nd)), nd \<lparr> nd_opheap := nd_opheap nd @ [op],
     nd_opcache := assoc_put (e_uuid_str E (op_ID op)) (length (nd_opheap nd)) (nd_opcache nd) \<rparr>)"
  by (simp add: alloc_cached_def op_alloc_def cacheOperation_def op_deref_def bindM_def getsM_def modifyM_def retM_def)

lemma good_cache_add:
  assumes "good_cache E ns hs cs rs" "ident x \<in> set rs" "op_Namespace x = ns"
  shows "good_cache E ns (hs @ [ident x]) (cs(e_uuid_str E (op_ID x) \<mapsto> length hs)) rs"
  unfolding good_cache_def
proof (intro allI impI)
  fix k p assume k: "(cs(e_uuid_str E (op_ID x) \<mapsto> length hs)) k = Some p"
  show "p < length (hs @ [ident x]) \<and> e_uuid_str E (fst ((hs @ [ident x]) ! p)) = k \<and> (hs @ [ident x]) ! p \<in> set rs \<and>
      fst (snd ((hs @ [ident x]) ! p)) = ns"
  proof (cases "k = e_uuid_str E (op_ID x)")
    case True
    then have "p = length hs" using k by simp
    then show ?thesis using True assms(2,3) by (simp add: ident_def)
  next
    case False
    then have "cs k = Some p" using k by simp
    then have "p < length hs \<and> e_uuid_str E (fst (hs ! p)) = k \<and> hs ! p \<in> set rs \<and> fst (snd (hs ! p)) = ns"
      using assms(1) unfolding good_cache_def by blast
    then show ?thesis by (simp add: nth_append)
  qed
qed

lemma alloc_many:
  assumes "good_cache E ns hs cs rs" "cview hs cs rs nd" "\<And>op. op \<in> set xs \<Longrightarrow> ident op \<in> set rs \<and> op_Namespace op = ns"
  shows "\<exists>cs' nd'. mapM (alloc_cached E) xs nd = (Inr [length hs..<length hs + length xs], nd') \<and>
    cview (hs @ map ident xs) cs' rs nd' \<and> good_cache E ns (hs @ map ident xs) cs' rs"
  using assms
proof (induction xs arbitrary: hs cs nd)
  case Nil
  then show ?case by (auto simp: retM_def)
next
  case (Cons x xs)
  let ?cs = "cs(e_uuid_str E (op_ID x) \<mapsto> length hs)"
  let ?nd = "nd \<lparr> nd_opheap := nd_opheap nd @ [x], nd_opcache := assoc_put (e_uuid_str E (op_ID x)) (length hs) (nd_opcache nd) \<rparr>"
  have len: "length (nd_opheap nd) = length hs" using Cons.prems(2) by (metis cview_def length_map)
  have "good_cache E ns (hs @ [ident x]) ?cs rs"
    by (rule good_cache_add [OF Cons.prems(1)]) (use Cons.prems(3) [of x] in auto)
  moreover have "cview (hs @ [ident x]) ?cs rs ?nd" using Cons.prems(2) by (auto simp: cview_def)
  ultimately obtain cs' nd' where ih: "mapM (alloc_cached E) xs ?nd = (Inr [Suc (length hs)..<Suc (length hs) + length xs], nd')"
      "cview (hs @ ident x # map ident xs) cs' rs nd'" "good_cache E ns (hs @ ident x # map ident xs) cs' rs"
    using Cons.IH [of "hs @ [ident x]" ?cs ?nd] Cons.prems(3) by (auto simp del: upt_Suc fun_upd_apply)
  have "mapM (alloc_cached E) (x # xs) nd = (Inr (length hs # [Suc (length hs)..<Suc (length hs) + length xs]), nd')"
    using ih(1) by (simp add: alloc_cached_eq len bindM_def retM_def)
  moreover have "length hs # [Suc (length hs)..<Suc (length hs) + length xs] = [length hs..<length hs + length (x # xs)]"
    by (simp add: upt_rec [of "length hs"] del: upt_Suc)
  ultimately show ?case using ih(2,3) by (simp del: mapM.simps upt_Suc) blast
qed

lemma getOperationsCached_cview:
  assumes g: "good_cache E ns hs cs rs" and cv: "cview hs cs rs nd" and d: "distinct (map fst rs)" and inj: "inj (e_uuid_str E)"
    and run: "getOperationsCached E ns ids nd = (r, nd')"
  shows "\<exists>hs' cs'. good_cache E ns hs' cs' rs \<and> cview hs' cs' rs nd' \<and> (\<forall>ops. r = Inr ops \<longrightarrow> ops_found ns hs' rs ids ops)"
proof -
  let ?found = "map (\<lambda>i. (i, cs (e_uuid_str E i))) ids"
  let ?ops = "[ptr. (i, Some ptr) \<leftarrow> ?found]" and ?miss = "[i. (i, None) \<leftarrow> ?found]"
  have hit: "p \<in> set ?ops \<longleftrightarrow> (\<exists>i \<in> set ids. cs (e_uuid_str E i) = Some p)" for p by (induction ids) (auto split: option.splits)
  have miss: "i \<in> set ?miss \<longleftrightarrow> i \<in> set ids \<and> cs (e_uuid_str E i) = None" for i by (induction ids) (auto split: option.splits)
  have valid: "p < length hs \<and> hs ! p \<in> set rs \<and> fst (snd (hs ! p)) = ns" if "p \<in> set ?ops" for p
    using g that unfolding hit good_cache_def by blast
  have cached: "r0 \<in> (!) hs ` set ?ops" if r0: "r0 \<in> set rs" "fst r0 \<in> set ids" "fst r0 \<notin> set ?miss" for r0
  proof -
    obtain p where p: "cs (e_uuid_str E (fst r0)) = Some p" using r0(2,3) unfolding miss by fastforce
    then have "e_uuid_str E (fst (hs ! p)) = e_uuid_str E (fst r0)" "hs ! p \<in> set rs" using g by (auto simp: good_cache_def)
    then have "hs ! p = r0" using r0(1) d inj by (metis distinct_map inj_onD inj_eq)
    then show ?thesis using p r0(2) hit by blast
  qed
  have cs: "map_of (nd_opcache nd) = cs" using cv by (simp add: cview_def)
  show ?thesis
  proof (cases "?miss = []")
    case True
    have "getOperationsCached E ns ids nd = (Inr ?ops, nd)" unfolding getOperationsCached_eq Let_def cs if_P [OF True] retM_def ..
    then have r: "r = Inr ?ops" "nd' = nd" using run by (simp_all del: concat_map_singleton map_map)
    have "i \<notin> set ?miss" for i using True by (metis empty_iff list.set(1))
    then have "ops_found ns hs rs ids ?ops" unfolding ops_found_def by (intro conjI ballI impI cached) (use valid in blast)+
    then show ?thesis unfolding r using g cv by blast
  next
    case False
    let ?P = "\<lambda>op. op_ID op \<in> set ?miss"
    let ?nd = "nd \<lparr> nd_calls := Suc (nd_calls nd) \<rparr>"
    let ?rows = "filter (\<lambda>op. op_Namespace op = ns \<and> ?P op) (db_ops (nd_db nd))"
    have cv1: "cview hs cs rs ?nd" using cv by (simp add: cview_def)
    have rows: "ident op \<in> set rs \<and> op_Namespace op = ns" if "op \<in> set ?rows" for op using that cv by (auto simp: cview_def)
    obtain cs' nd2 where al: "mapM (alloc_cached E) ?rows ?nd = (Inr [length hs..<length hs + length ?rows], nd2)"
        "cview (hs @ map ident ?rows) cs' rs nd2" "good_cache E ns (hs @ map ident ?rows) cs' rs"
      using alloc_many [OF g cv1 rows] by blast
    have res: "getOperationsCached E ns ids nd = (if e_flt E (nd_calls nd) then (Inl (DBErr (nd_calls nd)), ?nd)
        else (Inr (?ops @ [length hs..<length hs + length ?rows]), nd2))"
      using al(1) unfolding getOperationsCached_eq Let_def cs if_not_P [OF False]
      by (simp add: bindM_def retM_def GetOperations_def db_read_def db_op_def Let_def)
    have fnd: "ops_found ns (hs @ map ident ?rows) rs ids (?ops @ [length hs..<length hs + length ?rows])"
      unfolding ops_found_def
    proof (intro conjI ballI impI)
      fix p assume "p \<in> set (?ops @ [length hs..<length hs + length ?rows])"
      then consider (old) "p \<in> set ?ops" | (new) k where "p = length hs + k" "k < length ?rows"
        by (auto simp del: upt_conv_Cons) (metis add_diff_inverse_nat leD nat_add_left_cancel_less)
      then have "p < length (hs @ map ident ?rows) \<and> (hs @ map ident ?rows) ! p \<in> set rs \<and> fst (snd ((hs @ map ident ?rows) ! p)) = ns"
      proof cases
        case old
        from valid [OF this] show ?thesis by (simp add: nth_append)
      next
        case new
        have "(hs @ map ident ?rows) ! p = ident (?rows ! k)" using new by (simp only: nth_append_length_plus nth_map)
        moreover have "fst (snd (ident op)) = op_Namespace op" for op by (simp add: ident_def)
        ultimately show ?thesis using rows [OF nth_mem [OF new(2)]] new by (simp only: length_append length_map) simp
      qed
      then show "p < length (hs @ map ident ?rows)" "(hs @ map ident ?rows) ! p \<in> set rs" "fst (snd ((hs @ map ident ?rows) ! p)) = ns"
        by auto
    next
      fix r0 assume r0: "r0 \<in> set rs" "fst (snd r0) = ns \<and> fst r0 \<in> set ids"
      show "r0 \<in> (!) (hs @ map ident ?rows) ` set (?ops @ [length hs..<length hs + length ?rows])"
      proof (cases "fst r0 \<in> set ?miss")
        case False
        then obtain p where p: "p \<in> set ?ops" "r0 = hs ! p" using cached r0 by blast
        have "r0 = (hs @ map ident ?rows) ! p" using valid [OF p(1)] p(2) by (simp add: nth_append)
        moreover have "p \<in> set (?ops @ [length hs..<length hs + length ?rows])" unfolding set_append using p(1) by blast
        ultimately show ?thesis by (rule image_eqI)
      next
        case True
        obtain op where op: "op \<in> set (db_ops (nd_db nd))" "r0 = ident op" using r0(1) cv by (auto simp: cview_def)
        then have "op \<in> set ?rows" using True r0(2) by (simp only: set_filter mem_Collect_eq ident_def fst_conv snd_conv)
        then obtain k where k: "k < length ?rows" "op = ?rows ! k" unfolding in_set_conv_nth by blast
        have "r0 = (hs @ map ident ?rows) ! (length hs + k)" using k op(2) by (simp only: nth_append_length_plus nth_map)
        moreover have "length hs + k \<in> set (?ops @ [length hs..<length hs + length ?rows])" unfolding set_append set_upt using k(1) by simp
        ultimately show ?thesis by (rule image_eqI)
      qed
    qed
    show ?thesis
    proof (cases "e_flt E (nd_calls nd)")
      case True
      then have "r = Inl (DBErr (nd_calls nd))" "nd' = ?nd" using run unfolding res if_P [OF True] by (simp_all only: prod.inject)
      then show ?thesis using g cv1 by blast
    next
      case False
      then have "r = Inr (?ops @ [length hs..<length hs + length ?rows])" "nd' = nd2"
        using run unfolding res if_not_P [OF False] by (simp_all only: prod.inject)
      then show ?thesis using al(2,3) fnd by blast
    qed
  qed
qed

section \<open>A batch\<close>

lemma addressed_cong: "ident op = ident op' \<Longrightarrow> addressed E om op u = addressed E om op' u"
  by (auto simp: addressed_def ident_def split: sum.splits)

lemma final_status_step:
  assumes "map ident rows = map ident R" "map op_Status rows = map (final_status E om ys) R"
  shows "map (\<lambda>op. if addressed E om op u then status_after (op_Status op) u else op_Status op) rows = map (final_status E om (ys @ [u])) R"
proof (rule nth_equalityI)
  show len: "length (map (\<lambda>op. if addressed E om op u then status_after (op_Status op) u else op_Status op) rows) =
      length (map (final_status E om (ys @ [u])) R)" using assms(1) by (metis length_map)
  fix j assume "j < length (map (\<lambda>op. if addressed E om op u then status_after (op_Status op) u else op_Status op) rows)"
  then have j: "j < length rows" "j < length R" using len by auto
  have "ident (rows ! j) = ident (R ! j)" "op_Status (rows ! j) = final_status E om ys (R ! j)"
    using assms j by (metis nth_map)+
  then show "map (\<lambda>op. if addressed E om op u then status_after (op_Status op) u else op_Status op) rows ! j = map (final_status E om (ys @ [u])) R ! j"
    using j addressed_cong [of "rows ! j" "R ! j" E om u] by (simp add: final_status_def)
qed

lemma upt_split: "[0..<n] = ys @ k # zs \<Longrightarrow> k < n"
  by (metis atLeastLessThan_iff in_set_conv_decomp set_upt)

lemma batch_loop:
  assumes hk: "handlers_keep_view om" and g: "good_cache E (om_namespace om) hs cs (map ident R)" and nv: "\<forall>u \<in> set us. \<not> ou_VerifyManifest u"
    and d: "distinct (map op_ID R)" and f: "ops_found (om_namespace om) hs (map ident R) ids ops"
    and ids: "\<And>u ns i. u \<in> set us \<Longrightarrow> ParseNamespacedOpID E (ou_NamespacedOpID u) = Inr (ns, i) \<Longrightarrow> i \<in> set ids"
  shows "valid (\<lambda>(nd, us'). us' = us \<and> cview hs cs (map ident R) nd \<and> map op_Status (db_ops (nd_db nd)) = map op_Status R)
    (forM [0..<length us] (doUpdate E om ops txs))
    (\<lambda>_ (nd, us'). us' = us \<and> cview hs cs (map ident R) nd \<and> map op_Status (db_ops (nd_db nd)) = map (final_status E om us) R)
    (\<lambda>(nd, us'). us' = us \<and> cview hs cs (map ident R) nd)"
proof -
  let ?I = "\<lambda>ys (nd, us'). us' = us \<and> cview hs cs (map ident R) nd \<and> map op_Status (db_ops (nd_db nd)) = map (final_status E om (map ((!) us) ys)) R"
  let ?R = "\<lambda>(nd, us'). us' = us \<and> cview hs cs (map ident R) nd"
  have d': "distinct (map fst (map ident R))" using d by (simp add: o_def ident_def)
  have "valid (?I []) (forM [0..<length us] (doUpdate E om ops txs)) (\<lambda>_. ?I [0..<length us]) ?R"
  proof (rule valid_forM_prefix)
    fix ys k zs assume "[0..<length us] = ys @ k # zs"
    then have k: "k < length us" by (rule upt_split)
    note st = doUpdate_cview [OF hk g nv k, of ops txs]
    have upd: "?R (nd', us')" if "doUpdate E om ops txs k (nd, us) = (r, (nd', us'))" "cview hs cs (map ident R) nd" for nd nd' us' r
      using stableD [OF st that(1)] that(2) by auto
    show "valid (?I ys) (doUpdate E om ops txs k) (\<lambda>_. ?I (ys @ [k])) ?R"
    proof (rule validI)
      fix s :: "node \<times> op_update list" and x :: unit and s' assume s: "?I ys s" "doUpdate E om ops txs k s = (Inr x, s')"
      obtain nd nd' us' where nd: "s = (nd, us)" "s' = (nd', us')" using s(1) by (cases s; cases s') auto
      have cv: "cview hs cs (map ident R) nd" and rows: "map op_Status (db_ops (nd_db nd)) = map (final_status E om (map ((!) us) ys)) R"
        using s(1) nd(1) by auto
      have run: "doUpdate E om ops txs k (nd, us) = (Inr (), (nd', us'))" using s(2) nd by simp
      have ids': "\<And>ns i. ParseNamespacedOpID E (ou_NamespacedOpID (us ! k)) = Inr (ns, i) \<Longrightarrow> i \<in> set ids" by (rule ids [OF nth_mem [OF k]])
      have nvk: "\<not> ou_VerifyManifest (us ! k)" using nv k by simp
      have "map ident (db_ops (nd_db nd)) = map ident R" using cv by (simp add: cview_def)
      note step = final_status_step [OF this rows, of "us ! k"]
      have "map op_Status (db_ops (nd_db nd')) = map (\<lambda>op. if addressed E om op (us ! k)
          then status_after (op_Status op) (us ! k) else op_Status op) (db_ops (nd_db nd))"
        by (rule doUpdate_status [OF hk g nvk d' f ids' cv run])
      then have "map op_Status (db_ops (nd_db nd')) = map (final_status E om (map ((!) us) ys @ [us ! k])) R" unfolding step .
      then show "?I (ys @ [k]) s'" using upd [OF run cv] nd(2) by simp
    next
      fix s :: "node \<times> op_update list" and e s' assume s: "?I ys s" "doUpdate E om ops txs k s = (Inl e, s')"
      then show "?R s'" using upd by (cases s; cases s') blast
    qed
  qed
  then show ?thesis by (rule valid_weaken) (auto simp: final_status_def map_nth)
qed

lemma stable_cview_loop:
  assumes "handlers_keep_view om" "good_cache E ns hs cs rs" "\<forall>u \<in> set us. \<not> ou_VerifyManifest u"
  shows "stable (\<lambda>(nd, us'). cview hs cs rs nd \<and> us' = us) (forM [0..<length us] (doUpdate E om ops txs))"
  by (intro stable_forM doUpdate_cview [OF assms]) simp

text \<open>An attempt, whether it succeeds or not, and what it has done when it succeeds.\<close>

lemma doBatchUpdate_step:
  assumes hk: "handlers_keep_view om" and co: "ops_coherent E om nd" and nv: "\<forall>u \<in> set us. \<not> ou_VerifyManifest u"
    and d: "distinct (map op_ID (db_ops (nd_db nd)))" and inj: "inj (e_uuid_str E)"
    and run: "doBatchUpdate E om (nd, us) = (r, (nd', us'))"
  shows "us' = us \<and> (\<exists>hs cs. good_cache E (om_namespace om) hs cs (map ident (db_ops (nd_db nd))) \<and>
      cview hs cs (map ident (db_ops (nd_db nd))) nd') \<and>
    (r = Inr () \<longrightarrow> map op_Status (db_ops (nd_db nd')) = map (final_status E om us) (db_ops (nd_db nd)))"
proof -
  let ?R = "db_ops (nd_db nd)" and ?rs = "map ident (db_ops (nd_db nd))"
  let ?ids = "[i. Inr (_, i) \<leftarrow> map (\<lambda>u. ParseNamespacedOpID E (ou_NamespacedOpID u)) us]"
  have d': "distinct (map fst ?rs)" using d by (simp add: o_def ident_def)
  have ids: "i \<in> set ?ids" if "u \<in> set us" "ParseNamespacedOpID E (ou_NamespacedOpID u) = Inr (ns, i)" for u ns i
    using that by (auto intro!: bexI [of _ u])
  obtain hs cs where g: "good_cache E (om_namespace om) hs cs ?rs" "cview hs cs ?rs nd" "hs = map ident (nd_opheap nd)"
    using co by (auto simp: ops_coherent_def cview_def)
  show ?thesis
  proof (cases "?ids = []")
    case True
    then have "addressed E om op u \<Longrightarrow> u \<notin> set us" for op u using ids by (fastforce simp: addressed_def split: sum.splits)
    then have "filter (addressed E om op) us = []" for op by (auto simp: filter_empty_conv)
    moreover have "doBatchUpdate E om (nd, us) = (Inr (), (nd, us))"
      unfolding doBatchUpdate_def bindM_def getsM_def Let_def prod.case sum.case snd_conv if_P [OF True] retM_def ..
    ultimately show ?thesis using run g by (auto simp: final_status_def)
  next
    case False
    have eq: "doBatchUpdate E om (nd, us) = bindM (onUNode (getOperationsCached E (om_namespace om) ?ids)) (\<lambda>ops.
          bindM (onUNode (op_transactions E om ops)) (\<lambda>txs. forM [0..<length us] (doUpdate E om ops txs))) (nd, us)"
      unfolding doBatchUpdate_def by (subst bindM_def) (simp only: getsM_def prod.case sum.case snd_conv Let_def if_not_P [OF False])
    obtain r1 nd1 where r1: "getOperationsCached E (om_namespace om) ?ids nd = (r1, nd1)" by fastforce
    obtain hs1 cs1 where g1: "good_cache E (om_namespace om) hs1 cs1 ?rs" "cview hs1 cs1 ?rs nd1"
        "\<And>ops. r1 = Inr ops \<Longrightarrow> ops_found (om_namespace om) hs1 ?rs ?ids ops"
      using getOperationsCached_cview [OF g(1,2) d' inj r1] by blast
    have "stable (\<lambda>x. db_ops (nd_db x) = ?R) (getOperationsCached E (om_namespace om) ?ids)" by (intro stable_intros)
    from stableD [OF this r1] have "db_ops (nd_db nd1) = ?R" by simp
    then have st1: "map op_Status (db_ops (nd_db nd1)) = map op_Status ?R" by simp
    show ?thesis
    proof (cases r1)
      case (Inl e)
      then show ?thesis using run eq r1 g1 by (auto simp: bindM_def onUNode_def)
    next
      case (Inr ops)
      obtain r2 nd2 where r2: "op_transactions E om ops nd1 = (r2, nd2)" by fastforce
      have v2: "op_view nd2 = op_view nd1" by (rule keepsD [OF keeps_op_view_transactions r2])
      then have cv2: "cview hs1 cs1 ?rs nd2" "map op_Status (db_ops (nd_db nd2)) = map op_Status ?R" using g1(2) st1 by (auto simp: cview_def)
      show ?thesis
      proof (cases r2)
        case (Inl e)
        then show ?thesis using run eq r1 r2 \<open>r1 = Inr ops\<close> g1(1) cv2(1) by (auto simp: bindM_def onUNode_def)
      next
        case (Inr txs)
        have loop: "forM [0..<length us] (doUpdate E om ops txs) (nd2, us) = (r, (nd', us'))"
          using run eq r1 r2 Inr \<open>r1 = Inr ops\<close> by (simp add: bindM_def onUNode_def)
        have "cview hs1 cs1 ?rs nd' \<and> us' = us"
          using stableD [OF stable_cview_loop [OF hk g1(1) nv] loop] cv2(1) by simp
        moreover have "map op_Status (db_ops (nd_db nd')) = map (final_status E om us) ?R" if "r = Inr ()"
          using validD [OF batch_loop [OF hk g1(1) nv d g1(3) [OF \<open>r1 = Inr ops\<close>] ids, where txs = txs] _ loop [unfolded that]] cv2 by simp
        ultimately show ?thesis using g1(1) by blast
      qed
    qed
  qed
qed

lemma batch_retries:
  assumes hk: "handlers_keep_view om" and at: "e_atomic E" and inj: "inj (e_uuid_str E)" and nv: "\<forall>u \<in> set us. \<not> ou_VerifyManifest u"
    and "ops_coherent E om nd" "distinct (map op_ID (db_ops (nd_db nd)))"
    and "retryM n (run_as_group_U E (doBatchUpdate E om)) (nd, us) = (Inr x, (nd', us'))"
  shows "us' = us \<and> map ident (db_ops (nd_db nd')) = map ident (db_ops (nd_db nd)) \<and>
    map op_Status (db_ops (nd_db nd')) = map (final_status E om us) (db_ops (nd_db nd)) \<and> ops_coherent E om nd'"
  using assms(5-7)
proof (induction n arbitrary: nd)
  case (Suc n)
  obtain r nd1 us1 where b: "doBatchUpdate E om (nd, us) = (r, (nd1, us1))" by (metis prod.collapse)
  note st = doBatchUpdate_step [OF hk Suc.prems(1) nv Suc.prems(2) inj b]
  then obtain hs cs where g: "us1 = us" "good_cache E (om_namespace om) hs cs (map ident (db_ops (nd_db nd)))"
      "cview hs cs (map ident (db_ops (nd_db nd))) nd1" by blast
  let ?nd2 = "nd1 \<lparr> nd_db := nd_db nd \<rparr>" and ?nd3 = "nd1 \<lparr> nd_db := nd_db nd, nd_calls := Suc (nd_calls nd1) \<rparr>"
  have co: "ops_coherent E om ?nd2" "ops_coherent E om ?nd3" using g by (auto simp: ops_coherent_def cview_def)
  have again: ?case if "retryM n (run_as_group_U E (doBatchUpdate E om)) (nd2, us) = (Inr x, (nd', us'))"
    "ops_coherent E om nd2" "nd_db nd2 = nd_db nd" for nd2
    using Suc.IH [OF that(2) _ that(1)] Suc.prems(2) that(3) by simp
  show ?case
  proof (cases "r = Inr () \<and> \<not> e_flt E (nd_calls nd1)")
    case True
    then have "nd' = nd1 \<lparr> nd_calls := Suc (nd_calls nd1) \<rparr>" "us' = us"
      using Suc.prems(3) b g(1) by (auto simp: run_as_group_U_eq Let_def)
    then show ?thesis using st True g by (auto simp: ops_coherent_def cview_def)
  next
    case False
    then show ?thesis using Suc.prems(3) b g(1) again [of ?nd2] again [of ?nd3] co at
      by (cases r) (auto simp: run_as_group_U_eq Let_def split: fferr.splits if_splits)
  qed
qed simp

text \<open>C31: A batch of updates is the updates one after the other: when the batch returns, every row of the operations
  has the status it gets from the updates that name its identifier and its plugin, in the order of the batch,
  however many attempts failed before and were rolled back; no other row changes its status, the
  callbacks are those of the updates, and the cache of operations still agrees with the table.
  The handlers of the operation types keep the operations, the database has transactions, and the
  updates carry no manifest to verify.\<close>

theorem batch_applies_in_order:
  assumes "handlers_keep_view om" "e_atomic E" "inj (e_uuid_str E)" "\<forall>u \<in> set us. \<not> ou_VerifyManifest u"
    and "ops_coherent E om nd" "distinct (map op_ID (db_ops (nd_db nd)))"
    and "doBatchUpdateWithRetry E om us nd = (Inr callbacks, nd')"
  shows "map (\<lambda>op. (ident op, op_Status op)) (db_ops (nd_db nd')) = map (\<lambda>op. (ident op, final_status E om us op)) (db_ops (nd_db nd)) \<and>
    callbacks = [c. Some c \<leftarrow> map ou_OnComplete us] \<and> ops_coherent E om nd'"
proof -
  obtain x us' where r: "retryM (om_retries om) (run_as_group_U E (doBatchUpdate E om)) (nd, us) = (Inr x, (nd', us'))"
      "callbacks = [c. Some c \<leftarrow> map ou_OnComplete us']"
    using assms(7) by (auto simp: doBatchUpdateWithRetry_def split: prod.splits sum.splits)
  note b = batch_retries [OF assms(1-6) r(1)]
  have "map (\<lambda>op. (ident op, op_Status op)) (db_ops (nd_db nd')) = zip (map ident (db_ops (nd_db nd'))) (map op_Status (db_ops (nd_db nd')))"
    by (simp add: zip_map1 zip_map2 zip_same_conv_map)
  also have "\<dots> = map (\<lambda>op. (ident op, final_status E om us op)) (db_ops (nd_db nd))"
    using b by (simp add: zip_map1 zip_map2 zip_same_conv_map)
  finally show ?thesis using b r(2) by simp
qed

lemma batch_applies_in_order_witness:
  "map op_Status (db_ops (nd_db (snd (doBatchUpdateWithRetry env_op om_op0 updates_op0 node_op0)))) = [OS_Succeeded, OS_Succeeded]"
proof -
  let ?r = "doBatchUpdateWithRetry env_op om_op0 updates_op0 node_op0"
  have 1: "handlers_keep_view om_op0"
    unfolding handlers_keep_view_def by (auto dest!: om_op0_handlers simp: handler_op0_def keeps_ret)
  have 2: "e_atomic env_op" "inj (e_uuid_str env_op)" by (auto simp: env_op_def inj_def dest: arg_cong [where f = length])
  have 3: "\<forall>u \<in> set updates_op0. \<not> ou_VerifyManifest u" by (simp add: updates_op0_def update_op0_def)
  have 4: "ops_coherent env_op om_op0 node_op0"
    by (auto simp: ops_coherent_def good_cache_def node_op0_def node_tx0_def db_tx0_def op_row0_def ident_def om_op0_def env_op_def
        numeral_eq_Suc split: if_splits)
  have 5: "distinct (map op_ID (db_ops (nd_db node_op0)))" by code_simp
  have "\<not> isl (fst ?r)" by code_simp
  then have r: "?r = (Inr (projr (fst ?r)), snd ?r)" by (cases ?r) auto
  have "map (\<lambda>op. (ident op, op_Status op)) (db_ops (nd_db (snd ?r))) = map (\<lambda>op. (ident op, final_status env_op om_op0 updates_op0 op)) (db_ops (nd_db node_op0))"
    using batch_applies_in_order [OF 1 2 3 4 5 r] by blast
  then have "map snd (map (\<lambda>op. (ident op, op_Status op)) (db_ops (nd_db (snd ?r)))) =
      map snd (map (\<lambda>op. (ident op, final_status env_op om_op0 updates_op0 op)) (db_ops (nd_db node_op0)))" by (rule arg_cong)
  moreover have "map (final_status env_op om_op0 updates_op0) (db_ops (nd_db node_op0)) = [OS_Succeeded, OS_Succeeded]" by code_simp
  ultimately show ?thesis by (simp add: o_def)
qed

end
