(* ===== verification/Blockchain_Events.thy ===== *)
theory Blockchain_Events
  imports Operations
begin

text \<open>
  The blockchain events of internal/txcommon/txcommon.go with their table (blockchainevents_sql.go): the insertion of the
  events a connector delivers, which may have been delivered before, and the cache of them;
  and the search for an operation of a transaction.
\<close>

section \<open>The table\<close>

text \<open>The unique indexes: the identifier, and the namespace, listener and protocol identifier.\<close>

definition be_key :: "blockchain_event \<Rightarrow> string \<times> uuid option \<times> string" where
  "be_key e = (be_Namespace e, be_Listener e, be_ProtocolID e)"

definition be_conflict :: "blockchain_event \<Rightarrow> ffdb \<Rightarrow> bool" where
  "be_conflict e db \<longleftrightarrow> list_ex (\<lambda>r. be_ID r = be_ID e \<or> be_key r = be_key e) (db_bcevents db)"

definition insert_be_row :: "blockchain_event \<Rightarrow> ffdb \<Rightarrow> ffdb" where
  "insert_be_row e db = db \<lparr> db_bcevents := db_bcevents db @ [e] \<rparr>"

definition attemptBlockchainEventInsert :: "env \<Rightarrow> blockchain_event \<Rightarrow> unit nact" where
  "attemptBlockchainEventInsert E e = db_op E (\<lambda>db.
     if be_conflict e db then Inl (I18n ''MsgDBInsertFailed'') else Inr ((), insert_be_row e db))"

text \<open>The multi-row insert leaves out the rows that conflict and then fails.\<close>

fun insert_be_rows :: "blockchain_event list \<Rightarrow> ffdb \<Rightarrow> bool \<times> ffdb" where
  "insert_be_rows [] db = (True, db)"
| "insert_be_rows (e # es) db =
     (if be_conflict e db then (False, snd (insert_be_rows es db)) else insert_be_rows es (insert_be_row e db))"

definition InsertBlockchainEvents :: "env \<Rightarrow> bool \<Rightarrow> blockchain_event list \<Rightarrow> unit nact" where
  "InsertBlockchainEvents E multiRow es =
     (if multiRow
      then bindM (db_op E (\<lambda>db. Inr (insert_be_rows es db))) (\<lambda>ok.
           if ok then retM () else throwM (I18n ''MsgDBInsertFailed''))
      else forM es (attemptBlockchainEventInsert E))"

definition GetBlockchainEventByProtocolID :: "env \<Rightarrow> string \<Rightarrow> uuid option \<Rightarrow> string \<Rightarrow> blockchain_event option nact" where
  "GetBlockchainEventByProtocolID E ns listener pid =
     db_read E (\<lambda>db. find (\<lambda>r. be_key r = (ns, listener, pid)) (db_bcevents db))"

definition GetBlockchainEventByID :: "env \<Rightarrow> string \<Rightarrow> uuid \<Rightarrow> blockchain_event option nact" where
  "GetBlockchainEventByID E ns i = db_read E (\<lambda>db. find (\<lambda>r. be_ID r = i \<and> be_Namespace r = ns) (db_bcevents db))"

definition InsertOrGetBlockchainEvent :: "env \<Rightarrow> blockchain_event \<Rightarrow> blockchain_event option nact" where
  "InsertOrGetBlockchainEvent E e =
     bindM (attemptM (attemptBlockchainEventInsert E e)) (\<lambda>r.
     case r of
       Inr _ \<Rightarrow> retM None
     | Inl opErr \<Rightarrow> bindM (GetBlockchainEventByProtocolID E (be_Namespace e) (be_Listener e) (be_ProtocolID e)) (\<lambda>existing.
         case existing of Some x \<Rightarrow> retM (Some x) | None \<Rightarrow> throwM opErr))"

definition GetEvents_of :: "env \<Rightarrow> string \<Rightarrow> event_type \<Rightarrow> uuid \<Rightarrow> event list nact" where
  "GetEvents_of E ns ty i = db_read E (\<lambda>db. filter (\<lambda>ev. ev_Namespace ev = ns \<and> ev_Type ev = ty \<and> ev_Reference ev = Some i) (db_events db))"

section \<open>The helper\<close>

definition addBlockchainEventToCache :: "env \<Rightarrow> blockchain_event \<Rightarrow> unit nact" where
  "addBlockchainEventToCache E e = modifyM (\<lambda>nd. nd \<lparr> nd_bccache := assoc_put (e_uuid_str E (be_ID e)) e (nd_bccache nd) \<rparr>)"

definition GetBlockchainEventByIDCached :: "env \<Rightarrow> string \<Rightarrow> uuid \<Rightarrow> blockchain_event option nact" where
  "GetBlockchainEventByIDCached E ns i =
     bindM (getsM (\<lambda>nd. map_of (nd_bccache nd) (e_uuid_str E i))) (\<lambda>c.
     case c of
       Some e \<Rightarrow> retM (Some e)
     | None \<Rightarrow> bindM (GetBlockchainEventByID E ns i) (\<lambda>e.
         case e of None \<Rightarrow> retM None | Some e \<Rightarrow> bindM (addBlockchainEventToCache E e) (\<lambda>_. retM (Some e))))"

definition InsertOrGetBlockchainEvent_cached :: "env \<Rightarrow> blockchain_event \<Rightarrow> blockchain_event option nact" where
  "InsertOrGetBlockchainEvent_cached E e =
     bindM (InsertOrGetBlockchainEvent E e) (\<lambda>existing.
     case existing of
       Some x \<Rightarrow> bindM (addBlockchainEventToCache E x) (\<lambda>_. retM (Some x))
     | None \<Rightarrow> bindM (addBlockchainEventToCache E e) (\<lambda>_. retM None))"

text \<open>An event that was there before is new all the same if nobody was notified of it.\<close>

definition insert_or_adopt :: "env \<Rightarrow> string \<Rightarrow> blockchain_event \<Rightarrow> blockchain_event option nact" where
  "insert_or_adopt E ns e =
     bindM (InsertOrGetBlockchainEvent E e) (\<lambda>existing.
     case existing of
       Some x \<Rightarrow>
         bindM (GetEvents_of E ns ET_BlockchainEventReceived (be_ID x)) (\<lambda>notifications.
         bindM (addBlockchainEventToCache E x) (\<lambda>_.
         retM (if notifications = [] then Some x else None)))
     | None \<Rightarrow> bindM (addBlockchainEventToCache E e) (\<lambda>_. retM (Some e)))"

definition InsertNewBlockchainEvents :: "env \<Rightarrow> bool \<Rightarrow> string \<Rightarrow> blockchain_event list \<Rightarrow> blockchain_event list nact" where
  "InsertNewBlockchainEvents E multiRow ns es =
     bindM (attemptM (InsertBlockchainEvents E multiRow es)) (\<lambda>r.
     case r of
       Inr _ \<Rightarrow> bindM (forM es (addBlockchainEventToCache E)) (\<lambda>_. retM es)
     | Inl _ \<Rightarrow> bindM (mapM (insert_or_adopt E ns) es) (\<lambda>inserted. retM [e. Some e \<leftarrow> inserted]))"

definition FindOperationInTransaction :: "env \<Rightarrow> string \<Rightarrow> uuid \<Rightarrow> op_type \<Rightarrow> operation option nact" where
  "FindOperationInTransaction E ns tx ty =
     bindM (GetOperations E ns (\<lambda>op. op_Transaction op = Some tx \<and> op_Type op = ty)) (\<lambda>ops.
     retM (case ops of [] \<Rightarrow> None | op # _ \<Rightarrow> Some op))"

section \<open>No event is forgotten\<close>

text \<open>The event of an input is stored, and reported or already notified.\<close>

definition be_accounted :: "string \<Rightarrow> blockchain_event list \<Rightarrow> blockchain_event \<Rightarrow> node \<Rightarrow> bool" where
  "be_accounted ns out e nd \<longleftrightarrow> list_ex (\<lambda>r. be_key r = be_key e \<and>
     (r \<in> set out \<or> list_ex (\<lambda>ev. ev_Namespace ev = ns \<and> ev_Type ev = ET_BlockchainEventReceived \<and> ev_Reference ev = Some (be_ID r))
        (db_events (nd_db nd)))) (db_bcevents (nd_db nd))"

definition bc_grows :: "node \<Rightarrow> node \<Rightarrow> bool" where
  "bc_grows nd nd' \<longleftrightarrow> set (db_bcevents (nd_db nd)) \<subseteq> set (db_bcevents (nd_db nd')) \<and> db_events (nd_db nd') = db_events (nd_db nd)"

lemma be_accounted_mono: "be_accounted ns out e nd \<Longrightarrow> bc_grows nd nd' \<Longrightarrow> set out \<subseteq> set out' \<Longrightarrow> be_accounted ns out' e nd'"
  unfolding be_accounted_def bc_grows_def list_ex_iff by (metis subsetD)

lemma insert_be_rows_ok:
  "insert_be_rows es db = (ok, db') \<Longrightarrow> set (db_bcevents db) \<subseteq> set (db_bcevents db') \<and> db_events db' = db_events db \<and>
     (ok \<longrightarrow> set es \<subseteq> set (db_bcevents db'))"
proof (induction es arbitrary: db ok)
  case (Cons e es)
  show ?case
  proof (cases "be_conflict e db")
    case True
    then show ?thesis using Cons.prems Cons.IH [of db "fst (insert_be_rows es db)"] by (auto simp: prod_eq_iff)
  next
    case False
    then show ?thesis using Cons.prems Cons.IH [of "insert_be_row e db" ok] by (auto simp: insert_be_row_def)
  qed
qed auto

lemma attempt_be_insert:
  assumes "attemptBlockchainEventInsert E e nd = (r, nd')"
  shows "bc_grows nd nd' \<and> (r = Inr () \<longrightarrow> e \<in> set (db_bcevents (nd_db nd')))"
  using assms by (auto simp: attemptBlockchainEventInsert_def db_op_def Let_def bc_grows_def insert_be_row_def split: if_splits)

lemma bc_grows_trans: "bc_grows a b \<Longrightarrow> bc_grows b c \<Longrightarrow> bc_grows a c"
  by (auto simp: bc_grows_def)

lemma bc_grows_refl [simp]: "bc_grows a a"
  by (simp add: bc_grows_def)

lemma attempt_be_inserts:
  "forM es (attemptBlockchainEventInsert E) nd = (r, nd') \<Longrightarrow> bc_grows nd nd' \<and> (r = Inr () \<longrightarrow> set es \<subseteq> set (db_bcevents (nd_db nd')))"
proof (induction es arbitrary: nd)
  case (Cons e es)
  obtain r1 nd1 where 1: "attemptBlockchainEventInsert E e nd = (r1, nd1)" by fastforce
  note a = attempt_be_insert [OF 1]
  show ?case
  proof (cases r1)
    case (Inl err)
    then show ?thesis using Cons.prems 1 a by (auto simp: bindM_def)
  next
    case (Inr u)
    then have "forM es (attemptBlockchainEventInsert E) nd1 = (r, nd')" using Cons.prems 1 by (simp add: bindM_def)
    note b = Cons.IH [OF this]
    have "e \<in> set (db_bcevents (nd_db nd1))" using a Inr by simp
    then have "e \<in> set (db_bcevents (nd_db nd'))" using b by (auto simp: bc_grows_def)
    then show ?thesis using a b bc_grows_trans by auto
  qed
qed (simp add: retM_def)

lemma InsertBlockchainEvents_ok:
  assumes "InsertBlockchainEvents E multi es nd = (r, nd')"
  shows "bc_grows nd nd' \<and> (r = Inr () \<longrightarrow> set es \<subseteq> set (db_bcevents (nd_db nd')))"
proof (cases multi)
  case True
  obtain ok db' where i: "insert_be_rows es (nd_db nd) = (ok, db')" by fastforce
  show ?thesis using assms True insert_be_rows_ok [OF i] i
    by (auto simp: InsertBlockchainEvents_def bindM_def db_op_def Let_def bc_grows_def throwM_def retM_def split: if_splits)
next
  case False
  then show ?thesis using assms attempt_be_inserts by (simp add: InsertBlockchainEvents_def)
qed

lemma cache_be_db: "addBlockchainEventToCache E e nd = (r, nd') \<Longrightarrow> r = Inr () \<and> nd_db nd' = nd_db nd"
  by (auto simp: addBlockchainEventToCache_def)

lemma insert_or_adopt_ok:
  assumes "insert_or_adopt E ns e nd = (Inr x, nd')"
  shows "bc_grows nd nd' \<and> be_accounted ns (case x of None \<Rightarrow> [] | Some y \<Rightarrow> [y]) e nd'"
proof -
  obtain r nd1 where 1: "attemptBlockchainEventInsert E e nd = (r, nd1)" by fastforce
  note a = attempt_be_insert [OF 1]
  show ?thesis
  proof (cases r)
    case (Inr u)
    then have "x = Some e" "nd_db nd' = nd_db nd1"
      using assms 1 by (auto simp: insert_or_adopt_def InsertOrGetBlockchainEvent_def bindM_eq_Inr attemptM_eq dest: cache_be_db)
    then show ?thesis using a Inr by (auto simp: bc_grows_def be_accounted_def list_ex_iff)
  next
    case (Inl err)
    obtain ex nd2 where ex: "InsertOrGetBlockchainEvent E e nd = (Inr ex, nd2)"
      using assms by (auto simp: insert_or_adopt_def bindM_eq_Inr)
    then obtain y where y0: "GetBlockchainEventByProtocolID E (be_Namespace e) (be_Listener e) (be_ProtocolID e) nd1 = (Inr (Some y), nd2)" "ex = Some y"
      using 1 Inl by (auto simp: InsertOrGetBlockchainEvent_def bindM_eq_Inr attemptM_eq split: option.splits)
    obtain ns_evs nd3 where y: "GetBlockchainEventByProtocolID E (be_Namespace e) (be_Listener e) (be_ProtocolID e) nd1 = (Inr (Some y), nd2)"
        "GetEvents_of E ns ET_BlockchainEventReceived (be_ID y) nd2 = (Inr ns_evs, nd3)" "nd_db nd' = nd_db nd3"
        "x = (if ns_evs = [] then Some y else None)"
      using assms ex y0 by (auto simp: insert_or_adopt_def bindM_eq_Inr addBlockchainEventToCache_def)
    then have db: "nd_db nd' = nd_db nd1" by (auto simp: GetBlockchainEventByProtocolID_def GetEvents_of_def db_read_Inr)
    have "find (\<lambda>r. be_key r = be_key e) (db_bcevents (nd_db nd1)) = Some y"
      using y(1) by (simp add: GetBlockchainEventByProtocolID_def db_read_Inr be_key_def)
    then have yr: "y \<in> set (db_bcevents (nd_db nd1))" "be_key y = be_key e" using find_Some_in by fast+
    have "ns_evs = filter (\<lambda>ev. ev_Namespace ev = ns \<and> ev_Type ev = ET_BlockchainEventReceived \<and> ev_Reference ev = Some (be_ID y)) (db_events (nd_db nd1))"
      using y(1,2) by (auto simp: GetBlockchainEventByProtocolID_def GetEvents_of_def db_read_Inr)
    then have "be_accounted ns (case x of None \<Rightarrow> [] | Some y \<Rightarrow> [y]) e nd'"
      unfolding be_accounted_def list_ex_iff using y(4) yr db by (auto simp: filter_empty_conv intro!: bexI [of _ y])
    then show ?thesis using a db by (auto simp: bc_grows_def)
  qed
qed

lemma adopt_all:
  "mapM (insert_or_adopt E ns) es nd = (Inr xs, nd') \<Longrightarrow>
     bc_grows nd nd' \<and> (\<forall>e \<in> set es. be_accounted ns [y. Some y \<leftarrow> xs] e nd')"
proof (induction es arbitrary: nd xs)
  case (Cons e es)
  obtain x nd1 xs1 where s: "insert_or_adopt E ns e nd = (Inr x, nd1)" "mapM (insert_or_adopt E ns) es nd1 = (Inr xs1, nd')" "xs = x # xs1"
    using Cons.prems by (auto simp: bindM_eq_Inr)
  note a = insert_or_adopt_ok [OF s(1)] and b = Cons.IH [OF s(2)]
  have "be_accounted ns [y. Some y \<leftarrow> xs] e nd'"
    by (rule be_accounted_mono [OF conjunct2 [OF a] conjunct1 [OF b]]) (auto simp: s(3) split: option.splits)
  moreover have "be_accounted ns [y. Some y \<leftarrow> xs] e' nd'" if "e' \<in> set es" for e'
    by (rule be_accounted_mono [OF bspec [OF conjunct2 [OF b] that] bc_grows_refl]) (auto simp: s(3))
  ultimately show ?case using a b bc_grows_trans by auto
qed simp

lemma forM_cache_be_db: "forM es (addBlockchainEventToCache E) nd = (r, nd') \<Longrightarrow> nd_db nd' = nd_db nd"
  by (induction es arbitrary: nd) (auto simp: bindM_def retM_def addBlockchainEventToCache_def modifyM_def)

text \<open>C38: No event of a blockchain is forgotten and none is stored twice: when \<open>InsertNewBlockchainEvents\<close> returns, there is for
  every event it was given a row with its namespace, listener and protocol identifier, and that row is one of the
  events it reports as new, or an event of the node has already been emitted for it; whether the
  connector delivers the events for the first time or again, and whatever part of an
  earlier attempt was stored. The rows keep distinct keys.\<close>

theorem new_blockchain_events_accounted:
  assumes "InsertNewBlockchainEvents E multi ns es nd = (Inr out, nd')" "distinct (map be_key (db_bcevents (nd_db nd)))"
  shows "(\<forall>e \<in> set es. be_accounted ns out e nd') \<and> distinct (map be_key (db_bcevents (nd_db nd')))"
proof
  obtain r nd1 where 1: "InsertBlockchainEvents E multi es nd = (r, nd1)" by fastforce
  show "\<forall>e \<in> set es. be_accounted ns out e nd'"
  proof (cases r)
    case (Inr u)
    then have "set es \<subseteq> set (db_bcevents (nd_db nd1))" using InsertBlockchainEvents_ok [OF 1] by simp
    moreover have "out = es" "nd_db nd' = nd_db nd1"
      using assms(1) 1 Inr by (auto simp: InsertNewBlockchainEvents_def bindM_eq_Inr attemptM_eq dest: forM_cache_be_db)
    ultimately show ?thesis by (auto simp: be_accounted_def list_ex_iff)
  next
    case (Inl err)
    then obtain xs where "mapM (insert_or_adopt E ns) es nd1 = (Inr xs, nd')" "out = [e. Some e \<leftarrow> xs]"
      using assms(1) 1 by (auto simp: InsertNewBlockchainEvents_def bindM_eq_Inr attemptM_eq)
    then show ?thesis using adopt_all by blast
  qed
  let ?I = "\<lambda>nd. distinct (map be_key (db_bcevents (nd_db nd)))"
  have ins: "distinct (map be_key (db_bcevents db)) \<Longrightarrow> \<not> be_conflict e db \<Longrightarrow> distinct (map be_key (db_bcevents (insert_be_row e db)))" for e db
    by (auto simp: be_conflict_def insert_be_row_def list_ex_iff)
  have rows: "insert_be_rows xs db = (ok, db') \<Longrightarrow> distinct (map be_key (db_bcevents db)) \<Longrightarrow> distinct (map be_key (db_bcevents db'))" for xs ok db db'
  proof (induction xs arbitrary: ok db)
    case (Cons e xs)
    then show ?case using ins by (cases "be_conflict e db"; cases "insert_be_rows xs db") auto
  qed simp
  have 1: "stable ?I (attemptBlockchainEventInsert E e)" for e
    unfolding attemptBlockchainEventInsert_def by (rule stable_db_op) (auto intro: ins split: if_splits)
  have 2: "stable ?I (addBlockchainEventToCache E e)" for e
    unfolding addBlockchainEventToCache_def by (rule stable_modify) simp
  have "stable ?I (InsertNewBlockchainEvents E multi ns es)"
    unfolding InsertNewBlockchainEvents_def InsertBlockchainEvents_def insert_or_adopt_def InsertOrGetBlockchainEvent_def
      GetBlockchainEventByProtocolID_def GetEvents_of_def
    by (intro stable_intros 1 2 stable_db_op) (auto dest: rows)
  from stableD [OF this assms(1) assms(2)] show "distinct (map be_key (db_bcevents (nd_db nd')))" .
qed

section \<open>A concrete delivery\<close>

definition be_row0 :: blockchain_event where
  "be_row0 = \<lparr> be_ID = 7, be_Source = ''eth'', be_Namespace = ''ns1'', be_Name = ''Changed'', be_Listener = Some 3, be_ProtocolID = ''p1'',
     be_Output = '''', be_Info = '''', be_Timestamp = None, be_TX = \<lparr> btr_Type = TT_None, btr_ID = None, btr_BlockchainID = '''' \<rparr> \<rparr>"

text \<open>The first event was stored and notified before, the second stored but not notified, the third is new.\<close>

definition node_be0 :: node where
  "node_be0 = node_tx0 \<lparr> nd_db := db_tx0 \<lparr> db_bcevents := [be_row0, be_row0 \<lparr> be_ID := 8, be_ProtocolID := ''p2'' \<rparr>],
     db_events := [NewEvent 1 0 ET_BlockchainEventReceived ''ns1'' (Some 7) None ''t''] \<rparr> \<rparr>"

lemma new_blockchain_events_accounted_witness:
  "let es = [be_row0 \<lparr> be_ID := 17 \<rparr>, be_row0 \<lparr> be_ID := 18, be_ProtocolID := ''p2'' \<rparr>, be_row0 \<lparr> be_ID := 19, be_ProtocolID := ''p3'' \<rparr>];
       r = InsertNewBlockchainEvents env0 True ''ns1'' es node_be0
   in map be_ID (projr (fst r)) = [8, 19] \<and> (\<forall>e \<in> set es. be_accounted ''ns1'' (projr (fst r)) e (snd r))"
proof -
  let ?es = "[be_row0 \<lparr> be_ID := 17 \<rparr>, be_row0 \<lparr> be_ID := 18, be_ProtocolID := ''p2'' \<rparr>, be_row0 \<lparr> be_ID := 19, be_ProtocolID := ''p3'' \<rparr>]"
  let ?r = "InsertNewBlockchainEvents env0 True ''ns1'' ?es node_be0"
  have 1: "map be_ID (projr (fst ?r)) = [8, 19] \<and> \<not> isl (fst ?r)" by code_simp
  then have r: "?r = (Inr (projr (fst ?r)), snd ?r)" by (cases ?r) auto
  have "distinct (map be_key (db_bcevents (nd_db node_be0)))" by code_simp
  then show ?thesis using new_blockchain_events_accounted [OF r] 1 unfolding Let_def by blast
qed

end
