(* ===== verification/Subscriptions.thy ===== *)
theory Subscriptions
  imports Blockchain_Events Data_Manager
begin

text \<open>
  internal/events: the enrichment of events (event_enrich.go) and the subscription manager (subscription_manager.go) with the
  structures of pkg/core/subscription.go: parsing of filters, matching, connections and the dispatchers on them. A
  compiled regular expression is the predicate on strings that the (standard) regexp package makes of it.
\<close>

section \<open>Enriched events\<close>

record enriched_event =
  en_Event :: event
  en_Transaction :: "transaction option"
  en_Message :: "message option"
  en_BlockchainEvent :: "blockchain_event option"
  en_ContractAPI :: "resource option"
  en_ContractInterface :: "resource option"
  en_Datatype :: "datatype_def option"
  en_Identity :: "identity option"
  en_TokenPool :: "resource option"
  en_TokenApproval :: "token_evidence option"
  en_TokenTransfer :: "token_evidence option"
  en_Operation :: "operation option"

definition plain_event :: "event \<Rightarrow> enriched_event" where
  "plain_event ev = \<lparr> en_Event = ev, en_Transaction = None, en_Message = None, en_BlockchainEvent = None, en_ContractAPI = None,
     en_ContractInterface = None, en_Datatype = None, en_Identity = None, en_TokenPool = None, en_TokenApproval = None,
     en_TokenTransfer = None, en_Operation = None \<rparr>"

text \<open>The lookups by identifier; a nil identifier is looked up too, and not found.\<close>

definition find_resource :: "string \<Rightarrow> uuid option \<Rightarrow> resource list \<Rightarrow> resource option" where
  "find_resource ns i rows = find (\<lambda>r. rs_ID r = i \<and> i \<noteq> None \<and> rs_Namespace r = ns) rows"

definition GetContractAPIByID :: "env \<Rightarrow> string \<Rightarrow> uuid option \<Rightarrow> resource option nact" where
  "GetContractAPIByID E ns i = db_read E (\<lambda>db. find_resource ns i (db_apis db))"

definition GetFFIByID :: "env \<Rightarrow> string \<Rightarrow> uuid option \<Rightarrow> resource option nact" where
  "GetFFIByID E ns i = db_read E (\<lambda>db. find_resource ns i (db_ffis db))"

definition GetTokenPoolByID :: "env \<Rightarrow> string \<Rightarrow> uuid option \<Rightarrow> resource option nact" where
  "GetTokenPoolByID E ns i = db_read E (\<lambda>db. find_resource ns i (db_pools db))"

definition GetDatatypeByID :: "env \<Rightarrow> string \<Rightarrow> uuid option \<Rightarrow> datatype_def option nact" where
  "GetDatatypeByID E ns i = db_read E (\<lambda>db. find (\<lambda>t. dty_ID t = i \<and> i \<noteq> None \<and> dty_Namespace t = ns) (db_datatypes db))"

definition GetTokenApprovalByID :: "env \<Rightarrow> string \<Rightarrow> uuid option \<Rightarrow> token_evidence option nact" where
  "GetTokenApprovalByID E ns i = db_read E (\<lambda>db. find (\<lambda>t. te_LocalID t = i \<and> i \<noteq> None \<and> te_Namespace t = ns) (db_approvals db))"

definition GetTokenTransferByID :: "env \<Rightarrow> string \<Rightarrow> uuid option \<Rightarrow> token_evidence option nact" where
  "GetTokenTransferByID E ns i = db_read E (\<lambda>db. find (\<lambda>t. te_LocalID t = i \<and> i \<noteq> None \<and> te_Namespace t = ns) (db_transfers db))"

definition with_reference :: "env \<Rightarrow> uuid option \<Rightarrow> (uuid \<Rightarrow> 'a option nact) \<Rightarrow> 'a option nact" where
  "with_reference E i get = (case i of None \<Rightarrow> bindM (db_read E (\<lambda>_. ())) (\<lambda>_. retM None) | Some i \<Rightarrow> get i)"

definition enrich_transaction :: "env \<Rightarrow> string \<Rightarrow> uuid \<Rightarrow> transaction option nact" where
  "enrich_transaction E ns i = bindM (GetTransactionByIDCached E ns i) (\<lambda>p.
     case p of None \<Rightarrow> retM None | Some p \<Rightarrow> bindM (tx_deref p) (\<lambda>tx. retM (Some tx)))"

definition enrich_operation :: "env \<Rightarrow> string \<Rightarrow> uuid \<Rightarrow> operation option nact" where
  "enrich_operation E ns i = bindM (GetOperationByIDCached E ns i) (\<lambda>p.
     case p of None \<Rightarrow> retM None | Some p \<Rightarrow> bindM (op_deref p) (\<lambda>op. retM (Some op)))"

definition enrichEvent :: "env \<Rightarrow> string \<Rightarrow> event \<Rightarrow> enriched_event nact" where
  "enrichEvent E ns ev =
     (let e = plain_event ev; ref = ev_Reference ev in
      case ev_Type ev of
        ET_TransactionSubmitted \<Rightarrow> bindM (with_reference E ref (enrich_transaction E ns)) (\<lambda>tx. retM (e \<lparr> en_Transaction := tx \<rparr>))
      | ET_MessageConfirmed \<Rightarrow> bindM (GetMessageWithDataCached E ns ref []) (\<lambda>(msg, _, _). retM (e \<lparr> en_Message := msg \<rparr>))
      | ET_MessageRejected \<Rightarrow> bindM (GetMessageWithDataCached E ns ref []) (\<lambda>(msg, _, _). retM (e \<lparr> en_Message := msg \<rparr>))
      | ET_BlockchainEventReceived \<Rightarrow>
          bindM (with_reference E ref (GetBlockchainEventByIDCached E ns)) (\<lambda>be. retM (e \<lparr> en_BlockchainEvent := be \<rparr>))
      | ET_ContractAPIConfirmed \<Rightarrow> bindM (GetContractAPIByID E ns ref) (\<lambda>r. retM (e \<lparr> en_ContractAPI := r \<rparr>))
      | ET_ContractInterfaceConfirmed \<Rightarrow> bindM (GetFFIByID E ns ref) (\<lambda>r. retM (e \<lparr> en_ContractInterface := r \<rparr>))
      | ET_DatatypeConfirmed \<Rightarrow> bindM (GetDatatypeByID E ns ref) (\<lambda>r. retM (e \<lparr> en_Datatype := r \<rparr>))
      | ET_IdentityConfirmed \<Rightarrow> bindM (GetIdentityByID E ns ref) (\<lambda>r. retM (e \<lparr> en_Identity := r \<rparr>))
      | ET_IdentityUpdated \<Rightarrow> bindM (GetIdentityByID E ns ref) (\<lambda>r. retM (e \<lparr> en_Identity := r \<rparr>))
      | ET_PoolConfirmed \<Rightarrow> bindM (GetTokenPoolByID E ns ref) (\<lambda>r. retM (e \<lparr> en_TokenPool := r \<rparr>))
      | ET_ApprovalConfirmed \<Rightarrow> bindM (GetTokenApprovalByID E ns ref) (\<lambda>r. retM (e \<lparr> en_TokenApproval := r \<rparr>))
      | ET_TransferConfirmed \<Rightarrow> bindM (GetTokenTransferByID E ns ref) (\<lambda>r. retM (e \<lparr> en_TokenTransfer := r \<rparr>))
      | _ \<Rightarrow> bindM (with_reference E ref (enrich_operation E ns)) (\<lambda>op. retM (e \<lparr> en_Operation := op \<rparr>)))"

definition enrichEvents :: "env \<Rightarrow> string \<Rightarrow> event list \<Rightarrow> enriched_event list nact" where
  "enrichEvents E ns evs = mapM (enrichEvent E ns) evs"

section \<open>Subscriptions\<close>

record subscription_filter =
  sf_Events :: string
  sf_MessageTag :: string
  sf_MessageGroup :: string
  sf_MessageAuthor :: string
  sf_TransactionType :: string
  sf_BlockchainEventName :: string
  sf_BlockchainEventListener :: string
  sf_Topic :: string
  sf_DeprecatedTopics :: string
  sf_DeprecatedTag :: string
  sf_DeprecatedGroup :: string
  sf_DeprecatedAuthor :: string

record subscription_options =
  so_FirstEvent :: "string option"
  so_ReadAhead :: "16 word option"
  so_WithData :: "bool option"
  so_Batch :: "bool option"
  so_BatchTimeout :: "string option"
  so_TLSConfigName :: string
  so_TLSConfig :: "string option"

record subscription_ref =
  sr_ID :: uuid
  sr_Namespace :: string
  sr_Name :: string

record subscription_def =
  sd_Ref :: subscription_ref
  sd_Transport :: string
  sd_Filter :: subscription_filter
  sd_Options :: subscription_options
  sd_Ephemeral :: bool
  sd_Created :: "fftime option"
  sd_Updated :: "fftime option"

type_synonym matcher = "string \<Rightarrow> bool"

record subscription =
  sb_definition :: subscription_def
  sb_eventMatcher :: "matcher option"
  sb_tagFilter :: "matcher option"
  sb_groupFilter :: "matcher option"
  sb_authorFilter :: "matcher option"
  sb_blockchainFilter :: "(matcher option \<times> matcher option) option"
  sb_transactionFilter :: "matcher option option"
  sb_topicFilter :: "matcher option"

text \<open>An event transport plugin; \<open>ValidateOptions\<close> gets a pointer and may set defaults.\<close>

record event_transport =
  et_Name :: string
  et_ValidateOptions :: "subscription_options \<Rightarrow> fferr + subscription_options"

record subscription_conf =
  sc_namespace :: string
  sc_transports :: "(string \<times> event_transport) list"
  sc_TLSConfigs :: "(string \<times> string) list"
  sc_maxSubs :: nat
  sc_defaultBatchSize :: "16 word"
  sc_defaultBatchTimeout :: string

definition bindE :: "fferr + 'a \<Rightarrow> ('a \<Rightarrow> fferr + 'b) \<Rightarrow> fferr + 'b" where
  "bindE r f = (case r of Inl e \<Rightarrow> Inl e | Inr x \<Rightarrow> f x)"

definition getTransport :: "subscription_conf \<Rightarrow> string \<Rightarrow> fferr + event_transport" where
  "getTransport sc nm = (case map_of (sc_transports sc) nm of None \<Rightarrow> Inl (I18n ''MsgUnknownEventTransportPlugin'') | Some t \<Rightarrow> Inr t)"

definition compile_regex :: "env \<Rightarrow> string \<Rightarrow> fferr + matcher option" where
  "compile_regex E s = (if s = '''' then Inr None
     else case e_regex E s of None \<Rightarrow> Inl (I18n ''MsgRegexpCompileFailed'') | Some m \<Rightarrow> Inr (Some m))"

text \<open>A filter with a deprecated spelling: both are compiled, the new one wins.\<close>

definition compile_either :: "env \<Rightarrow> string \<Rightarrow> string \<Rightarrow> fferr + matcher option" where
  "compile_either E deprecated new =
     bindE (compile_regex E deprecated) (\<lambda>old. bindE (compile_regex E new) (\<lambda>m. Inr (if m = None then old else m)))"

definition tls_options :: "subscription_conf \<Rightarrow> subscription_options \<Rightarrow> subscription_options" where
  "tls_options sc so = (if so_TLSConfigName so = '''' then so
     else case map_of (sc_TLSConfigs sc) (so_TLSConfigName so) of None \<Rightarrow> so | Some c \<Rightarrow> so \<lparr> so_TLSConfig := Some c \<rparr>)"

definition batch_options :: "subscription_conf \<Rightarrow> subscription_options \<Rightarrow> subscription_options" where
  "batch_options sc so =
     (if so_Batch so \<noteq> Some True then so
      else so \<lparr> so_ReadAhead := (if so_ReadAhead so = None \<or> so_ReadAhead so = Some 0 then Some (sc_defaultBatchSize sc) else so_ReadAhead so),
                so_BatchTimeout := (if so_BatchTimeout so = None \<or> so_BatchTimeout so = Some '''' then Some (sc_defaultBatchTimeout sc)
                                    else so_BatchTimeout so) \<rparr>)"

definition parseSubscriptionDef :: "env \<Rightarrow> subscription_conf \<Rightarrow> subscription_def \<Rightarrow> fferr + subscription" where
  "parseSubscriptionDef E sc subDef =
     (let filter = sd_Filter subDef in
      bindE (getTransport sc (sd_Transport subDef)) (\<lambda>transport.
      bindE (et_ValidateOptions transport (batch_options sc (tls_options sc (sd_Options subDef)))) (\<lambda>opts.
      bindE (compile_regex E (sf_Events filter)) (\<lambda>eventFilter.
      bindE (compile_either E (sf_DeprecatedTag filter) (sf_MessageTag filter)) (\<lambda>tagFilter.
      bindE (compile_either E (sf_DeprecatedGroup filter) (sf_MessageGroup filter)) (\<lambda>groupFilter.
      bindE (compile_either E (sf_DeprecatedTopics filter) (sf_Topic filter)) (\<lambda>topicFilter.
      bindE (compile_either E (sf_DeprecatedAuthor filter) (sf_MessageAuthor filter)) (\<lambda>authorFilter.
      bindE (if sf_BlockchainEventName filter = '''' \<and> sf_BlockchainEventListener filter = '''' then Inr None
             else bindE (compile_regex E (sf_BlockchainEventName filter)) (\<lambda>nameFilter.
                  bindE (compile_regex E (sf_BlockchainEventListener filter)) (\<lambda>listenerFilter.
                  Inr (Some (nameFilter, listenerFilter))))) (\<lambda>blockchainFilter.
      bindE (if sf_TransactionType filter = '''' then Inr None
             else bindE (compile_regex E (sf_TransactionType filter)) (\<lambda>t. Inr (Some t))) (\<lambda>transactionFilter.
      Inr \<lparr> sb_definition = subDef \<lparr> sd_Options := opts \<rparr>, sb_eventMatcher = eventFilter, sb_tagFilter = tagFilter,
            sb_groupFilter = groupFilter, sb_authorFilter = authorFilter, sb_blockchainFilter = blockchainFilter,
            sb_transactionFilter = transactionFilter, sb_topicFilter = topicFilter \<rparr>))))))))))"

definition passes :: "matcher option \<Rightarrow> string \<Rightarrow> bool" where
  "passes m s = (case m of None \<Rightarrow> True | Some f \<Rightarrow> f s)"

definition MatchesEvent :: "env \<Rightarrow> subscription \<Rightarrow> enriched_event \<Rightarrow> bool" where
  "MatchesEvent E sub e =
     (let msg = en_Message e;
          tag = (case msg of None \<Rightarrow> '''' | Some m \<Rightarrow> mh_Tag (m_Header m));
          author = (case msg of None \<Rightarrow> '''' | Some m \<Rightarrow> sr_Author (mh_Signer (m_Header m)));
          group = (case msg of None \<Rightarrow> '''' | Some m \<Rightarrow> (case mh_Group (m_Header m) of None \<Rightarrow> '''' | Some g \<Rightarrow> e_hex E g));
          txType = (case en_Transaction e of None \<Rightarrow> '''' | Some tx \<Rightarrow> txtype_str (t_Type tx));
          beName = (case en_BlockchainEvent e of None \<Rightarrow> '''' | Some be \<Rightarrow> be_Name be);
          beListener = (case en_BlockchainEvent e of None \<Rightarrow> ''''
                        | Some be \<Rightarrow> (case be_Listener be of None \<Rightarrow> '''' | Some l \<Rightarrow> e_uuid_str E l))
      in passes (sb_eventMatcher sub) (eventtype_str (ev_Type (en_Event e))) \<and>
         passes (sb_topicFilter sub) (ev_Topic (en_Event e)) \<and>
         passes (sb_tagFilter sub) tag \<and> passes (sb_authorFilter sub) author \<and> passes (sb_groupFilter sub) group \<and>
         (case sb_transactionFilter sub of None \<Rightarrow> True | Some f \<Rightarrow> passes f txType) \<and>
         (case sb_blockchainFilter sub of None \<Rightarrow> True | Some (n, l) \<Rightarrow> passes n beName \<and> passes l beListener))"

section \<open>The manager\<close>

text \<open>A dispatcher on a connection: its number in the order they were started, and its subscription.\<close>

record dispatcher_ref =
  dp_no :: nat
  dp_sub :: subscription

record connection =
  cn_transport :: string
  cn_matcher :: "(subscription_ref \<Rightarrow> bool) option"
  cn_dispatchers :: "(uuid \<times> dispatcher_ref) list"

record sub_manager =
  sm_connections :: "(string \<times> connection) list"
  sm_durableSubs :: "(uuid \<times> subscription) list"
  sm_started :: nat
  sm_closed :: "nat list"

definition sub_id :: "subscription \<Rightarrow> uuid" where
  "sub_id s = sr_ID (sd_Ref (sb_definition s))"

definition assoc_del :: "'k \<Rightarrow> ('k \<times> 'v) list \<Rightarrow> ('k \<times> 'v) list" where
  "assoc_del k kvs = filter (\<lambda>kv. fst kv \<noteq> k) kvs"

lemma assoc_put_member: "(i, x) \<in> set (assoc_put k v kvs) \<Longrightarrow> (i, x) = (k, v) \<or> (i, x) \<in> set kvs"
  by (induction kvs) (auto split: if_splits)

lemma set_assoc_del [simp]: "(i, x) \<in> set (assoc_del k kvs) \<longleftrightarrow> (i, x) \<in> set kvs \<and> i \<noteq> k"
  by (auto simp: assoc_del_def)

text \<open>The connection that is passed on and the number of dispatchers started so far.\<close>

definition matchSubToConnLocked :: "subscription \<Rightarrow> connection \<times> nat \<Rightarrow> connection \<times> nat" where
  "matchSubToConnLocked sub cn = (case cn of (conn, n) \<Rightarrow>
     (case cn_matcher conn of
        None \<Rightarrow> (conn, n)
      | Some m \<Rightarrow>
          if cn_transport conn = sd_Transport (sb_definition sub) \<and> m (sd_Ref (sb_definition sub)) \<and>
             map_of (cn_dispatchers conn) (sub_id sub) = None
          then (conn \<lparr> cn_dispatchers := assoc_put (sub_id sub) \<lparr> dp_no = n, dp_sub = sub \<rparr> (cn_dispatchers conn) \<rparr>, Suc n)
          else (conn, n)))"

fun match_conns :: "subscription \<Rightarrow> (string \<times> connection) list \<Rightarrow> nat \<Rightarrow> (string \<times> connection) list \<times> nat" where
  "match_conns sub [] n = ([], n)"
| "match_conns sub ((k, c) # cs) n =
     (case matchSubToConnLocked sub (c, n) of (c', n1) \<Rightarrow>
      case match_conns sub cs n1 of (cs', n2) \<Rightarrow> ((k, c') # cs', n2))"

definition add_durable :: "subscription \<Rightarrow> sub_manager \<Rightarrow> sub_manager" where
  "add_durable sub sm = (case match_conns sub (sm_connections sm) (sm_started sm) of (cs, n) \<Rightarrow>
     sm \<lparr> sm_durableSubs := assoc_put (sub_id sub) sub (sm_durableSubs sm), sm_connections := cs, sm_started := n \<rparr>)"

text \<open>Closing a durable subscription takes its dispatchers off every connection.\<close>

definition closeDurableSubscriptionLocked :: "uuid \<Rightarrow> sub_manager \<Rightarrow> bool \<times> nat list \<times> sub_manager" where
  "closeDurableSubscriptionLocked i sm =
     (if map_of (sm_durableSubs sm) i = None then (False, [], sm)
      else (True, [dp_no d. (_, c) \<leftarrow> sm_connections sm, (i', d) \<leftarrow> cn_dispatchers c, i' = i],
            sm \<lparr> sm_durableSubs := assoc_del i (sm_durableSubs sm),
                 sm_connections := map (\<lambda>(k, c). (k, c \<lparr> cn_dispatchers := assoc_del i (cn_dispatchers c) \<rparr>)) (sm_connections sm) \<rparr>))"

definition close_dispatchers :: "nat list \<Rightarrow> sub_manager \<Rightarrow> sub_manager" where
  "close_dispatchers ns sm = sm \<lparr> sm_closed := sm_closed sm @ ns \<rparr>"

definition start_subs :: "env \<Rightarrow> subscription_conf \<Rightarrow> subscription_def list \<Rightarrow> sub_manager \<Rightarrow> sub_manager" where
  "start_subs E sc defs sm = fold (\<lambda>d sm. case parseSubscriptionDef E sc d of Inl _ \<Rightarrow> sm | Inr sub \<Rightarrow> add_durable sub sm)
     (take (sc_maxSubs sc) defs) sm"

definition getCreateConnLocked :: "string \<Rightarrow> string \<Rightarrow> sub_manager \<Rightarrow> connection \<times> sub_manager" where
  "getCreateConnLocked ei connID sm =
     (case map_of (sm_connections sm) connID of
        Some c \<Rightarrow> (c, sm)
      | None \<Rightarrow> let c = \<lparr> cn_transport = ei, cn_matcher = None, cn_dispatchers = [] \<rparr>
                in (c, sm \<lparr> sm_connections := assoc_put connID c (sm_connections sm) \<rparr>))"

definition stays :: "(subscription_ref \<Rightarrow> bool) \<Rightarrow> dispatcher_ref \<Rightarrow> bool" where
  "stays m d \<longleftrightarrow> sd_Ephemeral (sb_definition (dp_sub d)) \<or> m (sd_Ref (sb_definition (dp_sub d)))"

definition registerConnection :: "string \<Rightarrow> string \<Rightarrow> (subscription_ref \<Rightarrow> bool) \<Rightarrow> sub_manager \<Rightarrow> fferr option \<times> sub_manager" where
  "registerConnection ei connID m sm = (case getCreateConnLocked ei connID sm of (conn, sm) \<Rightarrow>
     if cn_transport conn \<noteq> ei then (Some (I18n ''MsgMismatchedTransport''), sm)
     else
       let gone = [dp_no d. (_, d) \<leftarrow> cn_dispatchers conn, \<not> stays m d];
           conn = conn \<lparr> cn_matcher := Some m, cn_dispatchers := filter (\<lambda>(_, d). stays m d) (cn_dispatchers conn) \<rparr>
       in case fold (\<lambda>(_, sub). matchSubToConnLocked sub) (sm_durableSubs sm) (conn, sm_started sm) of (conn, n) \<Rightarrow>
          (None, close_dispatchers gone (sm \<lparr> sm_connections := assoc_put connID conn (sm_connections sm), sm_started := n \<rparr>)))"

definition ephemeralSubscription :: "env \<Rightarrow> subscription_conf \<Rightarrow> string \<Rightarrow> string \<Rightarrow> string \<Rightarrow> subscription_filter \<Rightarrow> subscription_options
    \<Rightarrow> uuid \<Rightarrow> fftime \<Rightarrow> sub_manager \<Rightarrow> fferr option \<times> sub_manager" where
  "ephemeralSubscription E sc ei connID ns flt options subID now sm = (case getCreateConnLocked ei connID sm of (conn, sm) \<Rightarrow>
     if cn_transport conn \<noteq> ei then (Some (I18n ''MsgMismatchedTransport''), sm)
     else
       case parseSubscriptionDef E sc \<lparr> sd_Ref = \<lparr> sr_ID = subID, sr_Namespace = ns, sr_Name = e_uuid_str E subID \<rparr>,
              sd_Transport = ei, sd_Filter = flt, sd_Options = options, sd_Ephemeral = True, sd_Created = Some now, sd_Updated = None \<rparr> of
         Inl err \<Rightarrow> (Some err, sm)
       | Inr sub \<Rightarrow>
           let conn = conn \<lparr> cn_dispatchers := assoc_put subID \<lparr> dp_no = sm_started sm, dp_sub = sub \<rparr> (cn_dispatchers conn) \<rparr>
           in (None, sm \<lparr> sm_connections := assoc_put connID conn (sm_connections sm), sm_started := Suc (sm_started sm) \<rparr>))"

definition connectionClosed :: "string \<Rightarrow> string \<Rightarrow> sub_manager \<Rightarrow> sub_manager" where
  "connectionClosed ei connID sm =
     (case map_of (sm_connections sm) connID of
        None \<Rightarrow> sm
      | Some conn \<Rightarrow>
          if cn_transport conn \<noteq> ei then sm
          else close_dispatchers (map (dp_no \<circ> snd) (cn_dispatchers conn)) (sm \<lparr> sm_connections := assoc_del connID (sm_connections sm) \<rparr>))"

text \<open>The dispatcher a response of a transport goes to.\<close>

definition response_dispatcher :: "string \<Rightarrow> string \<Rightarrow> uuid option \<Rightarrow> sub_manager \<Rightarrow> dispatcher_ref option" where
  "response_dispatcher ei connID subID sm =
     (case map_of (sm_connections sm) connID of
        None \<Rightarrow> None
      | Some conn \<Rightarrow> if cn_transport conn \<noteq> ei then None
          else case subID of None \<Rightarrow> None | Some i \<Rightarrow> map_of (cn_dispatchers conn) i)"

section \<open>The threads of the manager\<close>

text \<open>
  Every notification of a new or updated subscription is handled by a thread of its own: it reads the subscription, then takes
  the lock; when it has to close an older definition it gives up the lock in between.
\<close>

datatype update_thread = UpHave subscription | UpAdd subscription

record sub_world =
  sw_db :: "subscription_def list"
  sw_offsets :: "uuid list"
  sw_sm :: sub_manager
  sw_updates :: "update_thread list"
  sw_deletes :: "uuid list"

datatype sub_event =
    SmStart
  | SmRegister string string "subscription_ref \<Rightarrow> bool"
  | SmEphemeral string string string subscription_filter subscription_options uuid fftime
  | SmConnectionClosed string string
  | SmUpdateRead uuid
  | SmUpdateLock nat
  | SmDelete uuid
  | SmDeleteOffset
  | SmDbUpsert subscription_def
  | SmDbDelete uuid

definition drop_nth :: "nat \<Rightarrow> 'a list \<Rightarrow> 'a list" where
  "drop_nth k xs = take k xs @ drop (Suc k) xs"

definition newOrUpdated_locked :: "update_thread \<Rightarrow> sub_manager \<Rightarrow> update_thread option \<times> sub_manager" where
  "newOrUpdated_locked th sm =
     (case th of
        UpHave newSub \<Rightarrow>
          (case map_of (sm_durableSubs sm) (sub_id newSub) of
             Some existingSub \<Rightarrow>
               if sd_Updated (sb_definition existingSub) = sd_Updated (sb_definition newSub) then (None, sm)
               else (case closeDurableSubscriptionLocked (sub_id newSub) sm of (loaded, ds, sm) \<Rightarrow>
                       (Some (UpAdd newSub), close_dispatchers ds sm))
           | None \<Rightarrow> (None, add_durable newSub sm))
      | UpAdd newSub \<Rightarrow> (None, add_durable newSub sm))"

definition sub_step :: "env \<Rightarrow> subscription_conf \<Rightarrow> sub_event \<Rightarrow> sub_world \<Rightarrow> sub_world" where
  "sub_step E sc ev w =
     (case ev of
        SmStart \<Rightarrow> w \<lparr> sw_sm := start_subs E sc (sw_db w) (sw_sm w) \<rparr>
      | SmRegister ei connID m \<Rightarrow> w \<lparr> sw_sm := snd (registerConnection ei connID m (sw_sm w)) \<rparr>
      | SmEphemeral ei connID ns f opts i now \<Rightarrow> w \<lparr> sw_sm := snd (ephemeralSubscription E sc ei connID ns f opts i now (sw_sm w)) \<rparr>
      | SmConnectionClosed ei connID \<Rightarrow> w \<lparr> sw_sm := connectionClosed ei connID (sw_sm w) \<rparr>
      | SmUpdateRead i \<Rightarrow>
          (case find (\<lambda>d. sr_ID (sd_Ref d) = i) (sw_db w) of
             None \<Rightarrow> w
           | Some d \<Rightarrow> (case parseSubscriptionDef E sc d of
               Inl _ \<Rightarrow> w | Inr sub \<Rightarrow> w \<lparr> sw_updates := sw_updates w @ [UpHave sub] \<rparr>))
      | SmUpdateLock k \<Rightarrow>
          if k < length (sw_updates w)
          then (case newOrUpdated_locked (sw_updates w ! k) (sw_sm w) of (next, sm) \<Rightarrow>
            w \<lparr> sw_sm := sm, sw_updates := (case next of None \<Rightarrow> drop_nth k (sw_updates w) | Some th \<Rightarrow> (sw_updates w)[k := th]) \<rparr>)
          else w
      | SmDelete i \<Rightarrow>
          (case closeDurableSubscriptionLocked i (sw_sm w) of (loaded, ds, sm) \<Rightarrow>
            w \<lparr> sw_sm := close_dispatchers ds sm, sw_deletes := sw_deletes w @ [i] \<rparr>)
      | SmDeleteOffset \<Rightarrow>
          (case sw_deletes w of [] \<Rightarrow> w
           | i # is \<Rightarrow> w \<lparr> sw_offsets := filter (\<lambda>j. j \<noteq> i) (sw_offsets w), sw_deletes := is \<rparr>)
      | SmDbUpsert d \<Rightarrow> w \<lparr> sw_db := filter (\<lambda>r. sr_ID (sd_Ref r) \<noteq> sr_ID (sd_Ref d)) (sw_db w) @ [d \<lparr> sd_Ephemeral := False \<rparr>] \<rparr>
      | SmDbDelete i \<Rightarrow> w \<lparr> sw_db := filter (\<lambda>r. sr_ID (sd_Ref r) \<noteq> i) (sw_db w) \<rparr>)"

definition run_subs :: "env \<Rightarrow> subscription_conf \<Rightarrow> sub_event list \<Rightarrow> sub_world \<Rightarrow> sub_world" where
  "run_subs E sc evs w = fold (sub_step E sc) evs w"

definition sub_world0 :: "sub_world" where
  "sub_world0 = \<lparr> sw_db = [], sw_offsets = [], sw_sm = \<lparr> sm_connections = [], sm_durableSubs = [], sm_started = 0, sm_closed = [] \<rparr>,
     sw_updates = [], sw_deletes = [] \<rparr>"

end
