(* ===== verification/Subscriptions_Props.thy ===== *)
theory Subscriptions_Props
  imports Subscriptions
begin

text \<open>
  What holds of the subscription manager in every interleaving of its callbacks and threads: the dispatchers on the
  connections are those of the durable subscriptions the connections ask for; and two schedules in which the durable subscriptions
  are no longer those of the database.
\<close>

section \<open>The invariant\<close>

definition accepts :: "connection \<Rightarrow> subscription \<Rightarrow> bool" where
  "accepts c s \<longleftrightarrow> cn_transport c = sd_Transport (sb_definition s) \<and>
     (case cn_matcher c of None \<Rightarrow> False | Some m \<Rightarrow> m (sd_Ref (sb_definition s)))"

definition ephemeral :: "subscription \<Rightarrow> bool" where
  "ephemeral s \<longleftrightarrow> sd_Ephemeral (sb_definition s)"

definition owned_ok :: "uuid set \<Rightarrow> connection \<Rightarrow> bool" where
  "owned_ok ids c \<longleftrightarrow> (\<forall>i d. (i, d) \<in> set (cn_dispatchers c) \<longrightarrow> \<not> ephemeral (dp_sub d) \<longrightarrow>
     sub_id (dp_sub d) = i \<and> i \<in> ids \<and> accepts c (dp_sub d))"

definition served_ok :: "subscription set \<Rightarrow> connection \<Rightarrow> bool" where
  "served_ok subs c \<longleftrightarrow> (\<forall>s \<in> subs. accepts c s \<longrightarrow> sub_id s \<in> fst ` set (cn_dispatchers c))"

definition durable_ids :: "sub_manager \<Rightarrow> uuid set" where
  "durable_ids sm = fst ` set (sm_durableSubs sm)"

definition durables :: "sub_manager \<Rightarrow> subscription set" where
  "durables sm = snd ` set (sm_durableSubs sm)"

definition sm_inv :: "sub_manager \<Rightarrow> bool" where
  "sm_inv sm \<longleftrightarrow> (\<forall>i s. (i, s) \<in> set (sm_durableSubs sm) \<longrightarrow> sub_id s = i \<and> \<not> ephemeral s) \<and>
     (\<forall>k c. (k, c) \<in> set (sm_connections sm) \<longrightarrow> owned_ok (durable_ids sm) c \<and> served_ok (durables sm) c)"

lemma put_durables: "snd ` set (assoc_put k v kvs) \<subseteq> insert v (snd ` set kvs)"
  using assoc_put_member by fastforce

section \<open>Matching\<close>

lemma match_one:
  assumes "matchSubToConnLocked sub (c, n) = (c', n')"
  shows "cn_transport c' = cn_transport c \<and> cn_matcher c' = cn_matcher c \<and>
    fst ` set (cn_dispatchers c) \<subseteq> fst ` set (cn_dispatchers c') \<and>
    (accepts c sub \<longrightarrow> sub_id sub \<in> fst ` set (cn_dispatchers c')) \<and>
    (\<forall>i d. (i, d) \<in> set (cn_dispatchers c') \<longrightarrow> (i, d) \<in> set (cn_dispatchers c) \<or> i = sub_id sub \<and> dp_sub d = sub \<and> accepts c sub)"
proof (cases "accepts c sub \<and> map_of (cn_dispatchers c) (sub_id sub) = None")
  case True
  then have "c' = c \<lparr> cn_dispatchers := assoc_put (sub_id sub) \<lparr> dp_no = n, dp_sub = sub \<rparr> (cn_dispatchers c) \<rparr>"
    using assms by (auto simp: matchSubToConnLocked_def accepts_def split: option.splits)
  then show ?thesis using True by (auto dest!: assoc_put_member)
next
  case False
  then have "c' = c" using assms by (auto simp: matchSubToConnLocked_def accepts_def split: option.splits if_splits)
  moreover have "sub_id sub \<in> fst ` set (cn_dispatchers c)" if "accepts c sub"
    using False that by (simp add: map_of_eq_None_iff)
  ultimately show ?thesis by blast
qed

lemma match_accepts: "matchSubToConnLocked sub (c, n) = (c', n') \<Longrightarrow> accepts c' s = accepts c s"
  by (drule match_one) (simp add: accepts_def)

lemma match_owned:
  assumes "matchSubToConnLocked sub (c, n) = (c', n')" "owned_ok ids c"
  shows "owned_ok (insert (sub_id sub) ids) c'"
  unfolding owned_ok_def match_accepts [OF assms(1)]
proof (intro allI impI)
  fix i d assume d: "(i, d) \<in> set (cn_dispatchers c')" "\<not> ephemeral (dp_sub d)"
  then have "(i, d) \<in> set (cn_dispatchers c) \<or> i = sub_id sub \<and> dp_sub d = sub \<and> accepts c sub"
    using match_one [OF assms(1)] by blast
  then show "sub_id (dp_sub d) = i \<and> i \<in> insert (sub_id sub) ids \<and> accepts c (dp_sub d)"
    using assms(2) d(2) unfolding owned_ok_def by blast
qed

lemma match_served:
  assumes "matchSubToConnLocked sub (c, n) = (c', n')" "served_ok subs c"
  shows "served_ok (insert sub subs) c'"
  using assms(2) match_one [OF assms(1)] unfolding served_ok_def match_accepts [OF assms(1)] by blast

lemma match_all:
  "match_conns sub cs n = (cs', n') \<Longrightarrow> (\<And>k c. (k, c) \<in> set cs \<Longrightarrow> owned_ok ids c \<and> served_ok subs c) \<Longrightarrow>
     (k', c') \<in> set cs' \<Longrightarrow> owned_ok (insert (sub_id sub) ids) c' \<and> served_ok (insert sub subs) c'"
proof (induction sub cs n arbitrary: cs' n' rule: match_conns.induct)
  case (2 sub k c cs n)
  obtain c1 n1 cs1 where s: "matchSubToConnLocked sub (c, n) = (c1, n1)" "match_conns sub cs n1 = (cs1, n')" "cs' = (k, c1) # cs1"
    using 2(2) by (auto split: prod.splits)
  have c: "owned_ok ids c \<and> served_ok subs c" by (rule "2.prems"(2) [of k c]) simp
  from 2(4) s(3) consider "(k', c') = (k, c1)" | "(k', c') \<in> set cs1" by auto
  then show ?case
  proof cases
    case 1
    then show ?thesis using match_owned [OF s(1)] match_served [OF s(1)] c by simp
  next
    case 2
    show ?thesis by (rule "2.IH" [OF s(1) [symmetric] s(2) _ 2]) (use "2.prems"(2) in auto)
  qed
qed simp

lemma match_fold:
  "fold (\<lambda>(_, sub). matchSubToConnLocked sub) subs (c, n) = (c', n') \<Longrightarrow> owned_ok ids c \<Longrightarrow> served_ok S c \<Longrightarrow>
     (\<And>i s. (i, s) \<in> set subs \<Longrightarrow> sub_id s = i \<and> i \<in> ids) \<Longrightarrow>
     owned_ok ids c' \<and> served_ok (S \<union> snd ` set subs) c' \<and> cn_transport c' = cn_transport c"
proof (induction subs arbitrary: c n S)
  case (Cons p subs)
  obtain i sub where p: "p = (i, sub)" by fastforce
  obtain c1 n1 where m: "matchSubToConnLocked sub (c, n) = (c1, n1)" by fastforce
  have r: "fold (\<lambda>(_, sub). matchSubToConnLocked sub) subs (c1, n1) = (c', n')" using Cons.prems(1) m by (simp add: p)
  have "insert (sub_id sub) ids = ids" using Cons.prems(4) [of i sub] p by auto
  then have "owned_ok ids c1" using match_owned [OF m Cons.prems(2)] by simp
  moreover have "served_ok (insert sub S) c1" by (rule match_served [OF m Cons.prems(3)])
  ultimately have "owned_ok ids c' \<and> served_ok (insert sub S \<union> snd ` set subs) c' \<and> cn_transport c' = cn_transport c1"
    by (intro Cons.IH [OF r]) (use Cons.prems(4) in auto)
  then show ?case using match_one [OF m] by (simp add: p insert_commute)
qed auto

section \<open>The operations keep the invariant\<close>

lemma owned_mono: "owned_ok ids c \<Longrightarrow> ids \<subseteq> ids' \<Longrightarrow> owned_ok ids' c"
  unfolding owned_ok_def by blast

lemma served_anti: "served_ok subs c \<Longrightarrow> subs' \<subseteq> subs \<Longrightarrow> served_ok subs' c"
  unfolding served_ok_def by blast

lemma sm_invD:
  assumes "sm_inv sm"
  shows "(i, s) \<in> set (sm_durableSubs sm) \<Longrightarrow> sub_id s = i \<and> \<not> ephemeral s"
    and "(k, c) \<in> set (sm_connections sm) \<Longrightarrow> owned_ok (durable_ids sm) c"
    and "(k, c) \<in> set (sm_connections sm) \<Longrightarrow> served_ok (durables sm) c"
  using assms unfolding sm_inv_def by blast+

lemma close_dispatchers_inv [simp]: "sm_inv (close_dispatchers ds sm) = sm_inv sm"
  by (simp add: sm_inv_def close_dispatchers_def durable_ids_def durables_def)

lemma fst_assoc_put: "fst ` set (assoc_put k v kvs) = insert k (fst ` set kvs)"
  by (induction kvs) auto

lemma add_durable_inv:
  assumes "sm_inv sm" "\<not> ephemeral sub"
  shows "sm_inv (add_durable sub sm)"
proof -
  obtain cs n where m: "match_conns sub (sm_connections sm) (sm_started sm) = (cs, n)" by fastforce
  let ?sm = "add_durable sub sm"
  have sm: "sm_connections ?sm = cs" "sm_durableSubs ?sm = assoc_put (sub_id sub) sub (sm_durableSubs sm)"
    by (simp_all add: add_durable_def m)
  have ids: "durable_ids ?sm = insert (sub_id sub) (durable_ids sm)"
    by (simp add: durable_ids_def sm fst_assoc_put)
  have subs: "durables ?sm \<subseteq> insert sub (durables sm)"
    unfolding durables_def sm by (rule put_durables)
  have "owned_ok (durable_ids ?sm) c \<and> served_ok (durables ?sm) c" if "(k, c) \<in> set cs" for k c
    using match_all [OF m _ that, of "durable_ids sm" "durables sm"] sm_invD(2,3) [OF assms(1)] served_anti [OF _ subs]
    unfolding ids by blast
  moreover have "sub_id s = i \<and> \<not> ephemeral s" if "(i, s) \<in> set (sm_durableSubs ?sm)" for i s
    using assoc_put_member [OF that [unfolded sm]] sm_invD(1) [OF assms(1)] assms(2) by auto
  ultimately show ?thesis unfolding sm_inv_def sm by blast
qed

lemma close_durable_inv:
  assumes "sm_inv sm" "closeDurableSubscriptionLocked i sm = (l, ds, sm')"
  shows "sm_inv sm'"
proof (cases "map_of (sm_durableSubs sm) i")
  case None
  then show ?thesis using assms by (simp add: closeDurableSubscriptionLocked_def)
next
  case (Some s)
  have sm': "sm_durableSubs sm' = assoc_del i (sm_durableSubs sm)"
    "sm_connections sm' = map (\<lambda>(k, c). (k, c \<lparr> cn_dispatchers := assoc_del i (cn_dispatchers c) \<rparr>)) (sm_connections sm)"
    using assms(2) Some by (auto simp: closeDurableSubscriptionLocked_def)
  have d: "(j, s) \<in> set (sm_durableSubs sm') \<longleftrightarrow> (j, s) \<in> set (sm_durableSubs sm) \<and> j \<noteq> i" for j s
    by (simp add: sm')
  have "owned_ok (durable_ids sm') c' \<and> served_ok (durables sm') c'" if "(k, c') \<in> set (sm_connections sm')" for k c'
  proof -
    obtain c where c: "(k, c) \<in> set (sm_connections sm)" "c' = c \<lparr> cn_dispatchers := assoc_del i (cn_dispatchers c) \<rparr>"
      using \<open>(k, c') \<in> set (sm_connections sm')\<close> unfolding sm' by auto
    have acc: "accepts c' s = accepts c s" for s by (simp add: accepts_def c(2))
    have o: "owned_ok (durable_ids sm) c" and s: "served_ok (durables sm) c" using sm_invD [OF assms(1)] c(1) by blast+
    have ids: "j \<in> durable_ids sm'" if "j \<in> durable_ids sm" "j \<noteq> i" for j
      using that unfolding durable_ids_def sm' by fastforce
    have "owned_ok (durable_ids sm') c'"
      using o ids unfolding owned_ok_def acc by (auto simp: c(2))
    moreover have "served_ok (durables sm') c'"
      unfolding served_ok_def acc
    proof (intro ballI impI)
      fix t assume t: "t \<in> durables sm'" "accepts c t"
      then obtain j where j: "(j, t) \<in> set (sm_durableSubs sm)" "j \<noteq> i" unfolding durables_def by (auto simp: d)
      then have tj: "sub_id t = j" using sm_invD(1) [OF assms(1)] by blast
      have "t \<in> durables sm" using j(1) unfolding durables_def by force
      then obtain x where "(j, x) \<in> set (cn_dispatchers c)" using s t(2) tj unfolding served_ok_def by force
      then have "(sub_id t, x) \<in> set (cn_dispatchers c')" using j(2) tj by (simp add: c(2))
      then show "sub_id t \<in> fst ` set (cn_dispatchers c')" by (metis fst_conv image_eqI)
    qed
    ultimately show ?thesis by blast
  qed
  then show ?thesis using sm_invD(1) [OF assms(1)] unfolding sm_inv_def d by blast
qed

lemma bindE_Inr: "bindE r f = Inr y \<Longrightarrow> \<exists>x. r = Inr x \<and> f x = Inr y"
  by (cases r) (auto simp: bindE_def)

lemma parse_definition:
  assumes "parseSubscriptionDef E sc d = Inr sub"
  shows "\<exists>opts. sb_definition sub = d \<lparr> sd_Options := opts \<rparr>"
  using assms unfolding parseSubscriptionDef_def Let_def by (auto dest!: bindE_Inr)

lemma parse_ephemeral: "parseSubscriptionDef E sc d = Inr sub \<Longrightarrow> ephemeral sub = sd_Ephemeral d"
  by (drule parse_definition) (auto simp: ephemeral_def)

lemma parse_id: "parseSubscriptionDef E sc d = Inr sub \<Longrightarrow> sub_id sub = sr_ID (sd_Ref d)"
  by (drule parse_definition) (auto simp: sub_id_def)

lemma start_subs_inv: "sm_inv sm \<Longrightarrow> \<forall>d \<in> set defs. \<not> sd_Ephemeral d \<Longrightarrow> sm_inv (start_subs E sc defs sm)"
proof -
  have *: "sm_inv sm \<Longrightarrow> \<forall>d \<in> set ds. \<not> sd_Ephemeral d \<Longrightarrow>
    sm_inv (fold (\<lambda>d sm. case parseSubscriptionDef E sc d of Inl _ \<Rightarrow> sm | Inr sub \<Rightarrow> add_durable sub sm) ds sm)" for ds
    by (induction ds arbitrary: sm) (auto split: sum.splits simp: add_durable_inv parse_ephemeral)
  show "sm_inv sm \<Longrightarrow> \<forall>d \<in> set defs. \<not> sd_Ephemeral d \<Longrightarrow> ?thesis"
    unfolding start_subs_def by (rule *) (auto dest: in_set_takeD)
qed

lemma put_connection_inv:
  assumes "sm_inv sm" "owned_ok (durable_ids sm) c" "served_ok (durables sm) c"
  shows "sm_inv (sm \<lparr> sm_connections := assoc_put k c (sm_connections sm) \<rparr>)"
  using assms assoc_put_member unfolding sm_inv_def durable_ids_def durables_def by fastforce

lemma sm_inv_started [simp]: "sm_inv (sm \<lparr> sm_started := n \<rparr>) = sm_inv sm"
  by (simp add: sm_inv_def durable_ids_def durables_def)

lemma getCreateConn_inv:
  assumes "sm_inv sm" "getCreateConnLocked ei k sm = (c, sm')"
  shows "sm_inv sm' \<and> owned_ok (durable_ids sm') c \<and> served_ok (durables sm') c"
proof (cases "map_of (sm_connections sm) k")
  case None
  let ?c = "\<lparr> cn_transport = ei, cn_matcher = None, cn_dispatchers = [] \<rparr>"
  have c: "c = ?c" "sm' = sm \<lparr> sm_connections := assoc_put k ?c (sm_connections sm) \<rparr>"
    using assms(2) None by (auto simp: getCreateConnLocked_def Let_def)
  have o: "owned_ok ids ?c" "served_ok subs ?c" for ids subs
    by (simp_all add: owned_ok_def served_ok_def accepts_def)
  show ?thesis using put_connection_inv [OF assms(1) o] o by (simp add: c)
next
  case (Some x)
  then have "c = x" "sm' = sm" using assms(2) by (simp_all add: getCreateConnLocked_def)
  then show ?thesis using assms(1) sm_invD [OF assms(1)] map_of_SomeD [OF Some] by blast
qed

lemma registerConnection_inv:
  assumes "sm_inv sm"
  shows "sm_inv (snd (registerConnection ei k m sm))"
proof -
  obtain c sm1 where g: "getCreateConnLocked ei k sm = (c, sm1)" by fastforce
  have inv: "sm_inv sm1" "owned_ok (durable_ids sm1) c" using getCreateConn_inv [OF assms g] by blast+
  let ?c = "c \<lparr> cn_matcher := Some m, cn_dispatchers := filter (\<lambda>(_, d). stays m d) (cn_dispatchers c) \<rparr>"
  obtain c' n where f: "fold (\<lambda>(_, sub). matchSubToConnLocked sub) (sm_durableSubs sm1) (?c, sm_started sm1) = (c', n)" by fastforce
  show ?thesis
  proof (cases "cn_transport c = ei")
    case False
    then show ?thesis using inv by (simp add: registerConnection_def g)
  next
    case True
    have "owned_ok (durable_ids sm1) ?c"
      using inv(2) by (auto simp: owned_ok_def accepts_def stays_def ephemeral_def)
    moreover have "served_ok {} ?c" by (simp add: served_ok_def)
    ultimately have "owned_ok (durable_ids sm1) c' \<and> served_ok ({} \<union> snd ` set (sm_durableSubs sm1)) c' \<and> cn_transport c' = cn_transport ?c"
      by (rule match_fold [OF f]) (use sm_invD(1) [OF inv(1)] in \<open>force simp: durable_ids_def image_iff\<close>)
    then have "sm_inv (sm1 \<lparr> sm_connections := assoc_put k c' (sm_connections sm1) \<rparr>)"
      by (intro put_connection_inv [OF inv(1)]) (auto simp: durables_def)
    then have "sm_inv (sm1 \<lparr> sm_connections := assoc_put k c' (sm_connections sm1), sm_started := n \<rparr>)"
      by (simp only: sm_inv_started)
    then show ?thesis using True by (simp add: registerConnection_def g f Let_def)
  qed
qed

lemma ephemeralSubscription_inv:
  assumes "sm_inv sm"
  shows "sm_inv (snd (ephemeralSubscription E sc ei k ns f opts i now sm))"
proof -
  obtain c sm1 where g: "getCreateConnLocked ei k sm = (c, sm1)" by fastforce
  have inv: "sm_inv sm1" "owned_ok (durable_ids sm1) c" "served_ok (durables sm1) c" using getCreateConn_inv [OF assms g] by blast+
  let ?d = "\<lparr> sd_Ref = \<lparr> sr_ID = i, sr_Namespace = ns, sr_Name = e_uuid_str E i \<rparr>,
    sd_Transport = ei, sd_Filter = f, sd_Options = opts, sd_Ephemeral = True, sd_Created = Some now, sd_Updated = None \<rparr>"
  show ?thesis
  proof (cases "cn_transport c = ei")
    case False
    then show ?thesis using inv by (simp add: ephemeralSubscription_def g)
  next
    case True
    show ?thesis
    proof (cases "parseSubscriptionDef E sc ?d")
      case (Inl e)
      then show ?thesis using inv(1) True by (simp add: ephemeralSubscription_def g)
    next
      case (Inr sub)
      let ?c = "c \<lparr> cn_dispatchers := assoc_put i \<lparr> dp_no = sm_started sm1, dp_sub = sub \<rparr> (cn_dispatchers c) \<rparr>"
      have e: "ephemeral sub" using parse_ephemeral [OF Inr] by simp
      have acc: "accepts ?c s = accepts c s" for s by (simp add: accepts_def)
      have "owned_ok (durable_ids sm1) ?c"
        using inv(2) assoc_put_member e unfolding owned_ok_def acc by fastforce
      moreover have "served_ok (durables sm1) ?c"
        using inv(3) unfolding served_ok_def acc by (simp add: fst_assoc_put)
      ultimately have "sm_inv (sm1 \<lparr> sm_connections := assoc_put k ?c (sm_connections sm1) \<rparr>)"
        by (rule put_connection_inv [OF inv(1)])
      then have "sm_inv (sm1 \<lparr> sm_connections := assoc_put k ?c (sm_connections sm1), sm_started := Suc (sm_started sm1) \<rparr>)"
        by (simp only: sm_inv_started)
      then show ?thesis using True Inr by (simp add: ephemeralSubscription_def g Let_def)
    qed
  qed
qed

lemma connectionClosed_inv: "sm_inv sm \<Longrightarrow> sm_inv (connectionClosed ei k sm)"
  by (auto simp: connectionClosed_def sm_inv_def durable_ids_def durables_def close_dispatchers_def split: option.splits)

definition thread_sub :: "update_thread \<Rightarrow> subscription" where
  "thread_sub th = (case th of UpHave s \<Rightarrow> s | UpAdd s \<Rightarrow> s)"

definition world_inv :: "sub_world \<Rightarrow> bool" where
  "world_inv w \<longleftrightarrow> sm_inv (sw_sm w) \<and> (\<forall>d \<in> set (sw_db w). \<not> sd_Ephemeral d) \<and>
     (\<forall>th \<in> set (sw_updates w). \<not> ephemeral (thread_sub th))"

lemma newOrUpdated_inv:
  assumes "sm_inv sm" "\<not> ephemeral (thread_sub th)" "newOrUpdated_locked th sm = (r, sm')"
  shows "sm_inv sm' \<and> (case r of None \<Rightarrow> True | Some th' \<Rightarrow> \<not> ephemeral (thread_sub th'))"
proof (cases th)
  case (UpAdd s)
  then show ?thesis using assms add_durable_inv by (auto simp: newOrUpdated_locked_def thread_sub_def)
next
  case (UpHave s)
  have ns: "\<not> ephemeral s" using assms(2) UpHave by (simp add: thread_sub_def)
  obtain l ds sm2 where c: "closeDurableSubscriptionLocked (sub_id s) sm = (l, ds, sm2)" by (metis prod_cases3)
  show ?thesis
    using assms(3) ns add_durable_inv [OF assms(1) ns] close_durable_inv [OF assms(1) c] assms(1)
    by (auto simp: newOrUpdated_locked_def UpHave c thread_sub_def split: option.splits if_splits)
qed

lemma set_drop_nth: "set (drop_nth k xs) \<subseteq> set xs"
  unfolding drop_nth_def by (auto dest: in_set_takeD in_set_dropD)

lemma sub_step_inv:
  assumes "world_inv w"
  shows "world_inv (sub_step E sc ev w)"
proof (cases ev)
  case (SmUpdateLock k)
  show ?thesis
  proof (cases "k < length (sw_updates w)")
    case True
    obtain r sm' where n: "newOrUpdated_locked (sw_updates w ! k) (sw_sm w) = (r, sm')" by fastforce
    have "\<not> ephemeral (thread_sub (sw_updates w ! k))" using assms True by (simp add: world_inv_def)
    then have "sm_inv sm' \<and> (case r of None \<Rightarrow> True | Some th' \<Rightarrow> \<not> ephemeral (thread_sub th'))"
      using newOrUpdated_inv [OF _ _ n] assms by (simp add: world_inv_def)
    then show ?thesis
      using assms True set_drop_nth [of k "sw_updates w"] set_update_subset_insert [of "sw_updates w" k]
      by (cases r) (fastforce simp: SmUpdateLock sub_step_def n world_inv_def)+
  qed (use assms in \<open>simp add: SmUpdateLock sub_step_def\<close>)
next
  case (SmUpdateRead i)
  show ?thesis
  proof (cases "find (\<lambda>d. sr_ID (sd_Ref d) = i) (sw_db w)")
    case (Some d)
    then have "d \<in> set (sw_db w)" by (auto simp: find_Some_iff)
    then have "\<not> sd_Ephemeral d" using assms by (simp add: world_inv_def)
    then show ?thesis using assms Some
      by (cases "parseSubscriptionDef E sc d") (auto simp: SmUpdateRead sub_step_def world_inv_def thread_sub_def parse_ephemeral)
  qed (use assms in \<open>simp add: SmUpdateRead sub_step_def\<close>)
next
  case (SmDelete i)
  obtain l ds sm' where c: "closeDurableSubscriptionLocked i (sw_sm w) = (l, ds, sm')" by (metis prod_cases3)
  have "sm_inv sm'" using close_durable_inv [OF _ c] assms by (simp add: world_inv_def)
  then show ?thesis using assms by (simp add: SmDelete sub_step_def c world_inv_def)
qed (use assms in \<open>auto simp: sub_step_def world_inv_def start_subs_inv registerConnection_inv ephemeralSubscription_inv connectionClosed_inv
    split: list.splits\<close>)

lemma run_subs_inv: "world_inv w \<Longrightarrow> world_inv (run_subs E sc evs w)"
  unfolding run_subs_def by (induction evs arbitrary: w) (auto intro: sub_step_inv)

text \<open>C37: Whatever connections are made and lost and however subscriptions are created, updated and deleted around them, the
  threads of the manager interleaved in any order: a dispatcher of a durable subscription on a connection is kept under the
  subscription's identifier, the manager holds a durable subscription of that identifier, and the connection's transport and
  matcher accept it; and every durable subscription the manager holds that a connection accepts is dispatched on it.\<close>

theorem durable_subscriptions_dispatched:
  assumes "w = run_subs E sc evs sub_world0" "(k, c) \<in> set (sm_connections (sw_sm w))"
  shows "(\<forall>(i, d) \<in> set (cn_dispatchers c). \<not> sd_Ephemeral (sb_definition (dp_sub d)) \<longrightarrow>
        sub_id (dp_sub d) = i \<and> i \<in> fst ` set (sm_durableSubs (sw_sm w)) \<and> cn_transport c = sd_Transport (sb_definition (dp_sub d)) \<and>
        (\<exists>m. cn_matcher c = Some m \<and> m (sd_Ref (sb_definition (dp_sub d))))) \<and>
    (\<forall>(i, s) \<in> set (sm_durableSubs (sw_sm w)). cn_transport c = sd_Transport (sb_definition s) \<longrightarrow>
        (\<exists>m. cn_matcher c = Some m \<and> m (sd_Ref (sb_definition s))) \<longrightarrow> i \<in> fst ` set (cn_dispatchers c))"
proof -
  have "world_inv w" unfolding assms(1) by (rule run_subs_inv) (simp add: world_inv_def sub_world0_def sm_inv_def)
  then have inv: "sm_inv (sw_sm w)" by (simp add: world_inv_def)
  have o: "owned_ok (durable_ids (sw_sm w)) c" and s: "served_ok (durables (sw_sm w)) c" using sm_invD [OF inv] assms(2) by blast+
  have acc: "accepts c t \<longleftrightarrow> cn_transport c = sd_Transport (sb_definition t) \<and> (\<exists>m. cn_matcher c = Some m \<and> m (sd_Ref (sb_definition t)))" for t
    by (auto simp: accepts_def split: option.splits)
  have "sub_id t = i \<and> t \<in> durables (sw_sm w)" if "(i, t) \<in> set (sm_durableSubs (sw_sm w))" for i t
    using sm_invD(1) [OF inv that] that unfolding durables_def by force
  then have "\<forall>(i, t) \<in> set (sm_durableSubs (sw_sm w)). accepts c t \<longrightarrow> i \<in> fst ` set (cn_dispatchers c)"
    using s unfolding served_ok_def by blast
  then show ?thesis
    using o unfolding owned_ok_def acc ephemeral_def durable_ids_def by (auto split: prod.splits)
qed

section \<open>Concrete schedules\<close>

definition filter_all :: subscription_filter where
  "filter_all = \<lparr> sf_Events = '''', sf_MessageTag = '''', sf_MessageGroup = '''', sf_MessageAuthor = '''', sf_TransactionType = '''',
     sf_BlockchainEventName = '''', sf_BlockchainEventListener = '''', sf_Topic = '''', sf_DeprecatedTopics = '''', sf_DeprecatedTag = '''',
     sf_DeprecatedGroup = '''', sf_DeprecatedAuthor = '''' \<rparr>"

definition options_none :: subscription_options where
  "options_none = \<lparr> so_FirstEvent = None, so_ReadAhead = None, so_WithData = None, so_Batch = None, so_BatchTimeout = None,
     so_TLSConfigName = '''', so_TLSConfig = None \<rparr>"

definition subdef0 :: "fftime \<Rightarrow> subscription_def" where
  "subdef0 upd = \<lparr> sd_Ref = \<lparr> sr_ID = 5, sr_Namespace = ''ns1'', sr_Name = ''orders'' \<rparr>, sd_Transport = ''ws'', sd_Filter = filter_all,
     sd_Options = options_none, sd_Ephemeral = False, sd_Created = Some 1, sd_Updated = Some upd \<rparr>"

definition subconf0 :: subscription_conf where
  "subconf0 = \<lparr> sc_namespace = ''ns1'', sc_transports = [(''ws'', \<lparr> et_Name = ''ws'', et_ValidateOptions = Inr \<rparr>)], sc_TLSConfigs = [],
     sc_maxSubs = 500, sc_defaultBatchSize = 50, sc_defaultBatchTimeout = ''50ms'' \<rparr>"

text \<open>A connection asks for the subscriptions of its namespace; one is created and delivered, then updated.\<close>

definition sub_run0 :: "sub_event list" where
  "sub_run0 = [SmRegister ''ws'' ''c1'' (\<lambda>r. sr_Namespace r = ''ns1''), SmDbUpsert (subdef0 1), SmUpdateRead 5, SmUpdateLock 0,
     SmDbUpsert (subdef0 2), SmUpdateRead 5, SmUpdateLock 0, SmUpdateLock 0]"

definition conn_view :: "connection \<Rightarrow> (uuid \<times> nat \<times> fftime option) list" where
  "conn_view c = map (\<lambda>(i, d). (i, dp_no d, sd_Updated (sb_definition (dp_sub d)))) (cn_dispatchers c)"

lemma durable_subscriptions_dispatched_witness:
  "let w = run_subs env0 subconf0 sub_run0 sub_world0; c = snd (hd (sm_connections (sw_sm w)))
   in map fst (sm_connections (sw_sm w)) = [''c1''] \<and> conn_view c = [(5, 1, Some 2)] \<and> sm_closed (sw_sm w) = [0] \<and>
      (\<forall>(i, d) \<in> set (cn_dispatchers c). \<not> sd_Ephemeral (sb_definition (dp_sub d)) \<longrightarrow>
        sub_id (dp_sub d) = i \<and> i \<in> fst ` set (sm_durableSubs (sw_sm w)) \<and> cn_transport c = sd_Transport (sb_definition (dp_sub d)) \<and>
        (\<exists>m. cn_matcher c = Some m \<and> m (sd_Ref (sb_definition (dp_sub d)))))"
proof -
  let ?w = "run_subs env0 subconf0 sub_run0 sub_world0"
  let ?c = "snd (hd (sm_connections (sw_sm ?w)))"
  have 1: "map fst (sm_connections (sw_sm ?w)) = [''c1''] \<and> conn_view ?c = [(5, 1, Some 2)] \<and> sm_closed (sw_sm ?w) = [0]"
    by code_simp
  then have "(''c1'', ?c) \<in> set (sm_connections (sw_sm ?w))" by (cases "sm_connections (sw_sm ?w)") auto
  from durable_subscriptions_dispatched [OF refl this] show ?thesis using 1 unfolding Let_def by blast
qed

text \<open>A subscription is deleted from the database while the thread of an update it caught up with is between reading it and taking
  the lock: the deleted subscription is held, and delivered, again.\<close>

definition deleted_run :: "sub_event list" where
  "deleted_run = take 4 sub_run0 @ [SmDbUpsert (subdef0 2), SmUpdateRead 5, SmDbDelete 5, SmDelete 5, SmUpdateLock 0]"

text \<open>In the schedule where a subscription is deleted while an update of it waits for the manager's lock, the database no
  longer has the subscription, no thread is left, and the manager holds it and runs a dispatcher for it on the connection.\<close>

theorem deleted_subscription_dispatched:
  "let w = run_subs env0 subconf0 deleted_run sub_world0
   in sw_db w = [] \<and> sw_updates w = [] \<and> map fst (sm_durableSubs (sw_sm w)) = [5] \<and>
      map (conn_view \<circ> snd) (sm_connections (sw_sm w)) = [[(5, 1, Some 2)]]"
  by code_simp

text \<open>Two updates whose threads take the lock in the opposite order: only a difference of the update times is looked for.\<close>

definition reordered_run :: "sub_event list" where
  "reordered_run = take 4 sub_run0 @ [SmDbUpsert (subdef0 2), SmUpdateRead 5, SmDbUpsert (subdef0 3), SmUpdateRead 5,
     SmUpdateLock 1, SmUpdateLock 1, SmUpdateLock 0, SmUpdateLock 0]"

lemma older_definition_dispatched:
  "let w = run_subs env0 subconf0 reordered_run sub_world0
   in map sd_Updated (sw_db w) = [Some 3] \<and> sw_updates w = [] \<and> map (conn_view \<circ> snd) (sm_connections (sw_sm w)) = [[(5, 2, Some 2)]]"
  by code_simp

end
