(* ===== verification/Event_Dispatcher.thy ===== *)
theory Event_Dispatcher
  imports Subscriptions Event_Poller
begin

text \<open>
  internal/events/event_dispatcher.go: a dispatcher reads the events of its namespace page by page, delivers those its
  subscription matches up to the read ahead, and moves its offset as the client acknowledges them. Its threads (the event loop in
  \<open>bufferedDelivery\<close>, \<open>deliverEvents\<close>, the offset commits of the poller, and one thread for every response of the client) are
  interleaved by labelled steps: a step is a critical section or one communication on a channel. \<open>acksNacks\<close> is unbuffered, a sender
  stays where it is until the loop receives; \<open>eventDelivery\<close> holds one chunk more than the read ahead, and the loop waits while it is full.
\<close>

section \<open>State\<close>

record ed_conf =
  dc_namespace :: string
  dc_sub :: subscription
  dc_readAhead :: nat
  dc_batch :: bool
  dc_withData :: bool
  dc_poller :: poller_conf

record buffer_conf =
  bc_bufferLength :: nat
  bc_batchTimeout :: int

definition newEventDispatcher :: "env \<Rightarrow> buffer_conf \<Rightarrow> subscription \<Rightarrow> ed_conf" where
  "newEventDispatcher E bc sub =
     (let opts = sd_Options (sb_definition sub); ref = sd_Ref (sb_definition sub);
          readAhead = (case so_ReadAhead opts of None \<Rightarrow> 0 | Some n \<Rightarrow> unat n);
          batchTimeout = (case so_BatchTimeout opts of None \<Rightarrow> 2000 | Some t \<Rightarrow> if t = '''' then 2000 else e_duration E t);
          batch = (so_Batch opts = Some True);
          eventBatchTimeout = (if batchTimeout > 0 then batchTimeout else bc_batchTimeout bc);
          pageSize = (if batch \<or> bc_bufferLength bc < readAhead then readAhead else bc_bufferLength bc)
      in \<lparr> dc_namespace = sr_Namespace ref, dc_sub = sub, dc_readAhead = readAhead, dc_batch = batch, dc_withData = (so_WithData opts = Some True),
           dc_poller = \<lparr> pc_ephemeral = sd_Ephemeral (sb_definition sub), pc_batchSize = pageSize, pc_batchTimeout = (eventBatchTimeout > 0),
             pc_firstEvent = so_FirstEvent opts, pc_namespace = sr_Namespace ref, pc_offsetName = e_uuid_str E (sr_ID ref),
             pc_offsetType = OffsetTypeSubscription \<rparr> \<rparr>)"

record ack_nack =
  an_id :: uuid
  an_isNack :: bool
  an_offset :: int

text \<open>The local variables of \<open>bufferedDelivery\<close> once a page is enriched and filtered.\<close>

record page =
  pg_matching :: "enriched_event list"
  pg_lastAck :: int
  pg_nacks :: nat
  pg_highest :: int

text \<open>
  Where the loop is: reading, enriching a page, at the top of the loop of a page, marking the events it is about to dispatch (those left
  and, in batch mode, the whole batch), waiting to put a chunk on the channel, and waiting for a response. Where the deliverer is:
  waiting, delivering, nacking the events of a chunk that failed, and waiting to send such a nack.
\<close>

datatype loop_pc =
    LpRead
  | LpHandle "event list"
  | LpRound page
  | LpMark page "enriched_event list" "enriched_event list"
  | LpPut page "enriched_event list" "enriched_event list"
  | LpSelect page
  | LpClosed

datatype deliver_pc =
    DvIdle
  | DvServe "enriched_event list"
  | DvReject "enriched_event list"
  | DvBlocked ack_nack "enriched_event list"
  | DvClosed

text \<open>What became of an event, recorded for the proofs: the subscription does not match it, or the client acknowledged it.\<close>

datatype ed_log = LogSkipped uuid | LogAcked uuid

record ed_state =
  es_node :: node
  es_pollingOffset :: int
  es_offsetCommitted :: "int option"
  es_stored :: int
  es_batchDelay :: bool
  es_inflight :: "(uuid \<times> event) list"
  es_eventDelivery :: "enriched_event list list"
  es_acksNacks :: "ack_nack list"
  es_loop :: loop_pc
  es_deliverer :: deliver_pc
  es_closed :: bool
  es_log :: "ed_log list"

section \<open>The event loop\<close>

definition ns_events :: "string \<Rightarrow> ffdb \<Rightarrow> event list" where
  "ns_events ns db = filter (\<lambda>ev. ev_Namespace ev = ns) (db_events db)"

definition GetEvents_after :: "env \<Rightarrow> string \<Rightarrow> int \<Rightarrow> nat \<Rightarrow> event list nact" where
  "GetEvents_after E ns off n = db_read E (\<lambda>db. take n (filter (\<lambda>ev. ev_Sequence ev > off) (sort_key ev_Sequence (ns_events ns db))))"

definition filterEvents :: "env \<Rightarrow> subscription \<Rightarrow> enriched_event list \<Rightarrow> enriched_event list" where
  "filterEvents E sub candidates = filter (MatchesEvent E sub) candidates"

definition set_polling_ed :: "int \<Rightarrow> ed_state \<Rightarrow> ed_state" where
  "set_polling_ed off s = s \<lparr> es_pollingOffset := off \<rparr>"

definition rewindPollingOffset_ed :: "int \<Rightarrow> ed_state \<Rightarrow> ed_state" where
  "rewindPollingOffset_ed off s = (if off < es_pollingOffset s then set_polling_ed off s else s)"

text \<open>The channel of the commits holds one offset, and an ephemeral subscription has none.\<close>

definition commitOffset_ed :: "ed_conf \<Rightarrow> int \<Rightarrow> ed_state \<Rightarrow> ed_state" where
  "commitOffset_ed dc off s = (let s = set_polling_ed off s in
     if pc_ephemeral (dc_poller dc) then s
     else s \<lparr> es_offsetCommitted := (case es_offsetCommitted s of None \<Rightarrow> Some off | Some o1 \<Rightarrow> Some o1) \<rparr>)"

definition loop_read :: "env \<Rightarrow> ed_conf \<Rightarrow> ed_state \<Rightarrow> ed_state" where
  "loop_read E dc s =
     (case GetEvents_after E (dc_namespace dc) (es_pollingOffset s) (pc_batchSize (dc_poller dc)) (es_node s) of
        (Inl _, nd) \<Rightarrow> s \<lparr> es_node := nd \<rparr>
      | (Inr events, nd) \<Rightarrow>
          let s = s \<lparr> es_node := nd \<rparr> in
          if pc_batchTimeout (dc_poller dc) \<and> \<not> es_batchDelay s \<and> length events < pc_batchSize (dc_poller dc)
          then s \<lparr> es_batchDelay := True \<rparr>
          else s \<lparr> es_batchDelay := False, es_loop := (if events = [] then LpRead else LpHandle events) \<rparr>)"

definition loop_handle :: "env \<Rightarrow> ed_conf \<Rightarrow> event list \<Rightarrow> ed_state \<Rightarrow> ed_state" where
  "loop_handle E dc events s =
     (case enrichEvents E (dc_namespace dc) events (es_node s) of
        (Inl _, nd) \<Rightarrow> s \<lparr> es_node := nd \<rparr>
      | (Inr candidates, nd) \<Rightarrow>
          let matching = filterEvents E (dc_sub dc) candidates
          in s \<lparr> es_node := nd,
                 es_log := es_log s @ [LogSkipped (ev_ID (en_Event e)). e \<leftarrow> candidates, \<not> MatchesEvent E (dc_sub dc) e],
                 es_loop := LpRound \<lparr> pg_matching = matching, pg_lastAck = 0, pg_nacks = 0, pg_highest = ev_Sequence (last events) \<rparr> \<rparr>)"

definition end_page :: "ed_conf \<Rightarrow> page \<Rightarrow> ed_state \<Rightarrow> ed_state" where
  "end_page dc pg s =
     (let s = (if pg_nacks pg = 0 \<and> pg_lastAck pg \<noteq> pg_highest pg then commitOffset_ed dc (pg_highest pg) s else s)
      in s \<lparr> es_loop := LpRead \<rparr>)"

definition after_dispatch :: "ed_conf \<Rightarrow> page \<Rightarrow> ed_state \<Rightarrow> ed_state" where
  "after_dispatch dc pg s = (if es_inflight s = [] then end_page dc pg s else s \<lparr> es_loop := LpSelect pg \<rparr>)"

definition dispatchable :: "ed_conf \<Rightarrow> page \<Rightarrow> ed_state \<Rightarrow> enriched_event list \<times> enriched_event list" where
  "dispatchable dc pg s =
     (let maxDispatch = 1 + int (dc_readAhead dc) - int (length (es_inflight s)); matching = pg_matching pg
      in if maxDispatch \<ge> int (length matching) then (matching, [])
         else if maxDispatch > 0 then (take (nat maxDispatch) matching, drop (nat maxDispatch) matching)
         else ([], matching))"

definition loop_round :: "ed_conf \<Rightarrow> page \<Rightarrow> ed_state \<Rightarrow> ed_state" where
  "loop_round dc pg s = (case dispatchable dc pg s of (now, later) \<Rightarrow>
     let pg = pg \<lparr> pg_matching := later \<rparr>
     in if now = [] then after_dispatch dc pg s else s \<lparr> es_loop := LpMark pg now now \<rparr>)"

definition loop_mark :: "ed_conf \<Rightarrow> page \<Rightarrow> enriched_event list \<Rightarrow> enriched_event list \<Rightarrow> ed_state \<Rightarrow> ed_state" where
  "loop_mark dc pg todo all s = (case todo of
     [] \<Rightarrow> s
   | e # rest \<Rightarrow>
       let s = s \<lparr> es_inflight := assoc_put (ev_ID (en_Event e)) (en_Event e) (es_inflight s) \<rparr>
       in if \<not> dc_batch dc then s \<lparr> es_loop := LpPut pg [e] rest \<rparr>
          else s \<lparr> es_loop := (if rest = [] then LpPut pg all [] else LpMark pg rest all) \<rparr>)"

definition loop_put :: "ed_conf \<Rightarrow> page \<Rightarrow> enriched_event list \<Rightarrow> enriched_event list \<Rightarrow> ed_state \<Rightarrow> ed_state" where
  "loop_put dc pg chunk rest s =
     (let s = s \<lparr> es_eventDelivery := es_eventDelivery s @ [chunk] \<rparr>
      in if rest = [] then after_dispatch dc pg s else s \<lparr> es_loop := LpMark pg rest rest \<rparr>)"

definition handleNackOffsetUpdate :: "ack_nack \<Rightarrow> ed_state \<Rightarrow> ed_state" where
  "handleNackOffsetUpdate nack s =
     (let s = s \<lparr> es_inflight := assoc_del (an_id nack) (es_inflight s) \<rparr>;
          s = (if es_pollingOffset s > an_offset nack then rewindPollingOffset_ed (an_offset nack - 1) s else s)
      in s \<lparr> es_inflight := [] \<rparr>)"

definition lowest_inflight :: "(uuid \<times> event) list \<Rightarrow> int" where
  "lowest_inflight infl = fold (\<lambda>(_, ev) low. if low < 0 \<or> ev_Sequence ev < low then ev_Sequence ev else low) infl (-1)"

definition handleAckOffsetUpdate :: "ed_conf \<Rightarrow> ack_nack \<Rightarrow> ed_state \<Rightarrow> ed_state" where
  "handleAckOffsetUpdate dc ack s =
     (let oldOffset = es_pollingOffset s;
          s = s \<lparr> es_inflight := assoc_del (an_id ack) (es_inflight s) \<rparr>;
          lowest = lowest_inflight (es_inflight s)
      in if (lowest = -1 \<or> lowest > an_offset ack) \<and> an_offset ack > oldOffset then commitOffset_ed dc (an_offset ack) s else s)"

definition loop_receive :: "ed_conf \<Rightarrow> page \<Rightarrow> ack_nack \<Rightarrow> ed_state \<Rightarrow> ed_state" where
  "loop_receive dc pg an s =
     (if an_isNack an then (handleNackOffsetUpdate an s) \<lparr> es_loop := LpRound (pg \<lparr> pg_nacks := Suc (pg_nacks pg) \<rparr>) \<rparr>
      else if pg_nacks pg = 0 then (handleAckOffsetUpdate dc an s) \<lparr> es_loop := LpRound (pg \<lparr> pg_lastAck := an_offset an \<rparr>) \<rparr>
      else s \<lparr> es_loop := LpRound pg \<rparr>)"

section \<open>Deliveries and responses\<close>

definition inflight_response :: "uuid \<Rightarrow> bool \<Rightarrow> ed_state \<Rightarrow> ack_nack option" where
  "inflight_response i rejected s = (case map_of (es_inflight s) i of
     None \<Rightarrow> None
   | Some ev \<Rightarrow> Some \<lparr> an_id = i, an_isNack = rejected, an_offset = ev_Sequence ev \<rparr>)"

text \<open>The thread of a response of the client; sending the reply that may come with it belongs to the senders of messages.\<close>

definition deliveryResponse :: "uuid \<Rightarrow> bool \<Rightarrow> ed_state \<Rightarrow> ed_state" where
  "deliveryResponse i rejected s = (case inflight_response i rejected s of
     None \<Rightarrow> s
   | Some an \<Rightarrow> s \<lparr> es_acksNacks := es_acksNacks s @ [an],
                    es_log := es_log s @ (if rejected then [] else [LogAcked i]) \<rparr>)"

definition read_data :: "env \<Rightarrow> ed_conf \<Rightarrow> enriched_event \<Rightarrow> unit nact" where
  "read_data E dc e = (case en_Message e of
     Some msg \<Rightarrow> if dc_withData dc then bindM (GetMessageDataCached E (dc_namespace dc) msg []) (\<lambda>_. retM ()) else retM ()
   | None \<Rightarrow> retM ())"

definition rejecting :: "enriched_event list \<Rightarrow> deliver_pc" where
  "rejecting es = (if es = [] then DvIdle else DvReject es)"

text \<open>One call of the transport: for an event, or in batch mode for the whole chunk; \<open>accepted\<close> is what the transport answers.\<close>

definition deliver :: "env \<Rightarrow> ed_conf \<Rightarrow> enriched_event list \<Rightarrow> bool \<Rightarrow> ed_state \<Rightarrow> ed_state" where
  "deliver E dc chunk accepted s =
     (if dc_batch dc
      then (case mapM (read_data E dc) chunk (es_node s) of
              (Inl _, nd) \<Rightarrow> s \<lparr> es_node := nd, es_deliverer := rejecting chunk \<rparr>
            | (Inr _, nd) \<Rightarrow> s \<lparr> es_node := nd, es_deliverer := (if accepted then DvIdle else rejecting chunk) \<rparr>)
      else (case chunk of
              [] \<Rightarrow> s \<lparr> es_deliverer := DvIdle \<rparr>
            | e # rest \<Rightarrow>
                (case read_data E dc e (es_node s) of
                   (Inl _, nd) \<Rightarrow> s \<lparr> es_node := nd, es_deliverer := rejecting chunk \<rparr>
                 | (Inr _, nd) \<Rightarrow> s \<lparr> es_node := nd,
                     es_deliverer := (if \<not> accepted then rejecting chunk else if rest = [] then DvIdle else DvServe rest) \<rparr>)))"

definition reject_next :: "enriched_event list \<Rightarrow> ed_state \<Rightarrow> ed_state" where
  "reject_next es s = (case es of
     [] \<Rightarrow> s \<lparr> es_deliverer := DvIdle \<rparr>
   | e # rest \<Rightarrow> s \<lparr> es_deliverer := (case inflight_response (ev_ID (en_Event e)) True s of None \<Rightarrow> rejecting rest | Some an \<Rightarrow> DvBlocked an rest) \<rparr>)"

section \<open>Steps\<close>

datatype ed_label =
    EdRead | EdHandle | EdRound | EdMark | EdPut | EdReceive nat | EdReceiveDeliverer | EdLoopExit
  | EdTake | EdDeliver bool | EdReject | EdCancelled | EdDelivererExit
  | EdRespond uuid bool | EdResponseDropped nat | EdCommit | EdClose | EdOther node

text \<open>The events table only gets further rows, with greater sequences and identifiers of their own.\<close>

definition events_ok :: "event list \<Rightarrow> bool" where
  "events_ok evs \<longleftrightarrow> sorted_wrt (<) (map ev_Sequence evs) \<and> distinct (map ev_ID evs) \<and> (\<forall>ev \<in> set evs. 0 \<le> ev_Sequence ev)"

definition events_grow :: "string \<Rightarrow> ffdb \<Rightarrow> ffdb \<Rightarrow> bool" where
  "events_grow ns db db' \<longleftrightarrow> take (length (ns_events ns db)) (ns_events ns db') = ns_events ns db \<and> events_ok (ns_events ns db')"

definition ed_step :: "env \<Rightarrow> ed_conf \<Rightarrow> ed_label \<Rightarrow> ed_state \<Rightarrow> ed_state option" where
  "ed_step E dc l s =
     (case l of
        EdRead \<Rightarrow> (case es_loop s of LpRead \<Rightarrow> Some (loop_read E dc s) | _ \<Rightarrow> None)
      | EdHandle \<Rightarrow> (case es_loop s of LpHandle events \<Rightarrow> Some (loop_handle E dc events s) | _ \<Rightarrow> None)
      | EdRound \<Rightarrow> (case es_loop s of LpRound pg \<Rightarrow> Some (loop_round dc pg s) | _ \<Rightarrow> None)
      | EdMark \<Rightarrow> (case es_loop s of LpMark pg todo all \<Rightarrow> Some (loop_mark dc pg todo all s) | _ \<Rightarrow> None)
      | EdPut \<Rightarrow> (case es_loop s of
            LpPut pg chunk rest \<Rightarrow>
              if length (es_eventDelivery s) < dc_readAhead dc + 1 then Some (loop_put dc pg chunk rest s) else None
          | _ \<Rightarrow> None)
      | EdReceive k \<Rightarrow> (case es_loop s of
            LpSelect pg \<Rightarrow>
              if k < length (es_acksNacks s)
              then Some (loop_receive dc pg (es_acksNacks s ! k) (s \<lparr> es_acksNacks := drop_nth k (es_acksNacks s) \<rparr>)) else None
          | _ \<Rightarrow> None)
      | EdReceiveDeliverer \<Rightarrow> (case (es_loop s, es_deliverer s) of
            (LpSelect pg, DvBlocked an rest) \<Rightarrow> Some (loop_receive dc pg an (s \<lparr> es_deliverer := rejecting rest \<rparr>))
          | _ \<Rightarrow> None)
      | EdLoopExit \<Rightarrow> if es_closed s \<and> (case es_loop s of LpRead \<Rightarrow> True | LpHandle _ \<Rightarrow> True | LpSelect _ \<Rightarrow> True | _ \<Rightarrow> False)
                      then Some (s \<lparr> es_loop := LpClosed \<rparr>) else None
      | EdTake \<Rightarrow> (case (es_deliverer s, es_eventDelivery s) of
            (DvIdle, chunk # chunks) \<Rightarrow> Some (s \<lparr> es_deliverer := DvServe chunk, es_eventDelivery := chunks \<rparr>)
          | _ \<Rightarrow> None)
      | EdDeliver accepted \<Rightarrow> (case es_deliverer s of DvServe chunk \<Rightarrow> Some (deliver E dc chunk accepted s) | _ \<Rightarrow> None)
      | EdReject \<Rightarrow> (case es_deliverer s of DvReject es \<Rightarrow> Some (reject_next es s) | _ \<Rightarrow> None)
      | EdCancelled \<Rightarrow> (case es_deliverer s of
            DvBlocked an rest \<Rightarrow> if es_closed s then Some (s \<lparr> es_deliverer := rejecting rest \<rparr>) else None
          | _ \<Rightarrow> None)
      | EdDelivererExit \<Rightarrow> if es_closed s \<and> es_deliverer s = DvIdle then Some (s \<lparr> es_deliverer := DvClosed \<rparr>) else None
      | EdRespond i rejected \<Rightarrow> Some (deliveryResponse i rejected s)
      | EdResponseDropped k \<Rightarrow> if es_closed s \<and> k < length (es_acksNacks s) then Some (s \<lparr> es_acksNacks := drop_nth k (es_acksNacks s) \<rparr>) else None
      | EdCommit \<Rightarrow> (case es_offsetCommitted s of
            None \<Rightarrow> None
          | Some _ \<Rightarrow> Some (s \<lparr> es_offsetCommitted := None, es_stored := es_pollingOffset s \<rparr>))
      | EdClose \<Rightarrow> Some (s \<lparr> es_closed := True \<rparr>)
      | EdOther nd \<Rightarrow> if events_grow (dc_namespace dc) (nd_db (es_node s)) (nd_db nd) then Some (s \<lparr> es_node := nd \<rparr>) else None)"

fun run_ed :: "env \<Rightarrow> ed_conf \<Rightarrow> ed_label list \<Rightarrow> ed_state \<Rightarrow> ed_state option" where
  "run_ed E dc [] s = Some s"
| "run_ed E dc (l # ls) s = (case ed_step E dc l s of None \<Rightarrow> None | Some s' \<Rightarrow> run_ed E dc ls s')"

text \<open>A dispatcher whose poller has restored the offset of its subscription.\<close>

definition ed_start :: "node \<Rightarrow> int \<Rightarrow> ed_state" where
  "ed_start nd off = \<lparr> es_node = nd, es_pollingOffset = off, es_offsetCommitted = None, es_stored = off, es_batchDelay = False,
     es_inflight = [], es_eventDelivery = [], es_acksNacks = [], es_loop = LpRead, es_deliverer = DvIdle, es_closed = False, es_log = [] \<rparr>"

end
