(* ===== verification/Event_Dispatcher_Props.thy ===== *)
theory Event_Dispatcher_Props
  imports Event_Dispatcher Subscriptions_Props
begin

text \<open>
  The dispatcher in every interleaving of its threads: the polling offset and the offset stored for a restart never pass an event that
  was neither skipped nor acknowledged, and no more events are in flight than the read ahead allows. Then the two ways in which
  its threads come to a stop: a page in which an event was rejected while others were still to be dispatched, and the loop and the
  deliverer waiting for each other.
\<close>

section \<open>Enriching keeps the tables and the events\<close>

lemma keeps_enrich_refs [keeps_intros]:
  "keeps (\<lambda>nd. f (nd_db nd)) (enrich_transaction E ns i)" "keeps (\<lambda>nd. f (nd_db nd)) (enrich_operation E ns j)"
  "keeps (\<lambda>nd. f (nd_db nd)) (GetBlockchainEventByIDCached E ns l)"
proof -
  have a: "keeps (\<lambda>nd. f (nd_db nd)) (tx_alloc tx)" "keeps (\<lambda>nd. f (nd_db nd)) (op_alloc op)" for tx op
    by (simp_all add: keeps_def tx_alloc_def op_alloc_def)
  have c: "keeps (\<lambda>nd. f (nd_db nd)) (updateTransactionsCache E p)" "keeps (\<lambda>nd. f (nd_db nd)) (cacheOperation E p)"
    "keeps (\<lambda>nd. f (nd_db nd)) (addBlockchainEventToCache E be)" for p be
    unfolding updateTransactionsCache_def tx_deref_def cacheOperation_def op_deref_def addBlockchainEventToCache_def
    by (intro keeps_intros keeps_modify, simp)+
  show "keeps (\<lambda>nd. f (nd_db nd)) (enrich_transaction E ns i)" "keeps (\<lambda>nd. f (nd_db nd)) (enrich_operation E ns j)"
    "keeps (\<lambda>nd. f (nd_db nd)) (GetBlockchainEventByIDCached E ns l)"
    unfolding enrich_transaction_def enrich_operation_def GetTransactionByIDCached_def GetOperationByIDCached_def tx_deref_def op_deref_def
      GetTransactionByID_def GetOperationByID_def getCachedOperation_def GetBlockchainEventByIDCached_def GetBlockchainEventByID_def
    by (intro keeps_intros a c)+
qed

lemmas enrich_reads = GetContractAPIByID_def GetFFIByID_def GetTokenPoolByID_def GetDatatypeByID_def GetTokenApprovalByID_def
  GetTokenTransferByID_def GetIdentityByID_def

lemma keeps_with_reference [keeps_intros]:
  "(\<And>i. keeps (\<lambda>nd. f (nd_db nd)) (get i)) \<Longrightarrow> keeps (\<lambda>nd. f (nd_db nd)) (with_reference E r get)"
  unfolding with_reference_def by (intro keeps_intros)

lemma keeps_enrichEvent [keeps_intros]: "keeps (\<lambda>nd. f (nd_db nd)) (enrichEvent E ns ev)"
  unfolding enrichEvent_def Let_def enrich_reads
  by (cases "ev_Type ev"; simp only: event_type.case; intro keeps_intros; (simp only: split_beta)?; intro keeps_intros)

lemma enrichEvent_event: "enrichEvent E ns ev nd = (Inr e, nd') \<Longrightarrow> en_Event e = ev"
  unfolding enrichEvent_def Let_def
  by (cases "ev_Type ev") (auto simp: bindM_eq_Inr plain_event_def split: prod.splits)

lemma enrichEvents_events: "enrichEvents E ns evs nd = (Inr es, nd') \<Longrightarrow> map en_Event es = evs"
  unfolding enrichEvents_def
  by (induction evs arbitrary: es nd) (auto simp: bindM_eq_Inr dest: enrichEvent_event)

lemma enrichEvents_db: "enrichEvents E ns evs nd = (r, nd') \<Longrightarrow> nd_db nd' = nd_db nd"
  using keepsD [of "\<lambda>nd. nd_db nd" "enrichEvents E ns evs"] keeps_mapM [of evs "\<lambda>nd. nd_db nd"] keeps_enrichEvent [of "\<lambda>d. d"]
  unfolding enrichEvents_def by blast

lemma read_data_db: "keeps (\<lambda>nd. nd_db nd) (read_data E dc e)"
  unfolding read_data_def by (intro keeps_intros keeps_GetMessageDataCached [where f = "\<lambda>d. d"])

lemma deliver_fields:
  "es_inflight (deliver E dc chunk ok s) = es_inflight s" "es_log (deliver E dc chunk ok s) = es_log s"
  "es_loop (deliver E dc chunk ok s) = es_loop s" "es_pollingOffset (deliver E dc chunk ok s) = es_pollingOffset s"
  "es_stored (deliver E dc chunk ok s) = es_stored s" "es_acksNacks (deliver E dc chunk ok s) = es_acksNacks s"
  "es_eventDelivery (deliver E dc chunk ok s) = es_eventDelivery s"
  "nd_db (es_node (deliver E dc chunk ok s)) = nd_db (es_node s)"
  "es_deliverer (deliver E dc chunk ok s) \<noteq> DvBlocked an rest"
  using keepsD [OF read_data_db] keepsD [OF keeps_mapM [OF read_data_db]]
  by (auto simp: deliver_def rejecting_def split: list.splits prod.splits sum.splits)

section \<open>The invariant\<close>

definition tbl :: "ed_conf \<Rightarrow> ed_state \<Rightarrow> event set" where
  "tbl dc s = set (ns_events (dc_namespace dc) (nd_db (es_node s)))"

definition accounted :: "ed_state \<Rightarrow> event \<Rightarrow> bool" where
  "accounted s e \<longleftrightarrow> LogSkipped (ev_ID e) \<in> set (es_log s) \<or> LogAcked (ev_ID e) \<in> set (es_log s)"

definition passed :: "ed_conf \<Rightarrow> int \<Rightarrow> ed_state \<Rightarrow> int \<Rightarrow> bool" where
  "passed dc o0 s off \<longleftrightarrow> (\<forall>e \<in> tbl dc s. o0 < ev_Sequence e \<longrightarrow> ev_Sequence e \<le> off \<longrightarrow> accounted s e) \<and>
     (off \<le> o0 \<or> (\<exists>e \<in> tbl dc s. off \<le> ev_Sequence e))"

definition page_ok :: "ed_conf \<Rightarrow> int \<Rightarrow> ed_state \<Rightarrow> page \<Rightarrow> event list \<Rightarrow> bool" where
  "page_ok dc o0 s pg Q \<longleftrightarrow>
     sorted_wrt (<) (map ev_Sequence Q) \<and> set Q \<subseteq> tbl dc s \<and>
     (\<forall>e \<in> set Q \<union> snd ` set (es_inflight s). ev_Sequence e \<le> pg_highest pg) \<and>
     (\<forall>e \<in> snd ` set (es_inflight s). \<forall>q \<in> set Q. ev_Sequence e < ev_Sequence q) \<and>
     (pg_nacks pg = 0 \<longrightarrow> (\<forall>e \<in> tbl dc s. o0 < ev_Sequence e \<longrightarrow> ev_Sequence e \<le> pg_highest pg \<longrightarrow>
        accounted s e \<or> e \<in> set Q \<or> e \<in> snd ` set (es_inflight s))) \<and>
     (\<exists>e \<in> tbl dc s. pg_highest pg \<le> ev_Sequence e)"

definition handle_ok :: "ed_conf \<Rightarrow> ed_state \<Rightarrow> event list \<Rightarrow> bool" where
  "handle_ok dc s evs \<longleftrightarrow> evs \<noteq> [] \<and> set evs \<subseteq> tbl dc s \<and> sorted_wrt (<) (map ev_Sequence evs) \<and>
     (\<forall>e \<in> tbl dc s. es_pollingOffset s < ev_Sequence e \<longrightarrow> ev_Sequence e \<le> ev_Sequence (last evs) \<longrightarrow> e \<in> set evs)"

definition loop_ok :: "ed_conf \<Rightarrow> int \<Rightarrow> ed_state \<Rightarrow> bool" where
  "loop_ok dc o0 s \<longleftrightarrow> (case es_loop s of
     LpRead \<Rightarrow> es_inflight s = []
   | LpHandle evs \<Rightarrow> es_inflight s = [] \<and> handle_ok dc s evs
   | LpRound pg \<Rightarrow> page_ok dc o0 s pg (map en_Event (pg_matching pg))
   | LpMark pg todo all \<Rightarrow> todo \<noteq> [] \<and> length (es_inflight s) + length todo \<le> dc_readAhead dc + 1 \<and>
       page_ok dc o0 s pg (map en_Event (todo @ pg_matching pg))
   | LpPut pg chunk rest \<Rightarrow> es_inflight s \<noteq> [] \<and> length (es_inflight s) + length rest \<le> dc_readAhead dc + 1 \<and>
       page_ok dc o0 s pg (map en_Event (rest @ pg_matching pg))
   | LpSelect pg \<Rightarrow> es_inflight s \<noteq> [] \<and> page_ok dc o0 s pg (map en_Event (pg_matching pg))
   | LpClosed \<Rightarrow> True)"

definition base_ok :: "ed_conf \<Rightarrow> int \<Rightarrow> ed_state \<Rightarrow> bool" where
  "base_ok dc o0 s \<longleftrightarrow>
     events_ok (ns_events (dc_namespace dc) (nd_db (es_node s))) \<and>
     (\<forall>(i, e) \<in> set (es_inflight s). e \<in> tbl dc s \<and> ev_ID e = i) \<and>
     distinct (map fst (es_inflight s)) \<and>
     length (es_inflight s) \<le> dc_readAhead dc + 1 \<and> length (es_eventDelivery s) \<le> dc_readAhead dc + 1 \<and>
     passed dc o0 s (es_pollingOffset s) \<and> passed dc o0 s (es_stored s) \<and>
     (\<forall>an \<in> set (es_acksNacks s). \<not> an_isNack an \<longrightarrow>
        (\<exists>e \<in> tbl dc s. ev_ID e = an_id an \<and> ev_Sequence e = an_offset an \<and> accounted s e)) \<and>
     (\<forall>an rest. es_deliverer s = DvBlocked an rest \<longrightarrow> an_isNack an)"

definition ed_inv :: "ed_conf \<Rightarrow> int \<Rightarrow> ed_state \<Rightarrow> bool" where
  "ed_inv dc o0 s \<longleftrightarrow> base_ok dc o0 s \<and> loop_ok dc o0 s"

lemmas ed_views = tbl_def accounted_def passed_def page_ok_def handle_ok_def

lemma tbl_id:
  assumes "base_ok dc o0 s" "e \<in> tbl dc s" "e' \<in> tbl dc s" "ev_ID e = ev_ID e'"
  shows "e = e'"
proof -
  have "inj_on ev_ID (tbl dc s)" using assms(1) by (simp add: base_ok_def events_ok_def tbl_def distinct_map)
  then show ?thesis using assms(2-4) unfolding inj_on_def by blast
qed

lemma tbl_nonneg: "base_ok dc o0 s \<Longrightarrow> e \<in> tbl dc s \<Longrightarrow> 0 \<le> ev_Sequence e"
  unfolding base_ok_def events_ok_def tbl_def by blast

lemma passed_mono: "passed dc o0 s off \<Longrightarrow> off' \<le> off \<Longrightarrow> passed dc o0 s off'"
  unfolding passed_def by force

text \<open>A step that keeps the tables, the offsets and the events in flight, and only adds to the log, keeps what was known.\<close>

lemma passed_cong: "tbl dc s' = tbl dc s \<Longrightarrow> set (es_log s) \<subseteq> set (es_log s') \<Longrightarrow> passed dc o0 s off \<Longrightarrow> passed dc o0 s' off"
  unfolding passed_def accounted_def by blast

lemma page_okI:
  "sorted_wrt (<) (map ev_Sequence Q) \<Longrightarrow> set Q \<subseteq> tbl dc s \<Longrightarrow>
   (\<And>e. e \<in> set Q \<Longrightarrow> ev_Sequence e \<le> pg_highest pg) \<Longrightarrow>
   (\<And>e. e \<in> snd ` set (es_inflight s) \<Longrightarrow> ev_Sequence e \<le> pg_highest pg) \<Longrightarrow>
   (\<And>e q. e \<in> snd ` set (es_inflight s) \<Longrightarrow> q \<in> set Q \<Longrightarrow> ev_Sequence e < ev_Sequence q) \<Longrightarrow>
   (\<And>e. pg_nacks pg = 0 \<Longrightarrow> e \<in> tbl dc s \<Longrightarrow> o0 < ev_Sequence e \<Longrightarrow> ev_Sequence e \<le> pg_highest pg \<Longrightarrow>
      accounted s e \<or> e \<in> set Q \<or> e \<in> snd ` set (es_inflight s)) \<Longrightarrow>
   \<exists>e \<in> tbl dc s. pg_highest pg \<le> ev_Sequence e \<Longrightarrow> page_ok dc o0 s pg Q"
  unfolding page_ok_def by blast

lemma page_okD:
  assumes "page_ok dc o0 s pg Q"
  shows "sorted_wrt (<) (map ev_Sequence Q)" and "set Q \<subseteq> tbl dc s"
    and "e \<in> set Q \<Longrightarrow> ev_Sequence e \<le> pg_highest pg"
    and "e \<in> snd ` set (es_inflight s) \<Longrightarrow> ev_Sequence e \<le> pg_highest pg"
    and "e \<in> snd ` set (es_inflight s) \<Longrightarrow> q \<in> set Q \<Longrightarrow> ev_Sequence e < ev_Sequence q"
    and "pg_nacks pg = 0 \<Longrightarrow> e \<in> tbl dc s \<Longrightarrow> o0 < ev_Sequence e \<Longrightarrow> ev_Sequence e \<le> pg_highest pg \<Longrightarrow>
      accounted s e \<or> e \<in> set Q \<or> e \<in> snd ` set (es_inflight s)"
    and "\<exists>e \<in> tbl dc s. pg_highest pg \<le> ev_Sequence e"
  using assms unfolding page_ok_def by blast+

lemma page_ok_cong:
  assumes "tbl dc s' = tbl dc s" "set (es_log s) \<subseteq> set (es_log s')" "es_inflight s' = es_inflight s" "page_ok dc o0 s pg Q"
  shows "page_ok dc o0 s' pg Q"
proof -
  have "accounted s e \<Longrightarrow> accounted s' e" for e using assms(2) unfolding accounted_def by blast
  then show ?thesis using page_okD [OF assms(4)] by (intro page_okI) (simp_all only: assms(1,3), blast)
qed

lemma handle_ok_cong:
  "tbl dc s' = tbl dc s \<Longrightarrow> es_pollingOffset s' = es_pollingOffset s \<Longrightarrow> handle_ok dc s evs \<Longrightarrow> handle_ok dc s' evs"
  unfolding handle_ok_def by simp

lemma loop_ok_cong:
  assumes "tbl dc s' = tbl dc s" "set (es_log s) \<subseteq> set (es_log s')" "es_inflight s' = es_inflight s"
    "es_pollingOffset s' = es_pollingOffset s" "es_loop s' = es_loop s" "loop_ok dc o0 s"
  shows "loop_ok dc o0 s'"
  using assms(6) page_ok_cong [OF assms(1-3)] handle_ok_cong [OF assms(1,4)] unfolding loop_ok_def assms(3,5)
  by (cases "es_loop s") auto

text \<open>The table of events gets further rows.\<close>

lemma events_growD:
  assumes "events_grow (dc_namespace dc) (nd_db (es_node s)) (nd_db nd)" "s' = s \<lparr> es_node := nd \<rparr>"
  shows "tbl dc s \<subseteq> tbl dc s'" and "e \<in> tbl dc s' \<Longrightarrow> e \<notin> tbl dc s \<Longrightarrow> e0 \<in> tbl dc s \<Longrightarrow> ev_Sequence e0 < ev_Sequence e"
proof -
  let ?old = "ns_events (dc_namespace dc) (nd_db (es_node s))" and ?new = "ns_events (dc_namespace dc) (nd_db nd)"
  obtain xs where x: "?new = ?old @ xs" using assms(1) unfolding events_grow_def by (metis append_take_drop_id)
  show "tbl dc s \<subseteq> tbl dc s'" by (simp add: tbl_def assms(2) x)
  have "sorted_wrt (<) (map ev_Sequence (?old @ xs))" using assms(1) x unfolding events_grow_def events_ok_def by simp
  then show "e \<in> tbl dc s' \<Longrightarrow> e \<notin> tbl dc s \<Longrightarrow> e0 \<in> tbl dc s \<Longrightarrow> ev_Sequence e0 < ev_Sequence e"
    by (auto simp: tbl_def assms(2) x sorted_wrt_append)
qed

lemma grow_step:
  assumes "ed_inv dc o0 s" "events_grow (dc_namespace dc) (nd_db (es_node s)) (nd_db nd)"
  shows "ed_inv dc o0 (s \<lparr> es_node := nd \<rparr>)"
proof -
  let ?s = "s \<lparr> es_node := nd \<rparr>"
  note sub = events_growD(1) [OF assms(2) refl] and new = events_growD(2) [OF assms(2) refl]
  have b: "base_ok dc o0 s" and l: "loop_ok dc o0 s" using assms(1) by (auto simp: ed_inv_def)
  have acc: "accounted ?s = accounted s" by (intro ext) (simp add: accounted_def)
  have below: "e \<in> tbl dc s" if "e \<in> tbl dc ?s" "o0 < ev_Sequence e" "ev_Sequence e \<le> off" "off \<le> o0 \<or> (\<exists>x \<in> tbl dc s. off \<le> ev_Sequence x)" for e off
    using new [OF that(1)] that(2-) by force
  have p: "passed dc o0 ?s off" if "passed dc o0 s off" for off
    using that below [of _ off] sub unfolding passed_def acc by blast
  have pg: "page_ok dc o0 ?s pg Q" if "page_ok dc o0 s pg Q" for pg Q
  proof -
    have "e \<in> tbl dc s" if "e \<in> tbl dc ?s" "o0 < ev_Sequence e" "ev_Sequence e \<le> pg_highest pg" for e
      using below [OF that] \<open>page_ok dc o0 s pg Q\<close> unfolding page_ok_def by blast
    then show ?thesis using page_okD [OF that] sub by (intro page_okI) (simp_all add: acc, blast+)
  qed
  have h: "handle_ok dc ?s evs" if h: "handle_ok dc s evs" for evs
  proof -
    have "last evs \<in> tbl dc s" using h last_in_set unfolding handle_ok_def by blast
    then have "e \<in> tbl dc s" if "e \<in> tbl dc ?s" "ev_Sequence e \<le> ev_Sequence (last evs)" for e
      using new [OF that(1), of "last evs"] that(2) by force
    then show ?thesis using h sub unfolding handle_ok_def by auto
  qed
  have "events_ok (ns_events (dc_namespace dc) (nd_db nd))" using assms(2) by (simp add: events_grow_def)
  then have "base_ok dc o0 ?s" using b p sub unfolding base_ok_def acc by (auto 0 4 split: prod.splits)
  moreover have "loop_ok dc o0 ?s" using l pg h unfolding loop_ok_def by (cases "es_loop s") auto
  ultimately show ?thesis by (simp add: ed_inv_def)
qed

section \<open>The steps of the loop\<close>

lemma base_okD:
  assumes "base_ok dc o0 s"
  shows "events_ok (ns_events (dc_namespace dc) (nd_db (es_node s)))"
    and "(i, e) \<in> set (es_inflight s) \<Longrightarrow> e \<in> tbl dc s \<and> ev_ID e = i"
    and "distinct (map fst (es_inflight s))"
    and "length (es_inflight s) \<le> dc_readAhead dc + 1" and "length (es_eventDelivery s) \<le> dc_readAhead dc + 1"
    and "passed dc o0 s (es_pollingOffset s)" and "passed dc o0 s (es_stored s)"
    and "an \<in> set (es_acksNacks s) \<Longrightarrow> \<not> an_isNack an \<Longrightarrow>
      \<exists>e \<in> tbl dc s. ev_ID e = an_id an \<and> ev_Sequence e = an_offset an \<and> accounted s e"
    and "es_deliverer s = DvBlocked an rest \<Longrightarrow> an_isNack an"
  using assms unfolding base_ok_def by blast+

text \<open>Changes of the fields the base does not speak about, and of those it does.\<close>

lemma base_ok_loop [simp]: "base_ok dc o0 (s \<lparr> es_loop := l \<rparr>) = base_ok dc o0 s"
  by (simp add: base_ok_def ed_views)

lemma base_ok_delay [simp]: "base_ok dc o0 (s \<lparr> es_batchDelay := l \<rparr>) = base_ok dc o0 s"
  by (simp add: base_ok_def ed_views)

lemma base_ok_committed [simp]: "base_ok dc o0 (s \<lparr> es_offsetCommitted := l \<rparr>) = base_ok dc o0 s"
  by (simp add: base_ok_def ed_views)

lemma base_ok_closed [simp]: "base_ok dc o0 (s \<lparr> es_closed := l \<rparr>) = base_ok dc o0 s"
  by (simp add: base_ok_def ed_views)

lemma base_ok_polling: "base_ok dc o0 s \<Longrightarrow> passed dc o0 s off \<Longrightarrow> base_ok dc o0 (s \<lparr> es_pollingOffset := off \<rparr>)"
  by (simp add: base_ok_def ed_views)

lemma base_ok_stored: "base_ok dc o0 s \<Longrightarrow> passed dc o0 s off \<Longrightarrow> base_ok dc o0 (s \<lparr> es_stored := off \<rparr>)"
  by (simp add: base_ok_def ed_views)

lemma base_ok_inflight:
  "base_ok dc o0 s \<Longrightarrow> (\<And>i e. (i, e) \<in> set infl \<Longrightarrow> e \<in> tbl dc s \<and> ev_ID e = i) \<Longrightarrow> distinct (map fst infl) \<Longrightarrow>
     length infl \<le> dc_readAhead dc + 1 \<Longrightarrow> base_ok dc o0 (s \<lparr> es_inflight := infl \<rparr>)"
  by (auto simp: base_ok_def ed_views)

lemma base_ok_node: "base_ok dc o0 s \<Longrightarrow> nd_db nd = nd_db (es_node s) \<Longrightarrow> base_ok dc o0 (s \<lparr> es_node := nd \<rparr>)"
  by (simp add: base_ok_def ed_views)

lemma base_ok_log: "base_ok dc o0 s \<Longrightarrow> base_ok dc o0 (s \<lparr> es_log := es_log s @ xs \<rparr>)"
  by (auto simp: base_ok_def ed_views)

lemma base_ok_commit:
  assumes "base_ok dc o0 s" "passed dc o0 s off"
  shows "base_ok dc o0 (commitOffset_ed dc off s)"
  using base_ok_polling [OF assms] by (simp add: commitOffset_ed_def set_polling_ed_def Let_def)

lemma tbl_inflight: "tbl dc (s \<lparr> es_inflight := infl \<rparr>) = tbl dc s"
  by (simp add: tbl_def)

lemma commit_fields [simp]:
  "es_inflight (commitOffset_ed dc off s) = es_inflight s" "tbl dc (commitOffset_ed dc off s) = tbl dc s"
  "es_log (commitOffset_ed dc off s) = es_log s"
  by (simp_all add: commitOffset_ed_def set_polling_ed_def Let_def tbl_def)

lemma read_step:
  assumes "ed_inv dc o0 s" "es_loop s = LpRead"
  shows "ed_inv dc o0 (loop_read E dc s)"
proof -
  let ?n = "pc_batchSize (dc_poller dc)"
  have b: "base_ok dc o0 s" and i: "es_inflight s = []" using assms by (auto simp: ed_inv_def loop_ok_def)
  obtain r nd where g: "GetEvents_after E (dc_namespace dc) (es_pollingOffset s) ?n (es_node s) = (r, nd)" by fastforce
  have db: "nd_db nd = nd_db (es_node s)" using keepsD [OF keeps_db_read g [unfolded GetEvents_after_def]] .
  have b': "base_ok dc o0 (s \<lparr> es_node := nd \<rparr>)" by (rule base_ok_node [OF b db])
  show ?thesis
  proof (cases r)
    case (Inl e)
    then show ?thesis using b' i assms(2) by (simp add: loop_read_def g ed_inv_def loop_ok_def)
  next
    case (Inr evs)
    let ?tbl = "ns_events (dc_namespace dc) (nd_db (es_node s))"
    let ?xs = "filter (\<lambda>ev. ev_Sequence ev > es_pollingOffset s) ?tbl"
    have so: "sorted_wrt (<) (map ev_Sequence ?tbl)" using base_okD(1) [OF b] by (simp add: events_ok_def)
    then have "sorted (map ev_Sequence ?tbl)" by (rule strict_sorted_imp_sorted)
    then have evs: "evs = take ?n ?xs"
      using g Inr unfolding GetEvents_after_def by (auto simp: db_read_Inr sort_key_id_if_sorted)
    have sx: "sorted_wrt (<) (map ev_Sequence ?xs)"
      using so by (simp add: sorted_wrt_map sorted_wrt_filter)
    have "handle_ok dc (s \<lparr> es_node := nd \<rparr>) evs" if "evs \<noteq> []"
    proof -
      have "e \<in> set evs" if e: "e \<in> set ?xs" "ev_Sequence e \<le> ev_Sequence (last evs)" for e
      proof (rule ccontr)
        assume "e \<notin> set evs"
        then have d: "e \<in> set (drop ?n ?xs)" using e(1) evs by (metis Un_iff append_take_drop_id set_append)
        have "last evs \<in> set (take ?n ?xs)" using \<open>evs \<noteq> []\<close> evs last_in_set by blast
        moreover have "sorted_wrt (\<lambda>x y. ev_Sequence x < ev_Sequence y) (take ?n ?xs @ drop ?n ?xs)"
          using sx by (simp only: append_take_drop_id sorted_wrt_map)
        ultimately have "ev_Sequence (last evs) < ev_Sequence e" using d unfolding sorted_wrt_append by blast
        then show False using e(2) by simp
      qed
      moreover have "sorted_wrt (<) (map ev_Sequence evs)" using sx evs by (simp add: sorted_wrt_map sorted_wrt_take)
      moreover have "set evs \<subseteq> set ?tbl" using evs by (auto dest: in_set_takeD)
      ultimately show ?thesis using that by (simp add: handle_ok_def tbl_def db)
    qed
    then show ?thesis using b' i assms(2) Inr
      by (auto simp: loop_read_def g Let_def ed_inv_def loop_ok_def handle_ok_def tbl_def)
  qed
qed

lemma handle_step:
  assumes "ed_inv dc o0 s" "es_loop s = LpHandle evs"
  shows "ed_inv dc o0 (loop_handle E dc evs s)"
proof -
  have b: "base_ok dc o0 s" and i: "es_inflight s = []" and h: "handle_ok dc s evs" using assms by (auto simp: ed_inv_def loop_ok_def)
  obtain r nd where g: "enrichEvents E (dc_namespace dc) evs (es_node s) = (r, nd)" by fastforce
  have db: "nd_db nd = nd_db (es_node s)" by (rule enrichEvents_db [OF g])
  show ?thesis
  proof (cases r)
    case (Inl e)
    then show ?thesis using base_ok_node [OF b db] h i assms(2)
      by (simp add: loop_handle_def g ed_inv_def loop_ok_def handle_ok_def tbl_def db)
  next
    case (Inr cands)
    let ?P = "MatchesEvent E (dc_sub dc)"
    let ?log = "[LogSkipped (ev_ID (en_Event e)). e \<leftarrow> cands, \<not> ?P e]"
    let ?pg = "\<lparr> pg_matching = filter ?P cands, pg_lastAck = 0, pg_nacks = 0, pg_highest = ev_Sequence (last evs) \<rparr>"
    let ?s = "s \<lparr> es_node := nd, es_log := es_log s @ ?log, es_loop := LpRound ?pg \<rparr>"
    have c: "map en_Event cands = evs" using enrichEvents_events g Inr by blast
    have st: "loop_handle E dc evs s = ?s" by (simp add: loop_handle_def g Inr filterEvents_def Let_def)
    have tb: "tbl dc ?s = tbl dc s" by (simp add: tbl_def db)
    have so: "sorted_wrt (\<lambda>x y. ev_Sequence (en_Event x) < ev_Sequence (en_Event y)) cands"
      using h unfolding handle_ok_def c [symmetric] by (simp add: sorted_wrt_map)
    have le: "ev_Sequence e \<le> ev_Sequence (last evs)" if "e \<in> set evs" for e
    proof -
      have "sorted (map ev_Sequence evs)" using h unfolding handle_ok_def by (intro strict_sorted_imp_sorted) blast
      moreover obtain k where "k < length evs" "e = evs ! k" using \<open>e \<in> set evs\<close> by (auto simp: in_set_conv_nth)
      moreover have "evs \<noteq> []" using \<open>e \<in> set evs\<close> by auto
      ultimately show ?thesis by (simp add: last_conv_nth sorted_iff_nth_mono)
    qed
    have lt: "last evs \<in> tbl dc s" using h last_in_set unfolding handle_ok_def by blast
    have q: "set (map en_Event (filter ?P cands)) \<subseteq> set evs" unfolding c [symmetric] by auto
    have "page_ok dc o0 ?s ?pg (map en_Event (filter ?P cands))"
    proof (rule page_okI)
      show "sorted_wrt (<) (map ev_Sequence (map en_Event (filter ?P cands)))"
        using so by (simp add: sorted_wrt_map sorted_wrt_filter)
      show "set (map en_Event (filter ?P cands)) \<subseteq> tbl dc ?s"
        using h q unfolding handle_ok_def tb by blast
      show "\<exists>e \<in> tbl dc ?s. pg_highest ?pg \<le> ev_Sequence e"
        using lt unfolding tb by (intro bexI [of _ "last evs"]) simp_all
      show "ev_Sequence e \<le> pg_highest ?pg" if "e \<in> set (map en_Event (filter ?P cands))" for e
        using le that c by auto
      show "accounted ?s e \<or> e \<in> set (map en_Event (filter ?P cands)) \<or> e \<in> snd ` set (es_inflight ?s)"
        if e: "e \<in> tbl dc ?s" "o0 < ev_Sequence e" "ev_Sequence e \<le> pg_highest ?pg" for e
      proof (cases "ev_Sequence e \<le> es_pollingOffset s")
        case True
        then have "accounted s e" using base_okD(6) [OF b] e unfolding tb passed_def by blast
        then show ?thesis by (simp add: accounted_def) blast
      next
        case False
        then have "e \<in> set evs" using h e unfolding handle_ok_def tb by simp
        then obtain x where x: "x \<in> set cands" "e = en_Event x" using c by auto
        then show ?thesis by (cases "?P x") (auto simp: accounted_def)
      qed
    qed (simp_all add: i)
    moreover have "base_ok dc o0 ?s" using base_ok_log [OF base_ok_node [OF b db], of ?log] by simp
    ultimately show ?thesis unfolding st by (simp add: ed_inv_def loop_ok_def)
  qed
qed

text \<open>Once nothing is in flight and nothing is left to dispatch, everything up to the end of the page is accounted for.\<close>

lemma after_dispatch_step:
  assumes "base_ok dc o0 s" "page_ok dc o0 s pg (map en_Event (pg_matching pg))"
    and "es_inflight s = [] \<Longrightarrow> pg_matching pg = []"
  shows "ed_inv dc o0 (after_dispatch dc pg s)"
proof (cases "es_inflight s = []")
  case False
  have "page_ok dc o0 (s \<lparr> es_loop := LpSelect pg \<rparr>) pg (map en_Event (pg_matching pg))"
    by (rule page_ok_cong [OF _ _ _ assms(2)]) (simp_all add: tbl_def)
  then show ?thesis using False assms(1) by (simp add: after_dispatch_def ed_inv_def loop_ok_def)
next
  case True
  note m = assms(3) [OF True]
  have "base_ok dc o0 (commitOffset_ed dc (pg_highest pg) s)" if "pg_nacks pg = 0"
  proof (rule base_ok_commit [OF assms(1)])
    show "passed dc o0 s (pg_highest pg)"
      using page_okD(6,7) [OF assms(2)] that True m unfolding passed_def by auto
  qed
  then show ?thesis using True assms(1) by (simp add: after_dispatch_def end_page_def ed_inv_def loop_ok_def)
qed

lemma page_matching [simp]: "page_ok dc o0 s (pg \<lparr> pg_matching := m \<rparr>) Q = page_ok dc o0 s pg Q"
  by (simp add: page_ok_def)

lemma round_step:
  assumes "ed_inv dc o0 s" "es_loop s = LpRound pg"
  shows "ed_inv dc o0 (loop_round dc pg s)"
proof -
  have b: "base_ok dc o0 s" and p: "page_ok dc o0 s pg (map en_Event (pg_matching pg))" using assms by (auto simp: ed_inv_def loop_ok_def)
  obtain todo later where d: "dispatchable dc pg s = (todo, later)" by fastforce
  have sp: "pg_matching pg = todo @ later" and le: "length (es_inflight s) + length todo \<le> dc_readAhead dc + 1"
    and ne: "todo = [] \<Longrightarrow> es_inflight s = [] \<Longrightarrow> later = []"
    using d base_okD(4) [OF b] by (auto simp: dispatchable_def Let_def split: if_splits)
  show ?thesis
  proof (cases "todo = []")
    case True
    have "ed_inv dc o0 (after_dispatch dc (pg \<lparr> pg_matching := later \<rparr>) s)"
      by (rule after_dispatch_step [OF b]) (use p sp True ne in simp_all)
    then show ?thesis using True by (simp add: loop_round_def d)
  next
    case False
    have "page_ok dc o0 (s \<lparr> es_loop := l \<rparr>) pg (map en_Event (todo @ later))" for l
      by (rule page_ok_cong [OF _ _ _ p [unfolded sp]]) (simp_all add: tbl_def)
    then show ?thesis using False b le by (simp add: loop_round_def d ed_inv_def loop_ok_def Let_def)
  qed
qed

lemma assoc_put_in: "(i, x) \<in> set kvs \<Longrightarrow> i \<noteq> k \<Longrightarrow> (i, x) \<in> set (assoc_put k v kvs)" "(k, v) \<in> set (assoc_put k v kvs)"
  by (induction kvs) auto

lemma assoc_put_distinct: "distinct (map fst kvs) \<Longrightarrow> distinct (map fst (assoc_put k v kvs))"
  by (induction kvs) (auto dest: assoc_put_member)

lemma assoc_put_length: "length (assoc_put k v kvs) \<le> Suc (length kvs)"
  by (induction kvs) auto

lemma assoc_put_ne: "assoc_put k v kvs \<noteq> []"
  using assoc_put_in(2) [of k v kvs] by force

lemma mark_page:
  assumes "base_ok dc o0 s" "page_ok dc o0 s pg (ev # Q)" "length (es_inflight s) < dc_readAhead dc + 1"
    and "s' = s \<lparr> es_inflight := assoc_put (ev_ID ev) ev (es_inflight s) \<rparr>"
  shows "base_ok dc o0 s' \<and> page_ok dc o0 s' pg Q"
proof
  let ?infl = "assoc_put (ev_ID ev) ev (es_inflight s)"
  note p = page_okD [OF assms(2)]
  have ev: "ev \<in> tbl dc s" using p(2) by simp
  show "base_ok dc o0 s'"
    unfolding assms(4)
  proof (rule base_ok_inflight [OF assms(1)])
    show "distinct (map fst ?infl)" by (rule assoc_put_distinct [OF base_okD(3) [OF assms(1)]])
    show "length ?infl \<le> dc_readAhead dc + 1" using assoc_put_length [of "ev_ID ev" ev "es_inflight s"] assms(3) by linarith
    show "e \<in> tbl dc s \<and> ev_ID e = i" if "(i, e) \<in> set ?infl" for i e
      using assoc_put_member [OF that] base_okD(2) [OF assms(1)] ev by blast
  qed
  have tb: "tbl dc s' = tbl dc s" and acc: "accounted s' = accounted s" and inf: "es_inflight s' = ?infl"
    by (auto simp: tbl_def accounted_def assms(4) intro!: ext)
  have in1: "e \<in> snd ` set ?infl \<Longrightarrow> e = ev \<or> e \<in> snd ` set (es_inflight s)" for e
    by (auto dest: assoc_put_member)
  have in2: "e \<in> snd ` set ?infl" if "e = ev \<or> e \<in> snd ` set (es_inflight s)" for e
  proof (cases "e = ev")
    case True
    then show ?thesis using assoc_put_in(2) [of "ev_ID ev" ev "es_inflight s"] by force
  next
    case False
    then obtain i where i: "(i, e) \<in> set (es_inflight s)" using \<open>e = ev \<or> _\<close> by auto
    then have "e \<in> tbl dc s" "ev_ID e = i" using base_okD(2) [OF assms(1)] by blast+
    then have "i \<noteq> ev_ID ev" using tbl_id [OF assms(1) _ ev] False by blast
    then show ?thesis using assoc_put_in(1) [OF i] by force
  qed
  show "page_ok dc o0 s' pg Q"
  proof (rule page_okI, unfold tb acc inf)
    show "accounted s e \<or> e \<in> set Q \<or> e \<in> snd ` set ?infl"
      if "pg_nacks pg = 0" "e \<in> tbl dc s" "o0 < ev_Sequence e" "ev_Sequence e \<le> pg_highest pg" for e
      using p(6) [OF that] in2 [of e] by auto
    show "ev_Sequence e < ev_Sequence q" if "e \<in> snd ` set ?infl" "q \<in> set Q" for e q
      using in1 [OF that(1)] p(1) p(5) [of e q] that(2) by auto
    show "ev_Sequence e \<le> pg_highest pg" if "e \<in> snd ` set ?infl" for e
      using in1 [OF that] p(3) [of ev] p(4) [of e] by auto
  qed (use p in auto)
qed

lemma mark_step:
  assumes "ed_inv dc o0 s" "es_loop s = LpMark pg todo all"
  shows "ed_inv dc o0 (loop_mark dc pg todo all s)"
proof -
  have b: "base_ok dc o0 s" and t: "todo \<noteq> []" "length (es_inflight s) + length todo \<le> dc_readAhead dc + 1"
    and p: "page_ok dc o0 s pg (map en_Event (todo @ pg_matching pg))" using assms by (auto simp: ed_inv_def loop_ok_def)
  obtain e rest where e: "todo = e # rest" using t(1) by (cases todo) auto
  let ?s = "s \<lparr> es_inflight := assoc_put (ev_ID (en_Event e)) (en_Event e) (es_inflight s) \<rparr>"
  have m: "base_ok dc o0 ?s \<and> page_ok dc o0 ?s pg (map en_Event (rest @ pg_matching pg))"
    by (rule mark_page [OF b _ _ refl]) (use p t e in simp_all)
  have ne: "es_inflight ?s \<noteq> []" by (simp add: assoc_put_ne)
  have le: "length (es_inflight ?s) + length rest \<le> dc_readAhead dc + 1"
    using assoc_put_length [of "ev_ID (en_Event e)" "en_Event e" "es_inflight s"] t(2) e by simp
  have pg: "page_ok dc o0 (?s \<lparr> es_loop := l \<rparr>) pg (map en_Event (rest @ pg_matching pg))" for l
    by (rule page_ok_cong [OF _ _ _ conjunct2 [OF m]]) (simp_all add: tbl_def)
  show ?thesis using m pg ne le by (auto simp: loop_mark_def e Let_def ed_inv_def loop_ok_def)
qed

lemma put_step:
  assumes "ed_inv dc o0 s" "es_loop s = LpPut pg chunk rest" "length (es_eventDelivery s) < dc_readAhead dc + 1"
  shows "ed_inv dc o0 (loop_put dc pg chunk rest s)"
proof -
  have b: "base_ok dc o0 s" and t: "es_inflight s \<noteq> []" "length (es_inflight s) + length rest \<le> dc_readAhead dc + 1"
    and p: "page_ok dc o0 s pg (map en_Event (rest @ pg_matching pg))" using assms by (auto simp: ed_inv_def loop_ok_def)
  let ?s = "s \<lparr> es_eventDelivery := es_eventDelivery s @ [chunk] \<rparr>"
  have b': "base_ok dc o0 ?s" using b assms(3) by (simp add: base_ok_def ed_views)
  have pg: "page_ok dc o0 (?s \<lparr> es_loop := l \<rparr>) pg (map en_Event (rest @ pg_matching pg))" for l
    by (rule page_ok_cong [OF _ _ _ p]) (simp_all add: tbl_def)
  have p': "page_ok dc o0 ?s pg (map en_Event (rest @ pg_matching pg))"
    by (rule page_ok_cong [OF _ _ _ p]) (simp_all add: tbl_def)
  show ?thesis
  proof (cases "rest = []")
    case True
    have "ed_inv dc o0 (after_dispatch dc pg ?s)"
      by (rule after_dispatch_step [OF b']) (use p' t True in simp_all)
    then show ?thesis using True by (simp add: loop_put_def)
  next
    case False
    then show ?thesis using pg b' t by (simp add: loop_put_def ed_inv_def loop_ok_def)
  qed
qed

lemma lowest_fold:
  "0 \<le> low \<Longrightarrow> (\<And>i e. (i, e) \<in> set infl \<Longrightarrow> 0 \<le> ev_Sequence e) \<Longrightarrow>
     r = fold (\<lambda>(_, ev) low. if low < 0 \<or> ev_Sequence ev < low then ev_Sequence ev else low) infl low \<Longrightarrow>
     0 \<le> r \<and> r \<le> low \<and> (\<forall>(i, e) \<in> set infl. r \<le> ev_Sequence e)"
proof (induction infl arbitrary: low)
  case (Cons p infl)
  obtain i e where p: "p = (i, e)" by fastforce
  let ?low = "if ev_Sequence e < low then ev_Sequence e else low"
  have e: "0 \<le> ev_Sequence e" using Cons.prems(2) [of i e] p by simp
  have "0 \<le> r \<and> r \<le> ?low \<and> (\<forall>(i, e) \<in> set infl. r \<le> ev_Sequence e)"
    by (rule Cons.IH) (use Cons.prems e p in auto)
  then show ?case using p by (auto split: if_splits)
qed simp

lemma lowest_inflight_le:
  assumes "\<And>i e. (i, e) \<in> set infl \<Longrightarrow> 0 \<le> ev_Sequence e" "(i, e) \<in> set infl"
  shows "0 \<le> lowest_inflight infl \<and> lowest_inflight infl \<le> ev_Sequence e"
proof -
  obtain j x rest where c: "infl = (j, x) # rest" using assms(2) by (cases infl) auto
  have "0 \<le> lowest_inflight infl \<and> lowest_inflight infl \<le> ev_Sequence x \<and> (\<forall>(i, e) \<in> set rest. lowest_inflight infl \<le> ev_Sequence e)"
    by (rule lowest_fold) (use assms(1) c in \<open>auto simp: lowest_inflight_def\<close>)
  then show ?thesis using assms(2) c by auto
qed

text \<open>An acknowledged event: what is below it, and not in flight any more, is accounted for.\<close>

lemma ack_passed:
  assumes "base_ok dc o0 s" "page_ok dc o0 s pg Q" "es_inflight s \<noteq> []" "pg_nacks pg = 0"
    and "e \<in> tbl dc s" "ev_ID e = i" "ev_Sequence e = off" "accounted s e"
    and "lowest_inflight (assoc_del i (es_inflight s)) = -1 \<or> off < lowest_inflight (assoc_del i (es_inflight s))"
  shows "passed dc o0 s off"
proof -
  let ?infl = "assoc_del i (es_inflight s)"
  note p = page_okD [OF assms(2)]
  have nn: "0 \<le> ev_Sequence x" if "(j, x) \<in> set (es_inflight s)" for j x
    using tbl_nonneg [OF assms(1)] base_okD(2) [OF assms(1) that] by blast
  have low: "off < ev_Sequence x" if x: "(j, x) \<in> set ?infl" for j x
    using lowest_inflight_le [OF _ x] nn assms(9) by (force simp: set_assoc_del)
  have key: "e = x" if "(i, x) \<in> set (es_inflight s)" for x
    using base_okD(2) [OF assms(1) that] tbl_id [OF assms(1,5), of x] assms(6) by simp
  obtain j x where jx: "(j, x) \<in> set (es_inflight s)" using assms(3) by (cases "es_inflight s") auto
  have x: "off \<le> ev_Sequence x"
    using low [of j x] jx key [of x] assms(7) by (cases "j = i") (auto simp: set_assoc_del)
  have inx: "x \<in> snd ` set (es_inflight s)" using jx by force
  have "accounted s y" if y: "y \<in> tbl dc s" "o0 < ev_Sequence y" "ev_Sequence y \<le> off" for y
  proof -
    have "ev_Sequence y \<le> pg_highest pg" using y(3) x p(4) [OF inx] by linarith
    then consider "accounted s y" | "y \<in> set Q" | "y \<in> snd ` set (es_inflight s)" using p(6) [OF assms(4) y(1,2)] by blast
    then show ?thesis
    proof cases
      case 2
      then show ?thesis using p(5) [OF inx, of y] x y(3) by simp
    next
      case 3
      then obtain k where k: "(k, y) \<in> set (es_inflight s)" by auto
      then have "k = i" using low [of k y] y(3) by (cases "k = i") (auto simp: set_assoc_del)
      then show ?thesis using key k assms(8) by blast
    qed simp
  qed
  then show ?thesis using assms(5,7) unfolding passed_def by auto
qed

lemma assoc_del_distinct: "distinct (map fst kvs) \<Longrightarrow> distinct (map fst (assoc_del k kvs))"
  by (simp add: assoc_del_def distinct_map_filter)

lemma receive_step:
  assumes "base_ok dc o0 s" "page_ok dc o0 s pg (map en_Event (pg_matching pg))" "es_inflight s \<noteq> []"
    and "\<not> an_isNack an \<Longrightarrow> \<exists>e \<in> tbl dc s. ev_ID e = an_id an \<and> ev_Sequence e = an_offset an \<and> accounted s e"
  shows "ed_inv dc o0 (loop_receive dc pg an s)"
proof -
  note p = page_okD [OF assms(2)]
  consider "an_isNack an" | "\<not> an_isNack an" "pg_nacks pg \<noteq> 0" | "\<not> an_isNack an" "pg_nacks pg = 0" by blast
  then show ?thesis
  proof cases
    case 1
    let ?off = "if es_pollingOffset s > an_offset an then an_offset an - 1 else es_pollingOffset s"
    let ?s = "s \<lparr> es_pollingOffset := ?off, es_inflight := [] \<rparr>"
    have h: "handleNackOffsetUpdate an s = ?s"
      by (simp add: handleNackOffsetUpdate_def rewindPollingOffset_ed_def set_polling_ed_def Let_def)
    have "passed dc o0 s ?off" by (rule passed_mono [OF base_okD(6) [OF assms(1)]]) auto
    then have b: "base_ok dc o0 ?s" by (intro base_ok_inflight base_ok_polling assms(1)) simp_all
    have "page_ok dc o0 (?s \<lparr> es_loop := l \<rparr>) (pg \<lparr> pg_nacks := Suc (pg_nacks pg) \<rparr>) (map en_Event (pg_matching pg))" for l
      by (rule page_okI) (use p in \<open>simp_all add: tbl_def\<close>)
    then show ?thesis using 1 b by (simp add: loop_receive_def h ed_inv_def loop_ok_def)
  next
    case 2
    have "page_ok dc o0 (s \<lparr> es_loop := l \<rparr>) pg (map en_Event (pg_matching pg))" for l
      by (rule page_ok_cong [OF _ _ _ assms(2)]) (simp_all add: tbl_def)
    then show ?thesis using 2 assms(1) by (simp add: loop_receive_def ed_inv_def loop_ok_def)
  next
    case 3
    obtain e where e: "e \<in> tbl dc s" "ev_ID e = an_id an" "ev_Sequence e = an_offset an" "accounted s e" using assms(4) 3 by blast
    let ?infl = "assoc_del (an_id an) (es_inflight s)"
    let ?s1 = "s \<lparr> es_inflight := ?infl \<rparr>" and ?s2 = "handleAckOffsetUpdate dc an s"
    have "length ?infl \<le> length (es_inflight s)" by (simp add: assoc_del_def)
    then have b1: "base_ok dc o0 ?s1"
      using base_okD(2,4) [OF assms(1)] assoc_del_distinct [OF base_okD(3) [OF assms(1)]]
      by (intro base_ok_inflight assms(1)) auto
    have "passed dc o0 ?s1 (an_offset an)" if "lowest_inflight ?infl = -1 \<or> an_offset an < lowest_inflight ?infl"
      by (rule passed_cong [OF _ _ ack_passed [OF assms(1-3) 3(2) e that]]) (simp_all add: tbl_def)
    then have b2: "base_ok dc o0 ?s2" using base_ok_commit [OF b1] b1 by (auto simp: handleAckOffsetUpdate_def Let_def)
    have f: "es_inflight ?s2 = ?infl" "tbl dc ?s2 = tbl dc s" "es_log ?s2 = es_log s"
      by (simp_all add: handleAckOffsetUpdate_def Let_def tbl_inflight)
    have sub: "snd ` set ?infl \<subseteq> snd ` set (es_inflight s)" by (auto simp: set_assoc_del)
    have pg: "page_ok dc o0 (?s2 \<lparr> es_loop := l \<rparr>) (pg \<lparr> pg_lastAck := k \<rparr>) (map en_Event (pg_matching pg))" for l k
    proof -
      let ?s3 = "?s2 \<lparr> es_loop := l \<rparr>"
      have tb: "tbl dc ?s3 = tbl dc s" "accounted ?s3 = accounted s" "es_inflight ?s3 = ?infl"
        using f by (auto simp: tbl_def accounted_def intro!: ext)
      have cov: "accounted s x \<or> x \<in> set (map en_Event (pg_matching pg)) \<or> x \<in> snd ` set ?infl"
        if x: "x \<in> tbl dc s" "o0 < ev_Sequence x" "ev_Sequence x \<le> pg_highest pg" for x
      proof (cases "x \<in> snd ` set (es_inflight s)")
        case True
        then obtain j where j: "(j, x) \<in> set (es_inflight s)" by auto
        show ?thesis
        proof (cases "j = an_id an")
          case True
          then have "ev_ID x = ev_ID e" using base_okD(2) [OF assms(1) j] e(2) by simp
          then have "x = e" by (rule tbl_id [OF assms(1) x(1) e(1)])
          then show ?thesis using e(4) by simp
        next
          case False
          then have "(j, x) \<in> set ?infl" using j by (simp add: set_assoc_del)
          then have "x \<in> snd ` set ?infl" by (rule image_eqI [rotated]) simp
          then show ?thesis by blast
        qed
      qed (use p(6) [OF 3(2) x] in blast)
      let ?Q = "map en_Event (pg_matching pg)" and ?pg = "pg \<lparr> pg_lastAck := k \<rparr>"
      show ?thesis
      proof (rule page_okI)
        show "set ?Q \<subseteq> tbl dc ?s3" unfolding tb by (rule p(2))
        show "ev_Sequence x \<le> pg_highest ?pg" if "x \<in> set ?Q" for x using p(3) [OF that] by simp
        show "ev_Sequence x \<le> pg_highest ?pg" if "x \<in> snd ` set (es_inflight ?s3)" for x
          using p(4) [of x] sub that unfolding tb by auto
        show "ev_Sequence x < ev_Sequence y" if "x \<in> snd ` set (es_inflight ?s3)" "y \<in> set ?Q" for x y
          using p(5) [of x y] sub that unfolding tb by blast
        show "accounted ?s3 x \<or> x \<in> set ?Q \<or> x \<in> snd ` set (es_inflight ?s3)"
          if "x \<in> tbl dc ?s3" "o0 < ev_Sequence x" "ev_Sequence x \<le> pg_highest ?pg" for x
          using cov [of x] that unfolding tb by simp
        show "\<exists>x \<in> tbl dc ?s3. pg_highest ?pg \<le> ev_Sequence x" using p(7) unfolding tb by simp
      qed (rule p(1))
    qed
    show ?thesis using 3 b2 pg by (simp add: loop_receive_def ed_inv_def loop_ok_def)
  qed
qed

section \<open>Every step\<close>

lemma ed_invI_same:
  assumes "ed_inv dc o0 s" "tbl dc s' = tbl dc s" "set (es_log s) \<subseteq> set (es_log s')" "es_inflight s' = es_inflight s"
    "es_pollingOffset s' = es_pollingOffset s" "es_loop s' = es_loop s" "base_ok dc o0 s'"
  shows "ed_inv dc o0 s'"
  using assms loop_ok_cong [OF assms(2-6)] by (simp add: ed_inv_def)

lemma base_ok_acks: "base_ok dc o0 s \<Longrightarrow> set acks \<subseteq> set (es_acksNacks s) \<Longrightarrow> base_ok dc o0 (s \<lparr> es_acksNacks := acks \<rparr>)"
  unfolding base_ok_def ed_views by (simp add: subset_iff)

lemma base_ok_deliverer:
  "base_ok dc o0 s \<Longrightarrow> (\<And>an rest. d = DvBlocked an rest \<Longrightarrow> an_isNack an) \<Longrightarrow> base_ok dc o0 (s \<lparr> es_deliverer := d \<rparr>)"
  by (simp add: base_ok_def ed_views)

lemma not_blocked [simp]: "rejecting es \<noteq> DvBlocked an rest"
  by (simp add: rejecting_def)

lemma page_ok_fields [simp]:
  "page_ok dc o0 (s \<lparr> es_acksNacks := acks \<rparr>) pg Q = page_ok dc o0 s pg Q"
  "page_ok dc o0 (s \<lparr> es_deliverer := d \<rparr>) pg Q = page_ok dc o0 s pg Q"
  by (simp_all add: ed_views)

lemma respond_step:
  assumes "ed_inv dc o0 s"
  shows "ed_inv dc o0 (deliveryResponse i rejected s)"
proof (cases "map_of (es_inflight s) i")
  case None
  then show ?thesis using assms by (simp add: deliveryResponse_def inflight_response_def)
next
  case (Some ev)
  let ?an = "\<lparr> an_id = i, an_isNack = rejected, an_offset = ev_Sequence ev \<rparr>"
  let ?log = "if rejected then [] else [LogAcked i]"
  let ?s = "s \<lparr> es_acksNacks := es_acksNacks s @ [?an], es_log := es_log s @ ?log \<rparr>"
  have b: "base_ok dc o0 s" using assms by (simp add: ed_inv_def)
  have "ev \<in> tbl dc s \<and> ev_ID ev = i" using base_okD(2) [OF b map_of_SomeD [OF Some]] .
  then have "base_ok dc o0 ?s" using base_ok_log [OF b, of ?log] by (auto simp: base_ok_def ed_views)
  then have "ed_inv dc o0 ?s" by (intro ed_invI_same [OF assms]) (auto simp: tbl_def)
  then show ?thesis by (simp add: deliveryResponse_def inflight_response_def Some)
qed

lemma deliver_step:
  assumes "ed_inv dc o0 s"
  shows "ed_inv dc o0 (deliver E dc chunk ok s)"
proof -
  have b: "base_ok dc o0 s" using assms by (simp add: ed_inv_def)
  let ?s = "deliver E dc chunk ok s"
  have t: "tbl dc ?s = tbl dc s" by (simp add: tbl_def deliver_fields)
  have "base_ok dc o0 ?s"
    using b unfolding base_ok_def passed_def accounted_def t deliver_fields(1,2,4-8) by (simp add: deliver_fields(9))
  then show ?thesis using t by (intro ed_invI_same [OF assms]) (simp_all add: deliver_fields)
qed

lemma ed_step_inv:
  assumes "ed_inv dc o0 s" "ed_step E dc l s = Some s'"
  shows "ed_inv dc o0 s'"
proof -
  have b: "base_ok dc o0 s" using assms(1) by (simp add: ed_inv_def)
  have same: "ed_inv dc o0 (s \<lparr> es_deliverer := d, es_eventDelivery := ch \<rparr>)"
    if "\<And>an rest. d = DvBlocked an rest \<Longrightarrow> an_isNack an" "length ch \<le> dc_readAhead dc + 1" for d ch
    using b that by (intro ed_invI_same [OF assms(1)]) (auto simp: base_ok_def ed_views)
  have dv: "ed_inv dc o0 (s \<lparr> es_deliverer := d \<rparr>)" if "\<And>an rest. d = DvBlocked an rest \<Longrightarrow> an_isNack an" for d
    using same [OF that, where ch = "es_eventDelivery s"] base_okD(5) [OF b] by simp
  show ?thesis
  proof (cases l)
    case EdRead
    then show ?thesis using assms read_step by (auto simp: ed_step_def split: loop_pc.splits)
  next
    case EdHandle
    then show ?thesis using assms handle_step by (auto simp: ed_step_def split: loop_pc.splits)
  next
    case EdRound
    then show ?thesis using assms round_step by (auto simp: ed_step_def split: loop_pc.splits)
  next
    case EdMark
    then show ?thesis using assms mark_step by (auto simp: ed_step_def split: loop_pc.splits)
  next
    case EdPut
    then show ?thesis using assms put_step by (auto simp: ed_step_def split: loop_pc.splits if_splits)
  next
    case (EdReceive k)
    then obtain pg where pg: "es_loop s = LpSelect pg" and k: "k < length (es_acksNacks s)"
      and s': "s' = loop_receive dc pg (es_acksNacks s ! k) (s \<lparr> es_acksNacks := drop_nth k (es_acksNacks s) \<rparr>)"
      using assms(2) by (auto simp: ed_step_def split: loop_pc.splits if_splits)
    have b': "base_ok dc o0 (s \<lparr> es_acksNacks := drop_nth k (es_acksNacks s) \<rparr>)"
      by (rule base_ok_acks [OF b]) (auto simp: drop_nth_def dest: in_set_takeD in_set_dropD)
    have "es_acksNacks s ! k \<in> set (es_acksNacks s)" using k by simp
    note an = base_okD(8) [OF b this]
    show ?thesis unfolding s'
      by (rule receive_step [OF b']) (use assms(1) pg an in \<open>auto simp: ed_inv_def loop_ok_def tbl_def accounted_def\<close>)
  next
    case EdReceiveDeliverer
    then obtain pg an rest where pg: "es_loop s = LpSelect pg" "es_deliverer s = DvBlocked an rest"
      and s': "s' = loop_receive dc pg an (s \<lparr> es_deliverer := rejecting rest \<rparr>)"
      using assms(2) by (auto simp: ed_step_def split: loop_pc.splits deliver_pc.splits)
    have b': "base_ok dc o0 (s \<lparr> es_deliverer := rejecting rest \<rparr>)" by (rule base_ok_deliverer [OF b]) simp
    show ?thesis unfolding s'
      by (rule receive_step [OF b']) (use assms(1) pg base_okD(9) [OF b] in \<open>auto simp: ed_inv_def loop_ok_def\<close>)
  next
    case EdLoopExit
    then show ?thesis using b assms(2) by (auto simp: ed_step_def ed_inv_def loop_ok_def split: if_splits)
  next
    case EdTake
    then obtain ch chs where "es_eventDelivery s = ch # chs" "s' = s \<lparr> es_deliverer := DvServe ch, es_eventDelivery := chs \<rparr>"
      using assms(2) by (auto simp: ed_step_def split: deliver_pc.splits list.splits)
    then show ?thesis using same [of "DvServe ch" chs] base_okD(5) [OF b] by simp
  next
    case (EdDeliver ok)
    then show ?thesis using assms deliver_step by (auto simp: ed_step_def split: deliver_pc.splits)
  next
    case EdReject
    then obtain es where "s' = reject_next es s" using assms(2) by (auto simp: ed_step_def split: deliver_pc.splits)
    then show ?thesis by (auto simp: reject_next_def inflight_response_def split: list.splits option.splits intro!: dv)
  next
    case EdCancelled
    then show ?thesis using assms(2) by (auto simp: ed_step_def split: deliver_pc.splits if_splits intro!: dv)
  next
    case EdDelivererExit
    then show ?thesis using assms(2) by (auto simp: ed_step_def split: if_splits intro!: dv)
  next
    case (EdRespond i r)
    then show ?thesis using assms respond_step by (auto simp: ed_step_def)
  next
    case (EdResponseDropped k)
    have "base_ok dc o0 (s \<lparr> es_acksNacks := drop_nth k (es_acksNacks s) \<rparr>)"
      by (rule base_ok_acks [OF b]) (auto simp: drop_nth_def dest: in_set_takeD in_set_dropD)
    then show ?thesis using EdResponseDropped assms
      by (auto simp: ed_step_def tbl_def split: if_splits intro!: ed_invI_same [OF assms(1)])
  next
    case EdCommit
    have "base_ok dc o0 (s \<lparr> es_offsetCommitted := None, es_stored := es_pollingOffset s \<rparr>)"
      using b by (simp add: base_ok_def ed_views)
    then have "ed_inv dc o0 (s \<lparr> es_offsetCommitted := None, es_stored := es_pollingOffset s \<rparr>)"
      by (intro ed_invI_same [OF assms(1)]) (simp_all add: tbl_def)
    then show ?thesis using EdCommit assms(2) by (auto simp: ed_step_def split: option.splits)
  next
    case EdClose
    have "ed_inv dc o0 (s \<lparr> es_closed := True \<rparr>)" using b by (intro ed_invI_same [OF assms(1)]) (simp_all add: tbl_def)
    then show ?thesis using EdClose assms(2) by (simp add: ed_step_def)
  next
    case (EdOther nd)
    then show ?thesis using assms grow_step by (auto simp: ed_step_def split: if_splits)
  qed
qed

lemma run_ed_inv: "ed_inv dc o0 s \<Longrightarrow> run_ed E dc ls s = Some s' \<Longrightarrow> ed_inv dc o0 s'"
  by (induction ls arbitrary: s) (auto split: option.splits dest: ed_step_inv)

lemma ed_start_inv: "events_ok (ns_events (dc_namespace dc) (nd_db nd)) \<Longrightarrow> ed_inv dc off (ed_start nd off)"
  by (auto simp: ed_inv_def base_ok_def loop_ok_def ed_start_def passed_def)

text \<open>C35: Wherever the dispatcher's threads, the client's responses and new events take it from a restored offset: every event of
  its namespace beyond that offset and up to the polling offset, or up to the offset stored for the next restart, was either found not
  to match the subscription or acknowledged by the client. No event is lost to acknowledgements out of order, nacks or rewinds.\<close>

theorem dispatcher_loses_no_event:
  assumes "events_ok (ns_events (dc_namespace dc) (nd_db nd))" "run_ed E dc ls (ed_start nd off) = Some s"
    and "ev \<in> set (ns_events (dc_namespace dc) (nd_db (es_node s)))" "off < ev_Sequence ev"
    and "ev_Sequence ev \<le> es_pollingOffset s \<or> ev_Sequence ev \<le> es_stored s"
  shows "LogSkipped (ev_ID ev) \<in> set (es_log s) \<or> LogAcked (ev_ID ev) \<in> set (es_log s)"
proof -
  have "base_ok dc off s" using run_ed_inv [OF ed_start_inv [OF assms(1)] assms(2)] by (simp add: ed_inv_def)
  from base_okD(6,7) [OF this] show ?thesis using assms(3-5) unfolding passed_def accounted_def tbl_def by blast
qed

text \<open>C36: No more events are in flight than the read ahead and one, the responses of the client are awaited for at most those, and the
  channel to the deliverer never holds more chunks than it was made for.\<close>

theorem dispatcher_readahead_bound:
  assumes "events_ok (ns_events (dc_namespace dc) (nd_db nd))" "run_ed E dc ls (ed_start nd off) = Some s"
  shows "length (es_inflight s) \<le> dc_readAhead dc + 1 \<and> distinct (map fst (es_inflight s)) \<and>
    length (es_eventDelivery s) \<le> dc_readAhead dc + 1"
proof -
  have "base_ok dc off s" using run_ed_inv [OF ed_start_inv [OF assms(1)] assms(2)] by (simp add: ed_inv_def)
  from base_okD(3-5) [OF this] show ?thesis by blast
qed

section \<open>Threads that wait for ever\<close>

text \<open>What clients and transports do while all goes well: deliveries are accepted and events acknowledged, nothing is closed.\<close>

definition benign :: "ed_label \<Rightarrow> bool" where
  "benign l = (case l of EdClose \<Rightarrow> False | EdRespond _ rejected \<Rightarrow> \<not> rejected | EdDeliver accepted \<Rightarrow> accepted | _ \<Rightarrow> True)"

definition nacked_wait :: "ed_conf \<Rightarrow> page \<Rightarrow> ed_state \<Rightarrow> bool" where
  "nacked_wait dc pg s \<longleftrightarrow> (es_loop s = LpSelect pg \<or> es_loop s = LpRound pg) \<and> pg_nacks pg > 0 \<and> es_inflight s \<noteq> [] \<and>
     dispatchable dc pg s = ([], pg_matching pg) \<and> (\<forall>an \<in> set (es_acksNacks s). \<not> an_isNack an) \<and>
     (case es_deliverer s of DvIdle \<Rightarrow> True | DvServe _ \<Rightarrow> True | _ \<Rightarrow> False) \<and> \<not> es_closed s"

lemma read_data_None: "\<not> dc_withData dc \<Longrightarrow> read_data E dc e = retM ()"
  by (auto simp: read_data_def split: option.splits)

lemma mapM_ret: "mapM (\<lambda>_. retM ()) xs nd = (Inr (map (\<lambda>_. ()) xs), nd)"
  by (induction xs) (simp_all add: retM_def bindM_def)

lemma deliver_benign:
  assumes "\<not> dc_withData dc"
  shows "\<exists>d. deliver E dc chunk True s = s \<lparr> es_deliverer := d \<rparr> \<and> (d = DvIdle \<or> (\<exists>c. d = DvServe c))"
proof -
  have r: "read_data E dc = (\<lambda>_. retM ())" using read_data_None [OF assms] by auto
  have m: "mapM (read_data E dc) chunk (es_node s) = (Inr (map (\<lambda>_. ()) chunk), es_node s)" unfolding r by (rule mapM_ret)
  have e: "read_data E dc x (es_node s) = (Inr (), es_node s)" for x by (simp add: r retM_def)
  show ?thesis
  proof (cases "dc_batch dc")
    case True
    then show ?thesis by (auto simp: deliver_def m)
  next
    case False
    then show ?thesis by (cases chunk) (auto simp: deliver_def e)
  qed
qed

lemma dispatchable_cong: "es_inflight s' = es_inflight s \<Longrightarrow> dispatchable dc pg s' = dispatchable dc pg s"
  by (simp add: dispatchable_def)

lemma nacked_wait_step:
  assumes "nacked_wait dc pg s" "\<not> dc_withData dc" "benign l" "ed_step E dc l s = Some s'"
  shows "nacked_wait dc pg s' \<and> es_pollingOffset s' = es_pollingOffset s \<and> es_inflight s' = es_inflight s"
proof -
  note w = assms(1) [unfolded nacked_wait_def]
  have keep: "nacked_wait dc pg t"
    if "es_loop t = LpSelect pg \<or> es_loop t = LpRound pg" "es_inflight t = es_inflight s"
      "\<forall>an \<in> set (es_acksNacks t). \<not> an_isNack an" "case es_deliverer t of DvIdle \<Rightarrow> True | DvServe _ \<Rightarrow> True | _ \<Rightarrow> False"
      "\<not> es_closed t" for t
    using w that dispatchable_cong [OF that(2), of dc pg] unfolding nacked_wait_def by simp
  show ?thesis
  proof (cases l)
    case EdRound
    then have "es_loop s = LpRound pg" "s' = s \<lparr> es_loop := LpSelect pg \<rparr>"
      using w assms(4) by (auto simp: ed_step_def loop_round_def after_dispatch_def Let_def)
    then show ?thesis using w by (auto intro!: keep)
  next
    case (EdReceive k)
    then have k: "es_loop s = LpSelect pg" "k < length (es_acksNacks s)"
      and s': "s' = loop_receive dc pg (es_acksNacks s ! k) (s \<lparr> es_acksNacks := drop_nth k (es_acksNacks s) \<rparr>)"
      using w assms(4) by (auto simp: ed_step_def split: if_splits)
    have "\<not> an_isNack (es_acksNacks s ! k)" using w k(2) by simp
    then have s': "s' = s \<lparr> es_acksNacks := drop_nth k (es_acksNacks s), es_loop := LpRound pg \<rparr>"
      using w unfolding s' by (simp add: loop_receive_def)
    show ?thesis using w set_drop_nth [of k "es_acksNacks s"] unfolding s' by (auto intro!: keep)
  next
    case (EdDeliver ok)
    then obtain chunk where "s' = deliver E dc chunk True s"
      using assms(3,4) by (auto simp: ed_step_def benign_def split: deliver_pc.splits)
    then obtain d where s': "s' = s \<lparr> es_deliverer := d \<rparr>" "d = DvIdle \<or> (\<exists>c. d = DvServe c)" using deliver_benign [OF assms(2)] by metis
    then show ?thesis using w unfolding s'(1) by (auto intro!: keep)
  next
    case EdTake
    then show ?thesis using w assms(4) by (auto simp: ed_step_def split: deliver_pc.splits list.splits intro!: keep)
  next
    case (EdRespond i r)
    then show ?thesis using w assms(3,4)
      by (auto simp: ed_step_def benign_def deliveryResponse_def inflight_response_def split: option.splits intro!: keep)
  next
    case EdCommit
    then show ?thesis using w assms(4) by (auto simp: ed_step_def split: option.splits intro!: keep)
  next
    case (EdOther nd)
    then show ?thesis using w assms(4) by (auto simp: ed_step_def split: if_splits intro!: keep)
  qed (use w assms(3,4) in \<open>auto simp: ed_step_def benign_def split: loop_pc.splits deliver_pc.splits if_splits\<close>)
qed

text \<open>C39: A page in which an event was rejected does not end by acknowledgements any more: once the loop waits for responses with
  events in flight and none to dispatch, then however many deliveries succeed and events are acknowledged, as long as none is rejected
  the loop stays in this page, the same events stay in flight and the polling offset stays where it is.\<close>

theorem nacked_page_never_ends:
  assumes "nacked_wait dc pg s" "\<not> dc_withData dc" "\<forall>l \<in> set ls. benign l" "run_ed E dc ls s = Some s'"
  shows "(es_loop s' = LpSelect pg \<or> es_loop s' = LpRound pg) \<and> es_inflight s' = es_inflight s \<and> es_pollingOffset s' = es_pollingOffset s"
proof -
  have "nacked_wait dc pg s' \<and> es_inflight s' = es_inflight s \<and> es_pollingOffset s' = es_pollingOffset s"
    using assms(1,3,4)
  proof (induction ls arbitrary: s)
    case (Cons l ls)
    obtain s1 where s1: "ed_step E dc l s = Some s1" "run_ed E dc ls s1 = Some s'" using Cons.prems(3) by (auto split: option.splits)
    have "nacked_wait dc pg s1 \<and> es_pollingOffset s1 = es_pollingOffset s \<and> es_inflight s1 = es_inflight s"
      using nacked_wait_step [OF Cons.prems(1) assms(2) _ s1(1)] Cons.prems(2) by simp
    then show ?case using Cons.IH [OF _ _ s1(2)] Cons.prems(2) by auto
  qed simp
  then show ?thesis unfolding nacked_wait_def by blast
qed

definition mutual_wait :: "ed_conf \<Rightarrow> ed_state \<Rightarrow> bool" where
  "mutual_wait dc s \<longleftrightarrow> (case es_loop s of LpPut _ _ _ \<Rightarrow> True | _ \<Rightarrow> False) \<and> dc_readAhead dc + 1 \<le> length (es_eventDelivery s) \<and>
     (case es_deliverer s of DvBlocked _ _ \<Rightarrow> True | _ \<Rightarrow> False) \<and> \<not> es_closed s"

lemma mutual_wait_step:
  assumes "mutual_wait dc s" "l \<noteq> EdClose" "ed_step E dc l s = Some s'"
  shows "mutual_wait dc s' \<and> es_loop s' = es_loop s \<and> es_deliverer s' = es_deliverer s \<and> es_pollingOffset s' = es_pollingOffset s"
  using assms unfolding mutual_wait_def
  by (cases l) (auto simp: ed_step_def deliveryResponse_def inflight_response_def split: option.splits if_splits loop_pc.splits deliver_pc.splits)

text \<open>C40: When the deliverer waits to hand over the nack of a delivery that failed while the loop waits to put a chunk on the full
  channel, neither moves again until the dispatcher is closed: whatever responses, commits and new events there are.\<close>

theorem mutual_wait_for_ever:
  assumes "mutual_wait dc s" "EdClose \<notin> set ls" "run_ed E dc ls s = Some s'"
  shows "es_loop s' = es_loop s \<and> es_deliverer s' = es_deliverer s \<and> es_pollingOffset s' = es_pollingOffset s"
  using assms
proof (induction ls arbitrary: s)
  case (Cons l ls)
  obtain s1 where s1: "ed_step E dc l s = Some s1" "run_ed E dc ls s1 = Some s'" using Cons.prems(3) by (auto split: option.splits)
  have "mutual_wait dc s1 \<and> es_loop s1 = es_loop s \<and> es_deliverer s1 = es_deliverer s \<and> es_pollingOffset s1 = es_pollingOffset s"
    using mutual_wait_step [OF Cons.prems(1) _ s1(1)] Cons.prems(2) by auto
  then show ?case using Cons.IH [OF _ _ s1(2)] Cons.prems(2) by simp
qed simp

section \<open>Concrete runs\<close>

definition ed_event :: "int \<Rightarrow> string \<Rightarrow> event" where
  "ed_event n topic = (NewEvent (nat (100 + n)) 0 ET_TransactionSubmitted ''ns1'' None None topic) \<lparr> ev_Sequence := n \<rparr>"

definition ed_node0 :: "event list \<Rightarrow> node" where
  "ed_node0 evs = node_tx0 \<lparr> nd_db := db_tx0 \<lparr> db_events := evs \<rparr> \<rparr>"

definition ed_sub0 :: "16 word \<Rightarrow> subscription" where
  "ed_sub0 ra = projr (parseSubscriptionDef env0 subconf0 ((subdef0 1) \<lparr> sd_Filter := filter_all \<lparr> sf_Topic := ''t'' \<rparr>,
     sd_Options := options_none \<lparr> so_ReadAhead := Some ra \<rparr> \<rparr>))"

definition ed_conf0 :: "16 word \<Rightarrow> ed_conf" where
  "ed_conf0 ra = newEventDispatcher env0 \<lparr> bc_bufferLength = 5, bc_batchTimeout = 0 \<rparr> (ed_sub0 ra)"

text \<open>Two events match, a read ahead of one: acknowledged in the opposite order, then the offset is stored.\<close>

definition ed_run0 :: "ed_label list" where
  "ed_run0 = [EdRead, EdRead, EdHandle, EdRound, EdMark, EdPut, EdMark, EdPut, EdTake, EdDeliver True, EdTake, EdDeliver True,
     EdRespond 103 False, EdReceive 0, EdRound, EdRespond 101 False, EdReceive 0, EdRound, EdCommit]"

definition ed_evs0 :: "event list" where
  "ed_evs0 = [ed_event 1 ''t'', ed_event 2 ''x'', ed_event 3 ''t'']"

definition ed_view :: "ed_state option \<Rightarrow> (int \<times> int \<times> nat list \<times> ed_log list) option" where
  "ed_view r = map_option (\<lambda>s. (es_pollingOffset s, es_stored s, map fst (es_inflight s), es_log s)) r"

definition nack_run0 :: "ed_label list" where
  "nack_run0 = [EdRead, EdRead, EdHandle, EdRound, EdMark, EdPut, EdMark, EdPut, EdTake, EdDeliver True, EdTake, EdDeliver True,
     EdRespond 101 True, EdReceive 0, EdRound, EdMark, EdPut]"

definition ed_evs1 :: "event list" where
  "ed_evs1 = [ed_event 1 ''t'', ed_event 2 ''t'', ed_event 3 ''t'']"

text \<open>The client rejects the first event when a third is still to be dispatched.\<close>

definition nacked0 :: ed_state where
  "nacked0 = the (run_ed env0 (ed_conf0 1) nack_run0 (ed_start (ed_node0 ed_evs1) 0))"

definition nacked_page0 :: page where
  "nacked_page0 = (case es_loop nacked0 of LpSelect pg \<Rightarrow> pg | _ \<Rightarrow> \<lparr> pg_matching = [], pg_lastAck = 0, pg_nacks = 0, pg_highest = 0 \<rparr>)"

definition wait_run0 :: "ed_label list" where
  "wait_run0 = [EdRead, EdRead, EdHandle, EdRound, EdMark, EdPut, EdMark, EdPut, EdMark, EdPut, EdTake, EdDeliver True, EdTake,
     EdRespond 101 True, EdReceive 0, EdRound, EdRead, EdRead, EdHandle, EdRound, EdMark, EdPut, EdMark, EdPut, EdMark, EdDeliver False, EdReject]"

lemma dispatcher_loses_no_event_witness:
  "let s = the (run_ed env0 (ed_conf0 1) ed_run0 (ed_start (ed_node0 ed_evs0) 0))
   in es_pollingOffset s = 3 \<and> es_stored s = 3 \<and>
      (LogSkipped (ev_ID (ed_event 1 ''t'')) \<in> set (es_log s) \<or> LogAcked (ev_ID (ed_event 1 ''t'')) \<in> set (es_log s))"
proof -
  let ?r = "run_ed env0 (ed_conf0 1) ed_run0 (ed_start (ed_node0 ed_evs0) 0)"
  have 1: "ed_view ?r = Some (3, 3, [], [LogSkipped 102, LogAcked 103, LogAcked 101]) \<and>
    map_option (\<lambda>s. ns_events ''ns1'' (nd_db (es_node s))) ?r = Some ed_evs0"
    by code_simp
  then obtain s where s: "?r = Some s" "es_pollingOffset s = 3" "es_stored s = 3" "ns_events ''ns1'' (nd_db (es_node s)) = ed_evs0"
    by (auto simp: ed_view_def)
  have 2: "events_ok (ns_events (dc_namespace (ed_conf0 1)) (nd_db (ed_node0 ed_evs0))) \<and> dc_namespace (ed_conf0 1) = ''ns1'' \<and>
    ev_Sequence (ed_event 1 ''t'') = 1" by code_simp
  have "ed_event 1 ''t'' \<in> set ed_evs0" by (simp add: ed_evs0_def)
  then show ?thesis using dispatcher_loses_no_event [OF conjunct1 [OF 2] s(1), of "ed_event 1 ''t''"] s 2 by simp
qed

lemma dispatcher_readahead_bound_witness:
  "let s = the (run_ed env0 (ed_conf0 1) (take 9 ed_run0) (ed_start (ed_node0 ed_evs0) 0))
   in map fst (es_inflight s) = [101, 103] \<and> length (es_inflight s) \<le> dc_readAhead (ed_conf0 1) + 1"
proof -
  let ?r = "run_ed env0 (ed_conf0 1) (take 9 ed_run0) (ed_start (ed_node0 ed_evs0) 0)"
  have "ed_view ?r = Some (0, 0, [101, 103], [LogSkipped 102])" by code_simp
  then obtain s where s: "?r = Some s" "map fst (es_inflight s) = [101, 103]" by (auto simp: ed_view_def)
  have "events_ok (ns_events (dc_namespace (ed_conf0 1)) (nd_db (ed_node0 ed_evs0)))" by code_simp
  from dispatcher_readahead_bound [OF this s(1)] show ?thesis using s by simp
qed

lemma nacked_page_never_ends_witness:
  "let s = the (run_ed env0 (ed_conf0 1) [EdTake, EdDeliver True, EdRespond 103 False, EdReceive 0, EdRound] nacked0)
   in es_log s = [LogAcked 103] \<and> es_pollingOffset s = 0 \<and> es_inflight s = es_inflight nacked0 \<and> es_inflight nacked0 \<noteq> []"
proof -
  let ?ls = "[EdTake, EdDeliver True, EdRespond 103 False, EdReceive 0, EdRound]"
  let ?r = "run_ed env0 (ed_conf0 1) ?ls nacked0"
  have 1: "ed_view ?r = Some (0, 0, [103], [LogAcked 103])" by code_simp
  then obtain s where s: "?r = Some s" "es_log s = [LogAcked 103]" "es_pollingOffset s = 0" "es_inflight s \<noteq> []" by (auto simp: ed_view_def)
  have 2: "nacked_wait (ed_conf0 1) nacked_page0 nacked0" by code_simp
  have 3: "\<not> dc_withData (ed_conf0 1)" by code_simp
  have 4: "\<forall>l \<in> set ?ls. benign l" by (simp add: benign_def)
  show ?thesis using nacked_page_never_ends [OF 2 3 4 s(1)] s by simp
qed

text \<open>A dispatcher gets there: the client rejects the first of three events while the deliverer is busy with the second, the page is read
  again, and the delivery the deliverer was busy with fails.\<close>

lemma mutual_wait_for_ever_witness:
  "let s = the (run_ed env0 (ed_conf0 2) wait_run0 (ed_start (ed_node0 ed_evs1) 0))
   in mutual_wait (ed_conf0 2) s \<and> es_loop (the (run_ed env0 (ed_conf0 2) [EdRespond 101 False, EdRespond 103 True] s)) = es_loop s"
proof -
  let ?s = "the (run_ed env0 (ed_conf0 2) wait_run0 (ed_start (ed_node0 ed_evs1) 0))"
  let ?ls = "[EdRespond 101 False, EdRespond 103 True]"
  have 1: "mutual_wait (ed_conf0 2) ?s" by code_simp
  have "run_ed env0 (ed_conf0 2) ?ls ?s = Some (the (run_ed env0 (ed_conf0 2) ?ls ?s))" by (simp add: ed_step_def)
  from mutual_wait_for_ever [OF 1 _ this] show ?thesis using 1 by simp
qed

end
