(* ===== verification/Batch_Arrival.thy ===== *)
theory Batch_Arrival
  imports Blockchain_Events Group_Manager Event_Poller
begin

text \<open>
  The arrival of batches and of blockchain events in the event manager of internal/events: batch_pin_complete.go and
  blockchain_event.go (the pins of a batch as the blockchain orders them), persist_batch.go (the checks and the storing of the content of a
  batch), dx_callbacks.go (private batches from the data exchange), ss_callbacks.go (broadcast batches from the shared storage),
  network_action.go, and the initiation of downloads (internal/shareddownload/download_manager.go). What runs inside a
  database group collects the hooks that run once the group is committed.
\<close>

section \<open>Structures\<close>

record chain_event =
  ce_Source :: string
  ce_Name :: string
  ce_ProtocolID :: string
  ce_Output :: string
  ce_Info :: string
  ce_Timestamp :: "fftime option"
  ce_BlockchainTXID :: string

record batch_pin =
  bn_TransactionID :: "uuid option"
  bn_TransactionType :: tx_type
  bn_BatchID :: uuid
  bn_BatchHash :: "bytes32 option"
  bn_BatchPayloadRef :: string
  bn_Contexts :: "bytes32 list"
  bn_Event :: chain_event

datatype event_to_dispatch =
    ForListener string chain_event
  | BatchPinComplete string batch_pin verifier_ref
  | NetworkAction string string chain_event verifier_ref

record contract_listener =
  ln_ID :: uuid
  ln_Namespace :: string
  ln_Topic :: string

text \<open>What is sent to the download workers.\<close>

datatype download = DownloadBatch string | DownloadBlob "uuid option" string

record download_work =
  dw_opID :: uuid
  dw_data :: download
  dw_attempts :: nat
  dw_idempotent :: bool

datatype hook = HookCacheMessage message "ffdata list" | HookDownload download_work

text \<open>
  The event manager. The table of contract listeners and the multiparty contract are parameters, as is the JSON object with string fields
  that is the input of an operation.
\<close>

record event_manager =
  em_namespace :: string
  em_networkName :: string
  em_im :: identity_manager
  em_multiRow :: bool
  em_sharedstorage :: string
  em_fuel :: nat
  em_retries :: nat
  em_json_object :: "(string \<times> string) list \<Rightarrow> string"
  em_GetContractListener :: "string \<Rightarrow> contract_listener option nact"
  em_TerminateContract :: "string \<Rightarrow> chain_event \<Rightarrow> unit nact"

record arrival =
  aw_pw :: pworld
  aw_downloads :: "download_work list"

type_synonym 'a hact = "(node \<times> hook list, 'a) act"

type_synonym 'a aact = "(arrival, 'a) act"

definition onH :: "'a nact \<Rightarrow> 'a hact" where
  "onH m = (\<lambda>(nd, hs). case m nd of (r, nd') \<Rightarrow> (r, (nd', hs)))"

definition addHook :: "hook \<Rightarrow> unit hact" where
  "addHook h = modifyM (\<lambda>(nd, hs). (nd, hs @ [h]))"

definition run_hook :: "env \<Rightarrow> hook \<Rightarrow> arrival \<Rightarrow> arrival" where
  "run_hook E h w = (case h of
     HookCacheMessage msg data \<Rightarrow>
       w \<lparr> aw_pw := (aw_pw w) \<lparr> pw_node := snd (UpdateMessageCache E msg data (pw_node (aw_pw w))) \<rparr> \<rparr>
   | HookDownload work \<Rightarrow> w \<lparr> aw_downloads := aw_downloads w @ [work] \<rparr>)"

definition run_as_group_H :: "env \<Rightarrow> 'a hact \<Rightarrow> 'a aact" where
  "run_as_group_H E m = (\<lambda>w.
     let nd0 = pw_node (aw_pw w); set_node = (\<lambda>nd. w \<lparr> aw_pw := (aw_pw w) \<lparr> pw_node := nd \<rparr> \<rparr>) in
     case m (nd0, []) of (r, (nd, hs)) \<Rightarrow>
       (case run_as_group E (\<lambda>_. (r, nd)) nd0 of
          (Inl err, nd') \<Rightarrow> (Inl err, set_node nd')
        | (Inr x, nd') \<Rightarrow> (Inr x, fold (run_hook E) hs (set_node nd'))))"

section \<open>Downloads\<close>

definition createAndDispatchOp :: "env \<Rightarrow> event_manager \<Rightarrow> operation \<Rightarrow> download \<Rightarrow> bool \<Rightarrow> unit hact" where
  "createAndDispatchOp E em op d idempotent =
     bindM (onH (bindM (op_alloc op) (insert_and_cache E))) (\<lambda>_.
     addHook (HookDownload \<lparr> dw_opID = op_ID op, dw_data = d, dw_attempts = 0, dw_idempotent = idempotent \<rparr>))"

definition InitiateDownloadBatch :: "env \<Rightarrow> event_manager \<Rightarrow> uuid option \<Rightarrow> string \<Rightarrow> bool \<Rightarrow> unit hact" where
  "InitiateDownloadBatch E em tx payloadRef idempotent =
     bindM (onH (NewOperation E (em_sharedstorage em) (em_namespace em) tx OT_DownloadBatch)) (\<lambda>op.
     createAndDispatchOp E em (op \<lparr> op_Input := em_json_object em [(''payloadRef'', payloadRef)] \<rparr>) (DownloadBatch payloadRef) idempotent)"

definition InitiateDownloadBlob :: "env \<Rightarrow> event_manager \<Rightarrow> uuid option \<Rightarrow> uuid option \<Rightarrow> string \<Rightarrow> bool \<Rightarrow> unit hact" where
  "InitiateDownloadBlob E em tx dataID payloadRef idempotent =
     bindM (onH (NewOperation E (em_sharedstorage em) (em_namespace em) tx OT_DownloadBlob)) (\<lambda>op.
     createAndDispatchOp E em (op \<lparr> op_Input := em_json_object em
         [(''dataId'', case dataID of None \<Rightarrow> '''' | Some i \<Rightarrow> e_uuid_str E i), (''payloadRef'', payloadRef)] \<rparr>)
       (DownloadBlob dataID payloadRef) idempotent)"

section \<open>The content of a batch\<close>

text \<open>The data item as \<open>CalcHash\<close> leaves it, when its hash is right.\<close>

definition validateBatchData :: "env \<Rightarrow> ffdata option \<Rightarrow> ffdata option" where
  "validateBatchData E data = (case data of
     None \<Rightarrow> None
   | Some d \<Rightarrow> (case CalcHash E d of
       (Inl _, _) \<Rightarrow> None
     | (Inr hash, d') \<Rightarrow> if d_Hash d' = Some hash then Some d' else None))"

definition checkAndInitiateBlobDownloads :: "env \<Rightarrow> event_manager \<Rightarrow> batch \<Rightarrow> ffdata \<Rightarrow> bool hact" where
  "checkAndInitiateBlobDownloads E em batch d =
     (case d_Blob d of
        None \<Rightarrow> retM True
      | Some blob \<Rightarrow>
          if bh_Type (b_Header batch) \<noteq> BT_Broadcast then retM True
          else bindM (onH (GetBlobs E (em_namespace em) (\<lambda>b. bl_DataID b = d_ID d \<and> bl_Hash b = br_Hash blob))) (\<lambda>blobs.
            if blobs \<noteq> [] then retM True
            else if br_Public blob = '''' then retM False
            else bindM (InitiateDownloadBlob E em (tr_ID (bp_TX (b_Payload batch))) (d_ID d) (br_Public blob) False) (\<lambda>_. retM True)))"

text \<open>The data of a batch in order; a data item without an identifier is dereferenced.\<close>

fun validate_data :: "env \<Rightarrow> event_manager \<Rightarrow> batch \<Rightarrow> ffdata option list \<Rightarrow> ffdata list option hact" where
  "validate_data E em batch [] = retM (Some [])"
| "validate_data E em batch (data # ds) =
     (case validateBatchData E data of
        None \<Rightarrow> retM None
      | Some d \<Rightarrow>
          bindM (checkAndInitiateBlobDownloads E em batch d) (\<lambda>valid.
          if \<not> valid then retM None
          else if d_ID d = None then throwM (GoPanic ''nil pointer dereference'')
          else bindM (validate_data E em batch ds) (\<lambda>r. retM (map_option (Cons (d \<lparr> d_Namespace := em_namespace em \<rparr>)) r))))"

definition validateBatchMessage :: "env \<Rightarrow> event_manager \<Rightarrow> batch \<Rightarrow> message option \<Rightarrow> message option" where
  "validateBatchMessage E em batch msg = (case msg of
     None \<Rightarrow> None
   | Some m \<Rightarrow>
       if mh_Signer (m_Header m) \<noteq> bh_Signer (b_Header batch) then None
       else let m = m \<lparr> m_LocalNamespace := em_namespace em, m_BatchID := bh_ID (b_Header batch),
                        m_TransactionID := tr_ID (bp_TX (b_Payload batch)) \<rparr>
         in if Message_Verify E m \<noteq> None then None
            else Some (m \<lparr> m_State := MS_Pending, m_IdempotencyKey := '''' \<rparr>))"

definition validate_messages :: "env \<Rightarrow> event_manager \<Rightarrow> batch \<Rightarrow> message option list \<Rightarrow> message list option" where
  "validate_messages E em batch ms = those (map (validateBatchMessage E em batch) ms)"

text \<open>The last data item of an identifier wins in \<open>dataByID\<close>.\<close>

definition dataByID :: "ffdata list \<Rightarrow> (uuid option \<times> ffdata) list" where
  "dataByID ds = rev (map (\<lambda>d. (d_ID d, d)) ds)"

definition match_ref :: "ffdata list \<Rightarrow> data_ref \<Rightarrow> ffdata option" where
  "match_ref ds r = (case map_of (dataByID ds) (dr_ID r) of
     None \<Rightarrow> None | Some d \<Rightarrow> if d_Hash d = dr_Hash r then Some d else None)"

definition match_data :: "ffdata list \<Rightarrow> message list \<Rightarrow> (message \<times> ffdata list) list option" where
  "match_data ds msgs = those (map (\<lambda>m. map_option (Pair m) (those (map (match_ref ds) (msg_refs m)))) msgs)"

definition all_data_referenced :: "ffdata list \<Rightarrow> message list \<Rightarrow> bool" where
  "all_data_referenced ds msgs \<longleftrightarrow> length (remdups (map dr_ID (concat (map msg_refs msgs)))) = length (remdups (map d_ID ds))"

definition sentByUs :: "env \<Rightarrow> event_manager \<Rightarrow> batch \<Rightarrow> bool nact" where
  "sentByUs E em batch = bindM (attemptM (GetLocalNode E (em_im em))) (\<lambda>r.
     case r of
       Inl _ \<Rightarrow> retM False
     | Inr None \<Rightarrow> retM False
     | Inr (Some localNode) \<Rightarrow> retM (bh_Node (b_Header batch) = ib_ID (id_Base localNode)))"

fun verifyAlreadyStored :: "env \<Rightarrow> event_manager \<Rightarrow> message list \<Rightarrow> bool nact" where
  "verifyAlreadyStored E em [] = retM True"
| "verifyAlreadyStored E em (msg # msgs) =
     bindM (GetMessageWithDataCached E (em_namespace em) (mh_ID (m_Header msg)) []) (\<lambda>(msgLocal, _, _).
     case msgLocal of
       None \<Rightarrow> retM False
     | Some ml \<Rightarrow> if m_Hash ml \<noteq> m_Hash msg then retM False else verifyAlreadyStored E em msgs)"

text \<open>The individual upserts after a failed insert; a hash that does not match makes the batch invalid.\<close>

fun upsert_data :: "env \<Rightarrow> ffdata list \<Rightarrow> bool nact" where
  "upsert_data E [] = retM True"
| "upsert_data E (d # ds) = bindM (attemptM (UpsertData E UpsertOptimizationExisting d)) (\<lambda>r.
     case r of
       Inl err \<Rightarrow> if err = HashMismatch then retM False else throwM err
     | Inr _ \<Rightarrow> upsert_data E ds)"

text \<open>The number of messages that were upserted, and whether the hashes of all of them matched.\<close>

fun upsert_messages :: "env \<Rightarrow> message list \<Rightarrow> nat \<Rightarrow> (nat \<times> bool) nact" where
  "upsert_messages E [] n = retM (n, True)"
| "upsert_messages E (m # ms) n = bindM (attemptM (UpsertMessage E UpsertOptimizationExisting m)) (\<lambda>r.
     case r of
       Inl err \<Rightarrow> if err = HashMismatch then retM (n, False) else throwM err
     | Inr _ \<Rightarrow> upsert_messages E ms (Suc n))"

text \<open>
  The hooks that update the message cache. Each upsert registers one, and all of them share the loop variable (go.mod asks for Go 1.21), so
  when they run it is the index of the last message, or that of the message whose hash did not match.
\<close>

definition insert_batch_messages :: "env \<Rightarrow> message list \<Rightarrow> (message \<times> ffdata list) list \<Rightarrow> bool hact" where
  "insert_batch_messages E msgs matched =
     bindM (attemptM (onH (InsertMessages E msgs))) (\<lambda>r.
     case r of
       Inr _ \<Rightarrow> bindM (forM matched (\<lambda>(m, ds). addHook (HookCacheMessage m ds))) (\<lambda>_. retM True)
     | Inl _ \<Rightarrow>
         bindM (onH (upsert_messages E msgs 0)) (\<lambda>(n, ok).
         bindM (forM [0..<n] (\<lambda>_. case matched ! (if ok then n - 1 else n) of (m, ds) \<Rightarrow> addHook (HookCacheMessage m ds))) (\<lambda>_.
         retM ok)))"

definition insert_batch_data :: "env \<Rightarrow> ffdata list \<Rightarrow> bool nact" where
  "insert_batch_data E ds = bindM (attemptM (InsertDataArray E ds)) (\<lambda>r.
     case r of Inr _ \<Rightarrow> retM True | Inl _ \<Rightarrow> upsert_data E ds)"

definition persistBatchContent :: "env \<Rightarrow> event_manager \<Rightarrow> batch \<Rightarrow> ffdata list \<Rightarrow> message list
    \<Rightarrow> (message \<times> ffdata list) list \<Rightarrow> bool hact" where
  "persistBatchContent E em batch ds msgs matched =
     bindM (onH (sentByUs E em batch)) (\<lambda>ours.
     bindM (if ours then onH (verifyAlreadyStored E em msgs) else retM False) (\<lambda>allStored.
     if allStored then retM True
     else bindM (onH (insert_batch_data E ds)) (\<lambda>ok.
       if ok then insert_batch_messages E msgs matched else retM False)))"

definition validateAndPersistBatchContent :: "env \<Rightarrow> event_manager \<Rightarrow> batch \<Rightarrow> bool hact" where
  "validateAndPersistBatchContent E em batch =
     bindM (validate_data E em batch (bp_Data (b_Payload batch))) (\<lambda>data.
     case data of
       None \<Rightarrow> retM False
     | Some ds \<Rightarrow>
         (case validate_messages E em batch (bp_Messages (b_Payload batch)) of
            None \<Rightarrow> retM False
          | Some msgs \<Rightarrow>
              (case match_data ds msgs of
                 None \<Rightarrow> retM False
               | Some matched \<Rightarrow>
                   if \<not> all_data_referenced ds msgs then retM False
                   else persistBatchContent E em batch ds msgs matched)))"

definition batch_header_ok :: "batch \<Rightarrow> bool" where
  "batch_header_ok batch \<longleftrightarrow> bh_ID (b_Header batch) \<noteq> None \<and> tr_ID (bp_TX (b_Payload batch)) \<noteq> None \<and> b_Hash batch \<noteq> None \<and>
     bp_Messages (b_Payload batch) \<noteq> [] \<and> tr_Type (bp_TX (b_Payload batch)) \<in> {TT_BatchPin, TT_Unpinned, TT_ContractInvokePin}"

text \<open>The hash is that of the manifest, or in batches of v0.13 and older that of the payload.\<close>

definition batch_hash_ok :: "env \<Rightarrow> batch \<Rightarrow> batch_persisted \<Rightarrow> bool" where
  "batch_hash_ok E batch persisted \<longleftrightarrow>
     b_Hash batch = Some (e_sha256 E (bytes_of (bpd_Manifest persisted))) \<or> b_Hash batch = Some (BatchPayload_Hash E (b_Payload batch))"

definition persistBatch :: "env \<Rightarrow> event_manager \<Rightarrow> batch \<Rightarrow> (batch_persisted option \<times> bool) hact" where
  "persistBatch E em batch =
     (if \<not> batch_header_ok batch then retM (None, False)
      else bindM (onH (nowM E)) (\<lambda>now.
        case Batch_Confirmed E now batch of (persistedBatch, manifest) \<Rightarrow>
        if \<not> batch_hash_ok E batch persistedBatch then retM (None, False)
        else bindM (onH (InsertOrGetBatch E persistedBatch)) (\<lambda>existing.
          bindM (validateAndPersistBatchContent E em batch) (\<lambda>valid.
          if \<not> valid then retM (None, False)
          else case existing of
            Some b \<Rightarrow> retM (Some b, True)
          | None \<Rightarrow> bindM (onH (cacheBatch (getBatchCacheKey E (the (bh_ID (bpd_Header persistedBatch))) (bpd_Hash persistedBatch))
                                  persistedBatch manifest)) (\<lambda>_. retM (Some persistedBatch, True))))))"

section \<open>Batches from the data exchange and the shared storage\<close>

definition checkReceivedOffchainIdentity :: "env \<Rightarrow> event_manager \<Rightarrow> string \<Rightarrow> string \<Rightarrow> uuid option \<Rightarrow> bool nact" where
  "checkReceivedOffchainIdentity E em peerID author nodeID =
     bindM (FindIdentityForVerifier E (em_im em) [IT_Node] \<lparr> vr_Type = VR_FFDXPeerID, vr_Value = peerID \<rparr>) (\<lambda>node.
     case node of
       None \<Rightarrow> retM False
     | Some node \<Rightarrow>
         if ib_ID (id_Base node) \<noteq> nodeID then retM False
         else bindM (CachedIdentityLookupMustExist E (em_im em) author) (\<lambda>r.
           case r of
             Inl (again, err) \<Rightarrow> if again then throwM err else retM False
           | Inr org \<Rightarrow> bindM (ValidateNodeOwner (em_fuel em) E (em_im em) node org) (\<lambda>ok.
               case ok of None \<Rightarrow> throwM (I18n ''out of fuel'') | Some b \<Rightarrow> retM b)))"

definition confirm_unpinned :: "batch \<Rightarrow> fftime \<Rightarrow> message \<Rightarrow> message" where
  "confirm_unpinned batch now m = m \<lparr> m_BatchID := bh_ID (b_Header batch), m_State := MS_Confirmed, m_Confirmed := Some now \<rparr>"

definition batch_messages :: "batch \<Rightarrow> message list" where
  "batch_messages batch = [m. Some m \<leftarrow> bp_Messages (b_Payload batch)]"

definition markUnpinnedMessagesConfirmed :: "env \<Rightarrow> event_manager \<Rightarrow> batch \<Rightarrow> unit nact" where
  "markUnpinnedMessagesConfirmed E em batch =
     bindM (nowM E) (\<lambda>now.
     bindM (UpdateMessages E (em_namespace em)
        (\<lambda>m. mh_ID (m_Header m) \<in> set (map (mh_ID \<circ> m_Header) (batch_messages batch)) \<and> m_State m = MS_Pending) (confirm_unpinned batch now)) (\<lambda>_.
     forM (batch_messages batch) (\<lambda>msg.
       insert_topic_events E (bh_Namespace (b_Header batch)) ET_MessageConfirmed msg None (tr_ID (bp_TX (b_Payload batch))) (mh_Topics (m_Header msg)))))"

definition private_batch :: "env \<Rightarrow> event_manager \<Rightarrow> string \<Rightarrow> batch \<Rightarrow> group option \<Rightarrow> string hact" where
  "private_batch E em peerID batch wrapperGroup =
     (let pinned = IsPinned (tr_Type (bp_TX (b_Payload batch)));
          sender = \<lparr> mb_Identity = sr_Author (bh_Signer (b_Header batch)), mb_Node = bh_Node (b_Header batch) \<rparr>
      in bindM (case wrapperGroup of
            Some g \<Rightarrow> if pinned then retM True else onH (EnsureLocalGroup E (em_namespace em) g sender)
          | None \<Rightarrow> retM True) (\<lambda>groupOk.
         if \<not> groupOk then retM ''''
         else bindM (onH (checkReceivedOffchainIdentity E em peerID (sr_Author (bh_Signer (b_Header batch))) (bh_Node (b_Header batch)))) (\<lambda>ok.
           if \<not> ok then retM ''''
           else bindM (persistBatch E em batch) (\<lambda>(persisted, valid).
             case persisted of
               None \<Rightarrow> retM ''''
             | Some p \<Rightarrow>
                 if \<not> valid then retM ''''
                 else bindM (if pinned then retM () else onH (markUnpinnedMessagesConfirmed E em batch)) (\<lambda>_. retM (bpd_Manifest p))))))"

definition onPW :: "'a pact \<Rightarrow> 'a aact" where
  "onPW m = (\<lambda>w. case m (aw_pw w) of (r, pw) \<Rightarrow> (r, w \<lparr> aw_pw := pw \<rparr>))"

definition queueBatchRewind :: "uuid option \<Rightarrow> unit aact" where
  "queueBatchRewind i = (case i of None \<Rightarrow> throwM (GoPanic ''nil pointer dereference'') | Some i \<Rightarrow> onPW (queueRewind (RewindBatch i)))"

text \<open>The result is the manifest that the sender is answered with, as the last attempt leaves it; one that an attempt assigned whose commit
  failed is not kept.\<close>

definition privateBatchReceived :: "env \<Rightarrow> event_manager \<Rightarrow> string \<Rightarrow> batch \<Rightarrow> group option \<Rightarrow> string aact" where
  "privateBatchReceived E em peerID batch wrapperGroup =
     (if im_multiparty (em_im em) = None then retM ''''
      else if bh_Namespace (b_Header batch) \<noteq> em_networkName em then retM ''''
      else let batch = batch \<lparr> b_Header := (b_Header batch) \<lparr> bh_Namespace := em_namespace em \<rparr> \<rparr>
        in bindM (retryM (em_retries em) (run_as_group_H E (private_batch E em peerID batch wrapperGroup))) (\<lambda>manifest.
           bindM (if IsPinned (tr_Type (bp_TX (b_Payload batch))) then queueBatchRewind (bh_ID (b_Header batch)) else retM ()) (\<lambda>_.
           retM manifest)))"

text \<open>The batch as it was parsed; \<open>None\<close> when the downloaded bytes are no JSON of a batch.\<close>

definition SharedStorageBatchDownloaded :: "env \<Rightarrow> event_manager \<Rightarrow> batch option \<Rightarrow> uuid option aact" where
  "SharedStorageBatchDownloaded E em parsed =
     (case parsed of
        None \<Rightarrow> retM None
      | Some batch \<Rightarrow>
          if im_multiparty (em_im em) = None then retM None
          else if bh_Namespace (b_Header batch) \<noteq> em_networkName em then retM None
          else let batch = batch \<lparr> b_Header := (b_Header batch) \<lparr> bh_Namespace := em_namespace em \<rparr> \<rparr>
            in bindM (retryM (em_retries em) (run_as_group_H E (persistBatch E em batch))) (\<lambda>_.
               bindM (queueBatchRewind (bh_ID (b_Header batch))) (\<lambda>_. retM (bh_ID (b_Header batch)))))"

section \<open>Events of the blockchain\<close>

text \<open>What the events of one delivery collect: listeners that were looked up, topics, rows to insert, and the pins to store afterwards.\<close>

record event_batch_context =
  bc_listeners :: "(string \<times> contract_listener option) list"
  bc_topics :: "(uuid \<times> string) list"
  bc_events :: "blockchain_event list"
  bc_postInsert :: "(batch_pin \<times> verifier_ref) list"

definition SystemBatchPinTopic :: string where
  "SystemBatchPinTopic = ''ff_batch_pin''"

definition addEventToInsert :: "blockchain_event \<Rightarrow> string \<Rightarrow> event_batch_context \<Rightarrow> event_batch_context" where
  "addEventToInsert ev topic bc = bc \<lparr> bc_events := bc_events bc @ [ev], bc_topics := assoc_put (be_ID ev) topic (bc_topics bc) \<rparr>"

definition buildBlockchainEvent :: "env \<Rightarrow> string \<Rightarrow> uuid option \<Rightarrow> chain_event \<Rightarrow> blockchain_tx_ref \<Rightarrow> blockchain_event nact" where
  "buildBlockchainEvent E ns subID ev tx = bindM (newUUID E) (\<lambda>i. retM
     \<lparr> be_ID = i, be_Source = ce_Source ev, be_Namespace = ns, be_Name = ce_Name ev, be_Listener = subID, be_ProtocolID = ce_ProtocolID ev,
       be_Output = ce_Output ev, be_Info = ce_Info ev, be_Timestamp = ce_Timestamp ev, be_TX = tx \<rparr>)"

definition getTopicForChainListener :: "env \<Rightarrow> contract_listener option \<Rightarrow> string" where
  "getTopicForChainListener E listener = (case listener of
     None \<Rightarrow> SystemBatchPinTopic
   | Some l \<Rightarrow> if ln_Topic l \<noteq> '''' then ln_Topic l else e_uuid_str E (ln_ID l))"

definition getChainListenerByProtocolIDCached :: "event_manager \<Rightarrow> string \<Rightarrow> event_batch_context
    \<Rightarrow> (contract_listener option \<times> event_batch_context) nact" where
  "getChainListenerByProtocolIDCached em protocolID bc = (case map_of (bc_listeners bc) protocolID of
     Some l \<Rightarrow> retM (l, bc)
   | None \<Rightarrow> bindM (em_GetContractListener em protocolID) (\<lambda>l. retM (l, bc \<lparr> bc_listeners := assoc_put protocolID l (bc_listeners bc) \<rparr>)))"

definition handleBlockchainEventForListener :: "env \<Rightarrow> event_manager \<Rightarrow> string \<Rightarrow> chain_event \<Rightarrow> event_batch_context
    \<Rightarrow> event_batch_context nact" where
  "handleBlockchainEventForListener E em listenerID ev bc =
     bindM (getChainListenerByProtocolIDCached em listenerID bc) (\<lambda>(listener, bc).
     case listener of
       None \<Rightarrow> retM bc
     | Some l \<Rightarrow>
         if ln_Namespace l \<noteq> em_namespace em then retM bc
         else bindM (buildBlockchainEvent E (em_namespace em) (Some (ln_ID l)) ev \<lparr> btr_Type = TT_Unset, btr_ID = None, btr_BlockchainID = ce_BlockchainTXID ev \<rparr>)
           (\<lambda>be. retM (addEventToInsert be (getTopicForChainListener E (Some l)) bc)))"

definition handleBlockchainBatchPinEvent :: "env \<Rightarrow> event_manager \<Rightarrow> string \<Rightarrow> batch_pin \<Rightarrow> verifier_ref \<Rightarrow> event_batch_context
    \<Rightarrow> event_batch_context nact" where
  "handleBlockchainBatchPinEvent E em ns batchPin signingKey bc =
     (if im_multiparty (em_im em) = None then retM bc
      else case bn_TransactionID batchPin of
        None \<Rightarrow> retM bc
      | Some txID \<Rightarrow>
          if ns \<noteq> em_namespace em then retM bc
          else let batchPin = (if bn_TransactionType batchPin = TT_Unset then batchPin \<lparr> bn_TransactionType := TT_BatchPin \<rparr> else batchPin);
                   ev = bn_Event batchPin
            in bindM (PersistTransaction E (em_namespace em) txID (bn_TransactionType batchPin) (ce_BlockchainTXID ev)) (\<lambda>_.
               bindM (buildBlockchainEvent E (em_namespace em) None ev
                 \<lparr> btr_Type = bn_TransactionType batchPin, btr_ID = Some txID, btr_BlockchainID = ce_BlockchainTXID ev \<rparr>) (\<lambda>be.
               retM ((addEventToInsert be (getTopicForChainListener E None) bc)
                 \<lparr> bc_postInsert := bc_postInsert bc @ [(batchPin, signingKey)] \<rparr>))))"

definition handleBlockchainNetworkAction :: "env \<Rightarrow> event_manager \<Rightarrow> string \<Rightarrow> string \<Rightarrow> chain_event \<Rightarrow> verifier_ref \<Rightarrow> event_batch_context
    \<Rightarrow> event_batch_context nact" where
  "handleBlockchainNetworkAction E em action location ev signingKey bc =
     (if im_multiparty (em_im em) = None then retM bc
      else bindM (FindIdentityForVerifier E (em_im em) [IT_Org] signingKey) (\<lambda>resolvedAuthor.
        case resolvedAuthor of
          None \<Rightarrow> retM bc
        | Some author \<Rightarrow>
            if ib_Parent (id_Base author) \<noteq> None then retM bc
            else if action \<noteq> ''terminate'' then retM bc
            else bindM (em_TerminateContract em location ev) (\<lambda>_.
              bindM (buildBlockchainEvent E (em_namespace em) None ev
                \<lparr> btr_Type = TT_Unset, btr_ID = None, btr_BlockchainID = ce_BlockchainTXID ev \<rparr>) (\<lambda>be.
              retM (addEventToInsert be (getTopicForChainListener E None) bc)))))"

fun handle_events :: "env \<Rightarrow> event_manager \<Rightarrow> event_to_dispatch list \<Rightarrow> event_batch_context \<Rightarrow> event_batch_context nact" where
  "handle_events E em [] bc = retM bc"
| "handle_events E em (ev # evs) bc =
     bindM (case ev of
         ForListener i e \<Rightarrow> handleBlockchainEventForListener E em i e bc
       | BatchPinComplete ns pin k \<Rightarrow> handleBlockchainBatchPinEvent E em ns pin k bc
       | NetworkAction action location e k \<Rightarrow> handleBlockchainNetworkAction E em action location e k bc) (handle_events E em evs)"

text \<open>The topic is looked up under the identifier of the stored row; a missing entry is the empty string.\<close>

definition maybePersistBlockchainEvents :: "env \<Rightarrow> event_manager \<Rightarrow> event_batch_context \<Rightarrow> unit nact" where
  "maybePersistBlockchainEvents E em bc =
     bindM (InsertNewBlockchainEvents E (em_multiRow em) (em_namespace em) (bc_events bc)) (\<lambda>inserted.
     forM inserted (\<lambda>be.
       let topic = (case map_of (bc_topics bc) (be_ID be) of None \<Rightarrow> '''' | Some t \<Rightarrow> t)
       in bindM (newUUID E) (\<lambda>i. bindM (nowM E) (\<lambda>now.
          InsertEvent E (NewEvent i now ET_BlockchainEventReceived (be_Namespace be) (Some (be_ID be)) (btr_ID (be_TX be)) topic)))))"

text \<open>The pins of a batch in the order of its contexts.\<close>

definition pins_of :: "event_manager \<Rightarrow> batch_pin \<Rightarrow> verifier_ref \<Rightarrow> bool \<Rightarrow> fftime list \<Rightarrow> pin list" where
  "pins_of em batchPin signingKey private nows = map (\<lambda>(idx, h, now).
     \<lparr> p_Sequence = 0, p_Namespace = em_namespace em, p_Masked = private, p_Hash = h, p_Batch = bn_BatchID batchPin,
       p_BatchHash = bn_BatchHash batchPin, p_Index = int idx, p_Dispatched = False, p_Signer = vr_Value signingKey, p_Created = Some now \<rparr>)
     (zip [0..<length (bn_Contexts batchPin)] (zip (bn_Contexts batchPin) nows))"

definition persistContexts :: "env \<Rightarrow> event_manager \<Rightarrow> batch_pin \<Rightarrow> verifier_ref \<Rightarrow> bool \<Rightarrow> unit nact" where
  "persistContexts E em batchPin signingKey private =
     bindM (mapM (\<lambda>_. nowM E) (bn_Contexts batchPin)) (\<lambda>nows.
     let pins = pins_of em batchPin signingKey private nows
     in bindM (attemptM (InsertPins E pins)) (\<lambda>r.
        case r of Inr _ \<Rightarrow> retM () | Inl _ \<Rightarrow> forM pins (UpsertPin E)))"

definition batch_pin_ref :: "event_manager \<Rightarrow> batch_pin \<Rightarrow> pin" where
  "batch_pin_ref em batchPin = \<lparr> p_Sequence = 0, p_Namespace = '''', p_Masked = False, p_Hash = [], p_Batch = bn_BatchID batchPin,
     p_BatchHash = bn_BatchHash batchPin, p_Index = 0, p_Dispatched = False, p_Signer = '''', p_Created = None \<rparr>"

definition postBlockchainBatchPinEventInsert :: "env \<Rightarrow> event_manager \<Rightarrow> batch_pin \<Rightarrow> verifier_ref \<Rightarrow> unit hact" where
  "postBlockchainBatchPinEventInsert E em batchPin signingKey =
     (let private = (bn_BatchPayloadRef batchPin = '''')
      in bindM (onH (persistContexts E em batchPin signingKey private)) (\<lambda>_.
         bindM (onH (GetBatchForPin E (em_namespace em) (batch_pin_ref em batchPin))) (\<lambda>batch.
         if \<not> private \<and> batch = None
         then InitiateDownloadBatch E em (bn_TransactionID batchPin) (bn_BatchPayloadRef batchPin) False
         else retM ())))"

definition chain_batch :: "env \<Rightarrow> event_manager \<Rightarrow> event_to_dispatch list \<Rightarrow> unit hact" where
  "chain_batch E em evs =
     bindM (onH (handle_events E em evs \<lparr> bc_listeners = [], bc_topics = [], bc_events = [], bc_postInsert = [] \<rparr>)) (\<lambda>bc.
     bindM (if bc_events bc = [] then retM () else onH (maybePersistBlockchainEvents E em bc)) (\<lambda>_.
     forM (bc_postInsert bc) (\<lambda>(pin, k). postBlockchainBatchPinEventInsert E em pin k)))"

definition BlockchainEventBatch :: "env \<Rightarrow> event_manager \<Rightarrow> event_to_dispatch list \<Rightarrow> unit aact" where
  "BlockchainEventBatch E em evs = retryM (em_retries em) (run_as_group_H E (chain_batch E em evs))"

end
