(* ===== verification/Batch_Arrival_Props.thy ===== *)
theory Batch_Arrival_Props
  imports Batch_Arrival Aggregator_Order
begin

text \<open>
  What the arrival of batches guarantees: a batch that is accepted carries the hash it came with, and the messages and the data that
  hash to what they claim; its content is in the tables afterwards; content that was there before is never replaced by different content;
  the pins of a batch are stored under the positions of its contexts. The last section delivers a batch for a second time, and one that is
  refused.
\<close>

section \<open>Accepted batches\<close>

lemma those_mapD: "those (map f xs) = Some ys \<Longrightarrow> length ys = length xs \<and> (\<forall>x \<in> set xs. \<exists>y \<in> set ys. f x = Some y)"
proof (induction xs arbitrary: ys)
  case (Cons x xs)
  then obtain y zs where y: "f x = Some y" "those (map f xs) = Some zs" "ys = y # zs" by (auto split: option.splits)
  then show ?case using Cons.IH by fastforce
qed simp

lemma validate_dataD:
  "validate_data E em batch data s = (Inr (Some ds), s') \<Longrightarrow>
     (\<forall>x \<in> set data. \<exists>d h. x = Some d \<and> fst (CalcHash E d) = Inr h \<and> d_Hash d = Some h) \<and>
     (\<forall>d' \<in> set ds. \<exists>d. Some d \<in> set data \<and> d_ID d' = d_ID d \<and> d_Hash d' = d_Hash d)"
proof (induction data arbitrary: ds s s')
  case (Cons x data)
  obtain d where d: "validateBatchData E x = Some d" using Cons.prems by (auto simp: retM_def split: option.splits)
  then obtain d0 h where x: "x = Some d0" "CalcHash E d0 = (Inr h, d)" "d_Hash d = Some h"
    by (auto simp: validateBatchData_def split: option.splits prod.splits sum.splits if_splits)
  have same: "d_ID d = d_ID d0" "d_Hash d = d_Hash d0"
    using x(2) by (auto simp: CalcHash_def Let_def split: option.splits)
  obtain s1 s2 r where "validate_data E em batch data s1 = (Inr r, s2)" "Some ds = map_option (Cons (d \<lparr> d_Namespace := em_namespace em \<rparr>)) r"
    using Cons.prems by (auto simp: d bindM_eq_Inr retM_def throwM_def split: if_splits)
  then obtain ds' where r: "validate_data E em batch data s1 = (Inr (Some ds'), s2)" "ds = d \<lparr> d_Namespace := em_namespace em \<rparr> # ds'"
    by (cases r) auto
  show ?case using Cons.IH [OF r(1)] x same r(2) by auto
qed (auto simp: retM_def)

lemma match_refD: "match_ref ds r = Some d \<Longrightarrow> d \<in> set ds \<and> d_ID d = dr_ID r \<and> d_Hash d = dr_Hash r"
  by (auto simp: match_ref_def dataByID_def split: option.splits if_splits dest!: map_of_SomeD)

lemma validateBatchMessageD:
  "validateBatchMessage E em batch x = Some m \<Longrightarrow> \<exists>m0 m1. x = Some m0 \<and> mh_Signer (m_Header m0) = bh_Signer (b_Header batch) \<and>
     m1 = m0 \<lparr> m_LocalNamespace := em_namespace em, m_BatchID := bh_ID (b_Header batch), m_TransactionID := tr_ID (bp_TX (b_Payload batch)) \<rparr> \<and>
     Message_Verify E m1 = None \<and> m = m1 \<lparr> m_State := MS_Pending, m_IdempotencyKey := '''' \<rparr>"
  by (auto simp: validateBatchMessage_def Let_def split: option.splits if_splits)

definition content_verified :: "env \<Rightarrow> batch \<Rightarrow> bool" where
  "content_verified E batch \<longleftrightarrow>
     (\<forall>x \<in> set (bp_Messages (b_Payload batch)). case x of None \<Rightarrow> False | Some m \<Rightarrow>
        mh_Signer (m_Header m) = bh_Signer (b_Header batch) \<and> Message_Verify E m = None \<and>
        (\<forall>r \<in> set (msg_refs m). \<exists>d. Some d \<in> set (bp_Data (b_Payload batch)) \<and> d_ID d = dr_ID r \<and> d_Hash d = dr_Hash r)) \<and>
     (\<forall>x \<in> set (bp_Data (b_Payload batch)). case x of None \<Rightarrow> False | Some d \<Rightarrow> map_sum id Some (fst (CalcHash E d)) = Inr (d_Hash d))"

lemma verify_local: "Message_Verify E (m \<lparr> m_LocalNamespace := ns, m_BatchID := b, m_TransactionID := t \<rparr>) = Message_Verify E m"
proof -
  let ?m = "m \<lparr> m_LocalNamespace := ns, m_BatchID := b, m_TransactionID := t \<rparr>"
  have f: "m_Header ?m = m_Header m" "m_Data ?m = m_Data m" "m_Hash ?m = m_Hash m" by simp_all
  show ?thesis unfolding Message_Verify_def VerifyFields_def DupDataCheck_def msg_refs_def f ..
qed

lemma content_valid:
  assumes "validateAndPersistBatchContent E em batch s = (Inr True, s')"
  shows "content_verified E batch"
proof -
  let ?p = "b_Payload batch"
  obtain data s1 where v0: "validate_data E em batch (bp_Data ?p) s = (Inr data, s1)"
    and r0: "(case data of None \<Rightarrow> retM False | Some ds \<Rightarrow> (case validate_messages E em batch (bp_Messages ?p) of None \<Rightarrow> retM False
      | Some msgs \<Rightarrow> (case match_data ds msgs of None \<Rightarrow> retM False
      | Some matched \<Rightarrow> if \<not> all_data_referenced ds msgs then retM False else persistBatchContent E em batch ds msgs matched))) s1 = (Inr True, s')"
    using assms unfolding validateAndPersistBatchContent_def bindM_eq_Inr by blast
  obtain ds where ds: "data = Some ds" using r0 by (cases data) (auto simp: retM_def)
  obtain msgs where m: "validate_messages E em batch (bp_Messages ?p) = Some msgs"
    using r0 ds by (cases "validate_messages E em batch (bp_Messages ?p)") (auto simp: retM_def)
  obtain matched where mt: "match_data ds msgs = Some matched"
    using r0 ds m by (cases "match_data ds msgs") (auto simp: retM_def)
  have v: "validate_data E em batch (bp_Data ?p) s = (Inr (Some ds), s1)" using v0 ds by simp
  note vd = validate_dataD [OF v]
  have msg: "case x of None \<Rightarrow> False | Some m \<Rightarrow> mh_Signer (m_Header m) = bh_Signer (b_Header batch) \<and> Message_Verify E m = None \<and>
      (\<forall>r \<in> set (msg_refs m). \<exists>d. Some d \<in> set (bp_Data ?p) \<and> d_ID d = dr_ID r \<and> d_Hash d = dr_Hash r)" if "x \<in> set (bp_Messages ?p)" for x
  proof -
    obtain y where y: "y \<in> set msgs" "validateBatchMessage E em batch x = Some y"
      using those_mapD [OF m [unfolded validate_messages_def]] \<open>x \<in> _\<close> by blast
    obtain m0 m1 where x: "x = Some m0" "mh_Signer (m_Header m0) = bh_Signer (b_Header batch)"
      "m1 = m0 \<lparr> m_LocalNamespace := em_namespace em, m_BatchID := bh_ID (b_Header batch), m_TransactionID := tr_ID (bp_TX ?p) \<rparr>"
      "Message_Verify E m1 = None" "y = m1 \<lparr> m_State := MS_Pending, m_IdempotencyKey := '''' \<rparr>"
      using validateBatchMessageD [OF y(2)] by blast
    have refs: "msg_refs y = msg_refs m0" using x by (simp add: msg_refs_def)
    obtain z where "those (map (match_ref ds) (msg_refs y)) = Some z"
      using those_mapD [OF mt [unfolded match_data_def]] y(1) by auto
    then have "\<exists>d. Some d \<in> set (bp_Data ?p) \<and> d_ID d = dr_ID r \<and> d_Hash d = dr_Hash r" if "r \<in> set (msg_refs m0)" for r
      using those_mapD [of "match_ref ds" "msg_refs y" z] that refs match_refD vd by metis
    then show ?thesis using x verify_local by simp
  qed
  show ?thesis unfolding content_verified_def using msg vd by (fastforce split: option.splits)
qed

text \<open>C13: A batch from another node that is accepted is what its hash and its sender claim: its hash is that of its manifest (or of its
  payload), every entry is a message signed by the author and key of the batch whose own hashes verify, every data item hashes to
  the hash it carries, and the data a message refers to is in the batch with the hash the message refers to.\<close>

theorem accepted_batch_verified:
  assumes "persistBatch E em batch s = (Inr (Some p, True), s')"
  shows "batch_header_ok batch \<and> content_verified E batch \<and>
    (b_Hash batch = Some (e_sha256 E (bytes_of (BatchManifest_String E (Manifest (bh_ID (b_Header batch)) (b_Payload batch))))) \<or>
     b_Hash batch = Some (BatchPayload_Hash E (b_Payload batch)))"
proof -
  have h: "batch_header_ok batch" using assms by (auto simp: persistBatch_def retM_def split: if_splits)
  obtain now s1 where n: "onH (nowM E) s = (Inr now, s1)" using assms h by (auto simp: persistBatch_def bindM_eq_Inr)
  let ?p = "fst (Batch_Confirmed E now batch)"
  have k: "batch_hash_ok E batch ?p"
    using assms h n by (auto simp: persistBatch_def bindM_def retM_def split: if_splits prod.splits)
  obtain s2 s3 where "validateAndPersistBatchContent E em batch s2 = (Inr True, s3)"
    using assms h n k by (auto simp: persistBatch_def bindM_eq_Inr retM_def split: prod.splits if_splits option.splits)
  from content_valid [OF this] h k show ?thesis by (simp add: batch_hash_ok_def Batch_Confirmed_def Let_def)
qed

section \<open>Stored content\<close>

definition msg_keys :: "ffdb \<Rightarrow> (uuid option \<times> string \<times> bytes32 option) set" where
  "msg_keys db = (\<lambda>m. (mh_ID (m_Header m), m_LocalNamespace m, m_Hash m)) ` set (db_messages db)"

definition data_keys :: "ffdb \<Rightarrow> (uuid option \<times> string \<times> bytes32 option) set" where
  "data_keys db = (\<lambda>d. (d_ID d, d_Namespace d, d_Hash d)) ` set (db_data db)"

lemma insert_msg_keys [simp]:
  "msg_keys (insert_msg_row m db) = insert (mh_ID (m_Header m), m_LocalNamespace m, m_Hash m) (msg_keys db)"
  "data_keys (insert_msg_row m db) = data_keys db"
  by (auto simp: msg_keys_def data_keys_def insert_msg_row_def)

lemma update_msg_keys [simp]: "msg_keys (update_msg_row b m db) = msg_keys db" "data_keys (update_msg_row b m db) = data_keys db"
proof -
  let ?key = "\<lambda>m. (mh_ID (m_Header m), m_LocalNamespace m, m_Hash m)"
  let ?upd = "\<lambda>r. if is_msg (m_LocalNamespace m) (mh_ID (m_Header m)) r \<and> m_Hash r = m_Hash m \<and>
      mh_Namespace (m_Header r) = mh_Namespace (m_Header m)
    then m \<lparr> m_Data := (if b then stored_refs (m_Data m) else m_Data r), m_Sequence := m_Sequence r \<rparr>
    else if b \<and> is_msg (m_LocalNamespace m) (mh_ID (m_Header m)) r then r \<lparr> m_Data := stored_refs (m_Data m) \<rparr> else r"
  have key: "?key (?upd r) = ?key r" for r by (simp add: is_msg_def)
  have "msg_keys (update_msg_row b m db) = ?key ` ?upd ` set (db_messages db)" by (simp add: msg_keys_def update_msg_row_def)
  also have "\<dots> = msg_keys db" unfolding msg_keys_def image_image key ..
  finally show "msg_keys (update_msg_row b m db) = msg_keys db" .
qed (simp add: data_keys_def update_msg_row_def)

lemma find_SomeD: "find P xs = Some x \<Longrightarrow> x \<in> set xs \<and> P x"
  by (auto simp: find_Some_iff)

lemma UpsertMessage_keys:
  "UpsertMessage E opt m nd = (Inr (), nd') \<Longrightarrow>
     msg_keys (nd_db nd') = insert (mh_ID (m_Header m), m_LocalNamespace m, m_Hash m) (msg_keys (nd_db nd)) \<and> data_keys (nd_db nd') = data_keys (nd_db nd)"
proof -
  assume u: "UpsertMessage E opt m nd = (Inr (), nd')"
  have key: "(mh_ID (m_Header m), m_LocalNamespace m, m_Hash m) \<in> msg_keys (nd_db nd)"
    if "message_row (m_LocalNamespace m) (mh_ID (m_Header m)) (nd_db nd) = Some r" "m_Hash r = m_Hash m" for r
  proof -
    have "r \<in> set (db_messages (nd_db nd)) \<and> is_msg (m_LocalNamespace m) (mh_ID (m_Header m)) r"
      using find_SomeD [OF that(1) [unfolded message_row_def]] by blast
    then show ?thesis using that(2) unfolding msg_keys_def is_msg_def by (intro image_eqI [of _ _ r]) simp_all
  qed
  show ?thesis
    using u key by (auto simp: UpsertMessage_def db_op_def Let_def insert_absorb split: if_splits option.splits sum.splits)
qed

lemma UpsertData_keys:
  "UpsertData E opt d nd = (Inr (), nd') \<Longrightarrow>
     data_keys (nd_db nd') = insert (d_ID d, d_Namespace d, d_Hash d) (data_keys (nd_db nd)) \<and> msg_keys (nd_db nd') = msg_keys (nd_db nd)"
proof -
  assume u: "UpsertData E opt d nd = (Inr (), nd')"
  let ?db = "nd_db nd" and ?key = "\<lambda>d. (d_ID d, d_Namespace d, d_Hash d)"
  have st: "?key (stored_data x) = ?key x" for x
    by (cases "d_Blob x") (simp_all add: stored_data_def CalcPath_def Let_def)
  show ?thesis
  proof (cases "data_row (d_Namespace d) (d_ID d) ?db")
    case None
    then have "nd_db nd' = ?db \<lparr> db_data := db_data ?db @ [stored_data d] \<rparr>"
      using u by (auto simp: UpsertData_def db_op_def Let_def split: if_splits)
    then show ?thesis using st [of d] by (simp add: data_keys_def msg_keys_def)
  next
    case (Some r)
    let ?upd = "\<lambda>r. if d_ID r = d_ID d \<and> d_Hash r = d_Hash d \<and> d_Namespace r = d_Namespace d then stored_data d else r"
    have db: "nd_db nd' = ?db \<lparr> db_data := map ?upd (db_data ?db) \<rparr>" and h: "d_Hash r = d_Hash d"
      using u Some by (auto simp: UpsertData_def db_op_def Let_def split: if_splits)
    have k: "?key (?upd x) = ?key x" for x using st [of d] by simp
    have dd: "db_data (nd_db nd') = map ?upd (db_data ?db)" by (simp add: db)
    have "data_keys (nd_db nd') = ?key ` ?upd ` set (db_data ?db)" unfolding data_keys_def dd set_map ..
    also have "\<dots> = data_keys ?db" unfolding data_keys_def image_image k ..
    finally have "data_keys (nd_db nd') = data_keys ?db" .
    moreover have "r \<in> set (db_data ?db) \<and> d_ID r = d_ID d \<and> d_Namespace r = d_Namespace d"
      using find_SomeD [OF Some [unfolded data_row_def]] by blast
    then have "?key d \<in> data_keys ?db" unfolding data_keys_def using h by (intro image_eqI [of _ _ r]) simp_all
    ultimately show ?thesis by (simp add: db msg_keys_def insert_absorb)
  qed
qed

definition batch_keys :: "message list \<Rightarrow> (uuid option \<times> string \<times> bytes32 option) set" where
  "batch_keys ms = (\<lambda>m. (mh_ID (m_Header m), m_LocalNamespace m, m_Hash m)) ` set ms"

lemma fold_insert_msg:
  "msg_keys (fold insert_msg_row ms db) = batch_keys ms \<union> msg_keys db \<and> data_keys (fold insert_msg_row ms db) = data_keys db"
  by (induction ms arbitrary: db) (auto simp: batch_keys_def)

lemma upsert_messages_keys:
  "upsert_messages E ms n nd = (Inr (k, True), nd') \<Longrightarrow>
     msg_keys (nd_db nd') = batch_keys ms \<union> msg_keys (nd_db nd) \<and> data_keys (nd_db nd') = data_keys (nd_db nd)"
proof (induction ms arbitrary: n nd)
  case (Cons m ms)
  obtain r nd1 where u: "UpsertMessage E UpsertOptimizationExisting m nd = (r, nd1)" by fastforce
  have "r = Inr ()" "upsert_messages E ms (Suc n) nd1 = (Inr (k, True), nd')"
    using Cons.prems u by (auto simp: bindM_def attemptM_def retM_def throwM_def split: sum.splits if_splits)
  then show ?case using Cons.IH UpsertMessage_keys u by (auto simp: batch_keys_def)
qed (auto simp: retM_def batch_keys_def)

lemma upsert_data_keys:
  "upsert_data E ds nd = (Inr True, nd') \<Longrightarrow>
     data_keys (nd_db nd') = (\<lambda>d. (d_ID d, d_Namespace d, d_Hash d)) ` set ds \<union> data_keys (nd_db nd) \<and> msg_keys (nd_db nd') = msg_keys (nd_db nd)"
proof (induction ds arbitrary: nd)
  case (Cons d ds)
  obtain r nd1 where u: "UpsertData E UpsertOptimizationExisting d nd = (r, nd1)" by fastforce
  have "r = Inr ()" "upsert_data E ds nd1 = (Inr True, nd')"
    using Cons.prems u by (auto simp: bindM_def attemptM_def retM_def throwM_def split: sum.splits if_splits)
  then show ?case using Cons.IH UpsertData_keys u by auto
qed (auto simp: retM_def)

section \<open>What the steps keep\<close>

lemma keeps_onH: "keeps (\<lambda>nd. f (nd_db nd)) m \<Longrightarrow> keeps (\<lambda>s. f (nd_db (fst s))) (onH m)"
  by (simp add: keeps_def onH_def case_prod_unfold)

lemma stable_onH: "stable (\<lambda>nd. I (nd_db nd)) m \<Longrightarrow> stable (\<lambda>s. I (nd_db (fst s))) (onH m)"
  by (simp add: stable_def onH_def case_prod_unfold)

lemma onH_Inr: "onH m (nd, hs) = (Inr x, s') \<longleftrightarrow> (\<exists>nd'. m nd = (Inr x, nd') \<and> s' = (nd', hs))"
  by (auto simp: onH_def split: prod.splits)

lemma keeps_addHook [keeps_intros]: "keeps (\<lambda>s. f (nd_db (fst s))) (addHook h)"
  unfolding addHook_def by (rule keeps_modify) (auto split: prod.splits)

lemma keeps_db_GetLocalNode [keeps_intros]: "keeps (\<lambda>nd. f (nd_db nd)) (GetLocalNode E im)"
proof -
  have "keeps (\<lambda>nd. f (nd_db nd)) (lookupDID_in E ns did m)" if "keeps (\<lambda>nd. f (nd_db nd)) m" for ns did m
    unfolding lookupDID_in_def retryable_def lookupDID_db_def db_reads idcache_get_def by (intro keeps_intros that)
  note l = this
  show ?thesis
    unfolding GetLocalNode_def CachedIdentityLookupNilOK_def cachedIdentityLookup_def by (intro keeps_intros l)
qed

lemma keeps_sentByUs [keeps_intros]: "keeps (\<lambda>nd. f (nd_db nd)) (sentByUs E em batch)"
  unfolding sentByUs_def by (intro keeps_intros)

lemma keeps_initiate_download:
  assumes "\<And>db x. f (db \<lparr> db_ops := x \<rparr>) = f db"
  shows "keeps (\<lambda>s. f (nd_db (fst s))) (InitiateDownloadBatch E em tx ref b)"
    "keeps (\<lambda>s. f (nd_db (fst s))) (InitiateDownloadBlob E em tx i ref b)"
proof -
  have "keeps (\<lambda>nd. f (nd_db nd)) (op_alloc op)" for op by (simp add: keeps_def op_alloc_def)
  moreover have "keeps (\<lambda>nd. f (nd_db nd)) (insert_and_cache E p)" for p
    unfolding insert_and_cache_def InsertOperation_def op_deref_def cacheOperation_def insert_op_row_def
    by (intro keeps_intros keeps_db_op_db keeps_modify) (auto simp: assms split: if_splits)
  ultimately have c: "keeps (\<lambda>s. f (nd_db (fst s))) (createAndDispatchOp E em op d b)" for op d b
    unfolding createAndDispatchOp_def by (intro keeps_intros keeps_onH [where f = f])
  show "keeps (\<lambda>s. f (nd_db (fst s))) (InitiateDownloadBatch E em tx ref b)"
    "keeps (\<lambda>s. f (nd_db (fst s))) (InitiateDownloadBlob E em tx i ref b)"
    unfolding InitiateDownloadBatch_def InitiateDownloadBlob_def NewOperation_def by (intro keeps_intros keeps_onH [where f = f] c)+
qed

section \<open>The content of an accepted batch is stored\<close>

lemma insert_batch_data_keys:
  assumes "insert_batch_data E ds nd = (Inr True, nd')"
  shows "data_keys (nd_db nd') = (\<lambda>d. (d_ID d, d_Namespace d, d_Hash d)) ` set ds \<union> data_keys (nd_db nd) \<and> msg_keys (nd_db nd') = msg_keys (nd_db nd)"
proof -
  obtain r nd1 where i: "InsertDataArray E ds nd = (r, nd1)" by fastforce
  show ?thesis
  proof (cases r)
    case (Inl e)
    have "nd_db nd1 = nd_db nd" using i Inl by (auto simp: InsertDataArray_def db_op_def Let_def split: if_splits)
    then show ?thesis using assms i Inl upsert_data_keys [of E ds nd1 nd']
      by (simp add: insert_batch_data_def bindM_def attemptM_def)
  next
    case (Inr x)
    have "(d_ID (stored_data d), d_Namespace (stored_data d), d_Hash (stored_data d)) = (d_ID d, d_Namespace d, d_Hash d)" for d
      by (cases "d_Blob d") (simp_all add: stored_data_def CalcPath_def Let_def)
    then show ?thesis using assms i Inr
      by (auto simp: insert_batch_data_def bindM_def attemptM_def InsertDataArray_def db_op_def Let_def data_keys_def msg_keys_def
          image_Un image_image split: if_splits)
  qed
qed

lemma keeps_hooks: "keeps fst (forM xs (\<lambda>x. case g x of (m, ds) \<Rightarrow> addHook (HookCacheMessage m ds)))"
  by (rule keeps_forM) (simp add: addHook_def keeps_def modifyM_def case_prod_unfold)

lemma insert_batch_messages_keys:
  assumes "insert_batch_messages E msgs matched (nd, hs) = (Inr True, (nd', hs'))"
  shows "msg_keys (nd_db nd') = batch_keys msgs \<union> msg_keys (nd_db nd) \<and> data_keys (nd_db nd') = data_keys (nd_db nd)"
proof -
  obtain r nd1 where i: "InsertMessages E msgs nd = (r, nd1)" by fastforce
  have a: "attemptM (onH (InsertMessages E msgs)) (nd, hs) = (Inr r, (nd1, hs))" using i by (simp add: attemptM_def onH_def)
  show ?thesis
  proof (cases r)
    case (Inl e)
    have nd1: "nd_db nd1 = nd_db nd" using i Inl by (auto simp: InsertMessages_def db_op_def Let_def split: if_splits)
    obtain n nd2 where u: "upsert_messages E msgs 0 nd1 = (Inr (n, True), nd2)"
      and f: "forM [0..<n] (\<lambda>_. case matched ! (n - 1) of (m, ds) \<Rightarrow> addHook (HookCacheMessage m ds)) (nd2, hs) = (Inr (), (nd', hs'))"
      using assms a Inl by (auto simp: insert_batch_messages_def bindM_eq_Inr onH_Inr)
    have h: "fst (nd', hs') = fst (nd2, hs)" by (rule keepsD [OF keeps_hooks f])
    show ?thesis using upsert_messages_keys [OF u] h nd1 by simp
  next
    case (Inr x)
    have "forM matched (\<lambda>(m, ds). addHook (HookCacheMessage m ds)) (nd1, hs) = (Inr (), (nd', hs'))"
      using assms a Inr by (auto simp: insert_batch_messages_def bindM_eq_Inr)
    then have "fst (nd', hs') = fst (nd1, hs)" by (rule keepsD [OF keeps_hooks [where g = "\<lambda>x. x"]])
    moreover have "nd_db nd1 = fold insert_msg_row msgs (nd_db nd)"
      using i Inr by (auto simp: InsertMessages_def db_op_def Let_def split: if_splits)
    ultimately show ?thesis using fold_insert_msg by simp
  qed
qed

text \<open>C14: When a batch that another node sent is accepted, each of its messages and each of its data items is in the tables afterwards
  with the hash it came with, whatever was there before: a row with the same identifier and another hash makes the batch invalid.\<close>

theorem accepted_content_stored:
  assumes "fst (sentByUs E em batch nd) = Inr False"
    and "persistBatchContent E em batch ds msgs matched (nd, hs) = (Inr True, (nd', hs'))"
  shows "(\<lambda>m. (mh_ID (m_Header m), m_LocalNamespace m, m_Hash m)) ` set msgs \<subseteq> msg_keys (nd_db nd') \<and>
     (\<lambda>d. (d_ID d, d_Namespace d, d_Hash d)) ` set ds \<subseteq> data_keys (nd_db nd')"
proof -
  obtain nd1 where s: "sentByUs E em batch nd = (Inr False, nd1)" using assms(1) by (metis prod.collapse)
  obtain nd2 where d: "insert_batch_data E ds nd1 = (Inr True, nd2)" and m: "insert_batch_messages E msgs matched (nd2, hs) = (Inr True, (nd', hs'))"
    using assms(2) s unfolding persistBatchContent_def by (auto simp: bindM_eq_Inr onH_Inr split: if_splits)
  show ?thesis using insert_batch_data_keys [OF d] insert_batch_messages_keys [OF m] by (auto simp: batch_keys_def)
qed

section \<open>Stored content is never replaced\<close>

text \<open>The identifiers with their hashes that the tables hold at least.\<close>

definition holds_keys :: "(uuid option \<times> string \<times> bytes32 option) set \<Rightarrow> (uuid option \<times> string \<times> bytes32 option) set \<Rightarrow> ffdb \<Rightarrow> bool" where
  "holds_keys K D db \<longleftrightarrow> K \<subseteq> msg_keys db \<and> D \<subseteq> data_keys db"

lemma holds_keeps:
  assumes "keeps (\<lambda>s. (\<lambda>db. (db_messages db, db_data db)) (nd_db (g s))) m"
  shows "stable (\<lambda>s. holds_keys K D (nd_db (g s))) m"
  using assms by (auto simp: keeps_def stable_def holds_keys_def msg_keys_def data_keys_def)

lemma keeps_db_op_err: "m = db_op E f \<Longrightarrow> m nd = (Inl e, nd') \<Longrightarrow> nd_db nd' = nd_db nd"
  by (auto simp: db_op_def Let_def split: if_splits sum.splits)

lemma grows_stable:
  fixes m :: "unit nact"
  assumes ok: "\<And>nd nd'. m nd = (Inr (), nd') \<Longrightarrow> msg_keys (nd_db nd) \<subseteq> msg_keys (nd_db nd') \<and> data_keys (nd_db nd) \<subseteq> data_keys (nd_db nd')"
    and err: "\<And>nd e nd'. m nd = (Inl e, nd') \<Longrightarrow> nd_db nd' = nd_db nd"
  shows "stable (\<lambda>nd. holds_keys K D (nd_db nd)) m"
proof (rule stableI)
  fix nd :: node assume h: "holds_keys K D (nd_db nd)"
  obtain r nd' where m: "m nd = (r, nd')" by fastforce
  show "holds_keys K D (nd_db (snd (m nd)))"
  proof (cases r)
    case (Inl e)
    then show ?thesis using err m h by simp
  next
    case (Inr u)
    then show ?thesis using ok [of nd nd'] m h by (auto simp: holds_keys_def)
  qed
qed

lemma stable_upserts:
  "stable (\<lambda>nd. holds_keys K D (nd_db nd)) (UpsertMessage E opt m)"
  "stable (\<lambda>nd. holds_keys K D (nd_db nd)) (UpsertData E opt d)"
  by (rule grows_stable, use UpsertMessage_keys in blast, rule keeps_db_op_err [OF UpsertMessage_def], assumption,
      rule grows_stable, use UpsertData_keys in blast, rule keeps_db_op_err [OF UpsertData_def], assumption)

lemma stable_inserts:
  "stable (\<lambda>nd. holds_keys K D (nd_db nd)) (InsertMessages E ms)"
  "stable (\<lambda>nd. holds_keys K D (nd_db nd)) (InsertDataArray E ds)"
  using fold_insert_msg [of ms]
  by (auto simp: InsertMessages_def InsertDataArray_def db_op_def Let_def holds_keys_def data_keys_def msg_keys_def image_Un
      intro!: stableI split: if_splits)

lemma stable_insert_batch:
  "stable (\<lambda>s. holds_keys K D (nd_db (fst s))) (insert_batch_messages E msgs matched)"
  "stable (\<lambda>s. holds_keys K D (nd_db s)) (insert_batch_data E ds)"
proof -
  have um: "stable (\<lambda>nd. holds_keys K D (nd_db nd)) (upsert_messages E ms n)" for ms n
    by (induction ms arbitrary: n) (auto intro!: stable_intros stable_upserts)
  have ud: "stable (\<lambda>nd. holds_keys K D (nd_db nd)) (upsert_data E ds)" for ds
    by (induction ds) (auto intro!: stable_intros stable_upserts)
  have hk: "stable (\<lambda>s. holds_keys K D (nd_db (fst s))) (addHook h)" for h
    by (rule holds_keeps, rule keeps_addHook)
  show "stable (\<lambda>s. holds_keys K D (nd_db (fst s))) (insert_batch_messages E msgs matched)"
    unfolding insert_batch_messages_def by (intro stable_intros hk stable_onH [where I = "holds_keys K D"] stable_inserts um)
  show "stable (\<lambda>s. holds_keys K D (nd_db s)) (insert_batch_data E ds)"
    unfolding insert_batch_data_def by (intro stable_intros stable_inserts ud)
qed

lemma stable_persistBatch: "stable (\<lambda>s. holds_keys K D (nd_db (fst s))) (persistBatch E em batch)"
proof -
  let ?I = "\<lambda>s::node \<times> hook list. holds_keys K D (nd_db (fst s))"
  have k: "stable ?I (onH m)" if "\<And>f :: ffdb \<Rightarrow> message list \<times> ffdata list. keeps (\<lambda>nd. f (nd_db nd)) m" for m :: "'x nact"
    by (rule holds_keeps, rule keeps_onH, rule that)
  have blob: "stable ?I (checkAndInitiateBlobDownloads E em batch d)" for d
    unfolding checkAndInitiateBlobDownloads_def db_reads
    by (intro stable_intros k keeps_intros holds_keeps keeps_initiate_download) simp
  have data: "stable ?I (validate_data E em batch ds)" for ds
    by (induction ds) (auto intro!: stable_intros blob)
  have all: "keeps (\<lambda>nd. f (nd_db nd)) (verifyAlreadyStored E em msgs)" for f :: "ffdb \<Rightarrow> message list \<times> ffdata list" and msgs
    by (induction msgs) (auto intro!: keeps_intros split: prod.splits)
  have content: "stable ?I (persistBatchContent E em batch ds msgs matched)" for ds msgs matched
    unfolding persistBatchContent_def
    by (intro stable_intros k keeps_intros all stable_insert_batch stable_onH [where I = "holds_keys K D"])
  have iog: "stable ?I (onH (InsertOrGetBatch E b))" for b
    by (rule holds_keeps, rule keeps_onH) (auto simp: InsertOrGetBatch_def intro!: keeps_db_op_db split: option.splits)
  have cache: "stable ?I (onH (cacheBatch key b m))" for key b m
    by (rule k) (simp add: cacheBatch_def keeps_modify)
  have now: "stable ?I (onH (nowM E))" by (rule k) (rule keeps_nowM)
  show ?thesis
    unfolding persistBatch_def validateAndPersistBatchContent_def
    by (intro stable_intros data content iog cache now)
qed

abbreviation aw_db :: "arrival \<Rightarrow> ffdb" where
  "aw_db w \<equiv> nd_db (pw_node (aw_pw w))"

lemma run_hooks_db: "aw_db (fold (run_hook E) hs w) = aw_db w"
  by (induction hs arbitrary: w) (simp_all add: run_hook_def UpdateMessageCache_def modifyM_def split: hook.splits)

lemma stable_run_as_group_H:
  assumes "stable (\<lambda>s. I (nd_db (fst s))) m"
  shows "stable (\<lambda>w. I (aw_db w)) (run_as_group_H E m)"
proof (rule stableI)
  fix w assume i: "I (aw_db w)"
  obtain r nd hs where m: "m (pw_node (aw_pw w), []) = (r, (nd, hs))" by (metis prod.collapse)
  have n: "I (nd_db nd)" using stableD [OF assms m] i by simp
  then show "I (aw_db (snd (run_as_group_H E m w)))"
    using i by (auto simp: run_as_group_H_def run_as_group_def m Let_def run_hooks_db split: sum.splits if_splits)
qed


section \<open>The pins of a batch\<close>

definition pin_keys :: "ffdb \<Rightarrow> (string \<times> bytes32 \<times> uuid \<times> int) set" where
  "pin_keys db = pin_key ` set (db_pins db)"

lemma insert_pins_keys: "pin_keys (fold insert_pin_row ps db) = pin_key ` set ps \<union> pin_keys db"
  by (induction ps arbitrary: db) (auto simp: pin_keys_def insert_pin_row_def pin_key_def)

lemma upsert_pins_keys: "forM ps (UpsertPin E) nd = (Inr (), nd') \<Longrightarrow> pin_keys (nd_db nd') = pin_key ` set ps \<union> pin_keys (nd_db nd)"
proof (induction ps arbitrary: nd)
  case (Cons p ps)
  then obtain nd1 where u: "UpsertPin E p nd = (Inr (), nd1)" "forM ps (UpsertPin E) nd1 = (Inr (), nd')" by (auto simp: bindM_eq_Inr)
  have "pin_keys (nd_db nd1) = insert (pin_key p) (pin_keys (nd_db nd))"
    using u(1) by (auto simp: UpsertPin_def db_write_Inr pin_keys_def insert_pin_row_def pin_key_def)
  then show ?case using Cons.IH [OF u(2)] by auto
qed (simp add: retM_def)

lemma mapM_length: "mapM f xs s = (Inr ys, s') \<Longrightarrow> length ys = length xs"
  by (induction xs arbitrary: s ys) (auto simp: bindM_eq_Inr)

lemma persistContexts_keys:
  assumes "persistContexts E em bp k private nd = (Inr (), nd')"
  shows "pin_keys (nd_db nd') = (\<lambda>i. (em_namespace em, bn_Contexts bp ! i, bn_BatchID bp, int i)) ` {0..<length (bn_Contexts bp)} \<union> pin_keys (nd_db nd)"
proof -
  obtain nows nd1 r nd2 where n: "mapM (\<lambda>_. nowM E) (bn_Contexts bp) nd = (Inr nows, nd1)"
    and i: "InsertPins E (pins_of em bp k private nows) nd1 = (r, nd2)"
    and s: "(case r of Inr _ \<Rightarrow> retM () | Inl _ \<Rightarrow> forM (pins_of em bp k private nows) (UpsertPin E)) nd2 = (Inr (), nd')"
    using assms unfolding persistContexts_def bindM_eq_Inr Let_def attemptM_eq by blast
  let ?ps = "pins_of em bp k private nows"
  have db1: "nd_db nd1 = nd_db nd" by (rule keepsD [OF keeps_mapM n]) (rule keeps_nowM)
  have len: "length nows = length (bn_Contexts bp)" by (rule mapM_length [OF n])
  have "map pin_key ?ps = map (\<lambda>i. (em_namespace em, bn_Contexts bp ! i, bn_BatchID bp, int i)) [0..<length (bn_Contexts bp)]"
    by (rule nth_equalityI) (simp_all add: pins_of_def pin_key_def len)
  from arg_cong [OF this, of set] have keys: "pin_key ` set ?ps = (\<lambda>i. (em_namespace em, bn_Contexts bp ! i, bn_BatchID bp, int i)) ` {0..<length (bn_Contexts bp)}"
    by simp
  show ?thesis
  proof (cases r)
    case (Inl e)
    have "nd_db nd2 = nd_db nd1" using keeps_db_op_err [OF InsertPins_def i [unfolded Inl]] .
    then show ?thesis using s i Inl upsert_pins_keys [of ?ps E nd2 nd'] keys db1 by simp
  next
    case (Inr x)
    then show ?thesis using s i keys db1
      by (auto simp: InsertPins_def db_op_Inr insert_pins_keys split: if_splits)
  qed
qed

lemma handler_keeps_post:
  "handleBlockchainEventForListener E em i ev bc nd = (Inr bc', nd') \<Longrightarrow> bc_postInsert bc' = bc_postInsert bc"
  "handleBlockchainNetworkAction E em action location ev k bc nd = (Inr bc', nd') \<Longrightarrow> bc_postInsert bc' = bc_postInsert bc"
  by (auto simp: handleBlockchainEventForListener_def handleBlockchainNetworkAction_def getChainListenerByProtocolIDCached_def
      addEventToInsert_def bindM_eq_Inr split: if_splits option.splits)

lemma batch_pin_handled:
  assumes "handleBlockchainBatchPinEvent E em ns bp k bc nd = (Inr bc', nd')"
  shows "set (bc_postInsert bc) \<subseteq> set (bc_postInsert bc')"
    and "im_multiparty (em_im em) \<noteq> None \<Longrightarrow> bn_TransactionID bp \<noteq> None \<Longrightarrow> ns = em_namespace em \<Longrightarrow>
      \<exists>bp'. (bp', k) \<in> set (bc_postInsert bc') \<and> bn_Contexts bp' = bn_Contexts bp \<and> bn_BatchID bp' = bn_BatchID bp"
  using assms by (auto simp: handleBlockchainBatchPinEvent_def addEventToInsert_def Let_def bindM_eq_Inr split: if_splits option.splits)

lemma handle_events_post:
  assumes "handle_events E em evs bc nd = (Inr bc', nd')"
  shows "set (bc_postInsert bc) \<subseteq> set (bc_postInsert bc')"
    and "im_multiparty (em_im em) \<noteq> None \<Longrightarrow> bn_TransactionID bp \<noteq> None \<Longrightarrow> BatchPinComplete (em_namespace em) bp k \<in> set evs \<Longrightarrow>
      \<exists>bp'. (bp', k) \<in> set (bc_postInsert bc') \<and> bn_Contexts bp' = bn_Contexts bp \<and> bn_BatchID bp' = bn_BatchID bp"
  using assms
proof (induction evs arbitrary: bc nd)
  case (Cons ev evs)
  {
    case 1
    then obtain bc1 nd1 where rest: "handle_events E em evs bc1 nd1 = (Inr bc', nd')" and "set (bc_postInsert bc) \<subseteq> set (bc_postInsert bc1)"
      by (cases ev) (auto simp: bindM_eq_Inr dest!: handler_keeps_post batch_pin_handled(1))
    then show ?case using Cons.IH(1) [OF rest] by simp
  next
    case 2
    then obtain bc1 nd1 where rest: "handle_events E em evs bc1 nd1 = (Inr bc', nd')"
      and hd: "(case ev of ForListener i e \<Rightarrow> handleBlockchainEventForListener E em i e bc
        | BatchPinComplete ns pin k \<Rightarrow> handleBlockchainBatchPinEvent E em ns pin k bc
        | NetworkAction action location e k \<Rightarrow> handleBlockchainNetworkAction E em action location e k bc) nd = (Inr bc1, nd1)"
      by (auto simp: bindM_eq_Inr)
    have h: "\<exists>bp'. (bp', k) \<in> set (bc_postInsert bc1) \<and> bn_Contexts bp' = bn_Contexts bp \<and> bn_BatchID bp' = bn_BatchID bp"
      if "ev = BatchPinComplete (em_namespace em) bp k"
      by (rule batch_pin_handled(2) [of E em "em_namespace em" bp k bc nd bc1 nd1]) (use that hd 2 in simp_all)
    have later: "set (bc_postInsert bc1) \<subseteq> set (bc_postInsert bc')" by (rule Cons.IH(1) [OF rest])
    show ?case
    proof (cases "ev = BatchPinComplete (em_namespace em) bp k")
      case True
      then show ?thesis using h later by blast
    next
      case False
      then show ?thesis using Cons.IH(2) [OF _ _ _ rest] 2 by simp
    qed
  }
qed (simp_all add: retM_def)

lemma postInsert_keys:
  assumes "postBlockchainBatchPinEventInsert E em bp k (nd, hs) = (Inr (), (nd', hs'))"
  shows "pin_keys (nd_db nd') = (\<lambda>i. (em_namespace em, bn_Contexts bp ! i, bn_BatchID bp, int i)) ` {0..<length (bn_Contexts bp)} \<union> pin_keys (nd_db nd)"
proof -
  let ?private = "bn_BatchPayloadRef bp = ''''"
  let ?rest = "bindM (onH (GetBatchForPin E (em_namespace em) (batch_pin_ref em bp))) (\<lambda>batch.
      if \<not> ?private \<and> batch = None then InitiateDownloadBatch E em (bn_TransactionID bp) (bn_BatchPayloadRef bp) False else retM ())"
  obtain nd1 where p: "persistContexts E em bp k ?private nd = (Inr (), nd1)" and r: "?rest (nd1, hs) = (Inr (), (nd', hs'))"
    using assms unfolding postBlockchainBatchPinEventInsert_def Let_def bindM_eq_Inr [of "onH (persistContexts E em bp k ?private)"] onH_Inr by auto
  have "keeps (\<lambda>s. db_pins (nd_db (fst s))) ?rest"
    by (intro keeps_intros keeps_onH [where f = db_pins] keeps_initiate_download) simp
  from keepsD [OF this r] have "pin_keys (nd_db nd') = pin_keys (nd_db nd1)" by (simp add: pin_keys_def)
  then show ?thesis using persistContexts_keys [OF p] by simp
qed

lemma postInserts_keys:
  assumes "forM ps (\<lambda>(pin, k). postBlockchainBatchPinEventInsert E em pin k) (nd, hs) = (Inr (), (nd', hs'))"
  shows "pin_keys (nd_db nd) \<subseteq> pin_keys (nd_db nd')"
    and "(bp, k) \<in> set ps \<Longrightarrow> i < length (bn_Contexts bp) \<Longrightarrow>
      (em_namespace em, bn_Contexts bp ! i, bn_BatchID bp, int i) \<in> pin_keys (nd_db nd')"
  using assms
proof (induction ps arbitrary: nd hs)
  case (Cons p ps)
  obtain pin k' where p: "p = (pin, k')" by fastforce
  {
    case 1
    then obtain nd1 hs1 where s: "postBlockchainBatchPinEventInsert E em pin k' (nd, hs) = (Inr (), (nd1, hs1))"
      "forM ps (\<lambda>(pin, k). postBlockchainBatchPinEventInsert E em pin k) (nd1, hs1) = (Inr (), (nd', hs'))"
      by (auto simp: p bindM_eq_Inr)
    then show ?case using Cons.IH(1) [OF s(2)] postInsert_keys [OF s(1)] by auto
  next
    case 2
    then obtain nd1 hs1 where s: "postBlockchainBatchPinEventInsert E em pin k' (nd, hs) = (Inr (), (nd1, hs1))"
      "forM ps (\<lambda>(pin, k). postBlockchainBatchPinEventInsert E em pin k) (nd1, hs1) = (Inr (), (nd', hs'))"
      by (auto simp: p bindM_eq_Inr)
    have later: "pin_keys (nd_db nd1) \<subseteq> pin_keys (nd_db nd')" by (rule Cons.IH(1) [OF s(2)])
    show ?case
    proof (cases "(bp, k) \<in> set ps")
      case True
      then show ?thesis using Cons.IH(2) [OF _ _ s(2)] 2 by simp
    next
      case False
      then show ?thesis using later postInsert_keys [OF s(1)] 2 p by auto
    qed
  }
qed simp_all

text \<open>C16: When a delivery of blockchain events is processed, every batch pin event of this namespace in it has its pins in the table: one for
  each context, under the identifier of the batch and the position of the context, which is what the aggregator later reads in order.\<close>

theorem batch_pin_stored:
  assumes "chain_batch E em evs (nd, hs) = (Inr (), (nd', hs'))"
    and "BatchPinComplete (em_namespace em) bp k \<in> set evs" "im_multiparty (em_im em) \<noteq> None" "bn_TransactionID bp \<noteq> None"
    and "i < length (bn_Contexts bp)"
  shows "(em_namespace em, bn_Contexts bp ! i, bn_BatchID bp, int i) \<in> pin_key ` set (db_pins (nd_db nd'))"
proof -
  obtain bc nd1 where h: "handle_events E em evs \<lparr> bc_listeners = [], bc_topics = [], bc_events = [], bc_postInsert = [] \<rparr> nd = (Inr bc, nd1)"
    and r: "bindM (if bc_events bc = [] then retM () else onH (maybePersistBlockchainEvents E em bc)) (\<lambda>_.
       forM (bc_postInsert bc) (\<lambda>(pin, k). postBlockchainBatchPinEventInsert E em pin k)) (nd1, hs) = (Inr (), (nd', hs'))"
    using assms(1) unfolding chain_batch_def bindM_eq_Inr [of "onH _"] onH_Inr by blast
  obtain nd2 hs2 where f: "forM (bc_postInsert bc) (\<lambda>(pin, k). postBlockchainBatchPinEventInsert E em pin k) (nd2, hs2) = (Inr (), (nd', hs'))"
    using r by (auto simp: bindM_eq_Inr)
  obtain bp' where b: "(bp', k) \<in> set (bc_postInsert bc)" "bn_Contexts bp' = bn_Contexts bp" "bn_BatchID bp' = bn_BatchID bp"
    using handle_events_post(2) [OF h assms(3,4,2)] by blast
  show ?thesis using postInserts_keys(2) [OF f b(1)] b assms(5) by (simp add: pin_keys_def)
qed

section \<open>A delivered batch\<close>

definition dataA :: ffdata where
  "dataA = data0 \<lparr> d_ID := Some 1, d_Hash := Some (bytes_of ''v'') \<rparr>"

definition msgA :: message where
  "msgA = (let refs = Some [\<lparr> dr_ID = Some 1, dr_Hash = Some (bytes_of ''v''), dr_ValueSize = 1 \<rparr>];
     header = header0 \<lparr> mh_ID := Some 2, mh_DataHash := Some (DataRefs_Hash env0 refs) \<rparr>
   in message0 \<lparr> m_Header := header, m_Data := refs, m_Hash := Some (MessageHeader_Hash env0 header) \<rparr>)"

definition batchA :: batch where
  "batchA = \<lparr> b_Header = \<lparr> bh_ID = Some 3, bh_Type = BT_Broadcast, bh_Namespace = ''ns1'', bh_Node = Some 4, bh_Group = None,
       bh_Created = None, bh_Signer = \<lparr> sr_Author = ''did:firefly:org/a'', sr_Key = ''0xa'' \<rparr> \<rparr>,
     b_Hash = Some (bytes_of ''{}''),
     b_Payload = \<lparr> bp_TX = \<lparr> tr_Type = TT_BatchPin, tr_ID = Some 5 \<rparr>, bp_Messages = [Some msgA], bp_Data = [Some dataA] \<rparr> \<rparr>"

definition emA :: event_manager where
  "emA = \<lparr> em_namespace = ''ns1'', em_networkName = ''ns1'',
     em_im = im0 \<lparr> im_multiparty := Some \<lparr> mp_networkVersion = 2, mp_localNodeName = '''', mp_rootOrgName = '''', mp_rootOrgKey = '''' \<rparr> \<rparr>,
     em_multiRow = True, em_sharedstorage = ''ipfs'', em_fuel = 5, em_retries = 1, em_json_object = (\<lambda>_. ''{}''),
     em_GetContractListener = (\<lambda>_. retM None), em_TerminateContract = (\<lambda>_ _. retM ()) \<rparr>"

definition arrivalA :: arrival where
  "arrivalA = \<lparr> aw_pw = world0 [], aw_downloads = [] \<rparr>"

definition pinA :: batch_pin where
  "pinA = \<lparr> bn_TransactionID = Some 5, bn_TransactionType = TT_Unset, bn_BatchID = 3, bn_BatchHash = Some (bytes_of ''{}''),
     bn_BatchPayloadRef = ''ref'', bn_Contexts = [[1], [2]],
     bn_Event = \<lparr> ce_Source = '''', ce_Name = ''BatchPin'', ce_ProtocolID = ''1'', ce_Output = '''', ce_Info = '''', ce_Timestamp = None,
       ce_BlockchainTXID = ''0x1'' \<rparr> \<rparr>"

definition keyA :: verifier_ref where
  "keyA = \<lparr> vr_Type = VR_EthAddress, vr_Value = ''0xa'' \<rparr>"

definition persistedA :: "(fferr + batch_persisted option \<times> bool) \<times> node \<times> hook list" where
  "persistedA = persistBatch env0 emA batchA (node0 [], [])"

lemma accepted_batch_verified_witness: "batch_header_ok batchA \<and> content_verified env0 batchA"
proof -
  have "case fst persistedA of Inr (Some p, True) \<Rightarrow> True | _ \<Rightarrow> False" by code_simp
  then obtain p s where "persistBatch env0 emA batchA (node0 [], []) = (Inr (Some p, True), s)"
    unfolding persistedA_def
    by (cases "persistBatch env0 emA batchA (node0 [], [])") (auto split: sum.splits option.splits prod.splits bool.splits)
  from accepted_batch_verified [OF this] show ?thesis by simp
qed

definition storedA :: "(fferr + bool) \<times> node \<times> hook list" where
  "storedA = persistBatchContent env0 emA batchA [dataA] [msgA] [(msgA, [dataA])] (node0 [], [])"

lemma accepted_content_stored_witness:
  "(Some 2, ''ns1'', m_Hash msgA) \<in> msg_keys (nd_db (fst (snd storedA))) \<and>
   (Some 1, ''ns1'', Some (bytes_of ''v'')) \<in> data_keys (nd_db (fst (snd storedA)))"
proof -
  have 1: "fst (sentByUs env0 emA batchA (node0 [])) = Inr False" by code_simp
  have "fst storedA = Inr True" by code_simp
  then have "persistBatchContent env0 emA batchA [dataA] [msgA] [(msgA, [dataA])] (node0 [], []) =
    (Inr True, (fst (snd storedA), snd (snd storedA)))"
    by (simp add: storedA_def prod_eq_iff)
  from accepted_content_stored [OF 1 this] show ?thesis
    by (simp add: msgA_def dataA_def message0_def header0_def data0_def Let_def)
qed

definition chainA :: "(fferr + unit) \<times> node \<times> hook list" where
  "chainA = chain_batch env0 emA [BatchPinComplete ''ns1'' pinA keyA] (node0 [], [])"

lemma batch_pin_stored_witness: "(''ns1'', [2], 3, 1) \<in> pin_key ` set (db_pins (nd_db (fst (snd chainA))))"
proof -
  have "\<not> isl (fst chainA)" by code_simp
  from unit_result [OF this] have "chain_batch env0 emA [BatchPinComplete ''ns1'' pinA keyA] (node0 [], []) =
    (Inr (), (fst (snd chainA), snd (snd chainA)))"
    by (simp add: chainA_def)
  from batch_pin_stored [OF this, of pinA keyA 1] show ?thesis by (simp add: emA_def pinA_def)
qed

definition deliverA :: "arrival \<Rightarrow> arrival" where
  "deliverA w = snd (SharedStorageBatchDownloaded env0 emA (Some batchA) w)"

definition first_arrival :: arrival where
  "first_arrival = deliverA arrivalA"


definition confirmedA :: arrival where
  "confirmedA = first_arrival \<lparr> aw_pw := (aw_pw first_arrival) \<lparr> pw_node :=
     snd (UpdateMessages env0 ''ns1'' (\<lambda>m. True) (\<lambda>m. m \<lparr> m_State := MS_Confirmed, m_Confirmed := Some 9 \<rparr>) (pw_node (aw_pw first_arrival))) \<rparr> \<rparr>"

text \<open>A broadcast batch is delivered, its message is confirmed, and the batch is delivered again: the message that the table held as
  confirmed is pending again and without a time of confirmation, in the table and in the message cache.\<close>

theorem replayed_batch_reopens_message:
  "map m_State (db_messages (aw_db confirmedA)) = [MS_Confirmed] \<and>
   map (\<lambda>m. (m_State m, m_Confirmed m)) (db_messages (aw_db (deliverA confirmedA))) = [(MS_Pending, None)] \<and>
   map (m_State \<circ> mce_msg \<circ> snd) (nd_msgcache (pw_node (aw_pw (deliverA confirmedA)))) = [MS_Pending]"
  by code_simp

definition msgB :: "uuid \<Rightarrow> string \<Rightarrow> message" where
  "msgB i tag = (let header = (m_Header msgA) \<lparr> mh_ID := Some i, mh_Tag := tag \<rparr>
   in msgA \<lparr> m_Header := header, m_Hash := Some (MessageHeader_Hash env0 header) \<rparr>)"

definition batchB :: batch where
  "batchB = batchA \<lparr> b_Header := (b_Header batchA) \<lparr> bh_ID := Some 8 \<rparr>,
     b_Payload := (b_Payload batchA) \<lparr> bp_Messages := [Some (msgB 6 ''new''), Some (msgB 2 ''other'')] \<rparr> \<rparr>"

definition after_batchB :: arrival where
  "after_batchB = snd (SharedStorageBatchDownloaded env0 emA (Some batchB) confirmedA)"

text \<open>A batch that is refused because its second message has the identifier of a stored message and another hash leaves that message in
  the message cache all the same: the table has the confirmed message, and a lookup through the cache answers the refused one.\<close>

theorem refused_batch_taints_cache:
  "fst (persistBatch env0 emA batchB (pw_node (aw_pw confirmedA), [])) = Inr (None, False) \<and>
   (case message_row ''ns1'' (Some 2) (aw_db after_batchB) of None \<Rightarrow> False
    | Some m \<Rightarrow> m_Hash m = m_Hash msgA \<and> m_State m = MS_Confirmed) \<and>
   (case fst (GetMessageWithDataCached env0 ''ns1'' (Some 2) [] (pw_node (aw_pw after_batchB))) of
      Inr (Some m, _, _) \<Rightarrow> m_Hash m = m_Hash (msgB 2 ''other'') \<and> m_Hash m \<noteq> m_Hash msgA | _ \<Rightarrow> False)"
  by code_simp

end
