(* ===== verification/Spec2Isabelle.thy ===== *)
theory Spec2Isabelle
  imports FF_Prelude Core_Types Messages FF_Database Data_Manager Group_Manager Batch_State Identity_Manager Aggregator Aggregator_Order
    Aggregator_Flush Masked_Contexts Event_Poller Batch_Assembly Transactions Batch_Seal Batch_Manager Batch_Rows Batch_Sequencer
    Operations Operations_Props Operations_Batch Blockchain_Events Subscriptions Subscriptions_Props
    Event_Dispatcher Event_Dispatcher_Props Batch_Arrival Batch_Arrival_Props
begin

text \<open>
  Hyperledger FireFly (src/firefly): the core of a node that orders the messages of a multi-party system by the pins on a
  blockchain, and delivers the events of it to applications. This development models the engines between the database, the connectors
  and the applications.

  Parts and how they interact. An application's message is sealed and stored as ready. The message sequencer of the batch manager
  (internal/batch) reads ready messages in order and hands each to a batch processor, which assembles batches, gives private messages
  their pins from the nonces of the node, seals the batch and dispatches it in a transaction with operations. The operations manager
  (internal/operations) runs the operations against the connectors and applies the updates that come back. Pins that come in
  from the blockchain are stored in their order; the event poller (internal/events) reads them page by page and gives them to the aggregator, which
  dispatches the messages whose contexts are ready, in one database group with the flush of the next pins, the states of the messages and one
  event per topic. Batches, blobs and identities that arrive late queue a rewind with the poller. The subscription manager starts an event
  dispatcher for each subscription a connection asks for; it reads the events, filters them, and moves its offset as they are acknowledged.

  Theories. Each opens with what it holds.
  \<^item> \<open>FF_Prelude\<close>: scalar types, errors, the state and error monad \<open>('s, 'a) act\<close> (the state is kept when an error is returned, as in
    Go), triples (\<open>valid\<close>), frame rules (\<open>keeps\<close>, \<open>stable\<close>, \<open>preserves\<close> with their rule collections), \<open>retryM\<close>, association lists as Go maps.
  \<^item> \<open>Core_Types\<close>, \<open>Messages\<close>: the structures of pkg/core, sealing, hashing and verification of messages, data, manifests and groups.
  \<^item> \<open>FF_Database\<close>: the tables of internal/database/sqlcommon and the caches in the record \<open>node\<close>; \<open>db_op\<close> is one numbered call that the
    environment may let fail; \<open>run_as_group\<close> is RunAsGroup.
  \<^item> \<open>Data_Manager\<close>, \<open>Group_Manager\<close>, \<open>Identity_Manager\<close>: internal/data, internal/privatemessaging/groupmanager.go, internal/identity.
  \<^item> \<open>Batch_State\<close>, \<open>Aggregator\<close>: a run of the aggregator (aggregator_batch_state.go, aggregator.go), the state of the run in
    \<open>batch_state\<close>, the node beside it. \<open>Aggregator_Order\<close>, \<open>Masked_Contexts\<close> and \<open>Aggregator_Flush\<close> prove the order on broadcast contexts, the
    order of nonces on private contexts, and what the flush writes or rolls back.
  \<^item> \<open>Event_Poller\<close>: event_poller.go, aggregator_rewind.go, offset_calc.go; the threads are the relation \<open>pstep\<close>.
  \<^item> \<open>Batch_Arrival\<close>: what comes in from other nodes and from the blockchain (persist_batch.go, dx_callbacks.go, ss_callbacks.go,
    batch_pin_complete.go, blockchain_event.go, network_action.go, shareddownload/download_manager.go), with the hooks that run after a commit as values;
    \<open>Batch_Arrival_Props\<close> proves what an accepted batch is, that its content is stored and never replaced, and that its pins are stored.
  \<^item> \<open>Batch_Assembly\<close>, \<open>Batch_Seal\<close>: batch_processor.go, its loop as a step function over what wakes it, and what a flush does.
    \<open>Batch_Manager\<close>: batch_manager.go, the sequencer, the notifier and the processors as the relation \<open>seq_step\<close>; \<open>Batch_Rows\<close> and \<open>Batch_Sequencer\<close> prove
    that a message is in one batch only and that none is left behind. \<open>FF_Flow\<close> holds the contracts \<open>conserving\<close> and \<open>fifo_flow\<close> of what is
    handed work and hands it on, interpreted on the assembly loop and on the workers of the operation updater.
  \<^item> \<open>Transactions\<close>, \<open>Blockchain_Events\<close>: internal/txcommon and its tables; \<open>tx_invariant\<close> is the contract of what an insertion of rows keeps.
  \<^item> \<open>Operations\<close>: internal/operations and its table, the cache as pointers into a heap, because the code changes what it
    cached; \<open>Operations_Props\<close> and \<open>Operations_Batch\<close> prove the order of updates, that a resolved operation stays resolved, and the refinement of a
    fold over statuses.
  \<^item> \<open>Subscriptions\<close>: event_enrich.go, subscription_manager.go, pkg/core/subscription.go, the callbacks and threads as \<open>sub_step\<close>;
    \<open>Subscriptions_Props\<close> proves which dispatchers there are. \<open>Event_Dispatcher\<close>: event_dispatcher.go, its four kinds of threads as \<open>ed_step\<close>;
    \<open>Event_Dispatcher_Props\<close> proves that no event is lost, the bounds, and two ways to wait for ever.

  State and operations. A Go struct is a record, a pointer an option, a map an association list or a map, a mutex a step that is not
  interrupted, a channel a list with its capacity, a goroutine a part of a step relation or of a labelled step function. Where the code
  keeps pointers to shared objects and changes them (transactions, operations), the pointers are indexes into a heap.

  Bounds and fuel. \<open>retryM n\<close> is the retry loop with n attempts; the theorems hold for every n, so for every moment at which the context
  is cancelled. \<open>restoreOffset_loop\<close> has fuel, and two rounds are proved to be enough. \<open>findLatestRetry\<close> takes a depth; the theorem that
  it never returns after a second retry holds for every depth. Polling offsets are int: a row sequence is a 64-bit integer that the database assigns and
  the code only compares and lowers by one. The read ahead of a subscription is a 16-bit word, read by \<open>unat\<close> where the code converts it.

  Parameters. The record \<open>env\<close> holds what is not under src: SHA-256 and hex (go standard library, with injectivity as a named hypothesis where
  a theorem speaks of collisions), JSON serialisation, regular expressions, UUIDs and clocks, the JSON schema validator, and which calls of the
  database fail. Connectors, event transports, the handlers of operation types and of definitions are fields of the records \<open>aggregator\<close>, \<open>im\<close>,
  \<open>subscription_conf\<close> and of the configuration of the batch manager and of the operations manager.

  What the lemmas show. Safety and invariants: order on contexts, pins spent once, no message in two batches, no event lost by a
  dispatcher, unique idempotency keys, resolved operations stay resolved, dispatchers match subscriptions. Refinement: next pins, nonces,
  operation updates. Round trips: seal and verify, commit and restore an offset, seal and read back a batch. Liveness and
  termination: a rewound batch is read, waiting work is flushed, the sequencer sleeps caught up. Errors: a failed run rolls back;
  and where the code does not do what it means to, a theorem or a computed lemma shows it: the offset of a failed run, a rewind lost by a
  restart, a page that never ends after a rejection, threads of a dispatcher that wait for each other, a deleted subscription that is dispatched, an
  operation that cannot be retried twice, pins that cannot be read back, a nonce that is given twice, a refused batch that
  taints the message cache, a replayed batch that reopens confirmed messages.

  Not modelled: HTTP routes, configuration and start-up (internal/apiserver, namespace, orchestrator); the clients of connectors
  (internal/blockchain, dataexchange, sharedstorage, tokens), because they translate between HTTP or web sockets and the interfaces used here;
  blobs and the workers that download; the table of contract listeners and the multiparty contract, which are parameters
  of the event manager; broadcast, private messaging and definition handlers beyond what the aggregator calls; the message writer; contracts and assets; network map
  and events over the API; metrics and logging; the samples beside src/firefly. SQL text is not modelled, only its effect on rows. Of the modelled
  parts, shutdown of the managers, reports of their status and the election between dispatchers of one subscription are left out.
\<close>

end
